(* ===== verification/Sslcon_Prelude.thy ===== *)
theory Sslcon_Prelude
  imports Main "HOL-Library.Word"
begin

text \<open>
  Shared vocabulary of the development: Go's fixed-width integers, results with an error,
  bit strings (most significant bit first) as the common language of the LZS encoder and
  decoder, and byte strings.  The collections below are filled by the component theories:
  \<^item> \<open>bits_simps\<close>: rewriting of \<open>word_bits\<close> / \<open>bits_word\<close> / \<open>stream_bits\<close>;
  \<^item> \<open>go_simps\<close>: unfolding of the small Go run-time helpers (shifts, slices, results).
\<close>

unbundle bit_operations_syntax

named_theorems bits_simps "rewrite rules for bit strings"
named_theorems go_simps "rewrite rules for Go run-time helpers"

type_synonym byte = "8 word"
type_synonym u16 = "16 word"
type_synonym u32 = "32 word"
type_synonym u64 = "64 word"

subsection \<open>Go run-time helpers\<close>

text \<open>
  \<open>x << uint(k)\<close> and \<open>x >> uint(k)\<close>: a negative count converts to a huge unsigned
  one, which shifts every bit out.
\<close>

definition go_shl :: "'a::len word \<Rightarrow> int \<Rightarrow> 'a word" where
  "go_shl x k = (if k < 0 then 0 else push_bit (nat k) x)"

definition go_shr :: "'a::len word \<Rightarrow> int \<Rightarrow> 'a word" where
  "go_shr x k = (if k < 0 then 0 else drop_bit (nat k) x)"

text \<open>\<open>xs[i]\<close> and \<open>xs[i:j]\<close> (of a slice whose capacity is its length); \<open>None\<close> is the
  run-time panic.\<close>

definition go_index :: "'a list \<Rightarrow> nat \<Rightarrow> 'a option" where
  "go_index xs i = (if i < length xs then Some (xs ! i) else None)"

definition go_slice :: "'a list \<Rightarrow> nat \<Rightarrow> nat \<Rightarrow> 'a list option" where
  "go_slice xs i j = (if i \<le> j \<and> j \<le> length xs then Some (take (j - i) (drop i xs)) else None)"

text \<open>\<open>copy(dst, src)\<close>: as many elements as both have room for.\<close>

definition go_copy :: "'a list \<Rightarrow> 'a list \<Rightarrow> 'a list" where
  "go_copy dst src = take (length dst) src @ drop (length src) dst"

text \<open>Sequencing of computations that may return an error.\<close>

definition res_bind :: "'e + 'a \<Rightarrow> ('a \<Rightarrow> 'e + 'b) \<Rightarrow> 'e + 'b" where
  "res_bind r f = (case r of Inl e \<Rightarrow> Inl e | Inr x \<Rightarrow> f x)"

lemma res_bind_simps [simp, go_simps]:
  "res_bind (Inl e) f = Inl e"
  "res_bind (Inr x) f = f x"
  by (simp_all add: res_bind_def)

lemma res_bind_cong [fundef_cong]:
  "r = r' \<Longrightarrow> (\<And>x. r' = Inr x \<Longrightarrow> f x = g x) \<Longrightarrow> res_bind r f = res_bind r' g"
  by (auto simp: res_bind_def split: sum.splits)

lemma res_bind_Inr_iff: "res_bind r f = Inr y \<longleftrightarrow> (\<exists>x. r = Inr x \<and> f x = Inr y)"
  by (auto simp: res_bind_def split: sum.splits)

lemma res_bind_Inl_iff:
  "res_bind r f = Inl e \<longleftrightarrow> r = Inl e \<or> (\<exists>x. r = Inr x \<and> f x = Inl e)"
  by (auto simp: res_bind_def split: sum.splits)

lemma go_index_Some [simp, go_simps]: "i < length xs \<Longrightarrow> go_index xs i = Some (xs ! i)"
  by (simp add: go_index_def)

lemma go_index_eq_Some: "go_index xs i = Some x \<longleftrightarrow> i < length xs \<and> xs ! i = x"
  by (auto simp: go_index_def)

lemma go_slice_Some [simp, go_simps]:
  "i \<le> j \<Longrightarrow> j \<le> length xs \<Longrightarrow> go_slice xs i j = Some (take (j - i) (drop i xs))"
  by (simp add: go_slice_def)

lemma length_go_copy [simp]: "length (go_copy dst src) = length dst"
  by (simp add: go_copy_def)

lemma go_copy_prefix: "length src \<le> length dst \<Longrightarrow> take (length src) (go_copy dst src) = src"
  by (simp add: go_copy_def)

subsection \<open>Bit strings, most significant bit first\<close>

definition word_bits :: "nat \<Rightarrow> 'a::len word \<Rightarrow> bool list" where
  "word_bits n w = rev (map (bit w) [0..<n])"

definition bits_word :: "bool list \<Rightarrow> 'a::len word" where
  "bits_word bs = horner_sum of_bool 2 (rev bs)"

definition stream_bits :: "byte list \<Rightarrow> bool list" where
  "stream_bits xs = concat (map (word_bits 8) xs)"

lemma length_word_bits [simp]: "length (word_bits n w) = n"
  by (simp add: word_bits_def)

lemma word_bits_0 [simp]: "word_bits 0 w = []"
  by (simp add: word_bits_def)

lemma nth_word_bits: "i < n \<Longrightarrow> word_bits n w ! i = bit w (n - 1 - i)"
  by (simp add: word_bits_def rev_nth)

lemma word_bits_eqI:
  "(\<And>i. i < n \<Longrightarrow> bit v i = bit w i) \<Longrightarrow> word_bits n v = word_bits n w"
  by (simp add: word_bits_def)

lemma bits_word_word_bits: "bits_word (word_bits n w) = take_bit n (w :: 'a::len word)"
  by (simp add: bits_word_def word_bits_def horner_sum_bit_eq_take_bit)

lemma bit_bits_word:
  "bit (bits_word bs :: 'a::len word) i \<longleftrightarrow> i < LENGTH('a) \<and> i < length bs \<and> bs ! (length bs - 1 - i)"
  by (auto simp: bits_word_def bit_horner_sum_bit_word_iff rev_nth)

text \<open>Splitting a bit string of width \<open>m + k\<close> into its upper \<open>m\<close> and lower \<open>k\<close> bits.\<close>

lemma word_bits_split: "word_bits (k + m) w = word_bits m (drop_bit k w) @ word_bits k w"
proof (rule nth_equalityI)
  show "length (word_bits (k + m) w) = length (word_bits m (drop_bit k w) @ word_bits k w)"
    by simp
next
  fix i assume i: "i < length (word_bits (k + m) w)"
  show "word_bits (k + m) w ! i = (word_bits m (drop_bit k w) @ word_bits k w) ! i"
  proof (cases "i < m")
    case True
    then have "k + m - 1 - i = k + (m - 1 - i)" by simp
    with True i show ?thesis by (simp add: nth_append nth_word_bits bit_simps)
  next
    case False
    then have "k + m - 1 - i = k - 1 - (i - m)" by simp
    with False i show ?thesis by (simp add: nth_append nth_word_bits)
  qed
qed

text \<open>Appending \<open>m\<close> bits to an accumulator: what \<open>acc <<= m; acc |= v\<close> does to its low bits.\<close>

lemma word_bits_push:
  fixes acc v :: "'a::len word"
  assumes "take_bit m v = v" and "r + m \<le> LENGTH('a)"
  shows "word_bits (m + r) (push_bit m acc OR v) = word_bits r acc @ word_bits m v"
proof -
  have *: "bit v i \<longleftrightarrow> i < m \<and> bit v i" for i
    using assms(1) by (metis bit_take_bit_iff)
  have "word_bits r (drop_bit m (push_bit m acc OR v)) = word_bits r acc"
  proof (rule word_bits_eqI)
    fix i assume "i < r"
    with assms(2) * [of "m + i"] show "bit (drop_bit m (push_bit m acc OR v)) i = bit acc i"
      by (auto simp: bit_simps)
  qed
  moreover have "word_bits m (push_bit m acc OR v) = word_bits m v"
    by (rule word_bits_eqI) (auto simp: bit_simps)
  ultimately show ?thesis by (simp add: word_bits_split)
qed

lemma word_bits_ucast:
  fixes w :: "'a::len word"
  assumes "n \<le> LENGTH('b)" and "n \<le> LENGTH('a)"
  shows "word_bits n (ucast w :: 'b::len word) = word_bits n w"
  using assms by (auto intro!: word_bits_eqI simp: bit_simps)

lemma stream_bits_Nil [simp]: "stream_bits [] = []"
  by (simp add: stream_bits_def)

lemma stream_bits_append [simp]: "stream_bits (xs @ ys) = stream_bits xs @ stream_bits ys"
  by (simp add: stream_bits_def)

lemma stream_bits_Cons: "stream_bits (x # xs) = word_bits 8 x @ stream_bits xs"
  by (simp add: stream_bits_def)

lemma length_stream_bits [simp]: "length (stream_bits xs) = 8 * length xs"
  by (induction xs) (simp_all add: stream_bits_Cons)

lemma nth_stream_bits:
  "j < 8 * length xs \<Longrightarrow> stream_bits xs ! j = bit (xs ! (j div 8)) (7 - j mod 8)"
proof (induction xs arbitrary: j)
  case Nil
  then show ?case by simp
next
  case (Cons x xs)
  show ?case
  proof (cases "j < 8")
    case True
    then show ?thesis by (simp add: stream_bits_Cons nth_append nth_word_bits)
  next
    case False
    then obtain k where j: "j = 8 + k" by (metis le_Suc_ex not_less)
    with Cons.prems have "k < 8 * length xs" by simp
    moreover have "(8 + k) div 8 = Suc (k div 8)" by simp
    ultimately show ?thesis using Cons.IH [of k]
      by (simp add: j stream_bits_Cons nth_append)
  qed
qed

lemma stream_bits_take_update:
  "i < length xs \<Longrightarrow> stream_bits (take (Suc i) (xs[i := b])) = stream_bits (take i xs) @ word_bits 8 b"
  by (simp add: take_Suc_conv_app_nth stream_bits_Cons)

lemmas [bits_simps] = word_bits_split bits_word_word_bits stream_bits_append stream_bits_Cons

end
