(* ===== verification/Lzs.thy ===== *)
theory Lzs
  imports Sslcon_Prelude
begin

text \<open>
  The LZS (Lempel-Ziv-Stac) codec of \<open>src/proto/compress.go\<close>.  Buffers are byte lists of
  fixed length, written with list update; the two closures \<open>getBits\<close> and \<open>putBits\<close> work on
  explicit reader and writer states.  The encoder's loops over the hash chain are
  \<^theory_text>\<open>partial_function (option)\<close> (\<open>None\<close>: the loop does not end), every other loop is
  a total function.  An index or slice out of range is the value \<open>IndexOutOfRange\<close> of the
  error type, kept apart from the errors the code returns.
\<close>

datatype lzs_error =
    CompressionUnsupported
  | LZSInputTooShort
  | LZSOutputFull
  | LZSInvalid
  | IndexOutOfRange

abbreviation lzsMaxHistory :: nat where "lzsMaxHistory \<equiv> 2048"
abbreviation lzsInvalidOfs :: u16 where "lzsInvalidOfs \<equiv> 0xffff"
abbreviation lzsMaxInputSize :: nat where "lzsMaxInputSize \<equiv> 65536"

subsection \<open>Decompression\<close>

record lzs_reader =
  si :: nat
  bitsLeft :: int

definition getBits :: "byte list \<Rightarrow> int \<Rightarrow> lzs_reader \<Rightarrow> lzs_error + u32 \<times> lzs_reader" where
  "getBits src bits r =
     (if length src < si r + 2 then Inl LZSInputTooShort
      else if bits \<ge> 8 \<or> bits \<ge> bitsLeft r then
        let data = go_shl (ucast (src ! si r)) (bits - bitsLeft r) AND (go_shl 1 bits - 1);
            i = si r + 1;
            bl = bitsLeft r + (8 - bits)
        in if bits > 8 \<or> bl < 8 then
             let data = data OR go_shr (ucast (src ! i)) bl
             in if bits > 8 \<and> bl = 0
                then Inr (data, \<lparr>si = i + 1, bitsLeft = 8\<rparr>)
                else Inr (data, \<lparr>si = i, bitsLeft = bl\<rparr>)
           else Inr (data, \<lparr>si = i, bitsLeft = bl\<rparr>)
      else
        Inr (go_shr (ucast (src ! si r)) (bitsLeft r - bits) AND (go_shl 1 bits - 1),
             r\<lparr>bitsLeft := bitsLeft r - bits\<rparr>))"

text \<open>What gets smaller with every successful read.\<close>

definition reader_rest :: "byte list \<Rightarrow> lzs_reader \<Rightarrow> nat" where
  "reader_rest src r = 16 * (length src - si r) + nat (bitsLeft r)"

lemma getBits_rest:
  "getBits src bits r = Inr (d, r') \<Longrightarrow> 0 < bits \<Longrightarrow> reader_rest src r' < reader_rest src r"
  by (auto simp: getBits_def reader_rest_def Let_def split: if_splits)

text \<open>The inner loop \<open>for data < 0x100\<close>: literal bytes, until a 9-bit unit that is none.\<close>

function (sequential) lzsLiterals ::
    "byte list \<Rightarrow> byte list \<Rightarrow> nat \<Rightarrow> lzs_reader \<Rightarrow> u32 \<Rightarrow>
     lzs_error + byte list \<times> nat \<times> lzs_reader \<times> u32" where
  "lzsLiterals src dst outlen r data =
     (if data < 0x100 then
        if outlen = length dst then Inl LZSOutputFull
        else res_bind (getBits src 9 r) (\<lambda>(data', r').
               lzsLiterals src (dst[outlen := ucast data]) (outlen + 1) r' data')
      else Inr (dst, outlen, r, data))"
  by pat_completeness auto
termination
  by (relation "measure (\<lambda>(src, dst, outlen, r, data). reader_rest src r)")
     (auto intro: getBits_rest)

declare lzsLiterals.simps [simp del]

text \<open>The loop over 4-bit groups: every \<open>1111\<close> adds 15, the last one its value.\<close>

function (sequential) lzsLongLength ::
    "byte list \<Rightarrow> lzs_reader \<Rightarrow> nat \<Rightarrow> lzs_error + nat \<times> lzs_reader" where
  "lzsLongLength src r len =
     res_bind (getBits src 4 r) (\<lambda>(data, r').
       if data \<noteq> 15 then Inr (len + unat data, r') else lzsLongLength src r' (len + 15))"
  by pat_completeness auto
termination
  by (relation "measure (\<lambda>(src, r, len). reader_rest src r)") (auto intro: getBits_rest)

declare lzsLongLength.simps [simp del]

definition lzsLength :: "byte list \<Rightarrow> lzs_reader \<Rightarrow> lzs_error + nat \<times> lzs_reader" where
  "lzsLength src r =
     res_bind (getBits src 2 r) (\<lambda>(data, r).
       if data \<noteq> 3 then Inr (unat data + 2, r)
       else res_bind (getBits src 2 r) (\<lambda>(data, r).
         if data \<noteq> 3 then Inr (unat data + 5, r)
         else lzsLongLength src r 8))"

definition lzsOffset :: "byte list \<Rightarrow> lzs_reader \<Rightarrow> u32 \<Rightarrow> lzs_error + u16 \<times> lzs_reader" where
  "lzsOffset src r data =
     (let offset = ucast (data AND 0x7f) in
      if data < 0x180 then
        res_bind (getBits src 4 r) (\<lambda>(data, r). Inr (push_bit 4 offset OR ucast data, r))
      else Inr (offset, r))"

primrec lzsCopy :: "nat \<Rightarrow> byte list \<Rightarrow> nat \<Rightarrow> nat \<Rightarrow> byte list \<times> nat" where
  "lzsCopy 0 dst outlen offset = (dst, outlen)"
| "lzsCopy (Suc len) dst outlen offset =
     lzsCopy len (dst[outlen := dst ! (outlen - offset)]) (outlen + 1) offset"

text \<open>Every part of one round of the outer loop leaves no more to read than it found.\<close>

lemma lzsLiterals_rest:
  "lzsLiterals src dst outlen r data = Inr (dst', outlen', r', data') \<Longrightarrow>
   reader_rest src r' \<le> reader_rest src r"
proof (induction src dst outlen r data rule: lzsLiterals.induct)
  case (1 src dst outlen r data)
  show ?case
  proof (cases "data < 0x100 \<and> outlen \<noteq> length dst")
    case False
    with "1.prems" show ?thesis by (auto simp: lzsLiterals.simps split: if_splits)
  next
    case True
    with "1.prems" obtain d r2 where g: "getBits src 9 r = Inr (d, r2)"
      and l: "lzsLiterals src (dst[outlen := ucast data]) (outlen + 1) r2 d = Inr (dst', outlen', r', data')"
      by (auto simp: lzsLiterals.simps [of src dst outlen r data] res_bind_Inr_iff)
    from "1.IH" [OF _ _ g refl l] True have "reader_rest src r' \<le> reader_rest src r2" by simp
    with getBits_rest [OF g] show ?thesis by simp
  qed
qed

lemma lzsLongLength_rest:
  "lzsLongLength src r len = Inr (len', r') \<Longrightarrow> reader_rest src r' < reader_rest src r"
proof (induction src r len rule: lzsLongLength.induct)
  case (1 src r len)
  from "1.prems" obtain d r2 where g: "getBits src 4 r = Inr (d, r2)"
    and l: "(if d \<noteq> 15 then Inr (len + unat d, r2) else lzsLongLength src r2 (len + 15)) = Inr (len', r')"
    by (auto simp: lzsLongLength.simps [of src r len] res_bind_Inr_iff)
  from getBits_rest [OF g] "1.IH" [OF g refl] l show ?case
    by (auto split: if_splits)
qed

lemma lzsLength_rest: "lzsLength src r = Inr (len, r') \<Longrightarrow> reader_rest src r' < reader_rest src r"
  by (fastforce simp: lzsLength_def res_bind_Inr_iff split: if_splits prod.splits
      dest: getBits_rest lzsLongLength_rest)

lemma lzsOffset_rest: "lzsOffset src r d = Inr (off, r') \<Longrightarrow> reader_rest src r' \<le> reader_rest src r"
  by (fastforce simp: lzsOffset_def Let_def res_bind_Inr_iff split: if_splits prod.splits
      dest: getBits_rest)

function (sequential) lzsDecLoop ::
    "byte list \<Rightarrow> byte list \<Rightarrow> nat \<Rightarrow> lzs_reader \<Rightarrow> lzs_error + byte list \<times> nat" where
  "lzsDecLoop src dst outlen r =
     res_bind (getBits src 9 r) (\<lambda>(data, r).
     res_bind (lzsLiterals src dst outlen r data) (\<lambda>(dst, outlen, r, data).
       if data = 0x180 then Inr (dst, outlen)
       else
         res_bind (lzsOffset src r data) (\<lambda>(offset, r).
         res_bind (lzsLength src r) (\<lambda>(len, r).
           if offset = 0 \<or> unat offset > outlen then Inl LZSInvalid
           else if len + outlen > length dst then Inl LZSOutputFull
           else case lzsCopy len dst outlen (unat offset) of
             (dst', outlen') \<Rightarrow> lzsDecLoop src dst' outlen' r))))"
  by pat_completeness auto
termination
  by (relation "measure (\<lambda>(src, dst, outlen, r). reader_rest src r)")
     (auto dest!: getBits_rest lzsLiterals_rest lzsOffset_rest lzsLength_rest)

declare lzsDecLoop.simps [simp del]

definition lzsDecompress :: "byte list \<Rightarrow> byte list \<Rightarrow> lzs_error + byte list \<times> nat" where
  "lzsDecompress dst src = lzsDecLoop src dst 0 \<lparr>si = 0, bitsLeft = 8\<rparr>"

subsection \<open>Compression\<close>

record lzs_writer =
  wdst :: "byte list"
  outpos :: nat
  outbits :: u32
  nrOutbits :: nat

text \<open>The two identical blocks of \<open>putBits\<close>: move eight bits from the accumulator to the buffer.\<close>

definition flushByte :: "lzs_writer \<Rightarrow> lzs_error + lzs_writer" where
  "flushByte w =
     (let n = nrOutbits w - 8 in
      if outpos w = length (wdst w) then Inl LZSOutputFull
      else Inr (w\<lparr>nrOutbits := n,
                  wdst := (wdst w)[outpos w := ucast (go_shr (outbits w) (int n))],
                  outpos := outpos w + 1\<rparr>))"

definition putBits :: "nat \<Rightarrow> u32 \<Rightarrow> lzs_writer \<Rightarrow> lzs_error + lzs_writer" where
  "putBits nr bits w =
     (let w = w\<lparr>outbits := go_shl (outbits w) (int nr) OR bits, nrOutbits := nrOutbits w + nr\<rparr> in
      res_bind (if nr > 8 then flushByte w else Inr w) (\<lambda>w.
        if nrOutbits w \<ge> 8 then flushByte w else Inr w))"

definition hashAt :: "byte list \<Rightarrow> nat \<Rightarrow> lzs_error + u16" where
  "hashAt src p =
     (case (go_index src p, go_index src (p + 1)) of
        (Some a, Some b) \<Rightarrow> Inr (ucast a OR push_bit 8 (ucast b))
      | _ \<Rightarrow> Inl IndexOutOfRange)"

fun bytesEqualFrom :: "byte list \<Rightarrow> byte list \<Rightarrow> bool" where
  "bytesEqualFrom (x # xs) (y # ys) = (if x \<noteq> y then False else bytesEqualFrom xs ys)"
| "bytesEqualFrom _ _ = True"

definition bytesEqual :: "byte list \<Rightarrow> byte list \<Rightarrow> bool" where
  "bytesEqual a b = (if length a \<noteq> length b then False else bytesEqualFrom a b)"

text \<open>
  The innermost loop: lengthen the match one byte at a time.  The flag says that the end of
  the input was reached (\<open>goto gotMatch\<close>).
\<close>

partial_function (option) lzsExtend ::
    "byte list \<Rightarrow> nat \<Rightarrow> u16 \<Rightarrow> u16 \<Rightarrow> (lzs_error + u16 \<times> bool) option" where
  "lzsExtend src inpos hofs mlen =
     (if unat (mlen + 1) + inpos = length src then Some (Inr (mlen + 1, True))
      else case (go_index src (unat (mlen + 1) + inpos), go_index src (unat (mlen + 1) + unat hofs)) of
        (Some a, Some b) \<Rightarrow>
          if a \<noteq> b then Some (Inr (mlen + 1, False)) else lzsExtend src inpos hofs (mlen + 1)
      | _ \<Rightarrow> Some (Inl IndexOutOfRange))"

text \<open>
  The walk along the hash chain from \<open>hofs\<close>: the longest match so far is \<open>mlen\<close> bytes at
  \<open>mofs\<close>.
\<close>

partial_function (option) lzsChain ::
    "byte list \<Rightarrow> (nat \<Rightarrow> u16) \<Rightarrow> nat \<Rightarrow> u16 \<Rightarrow> u16 \<Rightarrow> u16 \<Rightarrow> (lzs_error + u16 \<times> u16) option" where
  "lzsChain src chain inpos hofs mlen mofs =
     (if hofs \<noteq> lzsInvalidOfs \<and> unat hofs + lzsMaxHistory > inpos then
        if 1 < mlen then
          case (go_slice src (unat hofs + 2) (unat hofs + 2 + (unat mlen - 1)),
                go_slice src (inpos + 2) (inpos + 2 + (unat mlen - 1))) of
            (Some a, Some b) \<Rightarrow>
              if bytesEqual a b then
                case lzsExtend src inpos hofs mlen of
                  None \<Rightarrow> None
                | Some (Inl e) \<Rightarrow> Some (Inl e)
                | Some (Inr (mlen', gotMatch)) \<Rightarrow>
                    if gotMatch then Some (Inr (mlen', hofs))
                    else lzsChain src chain inpos (chain (unat hofs AND (lzsMaxHistory - 1))) mlen' hofs
              else lzsChain src chain inpos (chain (unat hofs AND (lzsMaxHistory - 1))) mlen mofs
          | _ \<Rightarrow> Some (Inl IndexOutOfRange)
        else lzsChain src chain inpos (chain (unat hofs AND (lzsMaxHistory - 1))) mlen mofs
      else Some (Inr (mlen, mofs)))"

declare lzsExtend.simps [code] lzsChain.simps [code]

definition putOffset :: "int \<Rightarrow> lzs_writer \<Rightarrow> lzs_error + lzs_writer" where
  "putOffset offset w =
     (if offset < 0x80 then putBits 9 (0x180 OR word_of_int offset) w
      else putBits 13 (0x1000 OR word_of_int offset) w)"

function (sequential) putLongLength :: "int \<Rightarrow> lzs_writer \<Rightarrow> lzs_error + lzs_writer" where
  "putLongLength len w =
     (if len \<ge> 30 then res_bind (putBits 8 0xff w) (\<lambda>w. putLongLength (len - 30) w)
      else if len \<ge> 15 then putBits 8 (0xf0 + word_of_int (len - 15)) w
      else putBits 4 (word_of_int len) w)"
  by pat_completeness auto
termination
  by (relation "measure (\<lambda>(len, w). nat len)") auto

declare putLongLength.simps [simp del]

definition putLength :: "int \<Rightarrow> lzs_writer \<Rightarrow> lzs_error + lzs_writer" where
  "putLength len w =
     (if len < 5 then putBits 2 (word_of_int (len - 2)) w
      else if len < 8 then putBits 4 (word_of_int (len + 7)) w
      else putLongLength (len + 7) w)"

text \<open>Entering the remaining positions of a match into the hash table.\<close>

primrec lzsHashRest ::
    "nat \<Rightarrow> byte list \<Rightarrow> nat \<Rightarrow> (u16 \<Rightarrow> u16) \<Rightarrow> (nat \<Rightarrow> u16) \<Rightarrow>
     lzs_error + nat \<times> (u16 \<Rightarrow> u16) \<times> (nat \<Rightarrow> u16)" where
  "lzsHashRest 0 src inpos table chain = Inr (inpos, table, chain)"
| "lzsHashRest (Suc remaining) src inpos table chain =
     res_bind (hashAt src inpos) (\<lambda>hash.
       lzsHashRest remaining src (inpos + 1) (table(hash := word_of_nat inpos))
         (chain(inpos AND (lzsMaxHistory - 1) := table hash)))"

lemma lzsHashRest_inpos:
  "lzsHashRest n src inpos table chain = Inr (inpos', table', chain') \<Longrightarrow> inpos' = inpos + n"
  by (induction n arbitrary: inpos table chain) (fastforce simp: res_bind_Inr_iff)+

text \<open>The main loop \<open>for inpos < srclen-2\<close>; its result is the state in which it is left.\<close>

function (sequential) lzsEncLoop ::
    "byte list \<Rightarrow> nat \<Rightarrow> (u16 \<Rightarrow> u16) \<Rightarrow> (nat \<Rightarrow> u16) \<Rightarrow> lzs_writer \<Rightarrow>
     (lzs_error + nat \<times> (u16 \<Rightarrow> u16) \<times> lzs_writer) option" where
  "lzsEncLoop src inpos table chain w =
     (if inpos + 2 < length src then
        case hashAt src inpos of
          Inl e \<Rightarrow> Some (Inl e)
        | Inr hash \<Rightarrow>
            let hofs = table hash;
                chain = chain(inpos AND (lzsMaxHistory - 1) := hofs);
                table = table(hash := word_of_nat inpos)
            in if hofs = lzsInvalidOfs \<or> unat hofs + lzsMaxHistory \<le> inpos then
                 case putBits 9 (ucast (src ! inpos)) w of
                   Inl e \<Rightarrow> Some (Inl e)
                 | Inr w \<Rightarrow> lzsEncLoop src (inpos + 1) table chain w
               else
                 case lzsChain src chain inpos hofs 2 hofs of
                   None \<Rightarrow> None
                 | Some (Inl e) \<Rightarrow> Some (Inl e)
                 | Some (Inr (mlen, mofs)) \<Rightarrow>
                     case res_bind (putOffset (int inpos - int (unat mofs)) w)
                            (putLength (int (unat mlen))) of
                       Inl e \<Rightarrow> Some (Inl e)
                     | Inr w \<Rightarrow>
                         if length src \<le> inpos + unat mlen + 2
                         then Some (Inr (inpos + unat mlen, table, w))
                         else
                           case lzsHashRest (unat mlen - 1) src (inpos + 1) table chain of
                             Inl e \<Rightarrow> Some (Inl e)
                           | Inr (inpos', table', chain') \<Rightarrow> lzsEncLoop src inpos' table' chain' w
      else Some (Inr (inpos, table, w)))"
  by pat_completeness auto
termination
  by (relation "measure (\<lambda>(src, inpos, table, chain, w). length src - inpos)")
     (auto dest: lzsHashRest_inpos)

declare lzsEncLoop.simps [simp del]

text \<open>The special case of the last one or two bytes.\<close>

definition lzsTail ::
    "byte list \<Rightarrow> nat \<Rightarrow> (u16 \<Rightarrow> u16) \<Rightarrow> lzs_writer \<Rightarrow> lzs_error + lzs_writer" where
  "lzsTail src inpos table w =
     (if inpos + 2 = length src then
        res_bind (hashAt src inpos) (\<lambda>hash.
          let hofs = table hash in
          if hofs \<noteq> lzsInvalidOfs \<and> unat hofs + lzsMaxHistory > inpos then
            res_bind (putOffset (int inpos - int (unat hofs)) w) (putBits 2 0)
          else
            res_bind (putBits 9 (ucast (src ! inpos)) w) (putBits 9 (ucast (src ! (inpos + 1)))))
      else if inpos + 1 = length src then putBits 9 (ucast (src ! inpos)) w
      else Inr w)"

text \<open>\<open>lzsCompress(dst, src)\<close>: the buffer as it is left and the number of bytes written.\<close>

definition lzsCompress ::
    "byte list \<Rightarrow> byte list \<Rightarrow> (lzs_error + byte list \<times> nat) option" where
  "lzsCompress dst src =
     (if length src > lzsMaxInputSize then Some (Inl LZSOutputFull)
      else
        case lzsEncLoop src 0 (\<lambda>_. lzsInvalidOfs) (\<lambda>_. 0)
               \<lparr>wdst = dst, outpos = 0, outbits = 0, nrOutbits = 0\<rparr> of
          None \<Rightarrow> None
        | Some (Inl e) \<Rightarrow> Some (Inl e)
        | Some (Inr (inpos, table, w)) \<Rightarrow>
            Some (res_bind (lzsTail src inpos table w) (\<lambda>w.
                  res_bind (putBits 16 0xc000 w) (\<lambda>w. Inr (wdst w, outpos w)))))"

end
