(* ===== verification/Lzs_Format.thy ===== *)
theory Lzs_Format
  imports Lzs
begin

text \<open>
  The LZS wire format as a specification: a stream of tokens (literal bytes and
  back-references), the bits of each token, and the bytes a token stream stands for.  The
  encoder and the decoder of \<open>Lzs\<close> are both related to it; the round trip follows.
\<close>

datatype lzs_token = Literal byte | Match nat nat

text \<open>\<open>copy_match n out k\<close>: append \<open>n\<close> bytes, each the one \<open>k\<close> places back (so a match may
  overlap its own output).\<close>

primrec copy_match :: "nat \<Rightarrow> byte list \<Rightarrow> nat \<Rightarrow> byte list" where
  "copy_match 0 out k = out"
| "copy_match (Suc n) out k = copy_match n (out @ [out ! (length out - k)]) k"

fun expand_from :: "byte list \<Rightarrow> lzs_token list \<Rightarrow> byte list" where
  "expand_from out [] = out"
| "expand_from out (Literal b # ts) = expand_from (out @ [b]) ts"
| "expand_from out (Match k n # ts) = expand_from (copy_match n out k) ts"

text \<open>Tokens that the format can express when \<open>m\<close> bytes are already out.\<close>

fun valid_from :: "nat \<Rightarrow> lzs_token list \<Rightarrow> bool" where
  "valid_from m [] = True"
| "valid_from m (Literal b # ts) = valid_from (Suc m) ts"
| "valid_from m (Match k n # ts) =
     (1 \<le> k \<and> k \<le> m \<and> k < lzsMaxHistory \<and> 2 \<le> n \<and> valid_from (m + n) ts)"

definition nbits :: "nat \<Rightarrow> nat \<Rightarrow> bool list" where
  "nbits n k = word_bits n (word_of_nat k :: u32)"

definition offset_bits :: "nat \<Rightarrow> bool list" where
  "offset_bits k = (if k < 128 then [True, True] @ nbits 7 k else [True, False] @ nbits 11 k)"

fun long_bits :: "nat \<Rightarrow> bool list" where
  "long_bits n = (if n < 15 then nbits 4 n else [True, True, True, True] @ long_bits (n - 15))"

declare long_bits.simps [simp del]

definition length_bits :: "nat \<Rightarrow> bool list" where
  "length_bits n =
     (if n < 5 then nbits 2 (n - 2)
      else if n < 8 then [True, True] @ nbits 2 (n - 5)
      else [True, True, True, True] @ long_bits (n - 8))"

fun token_bits :: "lzs_token \<Rightarrow> bool list" where
  "token_bits (Literal b) = False # word_bits 8 b"
| "token_bits (Match k n) = offset_bits k @ length_bits n"

definition tokens_bits :: "lzs_token list \<Rightarrow> bool list" where
  "tokens_bits ts = concat (map token_bits ts)"

definition end_bits :: "bool list" where
  "end_bits = [True, True] @ replicate 7 False"

subsection \<open>Expansion\<close>

lemma length_copy_match [simp]: "length (copy_match n out k) = length out + n"
  by (induction n arbitrary: out) simp_all

lemma copy_match_prefix: "take (length out) (copy_match n out k) = out"
proof (induction n arbitrary: out)
  case 0
  then show ?case by simp
next
  case (Suc n)
  have "take (length out) (copy_match n (out @ [out ! (length out - k)]) k)
      = take (length out) (take (Suc (length out)) (copy_match n (out @ [out ! (length out - k)]) k))"
    by (simp add: take_take)
  also have "\<dots> = out"
    using Suc.IH [of "out @ [out ! (length out - k)]"] by simp
  finally show ?case by simp
qed

lemma expand_from_append: "expand_from out (ts @ us) = expand_from (expand_from out ts) us"
  by (induction out ts rule: expand_from.induct) simp_all

fun tokens_size :: "lzs_token list \<Rightarrow> nat" where
  "tokens_size [] = 0"
| "tokens_size (Literal b # ts) = Suc (tokens_size ts)"
| "tokens_size (Match k n # ts) = n + tokens_size ts"

lemma length_expand_from [simp]: "length (expand_from out ts) = length out + tokens_size ts"
  by (induction out ts rule: expand_from.induct) simp_all

lemma tokens_size_append [simp]: "tokens_size (ts @ us) = tokens_size ts + tokens_size us"
  by (induction ts rule: tokens_size.induct) simp_all

lemma valid_from_append:
  "valid_from m (ts @ us) \<longleftrightarrow> valid_from m ts \<and> valid_from (m + tokens_size ts) us"
  by (induction m ts rule: valid_from.induct) (simp_all add: add.assoc)

lemma tokens_bits_simps [simp]:
  "tokens_bits [] = []"
  "tokens_bits (t # ts) = token_bits t @ tokens_bits ts"
  "tokens_bits (ts @ us) = tokens_bits ts @ tokens_bits us"
  by (simp_all add: tokens_bits_def)

text \<open>
  A match whose source and target agree byte by byte in \<open>src\<close> extends a prefix of \<open>src\<close> by
  \<open>n\<close> bytes.
\<close>

lemma copy_match_take:
  assumes "\<And>i. i < n \<Longrightarrow> src ! (p + i) = src ! (p - k + i)"
    and "1 \<le> k" and "k \<le> p" and "p + n \<le> length src"
  shows "copy_match n (take p src) k = take (p + n) src"
  using assms
proof (induction n arbitrary: p)
  case 0
  then show ?case by simp
next
  case (Suc n)
  have "src ! p = src ! (p - k)" using Suc.prems(1) [of 0] by simp
  moreover have "take p src ! (length (take p src) - k) = src ! (p - k)"
    using Suc.prems by (simp add: min_def)
  ultimately have *: "take p src @ [take p src ! (length (take p src) - k)] = take (Suc p) src"
    using Suc.prems by (simp add: take_Suc_conv_app_nth)
  have "copy_match n (take (Suc p) src) k = take (Suc p + n) src"
  proof (rule Suc.IH)
    fix i assume "i < n"
    with Suc.prems(1) [of "Suc i"] Suc.prems(3) show "src ! (Suc p + i) = src ! (Suc p - k + i)"
      by (simp add: Suc_diff_le)
  qed (use Suc.prems in auto)
  then show ?case using * by simp
qed

subsection \<open>Widths\<close>

lemma length_nbits [simp]: "length (nbits n k) = n"
  by (simp add: nbits_def)

lemma length_long_bits: "length (long_bits n) = 4 * (n div 15) + 4"
  by (induction n rule: long_bits.induct) (subst long_bits.simps, auto simp: le_div_geq)

lemma length_offset_bits: "length (offset_bits k) \<le> 13"
  by (simp add: offset_bits_def)

lemma length_length_bits: "2 \<le> n \<Longrightarrow> length (length_bits n) + 13 \<le> 9 * n"
  by (auto simp: length_bits_def length_long_bits) 

lemma length_token_bits_Match: "2 \<le> n \<Longrightarrow> length (token_bits (Match k n)) \<le> 9 * n"
  using length_offset_bits [of k] length_length_bits [of n] by simp

text \<open>No valid token stream is more than 9/8 of what it stands for.\<close>

lemma length_tokens_bits: "valid_from m ts \<Longrightarrow> length (tokens_bits ts) \<le> 9 * tokens_size ts"
proof (induction m ts rule: valid_from.induct)
  case (3 m k n ts)
  then show ?case using length_token_bits_Match [of n k] by auto
qed (auto simp del: word_bits_def)

subsection \<open>Numbers as bit strings\<close>

lemma nbits_mod: "nbits n (k mod 2 ^ n) = nbits n k"
  unfolding nbits_def by (rule word_bits_eqI) (simp add: bit_simps flip: take_bit_eq_mod)

lemma nbits_mod': "m = 2 ^ n \<Longrightarrow> k mod m = l mod m \<Longrightarrow> nbits n k = nbits n l"
  by (metis nbits_mod)

lemma nbits_split:
  assumes "x < 2 ^ 32"
  shows "nbits (k + m) x = nbits m (x div 2 ^ k) @ nbits k x"
proof -
  have high: "bit x i \<Longrightarrow> i < 32" for i
    using assms by (metis bit_take_bit_iff take_bit_nat_eq_self)
  have "drop_bit k (word_of_nat x :: u32) = word_of_nat (drop_bit k x)"
    by (rule bit_word_eqI) (auto simp: bit_simps dest: high)
  then show ?thesis by (simp add: nbits_def word_bits_split drop_bit_eq_div)
qed

lemma take_bit_word_of_nat: "k < 2 ^ n \<Longrightarrow> take_bit n (word_of_nat k :: u32) = word_of_nat k"
  by (simp add: take_bit_of_nat take_bit_nat_eq_self)

lemma nbits_ones: "nbits 2 3 = [True, True]" "nbits 4 15 = [True, True, True, True]"
  by (simp_all add: nbits_def word_bits_def upt_rec)

lemma literal_nbits: "token_bits (Literal b) = nbits 9 (unat b)"
proof -
  have b: "unat b < 256" by (rule order_less_le_trans [OF unsigned_less]) simp
  have "nbits (8 + 1) (unat b) = nbits 1 (unat b div 2 ^ 8) @ nbits 8 (unat b)"
    by (rule nbits_split) (use b in simp)
  moreover have "unat b div 2 ^ 8 = 0" using b by simp
  moreover have "nbits 8 (unat b) = word_bits 8 b"
    unfolding nbits_def using word_bits_ucast [of 8, where 'b = 32, of b] by (simp add: unsigned_of_nat)
  ultimately show ?thesis by (simp add: nbits_def word_bits_def)
qed

lemma offset_bits_short: "k < 128 \<Longrightarrow> offset_bits k = nbits 9 (384 + k)"
proof -
  assume k: "k < 128"
  have "nbits (7 + 2) (384 + k) = nbits 2 ((384 + k) div 2 ^ 7) @ nbits 7 (384 + k)"
    using k by (intro nbits_split) simp
  moreover have "(384 + k) div 2 ^ 7 = 3" using k by simp
  moreover have "nbits 7 (384 + k) = nbits 7 k" by (rule nbits_mod' [of 128]) (simp, subst mod_add_left_eq [symmetric], simp)
  ultimately show ?thesis using k by (simp add: offset_bits_def nbits_ones)
qed

lemma offset_bits_long:
  assumes "128 \<le> k" and "k < 2048"
  shows "offset_bits k = nbits 13 (4096 + k)" and "offset_bits k = nbits 9 (256 + k div 16) @ nbits 4 (k mod 16)"
proof -
  have "nbits (11 + 2) (4096 + k) = nbits 2 ((4096 + k) div 2 ^ 11) @ nbits 11 (4096 + k)"
    using assms by (intro nbits_split) simp
  moreover have "(4096 + k) div 2 ^ 11 = 2" using assms by simp
  moreover have "nbits 11 (4096 + k) = nbits 11 k" by (rule nbits_mod' [of 2048]) (simp, subst mod_add_left_eq [symmetric], simp)
  moreover have "nbits 2 2 = [True, False]" by (simp add: nbits_def word_bits_def upt_rec)
  ultimately show 1: "offset_bits k = nbits 13 (4096 + k)"
    using assms by (simp add: offset_bits_def)
  have "nbits (4 + 9) (4096 + k) = nbits 9 ((4096 + k) div 2 ^ 4) @ nbits 4 (4096 + k)"
    using assms by (intro nbits_split) simp
  moreover have "(4096 + k) div 2 ^ 4 = 256 + k div 16" by simp
  moreover have "nbits 4 (4096 + k) = nbits 4 (k mod 16)" by (rule nbits_mod' [of 16]) (simp, subst mod_add_left_eq [symmetric], simp)
  ultimately show "offset_bits k = nbits 9 (256 + k div 16) @ nbits 4 (k mod 16)"
    using 1 by simp
qed

lemma end_bits_nbits: "end_bits = nbits 9 384"
  by (simp add: end_bits_def nbits_def word_bits_def upt_rec numeral_eq_Suc)

end
