(* ===== verification/Lzs_Encoder.thy ===== *)
theory Lzs_Encoder
  imports Lzs_Format
begin

text \<open>
  Correctness of \<open>lzsCompress\<close>: the bit writer appends exactly the bits it is given or reports
  a full buffer; the hash table and the hash chain only ever lead to earlier positions with
  the same two bytes; so the walk along the chain ends, every match it reports is real, and
  the bits written are those of a valid token stream that stands for the input.
\<close>

subsection \<open>The bit writer\<close>

text \<open>\<open>wrote w bs\<close>: the bits \<open>bs\<close> have been put, the last fewer than eight still pending.\<close>

definition pending :: "lzs_writer \<Rightarrow> bool list \<Rightarrow> bool" where
  "pending w bs \<longleftrightarrow> outpos w \<le> length (wdst w) \<and>
     bs = stream_bits (take (outpos w) (wdst w)) @ word_bits (nrOutbits w) (outbits w)"

definition wrote :: "lzs_writer \<Rightarrow> bool list \<Rightarrow> bool" where
  "wrote w bs \<longleftrightarrow> pending w bs \<and> nrOutbits w < 8"

lemma pending_length: "pending w bs \<Longrightarrow> length bs = 8 * outpos w + nrOutbits w"
  by (auto simp: pending_def)

lemma flushByte_pending:
  assumes "pending w bs" and "8 \<le> nrOutbits w" and "nrOutbits w \<le> 32" and "outpos w < length (wdst w)"
  shows "\<exists>w'. flushByte w = Inr w' \<and> pending w' bs \<and> nrOutbits w' = nrOutbits w - 8 \<and>
    outpos w' = outpos w + 1 \<and> length (wdst w') = length (wdst w)"
proof -
  define k where "k = nrOutbits w - 8"
  have n: "nrOutbits w = k + 8" using assms(2) by (simp add: k_def)
  have "word_bits 8 (ucast (drop_bit k (outbits w)) :: byte) = word_bits 8 (drop_bit k (outbits w))"
    by (rule word_bits_ucast) simp_all
  then have "pending (w\<lparr>nrOutbits := k, wdst := (wdst w)[outpos w := ucast (drop_bit k (outbits w))],
      outpos := outpos w + 1\<rparr>) bs"
    using assms n by (simp add: pending_def stream_bits_take_update word_bits_split)
  then show ?thesis using assms(4) n by (simp add: flushByte_def Let_def go_shr_def)
qed

lemma flushByte_full: "outpos v = length (wdst v) \<Longrightarrow> flushByte v = Inl LZSOutputFull"
  by (simp add: flushByte_def)

text \<open>The second of the two flushes: at most one byte is pending then.\<close>

lemma flush_last:
  assumes v: "pending v bs" "nrOutbits v < 16"
  shows "if (8 * outpos v + nrOutbits v) div 8 \<le> length (wdst v)
    then \<exists>w'. (if nrOutbits v \<ge> 8 then flushByte v else Inr v) = Inr w' \<and> wrote w' bs \<and> length (wdst w') = length (wdst v)
    else (if nrOutbits v \<ge> 8 then flushByte v else Inr v) = Inl LZSOutputFull"
proof (cases "8 \<le> nrOutbits v")
  case True
  then have d: "(8 * outpos v + nrOutbits v) div 8 = outpos v + 1" using v(2) by simp
  show ?thesis
  proof (cases "outpos v < length (wdst v)")
    case room: True
    with flushByte_pending [OF v(1) True] v(2) True d show ?thesis by (auto simp: wrote_def)
  next
    case False
    with v(1) have "outpos v = length (wdst v)" by (simp add: pending_def)
    then show ?thesis using flushByte_full [of v] True d by simp
  qed
next
  case False
  then show ?thesis using v by (auto simp: wrote_def pending_def)
qed

lemma putBits_wrote:
  assumes w: "wrote w bs" and nr: "nr \<le> 16" and bits: "take_bit nr bits = bits"
  shows "if (length bs + nr) div 8 \<le> length (wdst w)
    then \<exists>w'. putBits nr bits w = Inr w' \<and> wrote w' (bs @ word_bits nr bits) \<and> length (wdst w') = length (wdst w)
    else putBits nr bits w = Inl LZSOutputFull"
proof -
  define w0 where "w0 = w\<lparr>outbits := go_shl (outbits w) (int nr) OR bits, nrOutbits := nrOutbits w + nr\<rparr>"
  define bs' where "bs' = bs @ word_bits nr bits"
  have r: "nrOutbits w < 8" "pending w bs" using w by (auto simp: wrote_def)
  have "word_bits (nr + nrOutbits w) (push_bit nr (outbits w) OR bits) =
      word_bits (nrOutbits w) (outbits w) @ word_bits nr bits"
    by (rule word_bits_push) (use bits r nr in auto)
  then have p0: "pending w0 bs'"
    using r by (simp add: pending_def w0_def bs'_def go_shl_def add.commute)
  have len: "length bs + nr = 8 * outpos w0 + nrOutbits w0" "outpos w0 \<le> length (wdst w0)"
      "length (wdst w0) = length (wdst w)" "nrOutbits w0 = nrOutbits w + nr" "outpos w0 = outpos w"
    using pending_length [OF r(2)] p0 by (simp_all add: w0_def pending_def)
  have pb: "putBits nr bits w = res_bind (if nr > 8 then flushByte w0 else Inr w0)
      (\<lambda>w. if nrOutbits w \<ge> 8 then flushByte w else Inr w)"
    by (simp add: putBits_def w0_def Let_def)
  consider (small) "\<not> 8 < nr" | (room) "8 < nr" "outpos w0 < length (wdst w0)" | (full) "8 < nr" "outpos w0 = length (wdst w0)"
    using len(2) by linarith
  then show ?thesis
  proof cases
    case small
    then have "nrOutbits w0 < 16" using len(4) r by simp
    from flush_last [OF p0 this] small show ?thesis
      unfolding pb len(1) len(3) [symmetric] bs'_def [symmetric] by (simp only: if_False res_bind_simps)
  next
    case room
    obtain v where v: "flushByte w0 = Inr v" "pending v bs'" "nrOutbits v = nrOutbits w0 - 8"
        "outpos v = outpos w0 + 1" "length (wdst v) = length (wdst w0)"
      using flushByte_pending [OF p0 _ _ room(2)] room(1) r nr len by auto
    have e: "length bs + nr = 8 * outpos v + nrOutbits v" and "nrOutbits v < 16"
      using v len r nr room(1) by simp_all
    from flush_last [OF v(2) this(2)] room(1) show ?thesis
      unfolding pb e len(3) [symmetric] bs'_def [symmetric] v(1) by (simp only: if_True res_bind_simps v(5))
  next
    case full
    then show ?thesis using flushByte_full [of w0] len pb by simp
  qed
qed

text \<open>
  \<open>emits f bs\<close>: the writing step \<open>f\<close> appends the bits \<open>bs\<close> where they fit in the buffer, and
  reports a full buffer where they do not.
\<close>

definition emits :: "(lzs_writer \<Rightarrow> lzs_error + lzs_writer) \<Rightarrow> bool list \<Rightarrow> bool" where
  "emits f bs \<longleftrightarrow> (\<forall>w pre. wrote w pre \<longrightarrow>
     (if (length pre + length bs) div 8 \<le> length (wdst w)
      then \<exists>w'. f w = Inr w' \<and> wrote w' (pre @ bs) \<and> length (wdst w') = length (wdst w)
      else f w = Inl LZSOutputFull))"

lemma emits_putBits:
  assumes "nr \<le> 16" and "x < 2 ^ nr"
  shows "emits (putBits nr (word_of_nat x)) (nbits nr x)"
  using putBits_wrote [of _ _ nr "word_of_nat x"] assms take_bit_word_of_nat [OF assms(2)]
  by (simp add: emits_def nbits_def)

lemma emits_bind:
  assumes f: "emits f xs" and g: "emits g ys"
  shows "emits (\<lambda>w. res_bind (f w) g) (xs @ ys)"
  unfolding emits_def
proof (intro allI impI)
  fix w pre assume w: "wrote w pre"
  have le: "(length pre + length xs) div 8 \<le> (length pre + length (xs @ ys)) div 8"
    by (rule div_le_mono) simp
  show "if (length pre + length (xs @ ys)) div 8 \<le> length (wdst w)
      then \<exists>w'. res_bind (f w) g = Inr w' \<and> wrote w' (pre @ xs @ ys) \<and> length (wdst w') = length (wdst w)
      else res_bind (f w) g = Inl LZSOutputFull"
  proof (cases "(length pre + length xs) div 8 \<le> length (wdst w)")
    case True
    then obtain v where v: "f w = Inr v" "wrote v (pre @ xs)" "length (wdst v) = length (wdst w)"
      using f w unfolding emits_def by metis
    have "length pre + length (xs @ ys) = length (pre @ xs) + length ys" by simp
    then show ?thesis using g v unfolding emits_def by (metis append_assoc res_bind_simps(2))
  next
    case False
    then have "f w = Inl LZSOutputFull" using f w unfolding emits_def by metis
    then show ?thesis using False le by simp
  qed
qed


lemma emits_literal: "emits (putBits 9 (ucast b)) (token_bits (Literal b))"
proof -
  have b: "unat b < 2 ^ 9"
    by (rule order_less_le_trans [OF unsigned_less]) simp
  show ?thesis
    using emits_putBits [OF _ b] literal_nbits [of b] by (simp del: token_bits.simps)
qed

lemma or_low:
  fixes a k :: nat
  assumes "k < 2 ^ n" and "a = 2 ^ n * m"
  shows "word_of_nat a OR (word_of_nat k :: u32) = word_of_nat (a + k)"
proof -
  have "a AND k = 0"
  proof (rule bit_eqI)
    fix i
    have "bit k i \<Longrightarrow> i < n"
      using assms(1) by (metis bit_take_bit_iff take_bit_nat_eq_self)
    moreover have "bit a i \<Longrightarrow> n \<le> i"
      using assms(2) by (simp add: bit_push_bit_iff flip: push_bit_eq_mult mult.commute [of m])
    ultimately show "bit (a AND k) i = bit 0 i" by (auto simp: bit_simps)
  qed
  then have "a OR k = a + k" by (simp add: disjunctive_add_eq_or)
  then show ?thesis by (metis of_nat_or_eq)
qed

lemma emits_offset:
  assumes "1 \<le> k" and "k < 2048"
  shows "emits (putOffset (int k)) (offset_bits k)"
proof (cases "k < 128")
  case True
  have "(0x180 :: u32) OR word_of_int (int k) = word_of_nat (384 + k)"
    using or_low [of k 7 384 3] True by simp
  moreover have "emits (putBits 9 (word_of_nat (384 + k))) (nbits 9 (384 + k))"
    by (rule emits_putBits) (use True in simp_all)
  ultimately show ?thesis using True offset_bits_short [OF True]
    by (simp add: emits_def putOffset_def)
next
  case False
  have "(0x1000 :: u32) OR word_of_int (int k) = word_of_nat (4096 + k)"
    using or_low [of k 11 4096 2] assms by simp
  moreover have "emits (putBits 13 (word_of_nat (4096 + k))) (nbits 13 (4096 + k))"
    by (rule emits_putBits) (use assms in simp_all)
  ultimately show ?thesis using False offset_bits_long(1) [of k] assms
    by (simp add: emits_def putOffset_def)
qed

lemma long_bits_step: "long_bits (n + 30) = nbits 8 255 @ long_bits n"
proof -
  have "nbits 8 255 = nbits 4 15 @ nbits 4 15" by (simp add: nbits_def word_bits_def upt_rec)
  then show ?thesis by (subst long_bits.simps, subst long_bits.simps) (simp add: nbits_ones)
qed

lemma long_bits_mid:
  assumes "15 \<le> n" and "n < 30"
  shows "long_bits n = nbits 8 (240 + (n - 15))"
proof -
  have "nbits (4 + 4) (240 + (n - 15)) = nbits 4 ((240 + (n - 15)) div 2 ^ 4) @ nbits 4 (240 + (n - 15))"
    using assms by (intro nbits_split) simp
  moreover have "(240 + (n - 15)) div 2 ^ 4 = 15" using assms by simp
  moreover have "nbits 4 (240 + (n - 15)) = nbits 4 (n - 15)"
    by (rule nbits_mod' [of 16]) (simp, subst mod_add_left_eq [symmetric], simp)
  moreover have "n - 15 < 15" using assms by simp
  then have "long_bits (n - 15) = nbits 4 (n - 15)" by (simp add: long_bits.simps)
  ultimately show ?thesis using assms by (subst long_bits.simps) (simp add: nbits_ones)
qed

lemma emits_putLongLength: "emits (putLongLength (int n)) (long_bits n)"
proof (induction n rule: less_induct)
  case (less n)
  consider (big) "30 \<le> n" | (mid) "15 \<le> n" "n < 30" | (small) "n < 15" by linarith
  then show ?case
  proof cases
    case big
    then obtain m where n: "n = m + 30" by (metis le_add_diff_inverse2)
    have "emits (\<lambda>w. res_bind (putBits 8 (word_of_nat 255) w) (putLongLength (int m))) (nbits 8 255 @ long_bits m)"
      by (rule emits_bind [OF emits_putBits less.IH]) (use n in simp_all)
    moreover have "putLongLength (int n) = (\<lambda>w. res_bind (putBits 8 (word_of_nat 255) w) (putLongLength (int m)))"
      by (rule ext, subst putLongLength.simps) (simp add: n)
    ultimately show ?thesis by (simp add: n long_bits_step)
  next
    case mid
    then obtain m where n: "n = m + 15" by (metis le_add_diff_inverse2)
    have "putLongLength (int n) = putBits 8 (word_of_nat (240 + m))"
      using mid by (intro ext, subst putLongLength.simps) (simp add: n)
    moreover have "emits (putBits 8 (word_of_nat (240 + m))) (nbits 8 (240 + m))"
      by (rule emits_putBits) (use mid n in simp_all)
    ultimately show ?thesis using long_bits_mid [OF mid] n by simp
  next
    case small
    then have "putLongLength (int n) = putBits 4 (word_of_nat n)"
      by (intro ext, subst putLongLength.simps) simp
    moreover have "emits (putBits 4 (word_of_nat n)) (nbits 4 n)"
      by (rule emits_putBits) (use small in simp_all)
    ultimately show ?thesis using small by (simp add: long_bits.simps)
  qed
qed

lemma emits_length:
  assumes "2 \<le> n"
  shows "emits (putLength (int n)) (length_bits n)"
proof -
  consider (short) "n < 5" | (mid) "5 \<le> n" "n < 8" | (long) "8 \<le> n" by linarith
  then show ?thesis
  proof cases
    case short
    have "emits (putBits 2 (word_of_nat (n - 2))) (nbits 2 (n - 2))"
      by (rule emits_putBits) (use short assms in auto)
    then show ?thesis using short assms by (simp add: emits_def putLength_def length_bits_def)
  next
    case mid
    have "nbits (2 + 2) (n + 7) = nbits 2 ((n + 7) div 2 ^ 2) @ nbits 2 (n + 7)"
      using mid by (intro nbits_split) simp
    moreover have "(n + 7) div 2 ^ 2 = 3" using mid by simp
    moreover have "nbits 2 (n + 7) = nbits 2 (n - 5)"
    proof (rule nbits_mod' [of 4])
      from mid obtain m where "n = m + 5" by (metis le_add_diff_inverse2)
      then show "(n + 7) mod 4 = (n - 5) mod 4" by (simp, subst mod_add_left_eq [symmetric], simp)
    qed simp
    ultimately have "length_bits n = nbits 4 (n + 7)"
      using mid by (simp add: length_bits_def nbits_ones)
    moreover have "putLength (int n) = putBits 4 (word_of_nat (n + 7))"
      using mid by (intro ext) (simp add: putLength_def)
    moreover have "emits (putBits 4 (word_of_nat (n + 7))) (nbits 4 (n + 7))"
      by (rule emits_putBits) (use mid in auto)
    ultimately show ?thesis by simp
  next
    case long
    then have "length_bits n = long_bits (n + 7)"
      by (subst long_bits.simps) (simp add: length_bits_def)
    moreover have "putLength (int n) = putLongLength (int (n + 7))"
      using long by (intro ext) (simp add: putLength_def add.commute)
    ultimately show ?thesis using emits_putLongLength [of "n + 7"] by simp
  qed
qed

lemma emits_match:
  assumes "1 \<le> k" and "k < 2048" and "2 \<le> n"
  shows "emits (\<lambda>w. res_bind (putOffset (int k) w) (putLength (int n))) (token_bits (Match k n))"
  using emits_bind [OF emits_offset emits_length] assms by simp


subsection \<open>The hash table and the hash chain\<close>

definition hash16 :: "byte list \<Rightarrow> nat \<Rightarrow> u16" where
  "hash16 src p = ucast (src ! p) OR push_bit 8 (ucast (src ! (p + 1)))"

lemma hashAt_hash16: "p + 1 < length src \<Longrightarrow> hashAt src p = Inr (hash16 src p)"
  by (simp add: hashAt_def hash16_def)

lemma hash16_eqD:
  assumes "hash16 src p = hash16 src q"
  shows "src ! p = src ! q" and "src ! (p + 1) = src ! (q + 1)"
proof -
  have bits: "bit (hash16 src x) i = (if i < 8 then bit (src ! x) i else bit (src ! (x + 1)) (i - 8))"
    if "i < 16" for x i
    using that by (auto simp: hash16_def bit_simps dest: bit_imp_le_length)
  show "src ! p = src ! q"
  proof (rule bit_word_eqI)
    fix i assume "i < LENGTH(8)"
    then show "bit (src ! p) i = bit (src ! q) i"
      using bits [of i p] bits [of i q] assms by simp
  qed
  show "src ! (p + 1) = src ! (q + 1)"
  proof (rule bit_word_eqI)
    fix i assume "i < LENGTH(8)"
    then show "bit (src ! (p + 1)) i = bit (src ! (q + 1)) i"
      using bits [of "i + 8" p] bits [of "i + 8" q] assms by simp
  qed
qed

text \<open>A link: nothing, or an earlier position with the given two bytes.\<close>

definition link :: "byte list \<Rightarrow> u16 \<Rightarrow> nat \<Rightarrow> u16 \<Rightarrow> bool" where
  "link src h p v \<longleftrightarrow> v = lzsInvalidOfs \<or> unat v < p \<and> hash16 src (unat v) = h"

definition table_inv :: "byte list \<Rightarrow> nat \<Rightarrow> (u16 \<Rightarrow> u16) \<Rightarrow> bool" where
  "table_inv src p table \<longleftrightarrow> (\<forall>h. link src h p (table h))"

text \<open>The chain is sound for the last \<open>lzsMaxHistory\<close> positions before \<open>p\<close>.\<close>

definition chain_inv :: "byte list \<Rightarrow> nat \<Rightarrow> (nat \<Rightarrow> u16) \<Rightarrow> bool" where
  "chain_inv src p chain \<longleftrightarrow>
     (\<forall>q. q < p \<and> p \<le> q + lzsMaxHistory \<longrightarrow> link src (hash16 src q) q (chain (q AND (lzsMaxHistory - 1))))"

lemma and_history: "q AND (lzsMaxHistory - 1) = q mod lzsMaxHistory"
proof -
  have "q AND mask 11 = q mod 2 ^ 11" by (metis take_bit_eq_mask take_bit_eq_mod)
  then show ?thesis by (simp add: mask_eq_exp_minus_1)
qed

lemma link_mono: "link src h p v \<Longrightarrow> p \<le> q \<Longrightarrow> link src h q v"
  by (auto simp: link_def)

lemma table_inv_mono: "table_inv src p table \<Longrightarrow> p \<le> q \<Longrightarrow> table_inv src q table"
  by (auto simp: table_inv_def intro: link_mono)

lemma table_inv_empty: "table_inv src 0 (\<lambda>_. lzsInvalidOfs)"
  by (simp add: table_inv_def link_def)

lemma chain_inv_empty: "chain_inv src 0 (\<lambda>_. 0)"
  by (simp add: chain_inv_def)

text \<open>Entering a position keeps both invariants.\<close>

lemma enter_position:
  assumes t: "table_inv src p table" and c: "chain_inv src p chain" and p: "p < 65536"
  shows "table_inv src (p + 1) (table(hash16 src p := word_of_nat p))"
    and "chain_inv src (p + 1) (chain(p AND (lzsMaxHistory - 1) := table (hash16 src p)))"
proof -
  have "unat (word_of_nat p :: u16) = p"
    using p by (simp add: unsigned_of_nat take_bit_nat_eq_self)
  then show "table_inv src (p + 1) (table(hash16 src p := word_of_nat p))"
    using t by (auto simp: table_inv_def link_def)
  show "chain_inv src (p + 1) (chain(p AND (lzsMaxHistory - 1) := table (hash16 src p)))"
    unfolding chain_inv_def and_history
  proof (intro allI impI)
    fix q assume q: "q < p + 1 \<and> p + 1 \<le> q + lzsMaxHistory"
    show "link src (hash16 src q) q ((chain(p mod lzsMaxHistory := table (hash16 src p))) (q mod lzsMaxHistory))"
    proof (cases "q = p")
      case True
      then show ?thesis using t by (simp add: table_inv_def)
    next
      case False
      have "q mod lzsMaxHistory \<noteq> p mod lzsMaxHistory"
      proof
        assume "q mod lzsMaxHistory = p mod lzsMaxHistory"
        then have "lzsMaxHistory dvd p - q" using False q by (metis mod_eq_dvd_iff_nat less_imp_le linorder_neqE_nat add.commute Suc_eq_plus1_left less_Suc_eq)
        then show False using False q by (auto dest: dvd_imp_le)
      qed
      then show ?thesis using c False q by (auto simp: chain_inv_def and_history [simplified])
    qed
  qed
qed

lemma lzsHashRest_inv:
  assumes "table_inv src p table" and "chain_inv src p chain" and "p + n < length src" and "length src \<le> 65536"
  shows "\<exists>table' chain'. lzsHashRest n src p table chain = Inr (p + n, table', chain') \<and>
    table_inv src (p + n) table' \<and> chain_inv src (p + n) chain'"
  using assms
proof (induction n arbitrary: p table chain)
  case 0
  then show ?case by simp
next
  case (Suc n)
  have "hashAt src p = Inr (hash16 src p)" by (rule hashAt_hash16) (use Suc.prems in simp)
  moreover have "\<exists>table' chain'. lzsHashRest n src (p + 1) (table(hash16 src p := word_of_nat p))
      (chain(p AND (lzsMaxHistory - 1) := table (hash16 src p))) = Inr (p + 1 + n, table', chain') \<and>
      table_inv src (p + 1 + n) table' \<and> chain_inv src (p + 1 + n) chain'"
    by (rule Suc.IH [OF enter_position [OF Suc.prems(1,2)]]) (use Suc.prems in simp_all)
  ultimately show ?case by simp
qed


subsection \<open>The match search\<close>

text \<open>\<open>agree src p q n\<close>: the \<open>n\<close> bytes at \<open>p\<close> and at \<open>q\<close> are the same.\<close>

definition agree :: "byte list \<Rightarrow> nat \<Rightarrow> nat \<Rightarrow> nat \<Rightarrow> bool" where
  "agree src p q n \<longleftrightarrow> (\<forall>i<n. src ! (p + i) = src ! (q + i))"

lemma agree_Suc: "agree src p q (Suc n) \<longleftrightarrow> agree src p q n \<and> src ! (p + n) = src ! (q + n)"
  by (auto simp: agree_def less_Suc_eq)

lemma bytesEqual_iff: "bytesEqual a b \<longleftrightarrow> a = b"
proof -
  have "length a = length b \<Longrightarrow> bytesEqualFrom a b \<longleftrightarrow> a = b"
    by (induction a b rule: list_induct2) auto
  then show ?thesis by (auto simp: bytesEqual_def)
qed

text \<open>The bytes compared before a longer match is tried: all but the first two.\<close>

lemma slices_agree:
  assumes "hash16 src p = hash16 src q" and "2 \<le> n" and "p + n < length src" and "q + n < length src"
  shows "bytesEqual (take (n - 1) (drop (p + 2) src)) (take (n - 1) (drop (q + 2) src)) \<longleftrightarrow> agree src p q (n + 1)"
proof -
  note h = hash16_eqD [OF assms(1)]
  have "take (n - 1) (drop (p + 2) src) = take (n - 1) (drop (q + 2) src) \<longleftrightarrow>
      (\<forall>i<n - 1. src ! (p + 2 + i) = src ! (q + 2 + i))"
    using assms by (auto simp: list_eq_iff_nth_eq)
  also have "\<dots> \<longleftrightarrow> agree src p q (n + 1)"
  proof
    assume *: "\<forall>i<n - 1. src ! (p + 2 + i) = src ! (q + 2 + i)"
    show "agree src p q (n + 1)" unfolding agree_def
    proof (intro allI impI)
      fix i assume i: "i < n + 1"
      consider "i = 0" | "i = 1" | j where "i = j + 2" "j < n - 1"
        using i assms(2) by (metis One_nat_def Suc_1 add.commute add_2_eq_Suc' diff_Suc_1 less_2_cases less_diff_conv not_less le_Suc_ex less_Suc_eq_le Suc_eq_plus1 Suc_less_eq add_less_cancel_left)
      then show "src ! (p + i) = src ! (q + i)"
        using * h by cases (auto simp: add.assoc add.commute)
    qed
  next
    assume *: "agree src p q (n + 1)"
    show "\<forall>i<n - 1. src ! (p + 2 + i) = src ! (q + 2 + i)"
    proof (intro allI impI)
      fix i assume "i < n - 1"
      then have "2 + i < n + 1" by simp
      with * show "src ! (p + 2 + i) = src ! (q + 2 + i)" unfolding agree_def by (metis add.assoc)
    qed
  qed
  finally show ?thesis by (simp add: bytesEqual_iff)
qed

lemma lzsExtend_correct:
  assumes "agree src p (unat hofs) (unat mlen + 1)" and "unat hofs < p" and "p + unat mlen < length src"
    and "length src \<le> 65536"
  shows "\<exists>mlen' got. lzsExtend src p hofs mlen = Some (Inr (mlen', got)) \<and> unat mlen < unat mlen' \<and>
    agree src p (unat hofs) (unat mlen') \<and> p + unat mlen' \<le> length src \<and>
    (got \<longleftrightarrow> p + unat mlen' = length src)"
  using assms
proof (induction "length src - (p + unat mlen)" arbitrary: mlen rule: less_induct)
  case less
  have u: "unat (mlen + 1) = unat mlen + 1"
    using less.prems unat_plus_if' [of mlen 1] by simp
  show ?case
  proof (cases "unat mlen + 1 + p = length src")
    case True
    then show ?thesis using less.prems u by (subst lzsExtend.simps) (simp add: add.commute)
  next
    case False
    then have lt: "p + (unat mlen + 1) < length src" using less.prems by simp
    show ?thesis
    proof (cases "src ! (p + (unat mlen + 1)) = src ! (unat hofs + (unat mlen + 1))")
      case True
      have "\<exists>mlen' got. lzsExtend src p hofs (mlen + 1) = Some (Inr (mlen', got)) \<and> unat (mlen + 1) < unat mlen' \<and>
          agree src p (unat hofs) (unat mlen') \<and> p + unat mlen' \<le> length src \<and> (got \<longleftrightarrow> p + unat mlen' = length src)"
        by (rule less.hyps) (use less.prems u lt True in \<open>auto simp: agree_Suc\<close>)
      then show ?thesis using lt less.prems u True False
        by (subst lzsExtend.simps) (auto simp: go_index_def add.commute)
    next
      case neq: False
      then show ?thesis using lt less.prems u False
        by (subst lzsExtend.simps) (auto simp: go_index_def add.commute)
    qed
  qed
qed

text \<open>What the walk keeps of the longest match so far.\<close>

definition good_match :: "byte list \<Rightarrow> nat \<Rightarrow> u16 \<Rightarrow> u16 \<Rightarrow> bool" where
  "good_match src p mlen mofs \<longleftrightarrow> 2 \<le> unat mlen \<and> unat mofs < p \<and> p < unat mofs + lzsMaxHistory \<and>
     agree src p (unat mofs) (unat mlen)"


definition chain_rank :: "u16 \<Rightarrow> nat" where
  "chain_rank v = (if v = lzsInvalidOfs then 0 else Suc (unat v))"

lemma chain_next:
  assumes "chain_inv src (p + 1) chain" and "unat hofs < p" and "p < unat hofs + lzsMaxHistory"
    and "hash16 src (unat hofs) = hash16 src p" and "hofs \<noteq> lzsInvalidOfs"
  shows "link src (hash16 src p) p (chain (unat hofs AND (lzsMaxHistory - 1)))"
    and "chain_rank (chain (unat hofs AND (lzsMaxHistory - 1))) < chain_rank hofs"
proof -
  have "link src (hash16 src p) (unat hofs) (chain (unat hofs AND (lzsMaxHistory - 1)))"
    using assms unfolding chain_inv_def by (metis Suc_eq_plus1 Suc_leI less_SucI)
  then show "link src (hash16 src p) p (chain (unat hofs AND (lzsMaxHistory - 1)))"
    and "chain_rank (chain (unat hofs AND (lzsMaxHistory - 1))) < chain_rank hofs"
    using assms by (auto simp: link_def chain_rank_def)
qed

text \<open>The walk ends, never leaves the input, and its result is a real match.\<close>

lemma lzsChain_correct:
  assumes "chain_inv src (p + 1) chain" and "link src (hash16 src p) p hofs"
    and "good_match src p mlen mofs" and "p + unat mlen < length src" and "length src \<le> 65536"
  shows "\<exists>mlen' mofs'. lzsChain src chain p hofs mlen mofs = Some (Inr (mlen', mofs')) \<and>
    good_match src p mlen' mofs' \<and> p + unat mlen' \<le> length src"
  using assms(2-4)
proof (induction "chain_rank hofs" arbitrary: hofs mlen mofs rule: less_induct)
  case less
  show ?case
  proof (cases "hofs \<noteq> lzsInvalidOfs \<and> unat hofs + lzsMaxHistory > p")
    case False
    then show ?thesis using less.prems by (subst lzsChain.simps) auto
  next
    case True
    then have h: "unat hofs < p" "hash16 src (unat hofs) = hash16 src p" "p < unat hofs + lzsMaxHistory"
      using less.prems(1) by (auto simp: link_def)
    let ?next = "chain (unat hofs AND (lzsMaxHistory - 1))"
    note nxt = chain_next [OF assms(1) h(1,3,2)] 
    have ml: "2 \<le> unat mlen" "1 < mlen"
      using less.prems(2) by (auto simp: good_match_def word_less_nat_alt)
    have sl: "go_slice src (unat hofs + 2) (unat hofs + 2 + (unat mlen - 1)) = Some (take (unat mlen - 1) (drop (unat hofs + 2) src))"
        "go_slice src (p + 2) (p + 2 + (unat mlen - 1)) = Some (take (unat mlen - 1) (drop (p + 2) src))"
      using ml less.prems(3) h(1) by (simp_all add: go_slice_def)
    have eq: "bytesEqual (take (unat mlen - 1) (drop (unat hofs + 2) src)) (take (unat mlen - 1) (drop (p + 2) src))
        \<longleftrightarrow> agree src (unat hofs) p (unat mlen + 1)"
      by (rule slices_agree) (use h ml less.prems(3) in auto)
    have sym: "agree src (unat hofs) p n \<longleftrightarrow> agree src p (unat hofs) n" for n by (auto simp: agree_def)
    show ?thesis
    proof (cases "agree src p (unat hofs) (unat mlen + 1)")
      case False
      then have "lzsChain src chain p hofs mlen mofs = lzsChain src chain p ?next mlen mofs"
        using True ml sl eq sym by (subst lzsChain.simps) simp
      then show ?thesis using less.hyps [OF nxt(2) nxt(1) less.prems(2,3)] True by simp
    next
      case agr: True
      obtain mlen' got where x: "lzsExtend src p hofs mlen = Some (Inr (mlen', got))" "unat mlen < unat mlen'"
          "agree src p (unat hofs) (unat mlen')" "p + unat mlen' \<le> length src" "got \<longleftrightarrow> p + unat mlen' = length src"
        using lzsExtend_correct [OF agr h(1) less.prems(3) assms(5)] by blast
      have g: "good_match src p mlen' hofs" using x h ml by (auto simp: good_match_def)
      show ?thesis
      proof (cases got)
        case True
        then show ?thesis using x g agr ml sl eq sym \<open>hofs \<noteq> lzsInvalidOfs \<and> _\<close>
          by (subst lzsChain.simps) simp
      next
        case False
        then have "lzsChain src chain p hofs mlen mofs = lzsChain src chain p ?next mlen' hofs"
          using x agr ml sl eq sym True by (subst lzsChain.simps) simp
        moreover have "p + unat mlen' < length src" using x False by simp
        ultimately show ?thesis using less.hyps [OF nxt(2) nxt(1) g] True by simp
      qed
    qed
  qed
qed


subsection \<open>The main loop\<close>

text \<open>
  What the main loop delivers from position \<open>p\<close>, with the bits \<open>bs\<close> already out: a valid
  token stream for the bytes up to where it stops, or a full buffer, which happens only if
  nine bits for every remaining byte would not fit.
\<close>

definition enc_result ::
    "byte list \<Rightarrow> nat \<Rightarrow> bool list \<Rightarrow> nat \<Rightarrow> (lzs_error + nat \<times> (u16 \<Rightarrow> u16) \<times> lzs_writer) option \<Rightarrow> bool" where
  "enc_result src p bs cap res \<longleftrightarrow>
     (\<exists>ts p' table w. res = Some (Inr (p', table, w)) \<and> valid_from p ts \<and>
        expand_from (take p src) ts = take p' src \<and> p' = p + tokens_size ts \<and> p' \<le> length src \<and>
        length src \<le> p' + 2 \<and> table_inv src p' table \<and> wrote w (bs @ tokens_bits ts) \<and> length (wdst w) = cap)
     \<or> res = Some (Inl LZSOutputFull) \<and> 8 * cap < length bs + 9 * (length src - p)"

lemma enc_result_step:
  assumes "enc_result src p' (bs @ token_bits t) cap res" and "valid_from p [t]"
    and "expand_from (take p src) [t] = take p' src" and "p' = p + tokens_size [t]" and "p' \<le> length src"
  shows "enc_result src p bs cap res"
  using assms(1) unfolding enc_result_def
proof (elim disjE exE conjE)
  fix ts p2 table w
  assume a: "res = Some (Inr (p2, table, w))" "valid_from p' ts" "expand_from (take p' src) ts = take p2 src"
    "p2 = p' + tokens_size ts" "p2 \<le> length src" "length src \<le> p2 + 2" "table_inv src p2 table"
    "wrote w ((bs @ token_bits t) @ tokens_bits ts)" "length (wdst w) = cap"
  have "valid_from p (t # ts)" using valid_from_append [of p "[t]" ts] assms(2,4) a(2) by simp
  moreover have "expand_from (take p src) (t # ts) = take p2 src"
    using expand_from_append [of "take p src" "[t]" ts] assms(3) a(3) by simp
  moreover have "p2 = p + tokens_size (t # ts)"
    using tokens_size_append [of "[t]" ts] assms(4) a(4) by simp
  ultimately show "(\<exists>ts p' table w. res = Some (Inr (p', table, w)) \<and> valid_from p ts \<and>
        expand_from (take p src) ts = take p' src \<and> p' = p + tokens_size ts \<and> p' \<le> length src \<and>
        length src \<le> p' + 2 \<and> table_inv src p' table \<and> wrote w (bs @ tokens_bits ts) \<and> length (wdst w) = cap)
     \<or> res = Some (Inl LZSOutputFull) \<and> 8 * cap < length bs + 9 * (length src - p)"
    using a by (intro disjI1 exI [of _ "t # ts"]) auto
next
  assume "res = Some (Inl LZSOutputFull)" "8 * cap < length (bs @ token_bits t) + 9 * (length src - p')"
  moreover have "length (token_bits t) \<le> 9 * tokens_size [t]"
    using length_tokens_bits [OF assms(2)] by simp
  ultimately have "8 * cap < length bs + 9 * (length src - p)" using assms(4,5) by simp
  with \<open>res = _\<close> show "(\<exists>ts p' table w. res = Some (Inr (p', table, w)) \<and> valid_from p ts \<and>
        expand_from (take p src) ts = take p' src \<and> p' = p + tokens_size ts \<and> p' \<le> length src \<and>
        length src \<le> p' + 2 \<and> table_inv src p' table \<and> wrote w (bs @ tokens_bits ts) \<and> length (wdst w) = cap)
     \<or> res = Some (Inl LZSOutputFull) \<and> 8 * cap < length bs + 9 * (length src - p)"
    by blast
qed

text \<open>A token that does not fit ends the loop with a full buffer.\<close>

lemma emits_cases:
  assumes "emits f (token_bits t)" and "wrote w bs" and "valid_from p [t]" and "p + tokens_size [t] \<le> length src"
  obtains w' where "f w = Inr w'" and "wrote w' (bs @ token_bits t)" and "length (wdst w') = length (wdst w)"
  | "f w = Inl LZSOutputFull" and "enc_result src p bs (length (wdst w)) (Some (Inl LZSOutputFull))"
proof (cases "(length bs + length (token_bits t)) div 8 \<le> length (wdst w)")
  case True
  then show ?thesis using assms(1,2) that(1) unfolding emits_def by metis
next
  case False
  then have "f w = Inl LZSOutputFull" using assms(1,2) unfolding emits_def by metis
  moreover have "8 * length (wdst w) < length bs + length (token_bits t)" using False by linarith
  moreover have "length (token_bits t) \<le> 9 * (length src - p)"
    using length_tokens_bits [OF assms(3)] assms(4) by simp
  ultimately show ?thesis by (intro that(2)) (auto simp: enc_result_def)
qed

lemma match_token:
  assumes "good_match src p mlen mofs" and "p + unat mlen \<le> length src"
  defines "t \<equiv> Match (p - unat mofs) (unat mlen)"
  shows "valid_from p [t]" and "expand_from (take p src) [t] = take (p + unat mlen) src"
    and "emits (\<lambda>w. res_bind (putOffset (int p - int (unat mofs)) w) (putLength (int (unat mlen)))) (token_bits t)"
proof -
  have m: "2 \<le> unat mlen" "unat mofs < p" "p < unat mofs + lzsMaxHistory" "agree src p (unat mofs) (unat mlen)"
    using assms(1) by (auto simp: good_match_def)
  then show "valid_from p [t]" by (auto simp: t_def)
  have "copy_match (unat mlen) (take p src) (p - unat mofs) = take (p + unat mlen) src"
    by (rule copy_match_take) (use m assms(2) in \<open>auto simp: agree_def\<close>)
  then show "expand_from (take p src) [t] = take (p + unat mlen) src" by (simp add: t_def)
  have "emits (\<lambda>w. res_bind (putOffset (int (p - unat mofs)) w) (putLength (int (unat mlen)))) (token_bits t)"
    unfolding t_def by (rule emits_match) (use m in auto)
  then show "emits (\<lambda>w. res_bind (putOffset (int p - int (unat mofs)) w) (putLength (int (unat mlen)))) (token_bits t)"
    using m by simp
qed

text \<open>
  One round of the loop at position \<open>p\<close>, for a literal and for a match; the hypothesis is that the loop is
  correct from every later position on.
\<close>

definition enc_ok_after :: "byte list \<Rightarrow> nat \<Rightarrow> bool" where
  "enc_ok_after src p \<longleftrightarrow>
     (\<forall>q table chain w bs. p < q \<longrightarrow> table_inv src q table \<longrightarrow> chain_inv src q chain \<longrightarrow> q \<le> length src \<longrightarrow> wrote w bs \<longrightarrow>
        enc_result src q bs (length (wdst w)) (lzsEncLoop src q table chain w))"

lemma enc_ok_afterD:
  "enc_ok_after src p \<Longrightarrow> p < q \<Longrightarrow> table_inv src q table \<Longrightarrow> chain_inv src q chain \<Longrightarrow> q \<le> length src \<Longrightarrow> wrote w bs \<Longrightarrow>
   enc_result src q bs (length (wdst w)) (lzsEncLoop src q table chain w)"
  by (simp add: enc_ok_after_def)

lemma lzsEncLoop_literal:
  assumes after: "enc_ok_after src p" and more: "p + 2 < length src" and wr: "wrote w bs"
    and inv: "table_inv src (p + 1) table'" "chain_inv src (p + 1) chain'"
    and eq: "lzsEncLoop src p table chain w = (case putBits 9 (ucast (src ! p)) w of Inl e \<Rightarrow> Some (Inl e)
          | Inr w \<Rightarrow> lzsEncLoop src (p + 1) table' chain' w)"
  shows "enc_result src p bs (length (wdst w)) (lzsEncLoop src p table chain w)"
proof -
  let ?t = "Literal (src ! p)"
  have t: "valid_from p [?t]" "expand_from (take p src) [?t] = take (p + 1) src" "p + 1 = p + tokens_size [?t]"
    using more by (simp_all add: take_Suc_conv_app_nth)
  have le: "p + tokens_size [?t] \<le> length src" using more by simp
  show ?thesis
  proof (rule emits_cases [OF emits_literal [of "src ! p"] wr t(1) le])
    fix w' assume w': "putBits 9 (ucast (src ! p)) w = Inr w'" "wrote w' (bs @ token_bits ?t)"
      "length (wdst w') = length (wdst w)"
    have "enc_result src (p + 1) (bs @ token_bits ?t) (length (wdst w')) (lzsEncLoop src (p + 1) table' chain' w')"
      by (rule enc_ok_afterD [OF after _ inv]) (use more w' in auto)
    then have "enc_result src p bs (length (wdst w')) (lzsEncLoop src (p + 1) table' chain' w')"
      by (rule enc_result_step [OF _ t]) (use more in simp)
    then show ?thesis unfolding eq w'(1) using w'(3) by simp
  qed (simp add: eq)
qed

lemma lzsEncLoop_match:
  assumes after: "enc_ok_after src p" and more: "p + 2 < length src" and len: "length src \<le> 65536" and wr: "wrote w bs"
    and inv: "table_inv src (p + 1) table'" "chain_inv src (p + 1) chain'"
    and gm: "good_match src p mlen mofs" and fits: "p + unat mlen \<le> length src"
  defines "put \<equiv> \<lambda>w. res_bind (putOffset (int p - int (unat mofs)) w) (putLength (int (unat mlen)))"
  assumes eq: "lzsEncLoop src p table chain w = (case put w of Inl e \<Rightarrow> Some (Inl e)
          | Inr w \<Rightarrow> if length src \<le> p + unat mlen + 2 then Some (Inr (p + unat mlen, table', w))
              else case lzsHashRest (unat mlen - 1) src (p + 1) table' chain' of Inl e \<Rightarrow> Some (Inl e)
                | Inr (p', table', chain') \<Rightarrow> lzsEncLoop src p' table' chain' w)"
  shows "enc_result src p bs (length (wdst w)) (lzsEncLoop src p table chain w)"
proof -
  let ?t = "Match (p - unat mofs) (unat mlen)"
  note t = match_token [OF gm fits, folded put_def]
  have ml: "2 \<le> unat mlen" using gm by (simp add: good_match_def)
  have le: "p + tokens_size [?t] \<le> length src" using fits by simp
  show ?thesis
  proof (rule emits_cases [OF t(3) wr t(1) le])
    fix w' assume w': "put w = Inr w'" "wrote w' (bs @ token_bits ?t)" "length (wdst w') = length (wdst w)"
    show ?thesis
    proof (cases "length src \<le> p + unat mlen + 2")
      case brk: True
      have "table_inv src (p + unat mlen) table'" by (rule table_inv_mono [OF inv(1)]) (use ml in simp)
      then have "enc_result src (p + unat mlen) (bs @ token_bits ?t) (length (wdst w)) (Some (Inr (p + unat mlen, table', w')))"
        unfolding enc_result_def using brk fits w' by (intro disjI1 exI [of _ "[]"]) auto
      then have "enc_result src p bs (length (wdst w)) (Some (Inr (p + unat mlen, table', w')))"
        by (rule enc_result_step [OF _ t(1,2)]) (use fits in simp_all)
      then show ?thesis unfolding eq w'(1) using brk by simp
    next
      case go: False
      obtain table2 chain2 where hr: "lzsHashRest (unat mlen - 1) src (p + 1) table' chain' =
            Inr (p + 1 + (unat mlen - 1), table2, chain2)" "table_inv src (p + 1 + (unat mlen - 1)) table2"
          "chain_inv src (p + 1 + (unat mlen - 1)) chain2"
        using lzsHashRest_inv [OF inv, of "unat mlen - 1"] go len ml by auto
      have pe: "p + 1 + (unat mlen - 1) = p + unat mlen" using ml by simp
      have "enc_result src (p + unat mlen) (bs @ token_bits ?t) (length (wdst w')) (lzsEncLoop src (p + unat mlen) table2 chain2 w')"
        by (rule enc_ok_afterD [OF after _ hr(2,3) [unfolded pe] fits w'(2)]) (use ml in simp)
      then have "enc_result src p bs (length (wdst w')) (lzsEncLoop src (p + unat mlen) table2 chain2 w')"
        by (rule enc_result_step [OF _ t(1,2)]) (use fits in simp_all)
      then show ?thesis unfolding eq w'(1) hr(1) pe using go w'(3) by simp
    qed
  qed (simp add: eq)
qed

lemma lzsEncLoop_correct:
  assumes "table_inv src p table" and "chain_inv src p chain" and "p \<le> length src"
    and "length src \<le> 65536" and "wrote w bs"
  shows "enc_result src p bs (length (wdst w)) (lzsEncLoop src p table chain w)"
  using assms
proof (induction "length src - p" arbitrary: p table chain w bs rule: less_induct)
  case less
  show ?case
  proof (cases "p + 2 < length src")
    case False
    then have "lzsEncLoop src p table chain w = Some (Inr (p, table, w))" by (subst lzsEncLoop.simps) simp
    then show ?thesis unfolding enc_result_def using less.prems False
      by (intro disjI1 exI [of _ "[]"]) auto
  next
    case True
    let ?h = "hash16 src p"
    let ?chain = "chain(p AND 2047 := table ?h)" and ?table = "table(?h := word_of_nat p)"
    have after: "enc_ok_after src p" unfolding enc_ok_after_def
      by (intro allI impI, rule less.hyps) (use True less.prems(4) in auto)
    have h: "hashAt src p = Inr ?h" by (rule hashAt_hash16) (use True in simp)
    have inv: "table_inv src (p + 1) ?table" "chain_inv src (p + 1) ?chain"
      using enter_position [OF less.prems(1,2)] True less.prems(4) by simp_all
    have lnk: "link src ?h p (table ?h)" using less.prems(1) by (simp add: table_inv_def)
    show ?thesis
    proof (cases "table ?h = lzsInvalidOfs \<or> unat (table ?h) + lzsMaxHistory \<le> p")
      case lit: True
      show ?thesis by (rule lzsEncLoop_literal [OF after True less.prems(5) inv])
        (use True lit h in \<open>subst lzsEncLoop.simps, auto simp: Let_def\<close>)
    next
      case mat: False
      then have gm: "good_match src p 2 (table ?h)"
        using lnk hash16_eqD [of src "unat (table ?h)" p]
        by (auto simp: good_match_def link_def agree_def less_2_cases_iff)
      obtain mlen mofs where ch: "lzsChain src ?chain p (table ?h) 2 (table ?h) = Some (Inr (mlen, mofs))"
          "good_match src p mlen mofs" "p + unat mlen \<le> length src"
        using lzsChain_correct [OF inv(2) lnk gm _ less.prems(4)] True by auto
      show ?thesis by (rule lzsEncLoop_match [OF after True less.prems(4,5) inv ch(2,3)])
        (use True mat h ch(1) in \<open>subst lzsEncLoop.simps, auto simp: Let_def\<close>)
    qed
  qed
qed

end
