(* ===== verification/Lzs_Decoder.thy ===== *)
theory Lzs_Decoder
  imports Lzs_Format
begin

text \<open>
  Correctness of \<open>lzsDecompress\<close>: the bit reader returns exactly the next bits of the stream,
  and on any input that carries a valid token stream and an end marker the decoder returns
  what the tokens stand for.  On every input, well formed or not, the result stays within the
  output buffer and no index is out of range.
\<close>

subsection \<open>The bit reader\<close>

text \<open>\<open>reader_at r t\<close>: the reader has consumed \<open>t\<close> bits.\<close>

definition reader_at :: "lzs_reader \<Rightarrow> nat \<Rightarrow> bool" where
  "reader_at r t \<longleftrightarrow> 1 \<le> bitsLeft r \<and> bitsLeft r \<le> 8 \<and> int t = 8 * int (si r) + 8 - bitsLeft r"

lemma reader_at_div: "reader_at r t \<Longrightarrow> t div 8 = si r"
  unfolding reader_at_def by arith

lemma bit_two_bytes:
  fixes src :: "byte list"
  assumes "t = 8 * s + 8 - bl" and "1 \<le> bl" and "bl \<le> 8" and "s + 2 \<le> length src"
    and "n \<le> 9" and "i < n"
  shows "stream_bits src ! (t + n - 1 - i) =
    (if n - 1 - i < bl then bit (src ! s) (bl + i - n + 0) else bit (src ! (s + 1)) (bl + 8 + i - n))"
proof -
  let ?d = "8 - bl + (n - 1 - i)"
  have t: "t + n - 1 - i = 8 * s + ?d" using assms by simp
  have "8 * s + ?d < 8 * length src" using assms by simp
  then have nth: "stream_bits src ! (t + n - 1 - i) = bit (src ! ((8 * s + ?d) div 8)) (7 - (8 * s + ?d) mod 8)"
    using nth_stream_bits [of "8 * s + ?d" src] unfolding t by blast
  show ?thesis
  proof (cases "n - 1 - i < bl")
    case True
    then have "?d < 8" using assms by simp
    then have "(8 * s + ?d) div 8 = s" and "(8 * s + ?d) mod 8 = ?d" by simp_all
    note eqs = this
    have d: "7 - ?d = bl + i - n" using True assms by simp
    show ?thesis using True unfolding nth eqs d by simp
  next
    case False
    then obtain e where e: "?d = 8 + e" and "e < 8"
      using assms by (intro that [of "?d - 8"]) auto
    then have "(8 * s + ?d) div 8 = s + 1" and "(8 * s + ?d) mod 8 = e" by simp_all
    note eqs = this
    have d: "7 - e = bl + 8 + i - n" using False assms e by simp
    show ?thesis using False unfolding nth eqs d by simp
  qed
qed

lemma bit_bits_word_slice:
  assumes "t + n \<le> length bs"
  shows "bit (bits_word (take n (drop t bs)) :: 'a::len word) i \<longleftrightarrow>
    i < LENGTH('a) \<and> i < n \<and> bs ! (t + n - 1 - i)"
proof -
  have "length (take n (drop t bs)) = n" using assms by simp
  then show ?thesis using assms by (auto simp: bit_bits_word)
qed

text \<open>
  The three ways in which \<open>getBits\<close> puts \<open>n\<close> bits together when \<open>bl\<close> bits of the byte \<open>x\<close> are left and \<open>y\<close>
  follows, for the word \<open>w\<close> that has these bits.
\<close>

definition has_slice :: "nat \<Rightarrow> nat \<Rightarrow> byte \<Rightarrow> byte \<Rightarrow> u32 \<Rightarrow> bool" where
  "has_slice n bl x y w \<longleftrightarrow> (\<forall>i. bit w i \<longleftrightarrow> i < n \<and> (if n - 1 - i < bl then bit x (bl + i - n) else bit y (bl + 8 + i - n)))"

lemma slice_two_bytes:
  assumes w: "has_slice n bl x y w" and bl: "1 \<le> bl" "bl \<le> 8" "bl \<le> n" and n: "0 < n" "n \<le> 9"
  shows "go_shl (ucast x) (int n - int bl) AND mask n OR go_shr (ucast y) (int bl + 8 - int n) = w"
proof (rule bit_word_eqI)
  fix i assume "i < LENGTH(32)"
  have "nat (int n - int bl) = n - bl" "nat (int bl + 8 - int n) = bl + 8 - n" using n bl by auto
  moreover have "bit y j \<Longrightarrow> j < 8" "bit x j \<Longrightarrow> j < 8" for j using bit_imp_le_length by fastforce+
  ultimately show "bit (go_shl (ucast x :: u32) (int n - int bl) AND mask n OR go_shr (ucast y) (int bl + 8 - int n)) i = bit w i"
    unfolding w [unfolded has_slice_def, rule_format] using n bl
    by (cases "i < n"; cases "n - 1 - i < bl") (fastforce simp: go_shl_def go_shr_def bit_simps add.commute)+
qed

lemma slice_rest:
  assumes w: "has_slice n n x y w" and n: "n \<le> 9"
  shows "go_shl (ucast x) 0 AND mask n = w"
proof (rule bit_word_eqI)
  fix i assume "i < LENGTH(32)"
  then show "bit (go_shl (ucast x :: u32) 0 AND mask n) i = bit w i"
    unfolding w [unfolded has_slice_def, rule_format] by (auto simp: go_shl_def bit_simps)
qed

lemma slice_within:
  assumes w: "has_slice n bl x y w" and "n < bl" "bl \<le> 8"
  shows "go_shr (ucast x) (int bl - int n) AND mask n = w"
  using assms(2,3) by (intro bit_word_eqI) (auto simp: w [unfolded has_slice_def, rule_format] go_shr_def bit_simps nat_diff_distrib)

lemma getBits_slice:
  assumes r: "reader_at r t" "bitsLeft r = int bl" and len: "si r + 2 \<le> length src" and n: "0 < n" "n \<le> 9"
    and w: "has_slice n bl (src ! si r) (src ! (si r + 1)) w"
  obtains r' where "getBits src (int n) r = Inr (w, r')" and "reader_at r' (t + n)"
proof -
  from r have bl: "1 \<le> bl" "bl \<le> 8" and t: "t = 8 * si r + 8 - bl" by (auto simp: reader_at_def)
  have mask: "go_shl 1 (int n) - 1 = (mask n :: u32)" by (simp add: go_shl_def mask_eq_exp_minus_1 push_bit_eq_mult)
  consider (two) "bl \<le> n" "8 < n \<or> bl < n" | (rest) "bl = n" "n \<le> 8" | (within) "n < bl" using bl by linarith
  then show ?thesis
  proof cases
    case two
    let ?r = "if 8 < n \<and> bl + 8 = n then \<lparr>si = si r + 2, bitsLeft = 8\<rparr> else \<lparr>si = si r + 1, bitsLeft = int bl + 8 - int n\<rparr>"
    have "getBits src (int n) r = Inr (w, ?r)"
      using slice_two_bytes [OF w bl two(1) n] two len bl r(2) by (auto simp: getBits_def Let_def mask algebra_simps)
    moreover have "reader_at ?r (t + n)" using t bl n two by (auto simp: reader_at_def)
    ultimately show ?thesis by (rule that)
  next
    case rest
    have "getBits src (int n) r = Inr (w, \<lparr>si = si r + 1, bitsLeft = 8\<rparr>)"
      using slice_rest [OF w [unfolded rest(1)] n(2)] rest len bl r(2) mask by (auto simp: getBits_def Let_def)
    moreover have "reader_at \<lparr>si = si r + 1, bitsLeft = 8\<rparr> (t + n)" using t bl rest by (auto simp: reader_at_def)
    ultimately show ?thesis by (rule that)
  next
    case within
    have "getBits src (int n) r = Inr (w, r\<lparr>bitsLeft := int bl - int n\<rparr>)"
      using slice_within [OF w within bl(2)] within len bl r(2) by (auto simp: getBits_def Let_def mask)
    moreover have "reader_at (r\<lparr>bitsLeft := int bl - int n\<rparr>) (t + n)" using t bl within by (auto simp: reader_at_def)
    ultimately show ?thesis by (rule that)
  qed
qed

lemma getBits_correct:
  fixes n :: nat
  assumes r: "reader_at r t" and len: "t div 8 + 2 \<le> length src" and n: "0 < n" "n \<le> 9"
  obtains r' where "getBits src (int n) r = Inr (bits_word (take n (drop t (stream_bits src))), r')"
    and "reader_at r' (t + n)"
proof -
  define bl where "bl = nat (bitsLeft r)"
  have bl: "bitsLeft r = int bl" "1 \<le> bl" "bl \<le> 8" and t: "t = 8 * si r + 8 - bl" using r by (auto simp: reader_at_def bl_def)
  have s2: "si r + 2 \<le> length src" using len reader_at_div [OF r] by simp
  have tn: "t + n \<le> 8 * length src" using t s2 bl n by simp
  have "has_slice n bl (src ! si r) (src ! (si r + 1)) (bits_word (take n (drop t (stream_bits src))))"
    unfolding has_slice_def
    using bit_bits_word_slice [of t n "stream_bits src" _, where 'a = 32] tn n bit_two_bytes [OF t bl(2,3) s2 n(2)] by auto
  from getBits_slice [OF r bl(1) s2 n this] that show ?thesis by blast
qed

text \<open>The form the token proofs use: the stream continues with a number of known width.\<close>

lemma getBits_nbits:
  assumes "stream_bits src = pre @ nbits n k @ post" and "reader_at r (length pre)"
    and "length pre div 8 + 2 \<le> length src" and "0 < n" and "n \<le> 9" and "k < 2 ^ n"
  obtains r' where "getBits src (int n) r = Inr (word_of_nat k, r')"
    and "reader_at r' (length pre + n)"
proof -
  have "take n (drop (length pre) (stream_bits src)) = nbits n k"
    using assms(1) by simp
  then have "bits_word (take n (drop (length pre) (stream_bits src))) = (word_of_nat k :: u32)"
    using assms(6) by (simp add: nbits_def bits_word_word_bits take_bit_word_of_nat)
  with getBits_correct [OF assms(2,3,4,5)] that show thesis by metis
qed

subsection \<open>Tokens\<close>

lemma unat_word_of_nat_32: "k < 2 ^ 32 \<Longrightarrow> unat (word_of_nat k :: u32) = k"
  by (simp add: unsigned_of_nat take_bit_nat_eq_self)

lemma word_of_nat_eq_numeral_32:
  "k < 2 ^ 32 \<Longrightarrow> numeral m < (2 ^ 32 :: nat) \<Longrightarrow> (word_of_nat k :: u32) = numeral m \<longleftrightarrow> k = numeral m"
  by (metis of_nat_numeral unat_word_of_nat_32)

lemma word_of_nat_less_numeral_32:
  "k < 2 ^ 32 \<Longrightarrow> numeral m < (2 ^ 32 :: nat) \<Longrightarrow> (word_of_nat k :: u32) < numeral m \<longleftrightarrow> k < numeral m"
  by (metis of_nat_numeral unat_word_of_nat_32 word_less_nat_alt)

lemmas word_of_nat_32 = unat_word_of_nat_32 word_of_nat_eq_numeral_32 word_of_nat_less_numeral_32

lemma lzsLongLength_bits:
  assumes "stream_bits src = pre @ long_bits n @ post" and "reader_at r (length pre)"
    and "(length pre + length (long_bits n)) div 8 + 2 \<le> length src"
  shows "\<exists>r'. lzsLongLength src r m = Inr (m + n, r') \<and> reader_at r' (length pre + length (long_bits n))"
  using assms
proof (induction n arbitrary: pre r m rule: long_bits.induct)
  case (1 n)
  have le: "length pre div 8 \<le> (length pre + length (long_bits n)) div 8" by (simp add: div_le_mono)
  show ?case
  proof (cases "n < 15")
    case True
    then have lb: "long_bits n = nbits 4 n" by (simp add: long_bits.simps)
    obtain r' where "getBits src (int 4) r = Inr (word_of_nat n, r')" "reader_at r' (length pre + 4)"
      by (rule getBits_nbits [of src pre 4 n post r]) (use "1.prems" lb True le in auto)
    then show ?thesis using True lb
      by (subst lzsLongLength.simps) (simp add: word_of_nat_32)
  next
    case False
    then have lb: "long_bits n = nbits 4 15 @ long_bits (n - 15)"
      by (subst long_bits.simps) (simp add: nbits_ones)
    obtain r1 where r1: "getBits src (int 4) r = Inr (word_of_nat 15, r1)" "reader_at r1 (length pre + 4)"
      by (rule getBits_nbits [of src pre 4 15 "long_bits (n - 15) @ post" r]) (use "1.prems" lb le in auto)
    have "\<exists>r'. lzsLongLength src r1 (m + 15) = Inr (m + 15 + (n - 15), r') \<and>
        reader_at r' (length (pre @ nbits 4 15) + length (long_bits (n - 15)))"
      by (rule "1.IH") (use False "1.prems" lb r1 in \<open>auto simp: add.assoc\<close>)
    then show ?thesis using False r1 lb
      by (subst lzsLongLength.simps) (auto simp: add.assoc)
  qed
qed


text \<open>\<open>room src t\<close>: enough input for a read at bit position \<open>t\<close>; it is inherited by earlier positions.\<close>

definition room :: "byte list \<Rightarrow> nat \<Rightarrow> bool" where
  "room src t \<longleftrightarrow> t div 8 + 2 \<le> length src"

lemma room_le: "room src t \<Longrightarrow> u \<le> t \<Longrightarrow> room src u"
  unfolding room_def using div_le_mono [of u t 8] by linarith

lemma lzsLength_bits:
  assumes st: "stream_bits src = pre @ length_bits n @ post" and r: "reader_at r (length pre)"
    and rm: "room src (length pre + length (length_bits n))" and n: "2 \<le> n"
  shows "\<exists>r'. lzsLength src r = Inr (n, r') \<and> reader_at r' (length pre + length (length_bits n))"
proof -
  have rm0: "room src (length pre)" using rm by (rule room_le) simp
  consider (short) "n < 5" | (medium) "5 \<le> n" "n < 8" | (long) "8 \<le> n" by linarith
  then show ?thesis
  proof cases
    case short
    then have lb: "length_bits n = nbits 2 (n - 2)" by (simp add: length_bits_def)
    obtain r1 where "getBits src (int 2) r = Inr (word_of_nat (n - 2), r1)" "reader_at r1 (length pre + 2)"
      by (rule getBits_nbits [of src pre 2 "n - 2" post r]) (use st r rm0 lb short in \<open>auto simp: room_def\<close>)
    then show ?thesis using short n lb by (auto simp: lzsLength_def word_of_nat_32 simp del: of_nat_diff)
  next
    case medium
    then have lb: "length_bits n = nbits 2 3 @ nbits 2 (n - 5)" by (simp add: length_bits_def nbits_ones)
    have rm1: "room src (length pre + 2)" using rm by (rule room_le) (simp add: lb)
    obtain r1 where r1: "getBits src (int 2) r = Inr (word_of_nat 3, r1)" "reader_at r1 (length pre + 2)"
      by (rule getBits_nbits [of src pre 2 3 "nbits 2 (n - 5) @ post" r])
         (use st r rm0 lb in \<open>auto simp: room_def\<close>)
    obtain r2 where "getBits src (int 2) r1 = Inr (word_of_nat (n - 5), r2)" "reader_at r2 (length (pre @ nbits 2 3) + 2)"
      by (rule getBits_nbits [of src "pre @ nbits 2 3" 2 "n - 5" post r1])
         (use st r1 rm1 lb medium in \<open>auto simp: room_def\<close>)
    moreover from this(2) have "reader_at r2 (length pre + 4)" by (simp add: eval_nat_numeral)
    ultimately show ?thesis using medium r1 lb
      by (auto simp: lzsLength_def word_of_nat_32 simp del: of_nat_diff)
  next
    case long
    then have lb: "length_bits n = nbits 2 3 @ nbits 2 3 @ long_bits (n - 8)"
      by (simp add: length_bits_def nbits_ones)
    have rm1: "room src (length pre + 2)" using rm by (rule room_le) (simp add: lb)
    obtain r1 where r1: "getBits src (int 2) r = Inr (word_of_nat 3, r1)" "reader_at r1 (length pre + 2)"
      by (rule getBits_nbits [of src pre 2 3 "nbits 2 3 @ long_bits (n - 8) @ post" r])
         (use st r rm0 lb in \<open>auto simp: room_def\<close>)
    obtain r2 where r2: "getBits src (int 2) r1 = Inr (word_of_nat 3, r2)" "reader_at r2 (length (pre @ nbits 2 3) + 2)"
      by (rule getBits_nbits [of src "pre @ nbits 2 3" 2 3 "long_bits (n - 8) @ post" r1])
         (use st r1 rm1 lb in \<open>auto simp: room_def\<close>)
    from r2(2) have "reader_at r2 (length pre + 4)" by (simp add: eval_nat_numeral)
    with r2 have r2: "getBits src (int 2) r1 = Inr (word_of_nat 3, r2)" "reader_at r2 (length pre + 4)"
      by simp_all
    have "\<exists>r'. lzsLongLength src r2 8 = Inr (8 + (n - 8), r') \<and>
        reader_at r' (length (pre @ nbits 2 3 @ nbits 2 3) + length (long_bits (n - 8)))"
      by (rule lzsLongLength_bits) (use st r2 rm lb in \<open>auto simp: room_def add.assoc\<close>)
    moreover have "length (pre @ nbits 2 3 @ nbits 2 3) + length (long_bits (n - 8)) =
        length pre + length (length_bits n)" by (simp add: lb)
    ultimately have "\<exists>r'. lzsLongLength src r2 8 = Inr (8 + (n - 8), r') \<and>
        reader_at r' (length pre + length (length_bits n))" by (simp only:)
    then show ?thesis using long r1(1) r2(1) by (auto simp: lzsLength_def)
  qed
qed

lemma unat_offset_short:
  "k < 128 \<Longrightarrow> unat (ucast ((word_of_nat (384 + k) :: u32) AND 0x7f) :: u16) = k"
proof -
  assume k: "k < 128"
  have "(word_of_nat (384 + k) :: u32) AND 0x7f = take_bit 7 (word_of_nat (384 + k))"
    by (simp add: take_bit_eq_mask mask_eq_exp_minus_1)
  also have "\<dots> = word_of_nat (take_bit 7 (384 + k))" by (rule take_bit_of_nat)
  also have "take_bit 7 (384 + k) = k"
    using k by (simp add: take_bit_eq_mod, subst mod_add_left_eq [symmetric], simp)
  finally show ?thesis using k by (simp add: unsigned_ucast_eq unsigned_of_nat take_bit_nat_eq_self)
qed

lemma unat_offset_long:
  assumes "k < 2048"
  shows "unat (push_bit 4 (ucast ((word_of_nat (256 + k div 16) :: u32) AND 0x7f) :: u16) OR
           ucast (word_of_nat (k mod 16) :: u32)) = k"
proof -
  have k16: "k div 16 < 128" using assms by simp
  have "(word_of_nat (256 + k div 16) :: u32) AND 0x7f = take_bit 7 (word_of_nat (256 + k div 16))"
    by (simp add: take_bit_eq_mask mask_eq_exp_minus_1)
  also have "\<dots> = word_of_nat (take_bit 7 (256 + k div 16))" by (rule take_bit_of_nat)
  also have "take_bit 7 (256 + k div 16) = k div 16"
    using k16 by (simp add: take_bit_eq_mod, subst mod_add_left_eq [symmetric], simp)
  finally have a: "(word_of_nat (256 + k div 16) :: u32) AND 0x7f = word_of_nat (k div 16)" .
  have "push_bit 4 (word_of_nat (k div 16) :: u16) OR word_of_nat (k mod 16) = word_of_nat k"
  proof -
    have "push_bit 4 (k div 16) OR (k mod 16) = k"
    proof -
      have "push_bit 4 (drop_bit 4 k) OR take_bit 4 k = k"
        by (rule bit_eqI) (auto simp: bit_simps)
      then show ?thesis by (simp add: take_bit_eq_mod drop_bit_eq_div)
    qed
    then show ?thesis by (metis of_nat_or_eq push_bit_of_nat)
  qed
  then show ?thesis using assms unfolding a
    by (simp add: unsigned_of_nat take_bit_nat_eq_self unsigned_ucast_eq)
qed


lemma lzsOffset_bits:
  assumes st: "stream_bits src = pre @ offset_bits k @ post" and r: "reader_at r (length pre)"
    and rm: "room src (length pre + length (offset_bits k))" and k: "1 \<le> k" "k < 2048"
  shows "\<exists>d r1 r' off. getBits src 9 r = Inr (d, r1) \<and> \<not> d < 0x100 \<and> d \<noteq> 0x180 \<and>
    lzsOffset src r1 d = Inr (off, r') \<and> unat off = k \<and> reader_at r' (length pre + length (offset_bits k))"
proof -
  have rm0: "room src (length pre)" using rm by (rule room_le) simp
  show ?thesis
  proof (cases "k < 128")
    case True
    note ob = offset_bits_short [OF True]
    obtain r1 where r1: "getBits src (int 9) r = Inr (word_of_nat (384 + k), r1)" "reader_at r1 (length pre + 9)"
      by (rule getBits_nbits [of src pre 9 "384 + k" post r]) (use st r rm0 ob True in \<open>auto simp: room_def\<close>)
    have "lzsOffset src r1 (word_of_nat (384 + k)) = Inr (ucast ((word_of_nat (384 + k) :: u32) AND 0x7f), r1)"
      using True by (simp add: lzsOffset_def Let_def word_of_nat_32 del: of_nat_add)
    moreover have "\<not> (word_of_nat (384 + k) :: u32) < 0x100" "(word_of_nat (384 + k) :: u32) \<noteq> 0x180"
      using True k by (simp_all add: word_of_nat_32 del: of_nat_add)
    ultimately show ?thesis using r1 ob unat_offset_short [OF True] by (auto simp del: of_nat_add)
  next
    case False
    then have "128 \<le> k" by simp
    note ob = offset_bits_long(2) [OF this k(2)]
    have k16: "k div 16 < 128" using k by simp
    have rm1: "room src (length pre + 9)" using rm by (rule room_le) (simp add: ob)
    obtain r1 where r1: "getBits src (int 9) r = Inr (word_of_nat (256 + k div 16), r1)" "reader_at r1 (length pre + 9)"
      by (rule getBits_nbits [of src pre 9 "256 + k div 16" "nbits 4 (k mod 16) @ post" r])
         (use st r rm0 ob k16 in \<open>auto simp: room_def\<close>)
    obtain r2 where r2: "getBits src (int 4) r1 = Inr (word_of_nat (k mod 16), r2)"
        "reader_at r2 (length (pre @ nbits 9 (256 + k div 16)) + 4)"
      by (rule getBits_nbits [of src "pre @ nbits 9 (256 + k div 16)" 4 "k mod 16" post r1])
         (use st r1 rm1 ob in \<open>auto simp: room_def\<close>)
    have "\<not> (word_of_nat (256 + k div 16) :: u32) < 0x100" "(word_of_nat (256 + k div 16) :: u32) \<noteq> 0x180"
        "(word_of_nat (256 + k div 16) :: u32) < 0x180"
      using k16 by (simp_all add: word_of_nat_32 del: of_nat_add)
    then show ?thesis using r1 r2 ob unat_offset_long [OF k(2)]
      by (auto simp: lzsOffset_def Let_def add.commute simp del: of_nat_add)
  qed
qed

lemma lzsCopy_correct:
  assumes "1 \<le> k" and "k \<le> m" and "m + n \<le> length dst"
  shows "\<exists>dst'. lzsCopy n dst m k = (dst', m + n) \<and> length dst' = length dst \<and>
    take (m + n) dst' = copy_match n (take m dst) k"
  using assms
proof (induction n arbitrary: dst m)
  case 0
  then show ?case by simp
next
  case (Suc n)
  let ?dst = "dst[m := dst ! (m - k)]"
  have "take (Suc m) ?dst = take m dst @ [dst ! (m - k)]"
    using Suc.prems by (simp add: take_Suc_conv_app_nth)
  moreover have "take m dst ! (length (take m dst) - k) = dst ! (m - k)"
    using Suc.prems by (simp add: min_def)
  moreover have "\<exists>dst'. lzsCopy n ?dst (Suc m) k = (dst', Suc m + n) \<and> length dst' = length ?dst \<and>
      take (Suc m + n) dst' = copy_match n (take (Suc m) ?dst) k"
    by (rule Suc.IH) (use Suc.prems in auto)
  ultimately show ?case by simp
qed

text \<open>The three ways a round of the outer loop goes on a well-formed stream.\<close>

lemma lzsDecLoop_literal:
  assumes "getBits src 9 r = Inr (d, r')" and "d < 0x100" and "m < length dst"
  shows "lzsDecLoop src dst m r = lzsDecLoop src (dst[m := ucast d]) (m + 1) r'"
  using assms
  by (subst (1 2) lzsDecLoop.simps, subst lzsLiterals.simps)
     (auto simp: res_bind_def split: sum.splits prod.splits)

lemma lzsDecLoop_match:
  assumes "getBits src 9 r = Inr (d, r1)" and "\<not> d < 0x100" and "d \<noteq> 0x180"
    and "lzsOffset src r1 d = Inr (off, r2)" and "lzsLength src r2 = Inr (n, r3)"
    and "unat off = k" and "1 \<le> k" and "k \<le> m" and "m + n \<le> length dst"
    and "lzsCopy n dst m k = (dst', m')"
  shows "lzsDecLoop src dst m r = lzsDecLoop src dst' m' r3"
  using assms by (subst lzsDecLoop.simps, subst lzsLiterals.simps) auto

lemma lzsDecLoop_end:
  assumes "getBits src 9 r = Inr (0x180, r')"
  shows "lzsDecLoop src dst m r = Inr (dst, m)"
  using assms by (subst lzsDecLoop.simps, subst lzsLiterals.simps) simp


text \<open>One token of the stream at the start of the loop: what it does to the output and where it leaves the reader.\<close>

lemma lzsDecLoop_literal_token:
  assumes st: "stream_bits src = pre @ token_bits (Literal b) @ rest" and r: "reader_at r (length pre)"
    and rm: "room src (length pre)" and m: "m < length dst"
  obtains r' where "lzsDecLoop src dst m r = lzsDecLoop src (dst[m := b]) (m + 1) r'"
    and "reader_at r' (length (pre @ token_bits (Literal b)))" and "take (m + 1) (dst[m := b]) = take m dst @ [b]"
proof -
  have b: "unat b < 256" by (rule order_less_le_trans [OF unsigned_less]) simp
  have st': "stream_bits src = pre @ nbits 9 (unat b) @ rest" using st literal_nbits [of b] by (simp del: token_bits.simps)
  obtain r' where r': "getBits src (int 9) r = Inr (word_of_nat (unat b), r')" "reader_at r' (length pre + 9)"
    by (rule getBits_nbits [of src pre 9 "unat b" _ r]) (use st' r rm b in \<open>auto simp: room_def\<close>)
  have "(ucast (word_of_nat (unat b) :: u32) :: byte) = b" by (rule bit_word_eqI) (simp add: bit_simps)
  moreover have "(word_of_nat (unat b) :: u32) < 0x100" by (subst word_of_nat_less_numeral_32) (use b in auto)
  ultimately have "lzsDecLoop src dst m r = lzsDecLoop src (dst[m := b]) (m + 1) r'"
    using lzsDecLoop_literal [of src r _ r' m dst] r'(1) m by simp
  moreover have "length (token_bits (Literal b)) = 9" using literal_nbits [of b] by simp
  ultimately show ?thesis using that r'(2) m by (simp add: take_Suc_conv_app_nth del: token_bits.simps)
qed

lemma lzsDecLoop_match_token:
  assumes st: "stream_bits src = pre @ token_bits (Match k n) @ rest" and r: "reader_at r (length pre)"
    and rm: "room src (length (pre @ token_bits (Match k n)))" and v: "1 \<le> k" "k \<le> m" "k < 2048" "2 \<le> n" "m + n \<le> length dst"
  obtains r' dst' where "lzsDecLoop src dst m r = lzsDecLoop src dst' (m + n) r'"
    and "reader_at r' (length (pre @ token_bits (Match k n)))" and "length dst' = length dst" and "take (m + n) dst' = copy_match n (take m dst) k"
proof -
  have st': "stream_bits src = pre @ offset_bits k @ length_bits n @ rest" using st by simp
  have rm1: "room src (length pre + length (offset_bits k))" using rm by (rule room_le) simp
  have rm2: "room src (length pre + length (offset_bits k) + length (length_bits n))" using rm by (rule room_le) simp
  obtain d r1 off r2 where o: "getBits src 9 r = Inr (d, r1)" "\<not> d < 0x100" "d \<noteq> 0x180"
      "lzsOffset src r1 d = Inr (off, r2)" "unat off = k" "reader_at r2 (length pre + length (offset_bits k))"
    using lzsOffset_bits [OF st' r rm1 v(1,3)] by blast
  obtain r3 where l: "lzsLength src r2 = Inr (n, r3)" "reader_at r3 (length (pre @ offset_bits k) + length (length_bits n))"
    using lzsLength_bits [of src "pre @ offset_bits k" n _ r2] st' o(6) rm2 v(4) by (auto simp: add.assoc)
  obtain dst1 where c: "lzsCopy n dst m k = (dst1, m + n)" "length dst1 = length dst" "take (m + n) dst1 = copy_match n (take m dst) k"
    using lzsCopy_correct [OF v(1,2,5)] by blast
  have "lzsDecLoop src dst m r = lzsDecLoop src dst1 (m + n) r3" using lzsDecLoop_match o l(1) v c(1) by blast
  with l(2) c(2,3) that show ?thesis by (simp add: add.assoc)
qed

lemma lzsDecLoop_tokens:
  assumes "stream_bits src = pre @ tokens_bits ts @ end_bits @ post" and "reader_at r (length pre)"
    and "room src (length pre + length (tokens_bits ts))" and "valid_from m ts"
    and "m + tokens_size ts \<le> length dst"
  shows "\<exists>dst'. lzsDecLoop src dst m r = Inr (dst', m + tokens_size ts) \<and> length dst' = length dst \<and>
    take (m + tokens_size ts) dst' = expand_from (take m dst) ts"
  using assms
proof (induction ts arbitrary: pre r m dst)
  case Nil
  obtain r' where "getBits src (int 9) r = Inr (word_of_nat 384, r')" "reader_at r' (length pre + 9)"
    by (rule getBits_nbits [of src pre 9 384 post r])
       (use Nil.prems in \<open>auto simp: room_def end_bits_nbits\<close>)
  then show ?case by (simp add: lzsDecLoop_end)
next
  case (Cons t ts)
  have st: "stream_bits src = pre @ token_bits t @ tokens_bits ts @ end_bits @ post" using Cons.prems(1) by simp
  have rm: "room src (length pre)" "room src (length (pre @ token_bits t))" using Cons.prems(3) by (rule room_le, simp)+
  have rest: "stream_bits src = (pre @ token_bits t) @ tokens_bits ts @ end_bits @ post"
      "room src (length (pre @ token_bits t) + length (tokens_bits ts))" using st Cons.prems(3) by (simp_all add: add.assoc)
  show ?case
  proof (cases t)
    case (Literal b)
    have m: "m < length dst" using Cons.prems(5) Literal by simp
    obtain r' where s: "lzsDecLoop src dst m r = lzsDecLoop src (dst[m := b]) (m + 1) r'"
      "reader_at r' (length (pre @ token_bits t))" "take (m + 1) (dst[m := b]) = take m dst @ [b]"
      using lzsDecLoop_literal_token [OF st [unfolded Literal] Cons.prems(2) rm(1) m] Literal by blast
    have "valid_from (m + 1) ts" "m + 1 + tokens_size ts \<le> length (dst[m := b])" using Cons.prems(4,5) Literal by simp_all
    from Cons.IH [OF rest(1) s(2) rest(2) this] s(1,3) Literal show ?thesis by simp
  next
    case (Match k n)
    have v: "1 \<le> k" "k \<le> m" "k < 2048" "2 \<le> n" "m + n \<le> length dst" and vf: "valid_from (m + n) ts"
      using Cons.prems(4,5) Match by auto
    obtain r' dst1 where s: "lzsDecLoop src dst m r = lzsDecLoop src dst1 (m + n) r'"
      "reader_at r' (length (pre @ token_bits t))" "length dst1 = length dst" "take (m + n) dst1 = copy_match n (take m dst) k"
      using lzsDecLoop_match_token [OF st [unfolded Match] Cons.prems(2) rm(2) [unfolded Match] v] Match by blast
    have "m + n + tokens_size ts \<le> length dst1" using Cons.prems(5) Match s(3) by (simp add: add.assoc)
    from Cons.IH [OF rest(1) s(2) rest(2) vf this] s(1,3,4) Match show ?thesis by (simp add: add.assoc)
  qed
qed

text \<open>Any input that carries a valid token stream and its end marker is decoded to it.\<close>

lemma lzsDecompress_tokens:
  assumes "stream_bits src = tokens_bits ts @ end_bits @ post"
    and "length (tokens_bits ts) div 8 + 2 \<le> length src"
    and "valid_from 0 ts" and "tokens_size ts \<le> length dst"
  shows "\<exists>dst'. lzsDecompress dst src = Inr (dst', tokens_size ts) \<and> length dst' = length dst \<and>
    take (tokens_size ts) dst' = expand_from [] ts"
  using lzsDecLoop_tokens [of src "[]" ts post "\<lparr>si = 0, bitsLeft = 8\<rparr>" 0 dst] assms
  by (simp add: lzsDecompress_def reader_at_def room_def)

subsection \<open>Arbitrary input\<close>

lemma lzsLiterals_bounds:
  "lzsLiterals src dst m r d = Inr (dst', m', r', d') \<Longrightarrow> m \<le> length dst \<Longrightarrow>
   length dst' = length dst \<and> m \<le> m' \<and> m' \<le> length dst \<and> take m dst' = take m dst"
proof (induction src dst m r d rule: lzsLiterals.induct)
  case (1 src dst m r d)
  show ?case
  proof (cases "d < 0x100 \<and> m \<noteq> length dst")
    case False
    with "1.prems" show ?thesis by (auto simp: lzsLiterals.simps split: if_splits)
  next
    case True
    with "1.prems" obtain d2 r2 where g: "getBits src 9 r = Inr (d2, r2)"
      and l: "lzsLiterals src (dst[m := ucast d]) (m + 1) r2 d2 = Inr (dst', m', r', d')"
      by (auto simp: lzsLiterals.simps [of src dst m r d] res_bind_Inr_iff)
    have "length dst' = length (dst[m := ucast d]) \<and> m + 1 \<le> m' \<and> m' \<le> length (dst[m := ucast d]) \<and>
        take (m + 1) dst' = take (m + 1) (dst[m := ucast d])"
      using "1.IH" [OF _ _ g refl l] True "1.prems" by simp
    then show ?thesis by (auto dest: arg_cong [where f = "take m"] simp: min_def)
  qed
qed

lemma lzsDecLoop_bounds:
  "lzsDecLoop src dst m r = Inr (dst', n) \<Longrightarrow> m \<le> length dst \<Longrightarrow>
   length dst' = length dst \<and> m \<le> n \<and> n \<le> length dst"
proof (induction src dst m r rule: lzsDecLoop.induct)
  case (1 src dst m r)
  obtain d r1 where g: "getBits src 9 r = Inr (d, r1)"
    using "1.prems" by (auto simp: lzsDecLoop.simps [of src dst m r] res_bind_Inr_iff)
  obtain dst1 m1 r2 d1 where l: "lzsLiterals src dst m r1 d = Inr (dst1, m1, r2, d1)"
    using "1.prems"(1) g by (auto simp: lzsDecLoop.simps [of src dst m r] res_bind_Inr_iff)
  note b = lzsLiterals_bounds [OF l "1.prems"(2)]
  show ?case
  proof (cases "d1 = 0x180")
    case True
    then show ?thesis using "1.prems"(1) g l b by (auto simp: lzsDecLoop.simps [of src dst m r])
  next
    case False
    then obtain off r3 k r4 where o: "lzsOffset src r2 d1 = Inr (off, r3)" "lzsLength src r3 = Inr (k, r4)"
      and ok: "off \<noteq> 0" "unat off \<le> m1" "k + m1 \<le> length dst1"
      and rec: "(case lzsCopy k dst1 m1 (unat off) of (dst', m') \<Rightarrow> lzsDecLoop src dst' m' r4) = Inr (dst', n)"
      using "1.prems"(1) g l
      by (auto simp: lzsDecLoop.simps [of src dst m r] res_bind_Inr_iff split: if_splits)
    have "1 \<le> unat off" using ok(1) by (metis less_one not_le unat_eq_zero)
    then obtain dst2 where c: "lzsCopy k dst1 m1 (unat off) = (dst2, m1 + k)" "length dst2 = length dst1"
      using lzsCopy_correct [of "unat off" m1 k dst1] ok by (auto simp: add.commute)
    have "length dst' = length dst2 \<and> m1 + k \<le> n \<and> n \<le> length dst2"
      using "1.IH" [OF g refl l _ _ _ _ o(1) _ o(2)] False ok c rec by (auto simp: add.commute)
    then show ?thesis using b c by simp
  qed
qed

end
