(* ===== verification/Lzs_Codec.thy ===== *)
theory Lzs_Codec
  imports Lzs_Encoder Lzs_Decoder
begin

text \<open>
  The two halves of the LZS codec together: what \<open>lzsCompress\<close> produces is a complete LZS
  stream for its input, it always returns, and \<open>lzsDecompress\<close> gives the input back.  The
  contract is stated as the locale \<open>packet_codec\<close>, which the packet path relies on.
\<close>

subsection \<open>The tail of the encoder\<close>

lemma emits_nil: "emits Inr []"
  by (auto simp: emits_def wrote_def pending_def)

lemma lzsTail_correct:
  assumes "p \<le> length src" and "length src \<le> p + 2" and "table_inv src p table"
  shows "\<exists>ts. valid_from p ts \<and> expand_from (take p src) ts = src \<and> p + tokens_size ts = length src \<and>
    emits (lzsTail src p table) (tokens_bits ts)"
proof -
  consider (two) "p + 2 = length src" | (one) "p + 1 = length src" | (none) "p = length src"
    using assms by linarith
  then show ?thesis
  proof cases
    case two
    let ?h = "hash16 src p"
    have h: "hashAt src p = Inr ?h" by (rule hashAt_hash16) (use two in simp)
    show ?thesis
    proof (cases "table ?h \<noteq> lzsInvalidOfs \<and> unat (table ?h) + lzsMaxHistory > p")
      case True
      then have gm: "good_match src p 2 (table ?h)"
        using assms(3) hash16_eqD [of src "unat (table ?h)" p]
        by (auto simp: good_match_def table_inv_def link_def agree_def less_2_cases_iff)
      note m = match_token [OF gm]
      have "putLength 2 = putBits 2 0" by (intro ext) (simp add: putLength_def)
      then have "lzsTail src p table = (\<lambda>w. res_bind (putOffset (int p - int (unat (table ?h))) w) (putLength (int (unat (2 :: u16)))))"
        using two h True by (intro ext) (simp add: lzsTail_def Let_def)
      then show ?thesis using m two by (intro exI [of _ "[Match (p - unat (table ?h)) 2]"]) simp
    next
      case False
      have "emits (\<lambda>w. res_bind (putBits 9 (ucast (src ! p)) w) (putBits 9 (ucast (src ! (p + 1)))))
          (token_bits (Literal (src ! p)) @ token_bits (Literal (src ! (p + 1))))"
        by (rule emits_bind) (rule emits_literal)+
      moreover have "lzsTail src p table = (\<lambda>w. res_bind (putBits 9 (ucast (src ! p)) w) (putBits 9 (ucast (src ! (p + 1)))))"
        using two h False by (intro ext) (auto simp: lzsTail_def Let_def)
      moreover have "take p src @ [src ! p, src ! (p + 1)] = src"
        using two take_Suc_conv_app_nth [of p src] take_Suc_conv_app_nth [of "p + 1" src] by simp
      ultimately show ?thesis using two
        by (intro exI [of _ "[Literal (src ! p), Literal (src ! (p + 1))]"]) simp
    qed
  next
    case one
    then have "lzsTail src p table = putBits 9 (ucast (src ! p))"
      by (intro ext) (simp add: lzsTail_def)
    moreover have "take p src @ [src ! p] = src" using one take_Suc_conv_app_nth [of p src] by simp
    ultimately show ?thesis using one emits_literal [of "src ! p"]
      by (intro exI [of _ "[Literal (src ! p)]"]) simp
  next
    case none
    then have "lzsTail src p table = Inr" by (intro ext) (simp add: lzsTail_def)
    then show ?thesis using none emits_nil by (intro exI [of _ "[]"]) simp
  qed
qed

text \<open>The end marker with its seven padding bits.\<close>

lemma emits_end: "emits (putBits 16 0xc000) (end_bits @ replicate 7 False)"
proof -
  have "emits (putBits 16 (word_of_nat 49152)) (nbits 16 49152)" by (rule emits_putBits) simp_all
  moreover have "nbits (7 + 9) 49152 = nbits 9 (49152 div 2 ^ 7) @ nbits 7 49152"
    by (rule nbits_split) simp
  moreover have "nbits 7 49152 = nbits 7 0" by (rule nbits_mod' [of 128]) simp_all
  moreover have "nbits 7 0 = replicate 7 False" 
    by (rule nth_equalityI) (simp_all add: nbits_def nth_word_bits)
  moreover have "nbits 9 384 = end_bits" by (simp add: end_bits_nbits)
  ultimately show ?thesis by simp
qed

subsection \<open>The whole encoder\<close>

text \<open>\<open>lzs_stream out ts\<close>: the bytes \<open>out\<close> carry the tokens, the end marker and some zero padding.\<close>

definition lzs_stream :: "byte list \<Rightarrow> lzs_token list \<Rightarrow> bool" where
  "lzs_stream out ts \<longleftrightarrow> (\<exists>k\<le>7. stream_bits out = tokens_bits ts @ end_bits @ replicate k False) \<and>
     length (tokens_bits ts) div 8 + 2 = length out"

lemma wrote_stream:
  assumes "wrote w (tokens_bits ts @ end_bits @ replicate 7 False)"
  shows "lzs_stream (take (outpos w) (wdst w)) ts" and "outpos w \<le> length (wdst w)"
proof -
  let ?out = "take (outpos w) (wdst w)"
  have p: "tokens_bits ts @ end_bits @ replicate 7 False = stream_bits ?out @ word_bits (nrOutbits w) (outbits w)"
    and o: "outpos w \<le> length (wdst w)" and n: "nrOutbits w < 8"
    using assms by (auto simp: wrote_def pending_def)
  show "outpos w \<le> length (wdst w)" by (rule o)
  have e: "length end_bits = 9" by (simp add: end_bits_def)
  have len: "length (tokens_bits ts) + 16 = 8 * outpos w + nrOutbits w"
    using arg_cong [OF p, of length] o e by simp
  let ?k = "7 - nrOutbits w"
  have "stream_bits ?out = take (8 * outpos w) (tokens_bits ts @ end_bits @ replicate 7 False)"
    using p o by simp
  also have "\<dots> = tokens_bits ts @ end_bits @ replicate ?k False"
  proof -
    have "8 * outpos w - length (tokens_bits ts) - 9 = ?k" "length (tokens_bits ts) \<le> 8 * outpos w"
        "9 \<le> 8 * outpos w - length (tokens_bits ts)"
      using len n by linarith+
    then show ?thesis using e by simp
  qed
  finally show "lzs_stream ?out ts" unfolding lzs_stream_def using len n o by auto
qed

lemma lzsCompress_cases:
  assumes "length src \<le> 65536"
  obtains (compressed) ts dst' n where "lzsCompress dst src = Some (Inr (dst', n))" "valid_from 0 ts"
      "expand_from [] ts = src" "lzs_stream (take n dst') ts" "n \<le> length dst'" "length dst' = length dst"
  | (full) "lzsCompress dst src = Some (Inl LZSOutputFull)" "8 * length dst < 9 * length src + 16"
proof -
  let ?w = "\<lparr>wdst = dst, outpos = 0, outbits = 0, nrOutbits = 0\<rparr> :: lzs_writer"
  let ?loop = "lzsEncLoop src 0 (\<lambda>_. lzsInvalidOfs) (\<lambda>_. 0) ?w"
  have "wrote ?w []" by (simp add: wrote_def pending_def)
  then have "enc_result src 0 [] (length (wdst ?w)) ?loop"
    using lzsEncLoop_correct [OF table_inv_empty chain_inv_empty _ assms] by blast
  then consider (ok) ts p table w where "?loop = Some (Inr (p, table, w))" "valid_from 0 ts"
        "expand_from [] ts = take p src" "p = tokens_size ts" "p \<le> length src" "length src \<le> p + 2"
        "table_inv src p table" "wrote w (tokens_bits ts)" "length (wdst w) = length dst"
    | (nospace) "?loop = Some (Inl LZSOutputFull)" "8 * length dst < 9 * length src"
    by (auto simp: enc_result_def)
  then show ?thesis
  proof cases
    case nospace
    then show ?thesis using assms by (intro full) (simp_all add: lzsCompress_def)
  next
    case ok
    obtain us where us: "valid_from p us" "expand_from (take p src) us = src" "p + tokens_size us = length src"
        "emits (lzsTail src p table) (tokens_bits us)"
      using lzsTail_correct [OF ok(5,6,7)] by blast
    let ?ts = "ts @ us"
    have v: "valid_from 0 ?ts" "expand_from [] ?ts = src" "tokens_size ?ts = length src"
      using us ok by (simp_all add: valid_from_append expand_from_append)
    have fin: "emits (\<lambda>w. res_bind (lzsTail src p table w) (putBits 16 0xc000))
        (tokens_bits us @ end_bits @ replicate 7 False)"
      using emits_bind [OF us(4) emits_end] by simp
    have res: "lzsCompress dst src = Some (res_bind (res_bind (lzsTail src p table w) (putBits 16 0xc000))
        (\<lambda>w. Inr (wdst w, outpos w)))"
      using assms ok(1) by (simp add: lzsCompress_def res_bind_def split: sum.splits)
    let ?fits = "(length (tokens_bits ts) + length (tokens_bits us @ end_bits @ replicate 7 False)) div 8 \<le> length (wdst w)"
    show ?thesis
    proof (cases ?fits)
      case True
      then obtain w' where w': "res_bind (lzsTail src p table w) (putBits 16 0xc000) = Inr w'"
          "wrote w' (tokens_bits ?ts @ end_bits @ replicate 7 False)" "length (wdst w') = length (wdst w)"
        using fin ok(8) unfolding emits_def by (metis append_assoc tokens_bits_simps(3))
      show ?thesis
        by (rule compressed [of "wdst w'" "outpos w'" ?ts])
          (use w' res v ok(9) wrote_stream [OF w'(2)] in simp_all)
    next
      case False
      then have "res_bind (lzsTail src p table w) (putBits 16 0xc000) = Inl LZSOutputFull"
        using fin ok(8) unfolding emits_def by metis
      moreover have "length (tokens_bits ?ts) \<le> 9 * length src"
        using length_tokens_bits [OF v(1)] v(3) by simp
      ultimately show ?thesis using False res ok(9) by (intro full) (auto simp: end_bits_def)
    qed
  qed
qed

lemma lzsDecompress_stream:
  assumes "lzs_stream out ts" and "valid_from 0 ts" and "tokens_size ts \<le> length buf"
  shows "\<exists>buf'. lzsDecompress buf out = Inr (buf', tokens_size ts) \<and> length buf' = length buf \<and>
    take (tokens_size ts) buf' = expand_from [] ts"
  using assms lzsDecompress_tokens [of out ts _ buf] unfolding lzs_stream_def by auto

lemma lzsCompress_decompress:
  assumes "lzsCompress dst src = Some (Inr (dst', n))" and "length src \<le> length buf"
  shows "\<exists>buf'. lzsDecompress buf (take n dst') = Inr (buf', length src) \<and> length buf' = length buf \<and>
    take (length src) buf' = src"
proof -
  have "length src \<le> 65536" using assms(1) by (auto simp: lzsCompress_def split: if_splits)
  then show ?thesis
  proof (cases rule: lzsCompress_cases [of src dst])
    case (compressed ts dst2 n2)
    have "tokens_size ts = length src" using arg_cong [OF compressed(3), of length] by simp
    then show ?thesis using compressed assms lzsDecompress_stream [of "take n dst'" ts buf] by simp
  qed (use assms in simp)
qed

lemma lzsCompress_outcome:
  "(\<exists>dst' n. lzsCompress dst src = Some (Inr (dst', n)) \<and> n \<le> length dst \<and> length dst' = length dst) \<or>
   lzsCompress dst src = Some (Inl LZSOutputFull)"
proof (cases "length src \<le> 65536")
  case True
  then show ?thesis by (cases rule: lzsCompress_cases [of src dst]) simp_all
next
  case False
  then show ?thesis by (simp add: lzsCompress_def)
qed

subsection \<open>The contract of a packet codec\<close>

text \<open>
  What the packet path relies on: compression always returns and stays within its buffer;
  decompression stays within its buffer and undoes compression, where the buffer given to
  the compressor satisfies the codec's own demand \<open>fits\<close> (length of the input, length of the
  buffer).
\<close>

locale packet_codec =
  fixes compress :: "byte list \<Rightarrow> byte list \<Rightarrow> ('e + byte list \<times> nat) option"
    and decompress :: "byte list \<Rightarrow> byte list \<Rightarrow> 'e + byte list \<times> nat"
    and fits :: "nat \<Rightarrow> nat \<Rightarrow> bool"
  assumes compress_total: "\<exists>r. compress src dst = Some r"
    and compress_bounds: "compress src dst = Some (Inr (dst', n)) \<Longrightarrow> n \<le> length dst' \<and> length dst' = length dst"
    and decompress_bounds: "decompress src buf = Inr (buf', n) \<Longrightarrow> n \<le> length buf' \<and> length buf' = length buf"
    and compress_inverse: "compress src dst = Some (Inr (dst', n)) \<Longrightarrow> fits (length src) (length dst) \<Longrightarrow> length src \<le> length buf \<Longrightarrow>
      \<exists>buf'. decompress (take n dst') buf = Inr (buf', length src) \<and> take (length src) buf' = src"
begin

text \<open>Compressed data determines its source.\<close>

lemma compress_injective:
  assumes "compress a d = Some (Inr (d', n))" and "compress b e = Some (Inr (e', m))"
    and "take n d' = take m e'" and "length a = length b"
    and "fits (length a) (length d)" and "fits (length b) (length e)"
  shows "a = b"
proof -
  let ?buf = "replicate (length a) (0 :: byte)"
  from compress_inverse [OF assms(1,5), of ?buf] obtain x
    where x: "decompress (take n d') ?buf = Inr (x, length a)" "take (length a) x = a" by auto
  from compress_inverse [OF assms(2,6), of ?buf] assms(4) obtain y
    where y: "decompress (take m e') ?buf = Inr (y, length b)" "take (length b) y = b" by auto
  have "(Inr (x, length a) :: 'e + byte list \<times> nat) = Inr (y, length b)"
    using x(1) y(1) unfolding assms(3) by (rule trans [OF sym])
  then have "x = y" by simp
  then show ?thesis using x(2) y(2) assms(4) by (metis)
qed

end

interpretation lzs: packet_codec "\<lambda>src dst. lzsCompress dst src" "\<lambda>src dst. lzsDecompress dst src"
  "\<lambda>_ _. True"
proof unfold_locales
  fix src dst show "\<exists>r. lzsCompress dst src = Some r"
    using lzsCompress_outcome [of dst src] by blast
next
  fix src dst dst' n assume "lzsCompress dst src = Some (Inr (dst', n))"
  then show "n \<le> length dst' \<and> length dst' = length dst"
    using lzsCompress_outcome [of dst src] by auto
next
  fix src buf buf' n assume "lzsDecompress buf src = Inr (buf', n)"
  then show "n \<le> length buf' \<and> length buf' = length buf"
    using lzsDecLoop_bounds [of src buf 0] by (auto simp: lzsDecompress_def)
qed (use lzsCompress_decompress in blast)

subsection \<open>Properties\<close>

text \<open>
  C1. LZS round trip: every input of at most 64 KiB, compressed into a buffer with room for
  nine bits per byte and the end marker, is compressed successfully, and decompressing the
  result into any buffer that can hold the input gives back exactly the input.
\<close>

theorem lzs_roundtrip:
  assumes "length src \<le> 65536" and "9 * length src + 16 \<le> 8 * length dst" and "length src \<le> length buf"
  shows "\<exists>dst' n buf'. lzsCompress dst src = Some (Inr (dst', n)) \<and> n \<le> length dst \<and>
    lzsDecompress buf (take n dst') = Inr (buf', length src) \<and> take (length src) buf' = src"
proof -
  obtain dst' n where c: "lzsCompress dst src = Some (Inr (dst', n))"
    using assms(2) by (cases rule: lzsCompress_cases [OF assms(1), of dst]) auto
  with lzs.compress_inverse [OF c TrueI assms(3)] lzs.compress_bounds [OF c] show ?thesis by auto
qed

theorem lzs_roundtrip_witness:
  "\<exists>dst' n buf'. lzsCompress (replicate 9 0) [0x61, 0x62, 0x61, 0x62, 0x61] = Some (Inr (dst', n)) \<and> n \<le> 9 \<and>
    lzsDecompress (replicate 5 0) (take n dst') = Inr (buf', 5) \<and> take 5 buf' = [0x61, 0x62, 0x61, 0x62, 0x61]"
proof -
  have "length [0x61, 0x62, 0x61, 0x62, 0x61 :: byte] = 5" by simp
  with lzs_roundtrip [of "[0x61, 0x62, 0x61, 0x62, 0x61]" "replicate 9 0" "replicate 5 0"] show ?thesis
    by (simp del: list.size)
qed

text \<open>
  C2. Compression always returns, and returns either a result within the buffer or the one
  error \<open>errLZSOutputFull\<close>: the hash-chain walk ends, no index or slice of the input is out of
  range, on any input and any buffer.
\<close>

theorem lzsCompress_safe:
  "(\<exists>dst' n. lzsCompress dst src = Some (Inr (dst', n)) \<and> n \<le> length dst \<and> length dst' = length dst) \<or>
   lzsCompress dst src = Some (Inl LZSOutputFull)"
  by (rule lzsCompress_outcome)

text \<open>
  C3. Decompression of arbitrary, possibly hostile input: a successful result never exceeds
  the output buffer, and the buffer keeps its length.
\<close>

theorem lzsDecompress_bounds:
  assumes "lzsDecompress buf src = Inr (buf', n)"
  shows "n \<le> length buf \<and> length buf' = length buf"
  using lzs.decompress_bounds [OF assms] by simp

theorem lzsDecompress_bounds_witness:
  "\<exists>buf' n. lzsDecompress [0, 0] [0x30, 0xe0, 0x00] = Inr (buf', n) \<and> n \<le> length [0, 0 :: byte] \<and>
    length buf' = length [0, 0 :: byte]"
proof -
  have "lzsDecompress [0, 0] [0x30, 0xe0, 0x00] = Inr ([0x61, 0], 1)"
    by (simp add: lzsDecompress_def lzsDecLoop.simps lzsLiterals.simps getBits_def go_shl_def go_shr_def Let_def)
  with lzsDecompress_bounds [OF this] show ?thesis by blast
qed

text \<open>
  A full buffer is reported only when it has to be: if the buffer has room for nine bits
  per input byte and the sixteen bits of the end marker, compression does not fail.  The
  packet path uses 4096 bytes for packets of at most 2048.
\<close>

theorem lzsCompress_room:
  assumes "lzsCompress dst src = Some (Inl e)" and "length src \<le> 65536"
  shows "e = LZSOutputFull \<and> 8 * length dst < 9 * length src + 16"
  using assms(1) by (cases rule: lzsCompress_cases [OF assms(2), of dst]) auto

theorem lzsCompress_room_witness:
  "lzsCompress [0] [0x61] = Some (Inl LZSOutputFull) \<and> (8 * 1 :: nat) < 9 * 1 + 16"
proof -
  have "lzsCompress [0] [0x61] = Some (Inl LZSOutputFull)"
    by (simp add: lzsCompress_def lzsEncLoop.simps lzsTail_def putBits_def flushByte_def go_shl_def go_shr_def Let_def)
  with lzsCompress_room [OF this] show ?thesis by simp
qed

end
