(* ===== verification/Compression.thy ===== *)
theory Compression
  imports Lzs_Codec
begin

text \<open>
  Negotiation names and dispatch of \<open>src/proto/compress.go\<close>.  The LZ4 block functions are a
  third-party library and a parameter (\<open>lz4_lib\<close>); what is relied on is the documented contract
  of that library, \<open>lz4_contract\<close>, on which the locale \<open>negotiated\<close> rests.
\<close>

datatype Compression = CompNone | CompLZ4 | CompLZS | CompDeflate

fun Compression_String :: "Compression \<Rightarrow> string" where
  "Compression_String CompLZ4 = ''oc-lz4''"
| "Compression_String CompLZS = ''lzs''"
| "Compression_String CompDeflate = ''deflate''"
| "Compression_String _ = ''none''"

text \<open>\<open>json.Marshal\<close> of a string that needs no escaping puts it between double quotes.\<close>

definition Compression_MarshalJSON :: "Compression \<Rightarrow> string" where
  "Compression_MarshalJSON c = CHR 0x22 # Compression_String c @ [CHR 0x22]"

definition ParseCompression :: "string \<Rightarrow> Compression" where
  "ParseCompression s =
     (if s = ''oc-lz4'' then CompLZ4
      else if s = ''lzs'' then CompLZS
      else if s = ''deflate'' then CompDeflate
      else CompNone)"

record lz4_lib =
  CompressBlock :: "byte list \<Rightarrow> byte list \<Rightarrow> string + byte list \<times> nat"
  UncompressBlock :: "byte list \<Rightarrow> byte list \<Rightarrow> string + byte list \<times> nat"

datatype comp_error = CodecError lzs_error | Lz4Error string

definition CompressData ::
    "lz4_lib \<Rightarrow> Compression \<Rightarrow> byte list \<Rightarrow> byte list \<Rightarrow> (comp_error + byte list \<times> nat) option" where
  "CompressData lz4 c src dst =
     (case c of
        CompLZ4 \<Rightarrow> Some (map_sum Lz4Error id (CompressBlock lz4 src dst))
      | CompLZS \<Rightarrow> map_option (map_sum CodecError id) (lzsCompress dst src)
      | _ \<Rightarrow> Some (Inl (CodecError CompressionUnsupported)))"

definition DecompressData ::
    "lz4_lib \<Rightarrow> Compression \<Rightarrow> byte list \<Rightarrow> byte list \<Rightarrow> comp_error + byte list \<times> nat" where
  "DecompressData lz4 c src dst =
     (case c of
        CompLZ4 \<Rightarrow> map_sum Lz4Error id (UncompressBlock lz4 src dst)
      | CompLZS \<Rightarrow> map_sum CodecError id (lzsDecompress dst src)
      | _ \<Rightarrow> Inl (CodecError CompressionUnsupported))"

text \<open>
  The library's documentation: block functions write within the destination; a block
  compressed into a destination of at least \<open>CompressBlockBound\<close> bytes can be restored.
\<close>

definition lz4_bound :: "nat \<Rightarrow> nat" where
  "lz4_bound n = n + n div 255 + 16"

definition lz4_contract :: "lz4_lib \<Rightarrow> bool" where
  "lz4_contract lz4 \<longleftrightarrow>
     (\<forall>src dst dst' n. CompressBlock lz4 src dst = Inr (dst', n) \<longrightarrow> n \<le> length dst' \<and> length dst' = length dst) \<and>
     (\<forall>src buf buf' n. UncompressBlock lz4 src buf = Inr (buf', n) \<longrightarrow> n \<le> length buf' \<and> length buf' = length buf) \<and>
     (\<forall>src dst dst' n buf. CompressBlock lz4 src dst = Inr (dst', n) \<longrightarrow> lz4_bound (length src) \<le> length dst \<longrightarrow>
        length src \<le> length buf \<longrightarrow>
        (\<exists>buf'. UncompressBlock lz4 (take n dst') buf = Inr (buf', length src) \<and> take (length src) buf' = src))"

text \<open>What the dispatch gives for each library, on success.\<close>

lemma CompressData_Inr:
  "CompressData lz4 c src dst = Some (Inr (dst', n)) \<longleftrightarrow>
     (c = CompLZ4 \<and> CompressBlock lz4 src dst = Inr (dst', n)) \<or>
     (c = CompLZS \<and> lzsCompress dst src = Some (Inr (dst', n)))"
  by (cases "lzsCompress dst src"; cases "the (lzsCompress dst src)"; cases "CompressBlock lz4 src dst"; cases c)
    (auto simp: CompressData_def)

lemma DecompressData_Inr:
  "DecompressData lz4 c src dst = Inr (dst', n) \<longleftrightarrow>
     (c = CompLZ4 \<and> UncompressBlock lz4 src dst = Inr (dst', n)) \<or>
     (c = CompLZS \<and> lzsDecompress dst src = Inr (dst', n))"
  by (cases "lzsDecompress dst src"; cases "UncompressBlock lz4 src dst"; cases c) (auto simp: DecompressData_def)

lemma CompressData_total: "\<exists>r. CompressData lz4 c src dst = Some r"
  using lzs.compress_total [of dst src] by (cases c) (auto simp: CompressData_def)

subsection \<open>Every negotiated algorithm is a packet codec\<close>

text \<open>
  \<open>negotiated lz4 c\<close>: the session negotiated \<open>c\<close>, and if that is LZ4 then the library keeps its
  contract.  LZS needs no assumption; \<open>deflate\<close> and \<open>none\<close> never compress.
\<close>

locale negotiated =
  fixes lz4 :: lz4_lib and c :: Compression
  assumes contract: "c = CompLZ4 \<Longrightarrow> lz4_contract lz4"

sublocale negotiated \<subseteq> data: packet_codec "CompressData lz4 c" "DecompressData lz4 c" "\<lambda>n m. lz4_bound n \<le> m"
proof unfold_locales
  fix src dst show "\<exists>r. CompressData lz4 c src dst = Some r" by (rule CompressData_total)
next
  fix src dst dst' n assume "CompressData lz4 c src dst = Some (Inr (dst', n))"
  then consider "c = CompLZ4" "CompressBlock lz4 src dst = Inr (dst', n)" | "lzsCompress dst src = Some (Inr (dst', n))"
    by (auto simp: CompressData_Inr)
  then show "n \<le> length dst' \<and> length dst' = length dst"
  proof cases
    case 1 then show ?thesis using contract unfolding lz4_contract_def by blast
  qed (rule lzs.compress_bounds)
next
  fix src buf buf' n assume "DecompressData lz4 c src buf = Inr (buf', n)"
  then consider "c = CompLZ4" "UncompressBlock lz4 src buf = Inr (buf', n)" | "lzsDecompress buf src = Inr (buf', n)"
    by (auto simp: DecompressData_Inr)
  then show "n \<le> length buf' \<and> length buf' = length buf"
  proof cases
    case 1 then show ?thesis using contract unfolding lz4_contract_def by blast
  qed (rule lzs.decompress_bounds)
next
  fix src dst dst' n and buf :: "byte list"
  assume c: "CompressData lz4 c src dst = Some (Inr (dst', n))" and f: "lz4_bound (length src) \<le> length dst" "length src \<le> length buf"
  from c consider "c = CompLZ4" "CompressBlock lz4 src dst = Inr (dst', n)"
    | "c = CompLZS" "lzsCompress dst src = Some (Inr (dst', n))"
    by (auto simp: CompressData_Inr)
  then show "\<exists>buf'. DecompressData lz4 c (take n dst') buf = Inr (buf', length src) \<and> take (length src) buf' = src"
  proof cases
    case 1
    with f contract obtain buf' where "UncompressBlock lz4 (take n dst') buf = Inr (buf', length src)" "take (length src) buf' = src"
      unfolding lz4_contract_def by metis
    with 1 show ?thesis by (auto simp: DecompressData_Inr)
  next
    case 2
    from lzs.compress_inverse [OF 2(2) TrueI f(2)] 2(1) show ?thesis by (auto simp: DecompressData_Inr)
  qed
qed

interpretation lzs_session: negotiated lz4 CompLZS by unfold_locales simp
interpretation plain_session: negotiated lz4 CompNone by unfold_locales simp

text \<open>A library that stores blocks as they are satisfies the contract.\<close>

definition lz4_store :: lz4_lib where
  "lz4_store = \<lparr>CompressBlock = (\<lambda>src dst. if length src \<le> length dst then Inr (go_copy dst src, length src) else Inl ''short''),
                UncompressBlock = (\<lambda>src dst. if length src \<le> length dst then Inr (go_copy dst src, length src) else Inl ''short'')\<rparr>"

lemma lz4_store_contract: "lz4_contract lz4_store"
  by (auto simp: lz4_contract_def lz4_store_def go_copy_prefix split: if_splits)

interpretation stored: negotiated lz4_store c
  by unfold_locales (rule lz4_store_contract)

subsection \<open>Properties\<close>

text \<open>
  The wire names are unambiguous: parsing the name of an algorithm that is on the wire
  gives that algorithm back, and every other string parses as \<open>CompNone\<close>.
\<close>

theorem ParseCompression_String:
  "ParseCompression (Compression_String c) = c \<and>
   (ParseCompression s = CompNone \<longleftrightarrow> s \<notin> Compression_String ` {CompLZ4, CompLZS, CompDeflate})"
  by (cases c) (auto simp: ParseCompression_def)

end
