(* ===== verification/Packet.thy ===== *)
theory Packet
  imports Compression
begin

text \<open>
  Payload buffers (\<open>src/vpn/buffer.go\<close>, \<open>src/proto/protocol.go\<close>) and the framing of packets on
  the two channels: what one round of \<open>payloadOutTLSToServer\<close> and \<open>tlsChannel\<close>
  (\<open>src/vpn/tls.go\<close>), of \<open>payloadOutDTLSToServer\<close> and \<open>runDtlsEstablished\<close>
  (\<open>src/vpn/dtls.go\<close>) does to a payload.

  A slice is its elements and the elements beyond its length that its array still has
  (\<open>Spare\<close>): its capacity is the length of both.  A run-time panic is a value of \<open>panic\<close>; so is
  a call that never returns (\<open>Diverges\<close>), so that a result is always an explicit claim of
  termination.  Where \<open>append\<close> needs a new array the spare room of that array is the
  parameter \<open>grow\<close>, since the language leaves it open.
\<close>

datatype panic = SliceOutOfRange | NilDereference | Diverges

record Payload =
  Type :: byte
  Data :: "byte list"
  Spare :: "byte list"

definition backing :: "Payload \<Rightarrow> byte list" where
  "backing pl = Data pl @ Spare pl"

definition cap :: "Payload \<Rightarrow> nat" where
  "cap pl = length (backing pl)"

text \<open>\<open>pl.Data[a:b]\<close> as a value, and as the new value of \<open>pl.Data\<close>.\<close>

definition subslice :: "nat \<Rightarrow> nat \<Rightarrow> Payload \<Rightarrow> panic + byte list" where
  "subslice a b pl = (if a \<le> b \<and> b \<le> cap pl then Inr (take (b - a) (drop a (backing pl))) else Inl SliceOutOfRange)"

definition reslice :: "nat \<Rightarrow> nat \<Rightarrow> Payload \<Rightarrow> panic + Payload" where
  "reslice a b pl =
     (if a \<le> b \<and> b \<le> cap pl
      then Inr (pl\<lparr>Data := take (b - a) (drop a (backing pl)), Spare := drop b (backing pl)\<rparr>)
      else Inl SliceOutOfRange)"

text \<open>\<open>pl.Data = append(pl.Data[:0], bs...)\<close>.\<close>

definition append0 :: "(nat \<Rightarrow> nat) \<Rightarrow> byte list \<Rightarrow> Payload \<Rightarrow> Payload" where
  "append0 grow bs pl =
     (if length bs \<le> cap pl then pl\<lparr>Data := bs, Spare := drop (length bs) (backing pl)\<rparr>
      else pl\<lparr>Data := bs, Spare := replicate (grow (length bs)) 0\<rparr>)"

lemma append0_simps [simp]:
  "Type (append0 grow bs pl) = Type pl"
  "Data (append0 grow bs pl) = bs"
  by (simp_all add: append0_def)

lemma cap_append0 [simp]: "length bs \<le> cap pl \<Longrightarrow> cap (append0 grow bs pl) = cap pl"
  by (simp add: append0_def cap_def backing_def)

lemma length_Data_cap: "length (Data pl) \<le> cap pl"
  by (simp add: cap_def backing_def)

subsection \<open>The buffer pool\<close>

definition BufferSize :: nat where "BufferSize = 2048"

definition newPayload :: Payload where
  "newPayload = \<lparr>Type = 0, Data = replicate BufferSize 0, Spare = []\<rparr>"

text \<open>
  \<open>sync.Pool\<close> hands out any of the values put back, or a new one: \<open>i\<close> is its choice.
\<close>

definition getPayloadBuffer :: "nat \<Rightarrow> Payload list \<Rightarrow> Payload \<times> Payload list" where
  "getPayloadBuffer i pool =
     (if i < length pool then (pool ! i, take i pool @ drop (Suc i) pool) else (newPayload, pool))"

definition putPayloadBuffer :: "Payload \<Rightarrow> Payload list \<Rightarrow> Payload list" where
  "putPayloadBuffer pl pool =
     (if cap pl \<noteq> BufferSize then pool
      else \<lparr>Type = 0, Data = take BufferSize (backing pl), Spare = drop BufferSize (backing pl)\<rparr> # pool)"

text \<open>What every buffer taken from the pool is known to be.\<close>

definition fresh :: "Payload \<Rightarrow> bool" where
  "fresh pl \<longleftrightarrow> Type pl = 0 \<and> length (Data pl) = BufferSize \<and> Spare pl = []"

lemma fresh_newPayload [simp]: "fresh newPayload"
  by (simp add: fresh_def newPayload_def)

lemma fresh_getPayloadBuffer:
  assumes "list_all fresh pool" and "getPayloadBuffer i pool = (pl, pool')"
  shows "fresh pl" and "list_all fresh pool'"
  using assms
  by (auto simp: getPayloadBuffer_def list_all_iff split: if_splits dest!: in_set_takeD in_set_dropD)

lemma fresh_putPayloadBuffer:
  "list_all fresh pool \<Longrightarrow> list_all fresh (putPayloadBuffer pl pool)"
  by (auto simp: putPayloadBuffer_def fresh_def cap_def BufferSize_def)

subsection \<open>Compression statistics\<close>

record CompressStat =
  SendOriginal :: u64
  SendWire :: u64
  RecvWire :: u64
  RecvOriginal :: u64

text \<open>The counters live behind a pointer, which is nil when no compression was negotiated.\<close>

fun addSend :: "nat \<Rightarrow> nat \<Rightarrow> CompressStat option \<Rightarrow> panic + CompressStat option" where
  "addSend original wire None = Inl NilDereference"
| "addSend original wire (Some s) =
     Inr (Some (s\<lparr>SendOriginal := SendOriginal s + of_nat original, SendWire := SendWire s + of_nat wire\<rparr>))"

fun addRecv :: "int \<Rightarrow> int \<Rightarrow> CompressStat option \<Rightarrow> panic + CompressStat option" where
  "addRecv wire original None = Inl NilDereference"
| "addRecv wire original (Some s) =
     Inr (Some (s\<lparr>RecvWire := RecvWire s + of_int wire, RecvOriginal := RecvOriginal s + of_int original\<rparr>))"

subsection \<open>Sending\<close>

definition Header :: "byte list" where
  "Header = [0x53, 0x54, 0x46, 0x01, 0x00, 0x00, 0x00, 0x00]"

definition PutUint16 :: "byte list \<Rightarrow> nat \<Rightarrow> u16 \<Rightarrow> byte list" where
  "PutUint16 bs i w = bs[i := ucast (drop_bit 8 w), Suc i := ucast w]"

definition Uint16 :: "byte \<Rightarrow> byte \<Rightarrow> u16" where
  "Uint16 hi lo = push_bit 8 (ucast hi) OR ucast lo"

text \<open>
  The part the two sending loops share: try to compress, keep the compressed data if that is
  shorter, count.  \<open>compressBuf\<close> is the loop's scratch buffer, with whatever earlier rounds
  left in it.
\<close>

definition compressPayload ::
    "lz4_lib \<Rightarrow> (nat \<Rightarrow> nat) \<Rightarrow> Compression \<Rightarrow> byte list \<Rightarrow> Payload \<Rightarrow> CompressStat option \<Rightarrow>
     panic + Payload \<times> bool \<times> CompressStat option" where
  "compressPayload lz4 grow c compressBuf pl cs =
     (if c = CompNone then Inr (pl, False, cs)
      else
        let original = length (Data pl) in
        res_bind
          (case CompressData lz4 c (Data pl) compressBuf of
             None \<Rightarrow> Inl Diverges
           | Some (Inr (buf, n)) \<Rightarrow>
               if n < original then
                 (case go_slice buf 0 n of
                    None \<Rightarrow> Inl SliceOutOfRange
                  | Some z \<Rightarrow> Inr (append0 grow z pl, n, True))
               else Inr (pl, original, False)
           | Some (Inl _) \<Rightarrow> Inr (pl, original, False))
          (\<lambda>(pl, l, compressed). res_bind (addSend original l cs) (\<lambda>cs. Inr (pl, compressed, cs))))"

text \<open>Move the data of the lengthened slice up and write the header in front of it.\<close>

definition addTLSHeader :: "bool \<Rightarrow> nat \<Rightarrow> byte list \<Rightarrow> byte list" where
  "addTLSHeader compressed l d =
     (let d = take 8 d @ go_copy (drop 8 d) d;
          d = go_copy (take 8 d) Header @ drop 8 d;
          d = PutUint16 d 4 (of_nat l)
      in if compressed then d[6 := 0x08] else d)"

definition addDTLSHeader :: "bool \<Rightarrow> byte \<Rightarrow> byte list \<Rightarrow> byte list" where
  "addDTLSHeader compressed t d =
     (let d = take 1 d @ go_copy (drop 1 d) d
      in if compressed then d[0 := 0x08] else d[0 := t])"

definition tlsPack ::
    "lz4_lib \<Rightarrow> (nat \<Rightarrow> nat) \<Rightarrow> Compression \<Rightarrow> byte list \<Rightarrow> Payload \<Rightarrow> CompressStat option \<Rightarrow>
     panic + Payload \<times> CompressStat option" where
  "tlsPack lz4 grow c compressBuf pl cs =
     (if Type pl = 0x00 then
        res_bind (compressPayload lz4 grow c compressBuf pl cs) (\<lambda>(pl, compressed, cs).
          let l = length (Data pl) in
          res_bind (reslice 0 (l + 8) pl) (\<lambda>pl.
            Inr (pl\<lparr>Data := addTLSHeader compressed l (Data pl)\<rparr>, cs)))
      else
        let pl = append0 grow Header pl
        in Inr (pl\<lparr>Data := (Data pl)[6 := Type pl]\<rparr>, cs))"

definition dtlsPack ::
    "lz4_lib \<Rightarrow> (nat \<Rightarrow> nat) \<Rightarrow> Compression \<Rightarrow> byte list \<Rightarrow> Payload \<Rightarrow> CompressStat option \<Rightarrow>
     panic + Payload \<times> CompressStat option" where
  "dtlsPack lz4 grow c compressBuf pl cs =
     (if Type pl = 0x00 then
        res_bind (compressPayload lz4 grow c compressBuf pl cs) (\<lambda>(pl, compressed, cs).
          let l = length (Data pl) in
          res_bind (reslice 0 (l + 1) pl) (\<lambda>pl.
            Inr (pl\<lparr>Data := addDTLSHeader compressed (Type pl) (Data pl)\<rparr>, cs)))
      else Inr (append0 grow [Type pl] pl, cs))"

subsection \<open>Receiving\<close>

text \<open>
  What a round of a receiving loop does with the frame it read: hand a packet to the tun side
  (\<open>PayloadIn\<close>), queue a reply (\<open>PayloadOut\<close>), nothing, or leave the loop.
\<close>

datatype received = Deliver Payload | Reply Payload | Ignored | Stop

text \<open>\<open>Read(pl.Data)\<close> overwrites a prefix of the buffer with the bytes received.\<close>

definition readInto :: "Payload \<Rightarrow> byte list \<Rightarrow> Payload" where
  "readInto pl bs = pl\<lparr>Data := go_copy (Data pl) bs\<rparr>"

text \<open>\<open>append(pl.Data[:0], decompressBuf[:n]...)\<close> after a decompression that returned \<open>n\<close>.\<close>

definition decompressPayload ::
    "lz4_lib \<Rightarrow> (nat \<Rightarrow> nat) \<Rightarrow> Compression \<Rightarrow> byte list \<Rightarrow> byte list \<Rightarrow> Payload \<Rightarrow> CompressStat option \<Rightarrow>
     panic + received \<times> CompressStat option" where
  "decompressPayload lz4 grow c decompressBuf src pl cs =
     (case DecompressData lz4 c src decompressBuf of
        Inl _ \<Rightarrow> Inr (Stop, cs)
      | Inr (buf, n) \<Rightarrow>
          res_bind (if c \<noteq> CompNone then addRecv (int (length src)) (int n) cs else Inr cs) (\<lambda>cs.
          case go_slice buf 0 n of
            None \<Rightarrow> Inl SliceOutOfRange
          | Some z \<Rightarrow> Inr (Deliver (append0 grow z pl), cs)))"

definition tlsUnpack ::
    "lz4_lib \<Rightarrow> (nat \<Rightarrow> nat) \<Rightarrow> Compression \<Rightarrow> byte list \<Rightarrow> Payload \<Rightarrow> CompressStat option \<Rightarrow>
     panic + received \<times> CompressStat option" where
  "tlsUnpack lz4 grow c decompressBuf pl cs =
     (case go_index (Data pl) 6 of
        None \<Rightarrow> Inl SliceOutOfRange
      | Some t \<Rightarrow>
          let dataLen = Uint16 (Data pl ! 4) (Data pl ! 5) in
          if t = 0x00 then
            res_bind (if c \<noteq> CompNone then addRecv (uint dataLen) (uint dataLen) cs else Inr cs) (\<lambda>cs.
            res_bind (subslice 8 (unat (8 + dataLen)) pl) (\<lambda>body.
            res_bind (reslice 0 (unat dataLen) (pl\<lparr>Data := go_copy (Data pl) body\<rparr>)) (\<lambda>pl.
              Inr (Deliver pl, cs))))
          else if t = 0x08 then
            res_bind (subslice 8 (unat (8 + dataLen)) pl) (\<lambda>src.
              decompressPayload lz4 grow c decompressBuf src pl cs)
          else if t = 0x04 then Inr (Ignored, cs)
          else if t = 0x03 then Inr (Reply (pl\<lparr>Type := 0x04\<rparr>), cs)
          else Inr (Ignored, cs))"

definition dtlsUnpack ::
    "lz4_lib \<Rightarrow> (nat \<Rightarrow> nat) \<Rightarrow> Compression \<Rightarrow> byte list \<Rightarrow> nat \<Rightarrow> Payload \<Rightarrow> CompressStat option \<Rightarrow>
     panic + received \<times> CompressStat option" where
  "dtlsUnpack lz4 grow c decompressBuf bytesReceived pl cs =
     (case go_index (Data pl) 0 of
        None \<Rightarrow> Inl SliceOutOfRange
      | Some t \<Rightarrow>
          if t = 0x07 then Inr (Ignored, cs)
          else if t = 0x05 then Inr (Stop, cs)
          else if t = 0x03 then Inr (Reply (pl\<lparr>Type := 0x04\<rparr>), cs)
          else if t = 0x04 then Inr (Ignored, cs)
          else if t = 0x00 then
            let wire = int bytesReceived - 1 in
            res_bind (if c \<noteq> CompNone then addRecv wire wire cs else Inr cs) (\<lambda>cs.
            res_bind (subslice 1 bytesReceived pl) (\<lambda>body.
              Inr (Deliver (append0 grow body pl), cs)))
          else if t = 0x08 then
            res_bind (subslice 1 bytesReceived pl) (\<lambda>src.
              decompressPayload lz4 grow c decompressBuf src pl cs)
          else Inr (Ignored, cs))"

end
