(* ===== verification/Framing.thy ===== *)
theory Framing
  imports Packet
begin

text \<open>
  Correctness of the framing in \<open>Packet\<close>: the frames have the documented format, and what one
  end packs the other end unpacks, for every negotiated compression, on both channels.
\<close>

subsection \<open>The wire format\<close>

definition tls_frame :: "byte \<Rightarrow> byte list \<Rightarrow> byte list" where
  "tls_frame t body =
     [0x53, 0x54, 0x46, 0x01, ucast (drop_bit 8 (of_nat (length body) :: u16)), ucast (of_nat (length body) :: u16), t, 0x00] @ body"

definition dtls_frame :: "byte \<Rightarrow> byte list \<Rightarrow> byte list" where
  "dtls_frame t body = t # body"

text \<open>The type byte and the body that a packet gets: compressed if that is shorter.\<close>

definition wire_body :: "lz4_lib \<Rightarrow> Compression \<Rightarrow> byte list \<Rightarrow> byte list \<Rightarrow> byte \<times> byte list" where
  "wire_body lz4 c compressBuf d =
     (case CompressData lz4 c d compressBuf of
        Some (Inr (buf, n)) \<Rightarrow> if n < length d then (0x08, take n buf) else (0x00, d)
      | _ \<Rightarrow> (0x00, d))"

definition count_send :: "Compression \<Rightarrow> nat \<Rightarrow> nat \<Rightarrow> CompressStat option \<Rightarrow> CompressStat option" where
  "count_send c original wire cs =
     (if c = CompNone then cs
      else map_option (\<lambda>s. s\<lparr>SendOriginal := SendOriginal s + of_nat original, SendWire := SendWire s + of_nat wire\<rparr>) cs)"

definition count_recv :: "Compression \<Rightarrow> nat \<Rightarrow> nat \<Rightarrow> CompressStat option \<Rightarrow> CompressStat option" where
  "count_recv c wire original cs =
     (if c = CompNone then cs
      else map_option (\<lambda>s. s\<lparr>RecvWire := RecvWire s + of_nat wire, RecvOriginal := RecvOriginal s + of_nat original\<rparr>) cs)"

lemma Uint16_PutUint16:
  fixes w :: u16
  shows "Uint16 (ucast (drop_bit 8 w)) (ucast w) = w"
  by (rule bit_word_eqI) (auto simp: Uint16_def bit_simps)

lemma backing_cap: "cap pl = length (Data pl) + length (Spare pl)"
  by (simp add: cap_def backing_def)

text \<open>Growing a slice by \<open>k\<close> and moving its data up: the old data follows \<open>k\<close> bytes.\<close>

lemma reslice_grow:
  assumes "length (Data pl) + k \<le> cap pl"
  obtains pl' where "reslice 0 (length (Data pl) + k) pl = Inr pl'" "Type pl' = Type pl"
    "Data pl' = Data pl @ take k (Spare pl)" "cap pl' = cap pl" "k \<le> length (Spare pl)"
  using assms by (simp add: reslice_def cap_def backing_def)

lemma shift_up: "k = length z \<Longrightarrow> go_copy (drop k (d @ z)) (d @ z) = d"
  by (simp add: go_copy_def)

text \<open>The header written over the moved data, in the order of the code.\<close>

lemma addTLSHeader_frame:
  assumes "length z = 8"
  shows "addTLSHeader k (length b) (b @ z) = tls_frame (if k then 0x08 else 0x00) b"
proof -
  obtain t where t: "take 8 (b @ z) = t" by simp
  have l: "length t = 8" using assms unfolding t [symmetric] by simp
  have sh: "go_copy (drop 8 (b @ z)) (b @ z) = b" by (rule shift_up) (simp add: assms)
  have tk: "take 8 (t @ b) = t" and dr: "drop 8 (t @ b) = b" using l by simp_all
  have hd: "go_copy t Header = Header" by (simp add: go_copy_def Header_def l)
  show ?thesis
    unfolding addTLSHeader_def Let_def sh t tk dr hd
    by (simp add: Header_def PutUint16_def tls_frame_def eval_nat_numeral)
qed

lemma addDTLSHeader_frame:
  assumes "length z = 1"
  shows "addDTLSHeader k t (b @ z) = dtls_frame (if k then 0x08 else t) b"
proof -
  obtain x where z: "z = [x]" using assms by (cases z) auto
  have "go_copy (drop 1 (b @ z)) (b @ z) = b" by (rule shift_up) (simp add: assms)
  then show ?thesis unfolding addDTLSHeader_def Let_def by (cases b) (simp_all add: z dtls_frame_def)
qed

text \<open>The fields of a frame at the start of a buffer, as the receiver reads them.\<close>

lemma tls_frame_length: "length (tls_frame t body) = length body + 8"
  by (simp add: tls_frame_def)

lemma unat_of_nat_u16: "n < 65536 \<Longrightarrow> unat (of_nat n :: u16) = n"
  by (simp add: unat_of_nat take_bit_eq_mod)

lemma tls_frame_fields:
  assumes "Data pl = tls_frame t body @ rest" and "length body < 65528"
  shows "go_index (Data pl) 6 = Some t"
    and "Uint16 (Data pl ! 4) (Data pl ! 5) = of_nat (length body)"
    and "uint (of_nat (length body) :: u16) = int (length body)"
    and "unat (of_nat (length body) :: u16) = length body"
    and "subslice 8 (unat (8 + of_nat (length body) :: u16)) pl = Inr body"
proof -
  show "go_index (Data pl) 6 = Some t" by (simp add: assms(1) tls_frame_def go_index_def eval_nat_numeral)
  have "Data pl ! 4 = ucast (drop_bit 8 (of_nat (length body) :: u16))" "Data pl ! 5 = ucast (of_nat (length body) :: u16)"
    by (simp_all add: assms(1) tls_frame_def eval_nat_numeral)
  then show "Uint16 (Data pl ! 4) (Data pl ! 5) = of_nat (length body)" by (simp only: Uint16_PutUint16)
  show u: "unat (of_nat (length body) :: u16) = length body" using assms(2) by (intro unat_of_nat_u16) simp
  then show "uint (of_nat (length body) :: u16) = int (length body)" by (metis uint_nat)
  have "unat (8 + of_nat (length body) :: u16) = unat (of_nat (8 + length body) :: u16)" by simp
  also have "\<dots> = 8 + length body" using assms(2) by (intro unat_of_nat_u16) simp
  finally show "subslice 8 (unat (8 + of_nat (length body) :: u16)) pl = Inr body"
    by (simp add: subslice_def cap_def backing_def assms(1) tls_frame_def)
qed

context negotiated
begin

lemma wire_body_shorter: "length (snd (wire_body lz4 c buf d)) \<le> length d"
  by (auto simp: wire_body_def split: option.splits sum.splits)

lemma wire_body_cases:
  obtains (plain) "wire_body lz4 c buf d = (0x00, d)"
  | (packed) b n where "wire_body lz4 c buf d = (0x08, take n b)" "CompressData lz4 c d buf = Some (Inr (b, n))" "n < length d"
      "n \<le> length b" "c \<noteq> CompNone"
proof (cases "CompressData lz4 c d buf")
  case None
  then show ?thesis by (intro plain) (simp add: wire_body_def)
next
  case (Some r)
  show ?thesis
  proof (cases r)
    case (Inl e)
    with Some show ?thesis by (intro plain) (simp add: wire_body_def)
  next
    case (Inr p)
    obtain b n where p: "p = (b, n)" by (cases p)
    have "c \<noteq> CompNone" using Some Inr p by (auto simp: CompressData_def)
    with Some Inr p data.compress_bounds [of d buf b n] show ?thesis
      by (cases "n < length d") (auto simp: wire_body_def intro: plain packed)
  qed
qed

lemma compressPayload_correct:
  assumes "c \<noteq> CompNone \<Longrightarrow> cs \<noteq> None"
  shows "\<exists>pl'. compressPayload lz4 grow c buf pl cs =
      Inr (pl', fst (wire_body lz4 c buf (Data pl)) = 0x08, count_send c (length (Data pl)) (length (Data pl')) cs) \<and>
    Type pl' = Type pl \<and> Data pl' = snd (wire_body lz4 c buf (Data pl)) \<and> cap pl' = cap pl"
proof (cases "c = CompNone")
  case True
  then show ?thesis by (simp add: compressPayload_def wire_body_def CompressData_def count_send_def)
next
  case False
  then obtain s where s: "cs = Some s" using assms by auto
  obtain r where r: "CompressData lz4 c (Data pl) buf = Some r" using data.compress_total by blast
  show ?thesis
  proof (cases rule: wire_body_cases [of buf "Data pl"])
    case plain
    with False s r show ?thesis
      by (auto simp: compressPayload_def Let_def wire_body_def count_send_def split: sum.splits if_splits)
  next
    case (packed b n)
    have "length (take n b) \<le> cap pl" using packed length_Data_cap [of pl] by simp
    with False s packed show ?thesis
      by (auto simp: compressPayload_def Let_def count_send_def)
  qed
qed

lemma decompressPayload_correct:
  assumes "c \<noteq> CompNone \<Longrightarrow> cs \<noteq> None" and "DecompressData lz4 c src dbuf = Inr (b, n)"
  shows "decompressPayload lz4 grow c dbuf src pl cs =
    Inr (Deliver (append0 grow (take n b) pl), count_recv c (length src) n cs)"
  using assms data.decompress_bounds [OF assms(2)]
  by (auto simp: decompressPayload_def count_recv_def)

text \<open>Packing succeeds whenever the buffer has room for the header, and gives the frame.\<close>

lemma tlsPack_data:
  assumes "Type pl = 0" and "length (Data pl) + 8 \<le> cap pl" and "c \<noteq> CompNone \<Longrightarrow> cs \<noteq> None"
  shows "\<exists>pl'. tlsPack lz4 grow c buf pl cs =
      Inr (pl', count_send c (length (Data pl)) (length (snd (wire_body lz4 c buf (Data pl)))) cs) \<and>
    Data pl' = case_prod tls_frame (wire_body lz4 c buf (Data pl)) \<and> cap pl' = cap pl"
proof -
  let ?w = "wire_body lz4 c buf (Data pl)"
  obtain p where p: "compressPayload lz4 grow c buf pl cs =
      Inr (p, fst ?w = 0x08, count_send c (length (Data pl)) (length (Data p)) cs)"
      "Type p = Type pl" "Data p = snd ?w" "cap p = cap pl"
    using compressPayload_correct [OF assms(3), where pl = pl and grow = grow and buf = buf] by blast
  have "length (Data p) + 8 \<le> cap p" using assms(2) p wire_body_shorter [of buf "Data pl"] by simp
  then obtain q where q: "reslice 0 (length (Data p) + 8) p = Inr q" "Data q = Data p @ take 8 (Spare p)"
      "cap q = cap p" "8 \<le> length (Spare p)"
    using reslice_grow by blast
  have z: "length (take 8 (Spare p)) = 8" using q(4) by simp
  have t: "(if fst ?w = 0x08 then 0x08 else 0x00) = fst ?w"
    by (cases rule: wire_body_cases [of buf "Data pl"]) simp_all
  have "tlsPack lz4 grow c buf pl cs =
      Inr (q\<lparr>Data := tls_frame (fst ?w) (Data p)\<rparr>, count_send c (length (Data pl)) (length (Data p)) cs)"
    using assms(1) p(1) q(1,2) addTLSHeader_frame [OF z, of "fst ?w = 0x08" "Data p", unfolded t]
    by (simp add: tlsPack_def Let_def)
  then show ?thesis using p(3,4) q z by (auto simp: split_beta cap_def backing_def tls_frame_def)
qed

lemma dtlsPack_data:
  assumes "Type pl = 0" and "length (Data pl) + 1 \<le> cap pl" and "c \<noteq> CompNone \<Longrightarrow> cs \<noteq> None"
  shows "\<exists>pl'. dtlsPack lz4 grow c buf pl cs =
      Inr (pl', count_send c (length (Data pl)) (length (snd (wire_body lz4 c buf (Data pl)))) cs) \<and>
    Data pl' = case_prod dtls_frame (wire_body lz4 c buf (Data pl)) \<and> cap pl' = cap pl"
proof -
  let ?w = "wire_body lz4 c buf (Data pl)"
  obtain p where p: "compressPayload lz4 grow c buf pl cs =
      Inr (p, fst ?w = 0x08, count_send c (length (Data pl)) (length (Data p)) cs)"
      "Type p = Type pl" "Data p = snd ?w" "cap p = cap pl"
    using compressPayload_correct [OF assms(3), where pl = pl and grow = grow and buf = buf] by blast
  have "length (Data p) + 1 \<le> cap p" using assms(2) p wire_body_shorter [of buf "Data pl"] by simp
  then obtain q where q: "reslice 0 (length (Data p) + 1) p = Inr q" "Type q = Type p"
      "Data q = Data p @ take 1 (Spare p)" "cap q = cap p" "1 \<le> length (Spare p)"
    using reslice_grow by blast
  have z: "length (take 1 (Spare p)) = 1" using q(5) by (cases "Spare p") simp_all
  have t: "(if fst ?w = 0x08 then 0x08 else 0x00) = fst ?w"
    by (cases rule: wire_body_cases [of buf "Data pl"]) simp_all
  have "dtlsPack lz4 grow c buf pl cs =
      Inr (q\<lparr>Data := dtls_frame (fst ?w) (Data p)\<rparr>, count_send c (length (Data pl)) (length (Data p)) cs)"
    using assms(1) p(1,2) q(1,2,3) addDTLSHeader_frame [OF z, of "fst ?w = 0x08" 0 "Data p", unfolded t]
    by (simp add: dtlsPack_def Let_def)
  then show ?thesis using p(3,4) q z by (auto simp: split_beta cap_def backing_def dtls_frame_def)
qed

text \<open>Unpacking a frame that is a prefix of the receive buffer.\<close>

lemma tlsUnpack_plain:
  assumes "Data pl = tls_frame 0x00 body @ rest" and "length body < 65528" and "c \<noteq> CompNone \<Longrightarrow> cs \<noteq> None"
  shows "\<exists>q. tlsUnpack lz4 grow c dbuf pl cs = Inr (Deliver q, count_recv c (length body) (length body) cs) \<and>
    Data q = body \<and> Type q = Type pl \<and> cap q = cap pl"
proof -
  note f = tls_frame_fields [OF assms(1,2)]
  have "go_copy (Data pl) body = body @ drop (length body) (Data pl)"
    by (simp add: go_copy_def assms(1) tls_frame_length)
  then show ?thesis using assms(3) f
    by (auto simp: tlsUnpack_def Let_def count_recv_def reslice_def cap_def backing_def assms(1) tls_frame_length)
qed

lemma tlsUnpack_packed:
  assumes "Data pl = tls_frame 0x08 body @ rest" and "length body < 65528" and "c \<noteq> CompNone \<Longrightarrow> cs \<noteq> None"
    and "DecompressData lz4 c body dbuf = Inr (b, n)"
  shows "tlsUnpack lz4 grow c dbuf pl cs =
    Inr (Deliver (append0 grow (take n b) pl), count_recv c (length body) n cs)"
  using assms(3,4) tls_frame_fields [OF assms(1,2)] decompressPayload_correct [of cs body dbuf b n grow pl]
  by (simp add: tlsUnpack_def Let_def)

lemma dtlsUnpack_plain:
  assumes "Data pl = dtls_frame 0x00 body @ rest" and "c \<noteq> CompNone \<Longrightarrow> cs \<noteq> None"
  shows "dtlsUnpack lz4 grow c dbuf (Suc (length body)) pl cs =
    Inr (Deliver (append0 grow body pl), count_recv c (length body) (length body) cs)"
  using assms by (auto simp: dtlsUnpack_def Let_def subslice_def cap_def backing_def dtls_frame_def count_recv_def)

lemma dtlsUnpack_packed:
  assumes "Data pl = dtls_frame 0x08 body @ rest" and "c \<noteq> CompNone \<Longrightarrow> cs \<noteq> None"
    and "DecompressData lz4 c body dbuf = Inr (b, n)"
  shows "dtlsUnpack lz4 grow c dbuf (Suc (length body)) pl cs =
    Inr (Deliver (append0 grow (take n b) pl), count_recv c (length body) n cs)"
  using assms decompressPayload_correct [of cs body dbuf b n grow pl]
  by (simp add: dtlsUnpack_def Let_def subslice_def cap_def backing_def dtls_frame_def)

end

subsection \<open>A channel carries packets unchanged\<close>

text \<open>
  The contract of a channel, from one end's packing to the other end's unpacking: a data
  packet that leaves room for the header in its buffer is packed, and the frame, read into a
  fresh buffer at the other end, is delivered as the same packet.  \<open>counted\<close> says whether the
  channel touches the compression counters, which must then exist.
\<close>

definition packet_ok :: "nat \<Rightarrow> Payload \<Rightarrow> bool" where
  "packet_ok header pl \<longleftrightarrow> Type pl = 0 \<and> length (Data pl) + header \<le> cap pl \<and> length (Data pl) + header \<le> BufferSize"

locale frame_link =
  fixes pack :: "Payload \<Rightarrow> CompressStat option \<Rightarrow> panic + Payload \<times> CompressStat option"
    and unpack :: "nat \<Rightarrow> Payload \<Rightarrow> CompressStat option \<Rightarrow> panic + received \<times> CompressStat option"
    and header :: nat
    and counted :: bool
  assumes pack_ok: "packet_ok header pl \<Longrightarrow> counted \<longrightarrow> cs \<noteq> None \<Longrightarrow>
      \<exists>pl' cs'. pack pl cs = Inr (pl', cs') \<and> length (Data pl') \<le> BufferSize \<and> cap pl' = cap pl \<and> (counted \<longrightarrow> cs' \<noteq> None)"
    and unpack_ok: "packet_ok header pl \<Longrightarrow> pack pl cs = Inr (pl', cs') \<Longrightarrow> counted \<longrightarrow> cs \<noteq> None \<Longrightarrow>
      fresh buf \<Longrightarrow> counted \<longrightarrow> rs \<noteq> None \<Longrightarrow>
      \<exists>q rs'. unpack (length (Data pl')) (readInto buf (Data pl')) rs = Inr (Deliver q, rs') \<and> Data q = Data pl \<and> (counted \<longrightarrow> rs' \<noteq> None)"

text \<open>A whole queue through a channel: what the receiving end delivers, in order.\<close>

fun relay :: "(Payload \<Rightarrow> CompressStat option \<Rightarrow> panic + Payload \<times> CompressStat option) \<Rightarrow>
    (nat \<Rightarrow> Payload \<Rightarrow> CompressStat option \<Rightarrow> panic + received \<times> CompressStat option) \<Rightarrow>
    Payload \<Rightarrow> Payload list \<Rightarrow> CompressStat option \<Rightarrow> CompressStat option \<Rightarrow> panic + byte list list" where
  "relay pack unpack buf [] cs rs = Inr []"
| "relay pack unpack buf (pl # pls) cs rs =
     res_bind (pack pl cs) (\<lambda>(pl', cs').
     res_bind (unpack (length (Data pl')) (readInto buf (Data pl')) rs) (\<lambda>(r, rs').
     res_bind (relay pack unpack buf pls cs' rs') (\<lambda>ds.
       Inr (case r of Deliver q \<Rightarrow> Data q # ds | _ \<Rightarrow> ds))))"

context frame_link
begin

lemma relay_in_order:
  assumes "list_all (packet_ok header) pls" and "fresh buf" and "counted \<longrightarrow> cs \<noteq> None" and "counted \<longrightarrow> rs \<noteq> None"
  shows "relay pack unpack buf pls cs rs = Inr (map Data pls)"
  using assms
proof (induction pls arbitrary: cs rs)
  case Nil
  then show ?case by simp
next
  case (Cons pl pls)
  then have pl: "packet_ok header pl" by simp
  from pack_ok [OF pl Cons.prems(3)] obtain pl' cs' where p: "pack pl cs = Inr (pl', cs')" "counted \<longrightarrow> cs' \<noteq> None" by blast
  from unpack_ok [OF pl p(1) Cons.prems(3,2,4)] obtain q rs' where
    u: "unpack (length (Data pl')) (readInto buf (Data pl')) rs = Inr (Deliver q, rs')" "Data q = Data pl" "counted \<longrightarrow> rs' \<noteq> None" by blast
  from Cons.IH [OF _ Cons.prems(2) p(2) u(3)] Cons.prems(1) p(1) u(1,2) show ?case by simp
qed

end

text \<open>The codec together with the scratch buffers of the loops, which the code allocates once.\<close>

locale tunnel_codec = negotiated +
  fixes grow :: "nat \<Rightarrow> nat" and cbuf dbuf :: "byte list"
  assumes cbuf: "length cbuf = 4096" and dbuf: "length dbuf = 16384"
begin

text \<open>The body of a frame decompresses to the packet, when it was compressed.\<close>

lemma wire_body_inverse:
  assumes "wire_body lz4 c cbuf d = (0x08, body)" and "length d \<le> BufferSize"
  obtains b where "DecompressData lz4 c body dbuf = Inr (b, length d)" "take (length d) b = d"
proof (cases rule: wire_body_cases [of cbuf d])
  case plain
  then show ?thesis using assms(1) by simp
next
  case (packed b n)
  have "lz4_bound (length d) \<le> length cbuf" "length d \<le> length dbuf"
    using assms(2) cbuf dbuf by (simp_all add: lz4_bound_def BufferSize_def)
  from data.compress_inverse [OF packed(2) this] packed(1) assms(1) show ?thesis by (auto intro: that)
qed

lemma readInto_frame:
  assumes "fresh buf" and "length f \<le> BufferSize"
  shows "Data (readInto buf f) = f @ drop (length f) (Data buf)" "cap (readInto buf f) = BufferSize"
  using assms by (simp_all add: readInto_def go_copy_def fresh_def cap_def backing_def)

end

sublocale tunnel_codec \<subseteq> tls: frame_link "tlsPack lz4 grow c cbuf" "\<lambda>_. tlsUnpack lz4 grow c dbuf" 8 "c \<noteq> CompNone"
proof unfold_locales
  fix pl and cs :: "CompressStat option"
  assume pl: "packet_ok 8 pl" and cs: "c \<noteq> CompNone \<longrightarrow> cs \<noteq> None"
  from tlsPack_data [of pl cs grow cbuf] pl cs wire_body_shorter [of cbuf "Data pl"]
  show "\<exists>pl' cs'. tlsPack lz4 grow c cbuf pl cs = Inr (pl', cs') \<and> length (Data pl') \<le> BufferSize \<and> cap pl' = cap pl \<and> (c \<noteq> CompNone \<longrightarrow> cs' \<noteq> None)"
    by (auto simp: packet_ok_def split_beta tls_frame_length count_send_def)
next
  fix pl pl' buf and cs cs' rs :: "CompressStat option"
  assume pl: "packet_ok 8 pl" and p: "tlsPack lz4 grow c cbuf pl cs = Inr (pl', cs')" and cs: "c \<noteq> CompNone \<longrightarrow> cs \<noteq> None"
    and buf: "fresh buf" and rs: "c \<noteq> CompNone \<longrightarrow> rs \<noteq> None"
  obtain t body where w: "wire_body lz4 c cbuf (Data pl) = (t, body)" by (cases "wire_body lz4 c cbuf (Data pl)")
  have f: "Data pl' = tls_frame t body" using tlsPack_data [of pl cs grow cbuf] pl cs p w by (auto simp: packet_ok_def)
  have l: "length (Data pl) + 8 \<le> BufferSize" "length body + 8 \<le> BufferSize"
    using pl w wire_body_shorter [of cbuf "Data pl"] by (auto simp: packet_ok_def)
  then have b: "length body < 65528" and f': "length (Data pl') \<le> BufferSize" by (simp_all add: BufferSize_def f tls_frame_length)
  note r = readInto_frame(1) [OF buf f', unfolded f]
  show "\<exists>q rs'. tlsUnpack lz4 grow c dbuf (readInto buf (Data pl')) rs = Inr (Deliver q, rs') \<and> Data q = Data pl \<and> (c \<noteq> CompNone \<longrightarrow> rs' \<noteq> None)"
  proof (cases rule: wire_body_cases [of cbuf "Data pl"])
    case plain
    with w have "t = 0" "body = Data pl" by simp_all
    with tlsUnpack_plain [OF r [unfolded \<open>t = 0\<close>] b, of rs grow dbuf] rs f show ?thesis by (auto simp: count_recv_def)
  next
    case (packed x n)
    with w have "t = 0x08" by simp
    from w l this obtain y where "DecompressData lz4 c body dbuf = Inr (y, length (Data pl))" "take (length (Data pl)) y = Data pl"
      by (auto elim!: wire_body_inverse)
    with tlsUnpack_packed [OF r [unfolded \<open>t = 0x08\<close>] b, of rs dbuf y "length (Data pl)" grow] rs f \<open>t = 0x08\<close>
    show ?thesis by (auto simp: count_recv_def)
  qed
qed

sublocale tunnel_codec \<subseteq> dtls: frame_link "dtlsPack lz4 grow c cbuf" "dtlsUnpack lz4 grow c dbuf" 1 "c \<noteq> CompNone"
proof unfold_locales
  fix pl and cs :: "CompressStat option"
  assume pl: "packet_ok 1 pl" and cs: "c \<noteq> CompNone \<longrightarrow> cs \<noteq> None"
  from dtlsPack_data [of pl cs grow cbuf] pl cs wire_body_shorter [of cbuf "Data pl"]
  show "\<exists>pl' cs'. dtlsPack lz4 grow c cbuf pl cs = Inr (pl', cs') \<and> length (Data pl') \<le> BufferSize \<and> cap pl' = cap pl \<and> (c \<noteq> CompNone \<longrightarrow> cs' \<noteq> None)"
    by (auto simp: packet_ok_def split_beta dtls_frame_def count_send_def)
next
  fix pl pl' buf and cs cs' rs :: "CompressStat option"
  assume pl: "packet_ok 1 pl" and p: "dtlsPack lz4 grow c cbuf pl cs = Inr (pl', cs')" and cs: "c \<noteq> CompNone \<longrightarrow> cs \<noteq> None"
    and buf: "fresh buf" and rs: "c \<noteq> CompNone \<longrightarrow> rs \<noteq> None"
  obtain t body where w: "wire_body lz4 c cbuf (Data pl) = (t, body)" by (cases "wire_body lz4 c cbuf (Data pl)")
  have f: "Data pl' = dtls_frame t body" using dtlsPack_data [of pl cs grow cbuf] pl cs p w by (auto simp: packet_ok_def)
  have l: "length (Data pl) \<le> BufferSize" "length (Data pl') \<le> BufferSize"
    using pl w wire_body_shorter [of cbuf "Data pl"] by (auto simp: packet_ok_def f dtls_frame_def)
  note r = readInto_frame(1) [OF buf l(2), unfolded f]
  have n: "length (Data pl') = Suc (length body)" by (simp add: f dtls_frame_def)
  show "\<exists>q rs'. dtlsUnpack lz4 grow c dbuf (length (Data pl')) (readInto buf (Data pl')) rs = Inr (Deliver q, rs') \<and> Data q = Data pl \<and> (c \<noteq> CompNone \<longrightarrow> rs' \<noteq> None)"
  proof (cases rule: wire_body_cases [of cbuf "Data pl"])
    case plain
    with w have "t = 0" "body = Data pl" by simp_all
    with dtlsUnpack_plain [OF r [unfolded \<open>t = 0\<close>], of rs grow dbuf] rs f n show ?thesis by (auto simp: count_recv_def)
  next
    case (packed x m)
    with w have "t = 0x08" by simp
    from w l this obtain y where "DecompressData lz4 c body dbuf = Inr (y, length (Data pl))" "take (length (Data pl)) y = Data pl"
      by (auto elim!: wire_body_inverse)
    with dtlsUnpack_packed [OF r [unfolded \<open>t = 0x08\<close>], of rs dbuf y "length (Data pl)" grow] rs f n \<open>t = 0x08\<close>
    show ?thesis by (auto simp: count_recv_def)
  qed
qed

context tunnel_codec
begin

lemmas tls_relay = tls.relay_in_order
lemmas dtls_relay = dtls.relay_in_order

end

interpretation lzs_tunnel: tunnel_codec lz4 CompLZS grow "replicate 4096 0" "replicate 16384 0" for lz4 grow
  by unfold_locales simp_all

interpretation stored_tunnel: tunnel_codec lz4_store c grow "replicate 4096 0" "replicate 16384 0" for c grow
  by unfold_locales simp_all

subsection \<open>Control frames and malformed frames\<close>

lemma tlsPack_control:
  assumes "Type pl \<noteq> 0" and "8 \<le> cap pl"
  shows "\<exists>pl'. tlsPack lz4 grow c cbuf pl cs = Inr (pl', cs) \<and> Data pl' = tls_frame (Type pl) [] \<and> cap pl' = cap pl"
  using assms by (auto simp: tlsPack_def Let_def Header_def tls_frame_def append0_def cap_def backing_def eval_nat_numeral)

lemma dtlsPack_control:
  assumes "Type pl \<noteq> 0" and "1 \<le> cap pl"
  shows "\<exists>pl'. dtlsPack lz4 grow c cbuf pl cs = Inr (pl', cs) \<and> Data pl' = dtls_frame (Type pl) [] \<and> cap pl' = cap pl"
  using assms by (simp add: dtlsPack_def dtls_frame_def)

text \<open>A length field that does not fit the buffer, or makes the 16-bit sum wrap, panics.\<close>

lemma subslice_oversized:
  assumes "cap pl = BufferSize" and "2040 < unat n"
  shows "subslice 8 (unat (8 + n :: u16)) pl = Inl SliceOutOfRange"
proof -
  have "unat n < 65536" using unsigned_less [of n] by simp
  moreover have "unat (8 + n) = (8 + unat n) mod 65536" by (simp add: unat_word_ariths)
  ultimately have "unat (8 + n) = 8 + unat n \<or> unat (8 + n) = 8 + unat n - 65536 \<and> 65528 \<le> unat n"
    by (cases "8 + unat n < 65536") (simp_all add: le_mod_geq)
  with assms \<open>unat n < 65536\<close> show ?thesis by (auto simp: subslice_def BufferSize_def)
qed

subsection \<open>Properties\<close>

text \<open>
  C6. The TLS channel carries packets unchanged and in order: a queue of data packets, each
  with room for the 8-byte header in its buffer, is packed and unpacked to the same list of
  packets, whatever compression was negotiated (LZ4 under the contract of its library) and
  whatever the scratch buffers contain; nothing panics on the way.
\<close>

theorem tls_channel_in_order:
  assumes "c = CompLZ4 \<Longrightarrow> lz4_contract lz4" and "length cbuf = 4096" and "length dbuf = 16384"
    and "list_all (packet_ok 8) pls" and "fresh buf" and "c \<noteq> CompNone \<Longrightarrow> cs \<noteq> None \<and> rs \<noteq> None"
  shows "relay (tlsPack lz4 grow c cbuf) (\<lambda>_. tlsUnpack lz4 grow c dbuf) buf pls cs rs = Inr (map Data pls)"
proof -
  have "tunnel_codec lz4 c cbuf dbuf" by unfold_locales (use assms in auto)
  from tunnel_codec.tls_relay [OF this assms(4,5)] show ?thesis using assms(6) by blast
qed

definition sample_packet :: Payload where
  "sample_packet = \<lparr>Type = 0, Data = replicate 40 7, Spare = replicate 2008 0\<rparr>"

lemma sample_packet_ok: "packet_ok 8 sample_packet" "packet_ok 1 sample_packet" "Type sample_packet = 0"
    "Data sample_packet = replicate 40 7"
  by (simp_all add: sample_packet_def packet_ok_def cap_def backing_def BufferSize_def)

definition zero_stat :: CompressStat where
  "zero_stat = \<lparr>SendOriginal = 0, SendWire = 0, RecvWire = 0, RecvOriginal = 0\<rparr>"

theorem tls_channel_in_order_witness:
  "relay (tlsPack lz4_store id CompLZS (replicate 4096 0)) (\<lambda>_. tlsUnpack lz4_store id CompLZS (replicate 16384 0))
     newPayload [sample_packet, sample_packet] (Some zero_stat) (Some zero_stat) = Inr [replicate 40 7, replicate 40 7] \<and>
   relay (tlsPack lz4_store id CompLZ4 (replicate 4096 0)) (\<lambda>_. tlsUnpack lz4_store id CompLZ4 (replicate 16384 0))
     newPayload [sample_packet] (Some zero_stat) (Some zero_stat) = Inr [replicate 40 7]"
  using tls_channel_in_order [of CompLZS lz4_store "replicate 4096 0" "replicate 16384 0" "[sample_packet, sample_packet]" newPayload "Some zero_stat" "Some zero_stat" id]
    tls_channel_in_order [of CompLZ4 lz4_store "replicate 4096 0" "replicate 16384 0" "[sample_packet]" newPayload "Some zero_stat" "Some zero_stat" id]
    lz4_store_contract
  by (simp add: sample_packet_ok del: relay.simps)

text \<open>
  C7. The same of the DTLS channel, whose header is one byte and whose length is that of the
  datagram.
\<close>

theorem dtls_channel_in_order:
  assumes "c = CompLZ4 \<Longrightarrow> lz4_contract lz4" and "length cbuf = 4096" and "length dbuf = 16384"
    and "list_all (packet_ok 1) pls" and "fresh buf" and "c \<noteq> CompNone \<Longrightarrow> cs \<noteq> None \<and> rs \<noteq> None"
  shows "relay (dtlsPack lz4 grow c cbuf) (dtlsUnpack lz4 grow c dbuf) buf pls cs rs = Inr (map Data pls)"
proof -
  have "tunnel_codec lz4 c cbuf dbuf" by unfold_locales (use assms in auto)
  from tunnel_codec.dtls_relay [OF this assms(4,5)] show ?thesis using assms(6) by blast
qed

theorem dtls_channel_in_order_witness:
  "relay (dtlsPack lz4_store id CompLZS (replicate 4096 0)) (dtlsUnpack lz4_store id CompLZS (replicate 16384 0))
     newPayload [sample_packet, sample_packet] (Some zero_stat) (Some zero_stat) = Inr [replicate 40 7, replicate 40 7] \<and>
   relay (dtlsPack lz4_store id CompLZ4 (replicate 4096 0)) (dtlsUnpack lz4_store id CompLZ4 (replicate 16384 0))
     newPayload [sample_packet] (Some zero_stat) (Some zero_stat) = Inr [replicate 40 7]"
  using dtls_channel_in_order [of CompLZS lz4_store "replicate 4096 0" "replicate 16384 0" "[sample_packet, sample_packet]" newPayload "Some zero_stat" "Some zero_stat" id]
    dtls_channel_in_order [of CompLZ4 lz4_store "replicate 4096 0" "replicate 16384 0" "[sample_packet]" newPayload "Some zero_stat" "Some zero_stat" id]
    lz4_store_contract
  by (simp add: sample_packet_ok del: relay.simps One_nat_def)

text \<open>
  C8. Every TLS frame sent for a data packet has the documented header: the four fixed bytes,
  the length of what follows in big endian, type \<open>DATA\<close> or \<open>COMPRESSED DATA\<close>, and a zero byte.
  The body is never longer than the packet, the uncompressed body is the packet itself, and
  the counters grow by exactly the lengths before and after compression.
\<close>

theorem tls_frame_format:
  assumes "c = CompLZ4 \<Longrightarrow> lz4_contract lz4" and "packet_ok 8 pl" and "c \<noteq> CompNone \<Longrightarrow> cs \<noteq> None"
  shows "\<exists>pl' t body. tlsPack lz4 grow c cbuf pl cs = Inr (pl', count_send c (length (Data pl)) (length body) cs) \<and>
    Data pl' = [0x53, 0x54, 0x46, 0x01] @ PutUint16 [0, 0] 0 (of_nat (length body)) @ [t, 0x00] @ body \<and>
    unat (Uint16 (Data pl' ! 4) (Data pl' ! 5)) = length body \<and>
    (t = 0x00 \<and> body = Data pl \<or> t = 0x08 \<and> c \<noteq> CompNone \<and> length body < length (Data pl))"
proof -
  have n: "negotiated lz4 c" by unfold_locales (use assms(1) in auto)
  obtain t body where w: "wire_body lz4 c cbuf (Data pl) = (t, body)" by (cases "wire_body lz4 c cbuf (Data pl)")
  from negotiated.tlsPack_data [OF n, of pl cs grow cbuf] assms(2,3) w obtain pl' where
    p: "tlsPack lz4 grow c cbuf pl cs = Inr (pl', count_send c (length (Data pl)) (length body) cs)" "Data pl' = tls_frame t body"
    by (auto simp: packet_ok_def)
  have tb: "t = 0x00 \<and> body = Data pl \<or> t = 0x08 \<and> c \<noteq> CompNone \<and> length body < length (Data pl)"
    by (cases rule: negotiated.wire_body_cases [OF n, of cbuf "Data pl"]) (use w in auto)
  have "length body < 65528" using assms(2) tb by (auto simp: packet_ok_def BufferSize_def)
  with tls_frame_fields(2,4) [of pl' t body "[]"] p(2)
  have "unat (Uint16 (Data pl' ! 4) (Data pl' ! 5)) = length body" by simp
  with p tb show ?thesis by (intro exI [of _ pl'] exI [of _ t] exI [of _ body]) (simp add: tls_frame_def PutUint16_def)
qed

theorem tls_frame_format_witness:
  "\<exists>pl' t body. tlsPack lz4_store id CompLZ4 [] sample_packet (Some zero_stat) =
      Inr (pl', count_send CompLZ4 40 (length body) (Some zero_stat)) \<and>
    Data pl' = [0x53, 0x54, 0x46, 0x01] @ PutUint16 [0, 0] 0 (of_nat (length body)) @ [t, 0x00] @ body \<and>
    unat (Uint16 (Data pl' ! 4) (Data pl' ! 5)) = length body \<and>
    (t = 0x00 \<and> body = replicate 40 7 \<or> t = 0x08 \<and> CompLZ4 \<noteq> CompNone \<and> length body < 40)"
  using tls_frame_format [of CompLZ4 lz4_store sample_packet "Some zero_stat" id "[]"] lz4_store_contract
  by (simp add: sample_packet_ok)

text \<open>
  Dead peer detection: a \<open>DPD-REQ\<close> received on either channel is answered, in the same
  buffer, by the frame of type \<open>DPD-RESP\<close> with an empty body, without touching the counters, and
  the buffer keeps the capacity that lets it return to the pool.
\<close>

theorem dpd_answered:
  assumes "fresh buf" and "length bs \<le> BufferSize"
  shows "(Data (readInto buf bs) ! 6 = 0x03 \<longrightarrow>
      (\<exists>pl pl'. tlsUnpack lz4 grow c dbuf (readInto buf bs) cs = Inr (Reply pl, cs) \<and>
        tlsPack lz4 grow c cbuf pl cs = Inr (pl', cs) \<and> Data pl' = tls_frame 0x04 [] \<and> cap pl' = BufferSize)) \<and>
    (Data (readInto buf bs) ! 0 = 0x03 \<longrightarrow>
      (\<exists>pl pl'. dtlsUnpack lz4 grow c dbuf (length bs) (readInto buf bs) cs = Inr (Reply pl, cs) \<and>
        dtlsPack lz4 grow c cbuf pl cs = Inr (pl', cs) \<and> Data pl' = dtls_frame 0x04 [] \<and> cap pl' = BufferSize))"
proof -
  let ?r = "(readInto buf bs)\<lparr>Type := 0x04\<rparr>"
  have l: "length (Data (readInto buf bs)) = BufferSize" "cap ?r = BufferSize"
    using assms by (simp_all add: readInto_def fresh_def cap_def backing_def)
  have "tlsUnpack lz4 grow c dbuf (readInto buf bs) cs = Inr (Reply ?r, cs)" if "Data (readInto buf bs) ! 6 = 0x03"
    using that l by (simp add: tlsUnpack_def Let_def BufferSize_def)
  moreover have "dtlsUnpack lz4 grow c dbuf (length bs) (readInto buf bs) cs = Inr (Reply ?r, cs)" if "Data (readInto buf bs) ! 0 = 0x03"
    using that l by (simp add: dtlsUnpack_def Let_def BufferSize_def)
  moreover obtain pl' where "tlsPack lz4 grow c cbuf ?r cs = Inr (pl', cs)" "Data pl' = tls_frame 0x04 []" "cap pl' = BufferSize"
    using tlsPack_control [of ?r lz4 grow c cbuf cs] l by (auto simp: BufferSize_def)
  moreover obtain pl'' where "dtlsPack lz4 grow c cbuf ?r cs = Inr (pl'', cs)" "Data pl'' = dtls_frame 0x04 []" "cap pl'' = BufferSize"
    using dtlsPack_control [of ?r lz4 grow c cbuf cs] l by (auto simp: BufferSize_def)
  ultimately show ?thesis by blast
qed

theorem dpd_answered_witness:
  "(\<exists>pl pl'. tlsUnpack lz4_store id CompNone [] (readInto newPayload (tls_frame 0x03 [])) None = Inr (Reply pl, None) \<and>
     tlsPack lz4_store id CompNone [] pl None = Inr (pl', None) \<and> Data pl' = tls_frame 0x04 [] \<and> cap pl' = BufferSize) \<and>
   (\<exists>pl pl'. dtlsUnpack lz4_store id CompNone [] (length [0x03 :: byte]) (readInto newPayload [0x03]) None = Inr (Reply pl, None) \<and>
     dtlsPack lz4_store id CompNone [] pl None = Inr (pl', None) \<and> Data pl' = dtls_frame 0x04 [] \<and> cap pl' = BufferSize)"
proof
  have "Data (readInto newPayload (tls_frame 0x03 [])) ! 6 = 0x03" "length (tls_frame 0x03 []) \<le> BufferSize"
    by (simp_all add: readInto_def go_copy_def tls_frame_def newPayload_def BufferSize_def)
  then show "\<exists>pl pl'. tlsUnpack lz4_store id CompNone [] (readInto newPayload (tls_frame 0x03 [])) None = Inr (Reply pl, None) \<and>
     tlsPack lz4_store id CompNone [] pl None = Inr (pl', None) \<and> Data pl' = tls_frame 0x04 [] \<and> cap pl' = BufferSize"
    using dpd_answered [of newPayload "tls_frame 0x03 []"] by simp
  have "Data (readInto newPayload [0x03]) ! 0 = 0x03" "length [0x03 :: byte] \<le> BufferSize"
    by (simp_all add: readInto_def go_copy_def newPayload_def BufferSize_def)
  then show "\<exists>pl pl'. dtlsUnpack lz4_store id CompNone [] (length [0x03 :: byte]) (readInto newPayload [0x03]) None = Inr (Reply pl, None) \<and>
     dtlsPack lz4_store id CompNone [] pl None = Inr (pl', None) \<and> Data pl' = dtls_frame 0x04 [] \<and> cap pl' = BufferSize"
    using dpd_answered [of newPayload "[0x03]"] by simp
qed

text \<open>
  The length field of a received TLS data frame is trusted: a frame whose length field
  exceeds the 2040 bytes that a pool buffer has after the header makes the receiving loop
  panic (also where the 16-bit sum \<open>8+dataLen\<close> wraps), compressed or not.
\<close>

theorem tlsUnpack_oversized:
  assumes "cap pl = BufferSize" and "6 < length (Data pl)" and "Data pl ! 6 \<in> {0x00, 0x08}"
    and "2040 < unat (Uint16 (Data pl ! 4) (Data pl ! 5))" and "c \<noteq> CompNone \<Longrightarrow> cs \<noteq> None"
  shows "tlsUnpack lz4 grow c dbuf pl cs = Inl SliceOutOfRange"
  using assms(2,3,5) subslice_oversized [OF assms(1,4)] by (auto simp: tlsUnpack_def Let_def)

theorem tlsUnpack_oversized_witness:
  "tlsUnpack lz4_store id CompNone [] (readInto newPayload [0x53, 0x54, 0x46, 0x01, 0x08, 0x00, 0x00, 0x00]) None = Inl SliceOutOfRange"
proof (rule tlsUnpack_oversized)
  let ?pl = "readInto newPayload [0x53, 0x54, 0x46, 0x01, 0x08, 0x00, 0x00, 0x00]"
  show "cap ?pl = BufferSize" "6 < length (Data ?pl)"
    by (simp_all add: cap_def backing_def readInto_def newPayload_def BufferSize_def)
  show "Data ?pl ! 6 \<in> {0x00, 0x08}" "2040 < unat (Uint16 (Data ?pl ! 4) (Data ?pl ! 5))"
    by (simp_all add: readInto_def go_copy_def newPayload_def BufferSize_def Uint16_def)
qed simp

end
