(* ===== verification/Go_Std.thy ===== *)
theory Go_Std
  imports Sslcon_Prelude
begin

text \<open>
  The parts of Go's standard library that the program's logic goes through, on strings as
  byte sequences: decimal conversion (\<open>strconv.Atoi\<close>, \<open>%v\<close> of an int), \<open>strings.Split\<close> and
  \<open>strings.HasSuffix\<close>, \<open>encoding/hex\<close>, canonical HTTP header names and header lookup, IPv4
  addresses and masks of package \<open>net\<close>.  An \<open>int\<close> of the program is a 64-bit integer.
\<close>

subsection \<open>Characters and decimal numbers\<close>

definition code :: "char \<Rightarrow> nat" where
  "code c = of_char c"

definition digitVal :: "char \<Rightarrow> nat option" where
  "digitVal c = (if 48 \<le> code c \<and> code c \<le> 57 then Some (code c - 48) else None)"

definition digitChar :: "nat \<Rightarrow> char" where
  "digitChar n = char_of (48 + n)"

lemma digitVal_digitChar [simp]: "n < 10 \<Longrightarrow> digitVal (digitChar n) = Some n"
  by (simp add: digitVal_def digitChar_def code_def)

fun showNat :: "nat \<Rightarrow> string" where
  "showNat n = (if n < 10 then [digitChar n] else showNat (n div 10) @ [digitChar (n mod 10)])"

declare showNat.simps [simp del]

lemma showNat_nonempty [simp]: "showNat n \<noteq> []"
  by (subst showNat.simps) simp

definition maxUint64 :: nat where "maxUint64 = 18446744073709551615"

text \<open>\<open>ParseUint(s, 10, 64)\<close>: \<open>None\<close> is a syntax error; beyond the range the value saturates and
  the rest of the text is not looked at.\<close>

fun parseUint :: "nat \<Rightarrow> string \<Rightarrow> nat option" where
  "parseUint n [] = Some n"
| "parseUint n (c # s) =
     (case digitVal c of
        None \<Rightarrow> None
      | Some d \<Rightarrow> if n * 10 + d > maxUint64 then Some maxUint64 else parseUint (n * 10 + d) s)"

text \<open>\<open>strconv.Atoi\<close>: the value it returns, and whether it returned no error.\<close>

definition Atoi :: "string \<Rightarrow> int \<times> bool" where
  "Atoi s =
     (let neg = (s \<noteq> [] \<and> hd s = CHR ''-'');
          body = (if s \<noteq> [] \<and> (hd s = CHR ''-'' \<or> hd s = CHR ''+'') then tl s else s)
      in if body = [] then (0, False)
         else case parseUint 0 body of
           None \<Rightarrow> (0, False)
         | Some un \<Rightarrow>
             if \<not> neg \<and> un \<ge> 2 ^ 63 then (2 ^ 63 - 1, False)
             else if neg \<and> un > 2 ^ 63 then (- (2 ^ 63), False)
             else (if neg then - int un else int un, True))"

lemma parseUint_append:
  "parseUint n s = Some m \<Longrightarrow> m < maxUint64 \<Longrightarrow> parseUint n (s @ [c]) = parseUint m [c]"
  by (induction s arbitrary: n) (auto split: option.splits if_splits)

lemma parseUint_showNat: "n < maxUint64 \<Longrightarrow> parseUint 0 (showNat n) = Some n"
proof (induction n rule: showNat.induct)
  case (1 n)
  show ?case
  proof (cases "n < 10")
    case True
    then show ?thesis using "1.prems" by (simp add: showNat.simps)
  next
    case False
    then have "parseUint 0 (showNat (n div 10)) = Some (n div 10)"
      using "1.IH" "1.prems" by (meson div_le_dividend le_less_trans)
    moreover have "n div 10 < maxUint64" "n div 10 * 10 + n mod 10 = n"
      using "1.prems" div_le_dividend [of n 10] by auto
    ultimately show ?thesis
      using False "1.prems" parseUint_append [of 0 "showNat (n div 10)" "n div 10" "digitChar (n mod 10)"]
      by (simp add: showNat.simps [of n])
  qed
qed

lemma showNat_hd: "\<exists>d<10. hd (showNat n) = digitChar d"
  by (induction n rule: showNat.induct) (subst showNat.simps, auto)

lemma Atoi_showNat: "n < 2 ^ 63 \<Longrightarrow> Atoi (showNat n) = (int n, True)"
proof -
  assume n: "n < 2 ^ 63"
  obtain d where "d < 10" "hd (showNat n) = digitChar d" using showNat_hd by blast
  then have "digitVal (hd (showNat n)) = Some d" by simp
  then have "hd (showNat n) \<noteq> CHR ''-''" "hd (showNat n) \<noteq> CHR ''+''"
    by (auto simp: digitVal_def code_def split: if_splits)
  with n parseUint_showNat [of n] show ?thesis by (simp add: Atoi_def Let_def maxUint64_def)
qed

lemma Atoi_range: "- (2 ^ 63) \<le> fst (Atoi s) \<and> fst (Atoi s) < 2 ^ 63"
  by (auto simp: Atoi_def Let_def split: option.splits)

subsection \<open>Splitting and suffixes\<close>

fun split1 :: "char \<Rightarrow> string \<Rightarrow> string \<times> string list" where
  "split1 c [] = ([], [])"
| "split1 c (x # s) = (case split1 c s of (w, ws) \<Rightarrow> if x = c then ([], w # ws) else (x # w, ws))"

text \<open>\<open>strings.Split(s, c)\<close> for a separator of one character.\<close>

definition Split :: "char \<Rightarrow> string \<Rightarrow> string list" where
  "Split c s = (case split1 c s of (w, ws) \<Rightarrow> w # ws)"

definition HasSuffix :: "string \<Rightarrow> string \<Rightarrow> bool" where
  "HasSuffix s suffix \<longleftrightarrow> length suffix \<le> length s \<and> drop (length s - length suffix) s = suffix"

lemma HasSuffix_iff: "HasSuffix s suffix \<longleftrightarrow> (\<exists>p. s = p @ suffix)"
  by (auto simp: HasSuffix_def) (metis append_take_drop_id)

fun join :: "char \<Rightarrow> string list \<Rightarrow> string" where
  "join c [] = []"
| "join c [w] = w"
| "join c (w # ws) = w @ c # join c ws"

lemma split1_no: "c \<notin> set w \<Longrightarrow> split1 c w = (w, [])"
  by (induction w) auto

lemma split1_app: "c \<notin> set w \<Longrightarrow> split1 c (w @ c # s) = (w, Split c s)"
  by (induction w) (auto simp: Split_def split: prod.splits)

lemma Split_join: "ws \<noteq> [] \<Longrightarrow> \<forall>w\<in>set ws. c \<notin> set w \<Longrightarrow> Split c (join c ws) = ws"
  by (induction c ws rule: join.induct) (auto simp: Split_def split1_no split1_app)

lemma join_Split: "join c (Split c s) = s"
proof (induction s)
  case (Cons x s)
  obtain w ws where "split1 c s = (w, ws)" by (cases "split1 c s")
  with Cons show ?case by (cases ws) (auto simp: Split_def)
qed (simp add: Split_def)

subsection \<open>Hexadecimal\<close>

definition hexChar :: "nat \<Rightarrow> char" where
  "hexChar n = (if n < 10 then char_of (48 + n) else char_of (87 + n))"

definition hexVal :: "char \<Rightarrow> nat option" where
  "hexVal c =
     (let n = code c in
      if 48 \<le> n \<and> n \<le> 57 then Some (n - 48)
      else if 97 \<le> n \<and> n \<le> 102 then Some (n - 87)
      else if 65 \<le> n \<and> n \<le> 70 then Some (n - 55)
      else None)"

definition EncodeToString :: "byte list \<Rightarrow> string" where
  "EncodeToString bs = concat (map (\<lambda>b. [hexChar (unat b div 16), hexChar (unat b mod 16)]) bs)"

text \<open>\<open>hex.DecodeString\<close>: the bytes decoded before the first error, and whether there was none.\<close>

fun DecodeString :: "string \<Rightarrow> byte list \<times> bool" where
  "DecodeString [] = ([], True)"
| "DecodeString [_] = ([], False)"
| "DecodeString (a # b # s) =
     (case (hexVal a, hexVal b) of
        (Some x, Some y) \<Rightarrow> (case DecodeString s of (bs, ok) \<Rightarrow> (of_nat (16 * x + y) # bs, ok))
      | _ \<Rightarrow> ([], False))"

lemma hexVal_hexChar [simp]: "n < 16 \<Longrightarrow> hexVal (hexChar n) = Some n"
  by (simp add: hexVal_def hexChar_def code_def Let_def)

lemma DecodeString_EncodeToString: "DecodeString (EncodeToString bs) = (bs, True)"
proof (induction bs)
  case (Cons b bs)
  have "unat b < 256" by (rule order_less_le_trans [OF unsigned_less]) simp
  then have "unat b div 16 < 16" by simp
  moreover have "16 * (unat b div 16) + unat b mod 16 = unat b" by simp
  ultimately show ?case using Cons by (simp add: EncodeToString_def del: mult_div_mod_eq)
qed (simp add: EncodeToString_def)

subsection \<open>HTTP headers\<close>

definition toUpper :: "char \<Rightarrow> char" where
  "toUpper c = (if 97 \<le> code c \<and> code c \<le> 122 then char_of (code c - 32) else c)"

definition toLower :: "char \<Rightarrow> char" where
  "toLower c = (if 65 \<le> code c \<and> code c \<le> 90 then char_of (code c + 32) else c)"

text \<open>\<open>CanonicalHeaderKey\<close> of a name made of letters, digits and hyphens.\<close>

fun canonical :: "bool \<Rightarrow> string \<Rightarrow> string" where
  "canonical up [] = []"
| "canonical up (c # s) = (if up then toUpper c else toLower c) # canonical (c = CHR ''-'') s"

abbreviation CanonicalHeaderKey :: "string \<Rightarrow> string" where
  "CanonicalHeaderKey \<equiv> canonical True"

text \<open>A header maps names to the list of values; an absent name has none.\<close>

type_synonym header = "string \<Rightarrow> string list"

definition Values :: "header \<Rightarrow> string \<Rightarrow> string list" where
  "Values h k = h (CanonicalHeaderKey k)"

definition Get :: "header \<Rightarrow> string \<Rightarrow> string" where
  "Get h k = (case Values h k of [] \<Rightarrow> [] | v # _ \<Rightarrow> v)"

definition Set :: "header \<Rightarrow> string \<Rightarrow> string \<Rightarrow> header" where
  "Set h k v = h(CanonicalHeaderKey k := [v])"

lemma Get_Set: "Get (Set h k v) k' = (if CanonicalHeaderKey k' = CanonicalHeaderKey k then v else Get h k')"
  by (simp add: Get_def Set_def Values_def)

lemma Get_empty [simp]: "Get (\<lambda>_. []) k = []"
  by (simp add: Get_def Values_def)

lemma length_canonical [simp]: "length (canonical up s) = length s"
  by (induction up s rule: canonical.induct) simp_all

lemma canonical_neq: "length s \<noteq> length t \<Longrightarrow> CanonicalHeaderKey s \<noteq> CanonicalHeaderKey t"
  by (metis length_canonical)

subsection \<open>IPv4 addresses and masks\<close>

definition octet :: "string \<Rightarrow> byte option" where
  "octet s =
     (if s = [] \<or> length s > 3 \<or> (length s > 1 \<and> hd s = CHR ''0'') then None
      else case parseUint 0 s of
        None \<Rightarrow> None
      | Some n \<Rightarrow> if n > 255 then None else Some (of_nat n))"

definition parseIPv4 :: "string \<Rightarrow> byte list option" where
  "parseIPv4 s =
     (case map octet (Split (CHR ''.'') s) of
        [Some a, Some b, Some c, Some d] \<Rightarrow> Some [a, b, c, d]
      | _ \<Rightarrow> None)"

text \<open>
  \<open>net.ParseIP(s).To4()\<close>: the first dot or colon decides the notation.  Addresses in IPv6
  notation go to the parameter \<open>parseIPv6\<close>, which stands for the library's parser followed by
  \<open>To4\<close>.
\<close>

fun ParseIP4 :: "(string \<Rightarrow> byte list option) \<Rightarrow> string \<Rightarrow> byte list option" where
  "ParseIP4 parseIPv6 s =
     (case dropWhile (\<lambda>c. c \<notin> set ''.:%'') s of
        CHR ''.'' # _ \<Rightarrow> parseIPv4 s
      | CHR '':'' # _ \<Rightarrow> parseIPv6 s
      | _ \<Rightarrow> None)"

definition showIP :: "byte list \<Rightarrow> string" where
  "showIP bs = join (CHR ''.'') (map (showNat \<circ> unat) bs)"

text \<open>\<open>simpleMaskLength\<close>; \<open>None\<close> is its -1, a mask that is not contiguous.\<close>

fun leadingOnes :: "bool list \<Rightarrow> nat option" where
  "leadingOnes [] = Some 0"
| "leadingOnes (b # bs) =
     (if b then map_option Suc (leadingOnes bs) else if True \<in> set bs then None else Some 0)"

definition MaskSize :: "byte list \<Rightarrow> nat" where
  "MaskSize m = (case leadingOnes (stream_bits m) of Some n \<Rightarrow> n | None \<Rightarrow> 0)"

definition cidrMask :: "nat \<Rightarrow> byte list" where
  "cidrMask n = map (\<lambda>i. bits_word (map (\<lambda>j. 8 * i + j < n) [0..<8])) [0..<4]"

text \<open>Printing and parsing an address are inverse to each other.\<close>

lemma showNat_leading: "0 < n \<Longrightarrow> \<exists>d. 0 < d \<and> d < 10 \<and> hd (showNat n) = digitChar d"
proof (induction n rule: showNat.induct)
  case (1 n)
  then show ?case by (cases "n < 10") (auto simp: showNat.simps [of n] div_greater_zero_iff)
qed

lemma length_showNat: "n < 10 ^ Suc k \<Longrightarrow> length (showNat n) \<le> Suc k"
proof (induction k arbitrary: n)
  case (Suc k)
  then have "n div 10 < 10 ^ Suc k" by (simp add: less_mult_imp_div_less)
  from Suc.IH [OF this] show ?case by (simp add: showNat.simps [of n])
qed (simp add: showNat.simps)

lemma octet_showNat: "octet (showNat (unat b)) = Some b"
proof -
  have b: "unat b < 256" by (rule order_less_le_trans [OF unsigned_less]) simp
  then have "length (showNat (unat b)) \<le> 3" using length_showNat [of "unat b" 2] by simp
  moreover have "\<not> (1 < length (showNat (unat b)) \<and> hd (showNat (unat b)) = CHR ''0'')"
  proof (cases "unat b = 0")
    case True
    then show ?thesis by (simp add: showNat.simps)
  next
    case False
    then obtain d where d: "0 < d" "d < 10" "hd (showNat (unat b)) = digitChar d" using showNat_leading by blast
    have "digitVal (CHR ''0'') = Some 0" by (simp add: digitVal_def code_def)
    with d digitVal_digitChar [of d] show ?thesis by (metis nat_neq_iff option.inject)
  qed
  moreover have "parseUint 0 (showNat (unat b)) = Some (unat b)" using b by (intro parseUint_showNat) (simp add: maxUint64_def)
  ultimately show ?thesis using b by (auto simp: octet_def)
qed

lemma showNat_digits: "c \<in> set (showNat n) \<Longrightarrow> digitVal c \<noteq> None"
  by (induction n rule: showNat.induct) (subst (asm) showNat.simps, auto split: if_splits)

lemma showNat_no_dot: "CHR ''.'' \<notin> set (showNat n)" "CHR ''/'' \<notin> set (showNat n)"
  using showNat_digits [of "CHR ''.''" n] showNat_digits [of "CHR ''/''" n] by (auto simp: digitVal_def code_def)

lemma parseIPv4_showIP: "parseIPv4 (showIP [a, b, c, d]) = Some [a, b, c, d]"
proof -
  have "Split (CHR ''.'') (showIP [a, b, c, d]) = map (showNat \<circ> unat) [a, b, c, d]"
    unfolding showIP_def by (rule Split_join) (auto simp: showNat_no_dot)
  then show ?thesis by (simp add: parseIPv4_def octet_showNat)
qed

lemma dropWhile_digits: "dropWhile (\<lambda>c. c \<notin> set ''.:%'') (showNat n @ CHR ''.'' # s) = CHR ''.'' # s"
proof -
  have "\<forall>c\<in>set (showNat n). c \<notin> set ''.:%''"
    using showNat_digits [of _ n] by (fastforce simp: digitVal_def code_def)
  then show ?thesis by (induction "showNat n") (simp_all add: dropWhile_append2)
qed

lemma ParseIP4_showIP: "ParseIP4 parseIPv6 (showIP [a, b, c, d]) = Some [a, b, c, d]"
proof -
  have "showIP [a, b, c, d] = showNat (unat a) @ CHR ''.'' # join (CHR ''.'') (map (showNat \<circ> unat) [b, c, d])"
    by (simp add: showIP_def)
  then show ?thesis
    using dropWhile_digits [of "unat a" "join (CHR ''.'') (map (showNat \<circ> unat) [b, c, d])"] parseIPv4_showIP [of a b c d]
    by simp
qed

lemma MaskSize_cidrMask: "n \<le> 32 \<Longrightarrow> MaskSize (cidrMask n) = n"
proof -
  assume "n \<le> 32"
  moreover have "\<forall>n\<in>set [0..<33]. MaskSize (cidrMask n) = n" by code_simp
  ultimately show ?thesis by simp
qed

lemma cidrMask_four: "\<exists>a b c d. cidrMask n = [a, b, c, d]"
  by (simp add: cidrMask_def upt_rec)

end
