(* ===== verification/Utils.thy ===== *)
theory Utils
  imports Go_Std
begin

text \<open>
  Configuration and helpers: \<open>src/base/config.go\<close>, the level logic of \<open>src/base/log.go\<close>,
  \<open>src/utils/utils.go\<close> and the IPv4 header accessors of \<open>src/utils/waterutil\<close>.  Accessors
  index their packet without a check: \<open>None\<close> is the run-time panic.
\<close>

subsection \<open>Configuration\<close>

record ClientConfig =
  LogLevel :: string
  LogPath :: string
  InsecureSkipVerify :: bool
  CiscoCompat :: bool
  NoDTLS :: bool
  AgentName :: string
  AgentVersion :: string
  CfgCompression :: bool
  AutoReconnect :: bool

record Interface =
  IfName :: string
  Ip4 :: string
  Mac :: string
  Gateway :: string

definition initCfg :: "ClientConfig \<Rightarrow> ClientConfig" where
  "initCfg cfg = cfg\<lparr>LogLevel := ''Debug'', InsecureSkipVerify := True, CiscoCompat := True, AgentName := '''',
     AgentVersion := ''4.10.07062'', CfgCompression := True, AutoReconnect := True\<rparr>"

subsection \<open>Log levels\<close>

definition levels :: "string list" where
  "levels = [''Debug'', ''Info'', ''Warn'', ''Error'', ''Fatal'']"

text \<open>The map is walked in no particular order; at most one entry matches.\<close>

definition logLevel2Int :: "string \<Rightarrow> nat" where
  "logLevel2Int l =
     foldl (\<lambda>lvl (k, v). if map toLower l = map toLower v then k else lvl) 1 (enumerate 0 levels)"

text \<open>\<open>Debug\<close>, \<open>Info\<close>, \<open>Warn\<close>, \<open>Error\<close> and \<open>Fatal\<close> are this with their own level.\<close>

definition logAt :: "nat \<Rightarrow> nat \<Rightarrow> string \<Rightarrow> string option" where
  "logAt l baseLevel s = (if baseLevel > l then None else Some (''['' @ levels ! l @ ''] '' @ s))"

subsection \<open>utils.go\<close>

fun InArray :: "string list \<Rightarrow> string \<Rightarrow> bool" where
  "InArray [] str = False"
| "InArray (d # arr) str = (if d = str then True else InArray arr str)"

fun InArrayGeneric :: "string list \<Rightarrow> string \<Rightarrow> bool" where
  "InArrayGeneric [] str = False"
| "InArrayGeneric (d # arr) str = (if d \<noteq> [] \<and> HasSuffix str d then True else InArrayGeneric arr str)"

definition SetCommonHeader :: "ClientConfig \<Rightarrow> header \<Rightarrow> ClientConfig \<times> header" where
  "SetCommonHeader cfg h =
     (let cfg = (if CiscoCompat cfg \<or> AgentName cfg = [] then cfg\<lparr>AgentName := ''AnyConnect''\<rparr> else cfg);
          h = Set h ''User-Agent'' (AgentName cfg @ '' '' @ AgentVersion cfg);
          h = Set h ''Content-Type'' ''application/xml; charset=utf-8''
      in (cfg, h))"

text \<open>\<open>net.IPMask(net.ParseIP(mask).To4()).Size()\<close>; a nil mask has size 0.\<close>

definition maskLength :: "(string \<Rightarrow> byte list option) \<Rightarrow> string \<Rightarrow> nat" where
  "maskLength parseIPv6 m = (case ParseIP4 parseIPv6 m of None \<Rightarrow> MaskSize [] | Some bs \<Rightarrow> MaskSize bs)"

definition IpMask2CIDR :: "(string \<Rightarrow> byte list option) \<Rightarrow> string \<Rightarrow> string \<Rightarrow> string" where
  "IpMask2CIDR parseIPv6 ip m = ip @ ''/'' @ showNat (maskLength parseIPv6 m)"

definition IpMaskToCIDR :: "(string \<Rightarrow> byte list option) \<Rightarrow> string \<Rightarrow> string option" where
  "IpMaskToCIDR parseIPv6 ipMask =
     (let ips = Split (CHR ''/'') ipMask in
      case (go_index ips 0, go_index ips 1) of
        (Some ip, Some m) \<Rightarrow> Some (ip @ ''/'' @ showNat (maskLength parseIPv6 m))
      | _ \<Rightarrow> None)"

text \<open>\<open>MakeMasterSecret\<close>: 48 bytes, the DTLS library's protocol version and the bytes
  \<open>rand\<close> of the random source.\<close>

definition MakeMasterSecret :: "byte \<times> byte \<Rightarrow> byte list \<Rightarrow> byte list" where
  "MakeMasterSecret version rand = [fst version, snd version] @ go_copy (replicate 46 0) rand"

fun Min_int :: "int \<Rightarrow> int list \<Rightarrow> int" where
  "Min_int minValue [] = minValue"
| "Min_int minValue (val # other) = Min_int (if val \<noteq> 0 \<and> val < minValue then val else minValue) other"

fun Max_int :: "int \<Rightarrow> int list \<Rightarrow> int" where
  "Max_int maxValue [] = maxValue"
| "Max_int maxValue (val # other) = Max_int (if val > maxValue then val else maxValue) other"

text \<open>\<open>strings.ToUpper\<close> of a lone byte that is not ASCII gives the replacement character.\<close>

definition FirstUpper :: "string \<Rightarrow> string" where
  "FirstUpper s =
     (case s of
        [] \<Rightarrow> []
      | c # cs \<Rightarrow> (if code c < 128 then [toUpper c] else [CHR 0xEF, CHR 0xBF, CHR 0xBD]) @ cs)"

subsection \<open>IPv4 packets\<close>

definition IPv4DSCP :: "byte list \<Rightarrow> byte option" where
  "IPv4DSCP packet = map_option (drop_bit 2) (go_index packet 1)"

definition IPv4ECN :: "byte list \<Rightarrow> byte option" where
  "IPv4ECN packet = map_option (\<lambda>b. b AND 0x03) (go_index packet 1)"

definition IPv4Identification :: "byte list \<Rightarrow> byte list option" where
  "IPv4Identification packet = go_slice packet 4 6"

definition IPv4TTL :: "byte list \<Rightarrow> byte option" where
  "IPv4TTL packet = go_index packet 8"

definition IPv4Protocol :: "byte list \<Rightarrow> byte option" where
  "IPv4Protocol packet = go_index packet 9"

definition IPv4Source :: "byte list \<Rightarrow> byte list option" where
  "IPv4Source packet = go_slice packet 12 16"

definition IPv4Destination :: "byte list \<Rightarrow> byte list option" where
  "IPv4Destination packet = go_slice packet 16 20"

text \<open>The setters copy into a slice of the packet; the address is four bytes, or none (nil).\<close>

definition SetIPv4Source :: "byte list \<Rightarrow> byte list \<Rightarrow> byte list option" where
  "SetIPv4Source packet source =
     map_option (\<lambda>s. take 12 packet @ go_copy s source @ drop 16 packet) (go_slice packet 12 16)"

definition SetIPv4Destination :: "byte list \<Rightarrow> byte list \<Rightarrow> byte list option" where
  "SetIPv4Destination packet dest =
     map_option (\<lambda>s. take 16 packet @ go_copy s dest @ drop 20 packet) (go_slice packet 16 20)"

text \<open>The offset \<open>ihl*4\<close> is computed in a byte.\<close>

definition IPv4PayloadOffset :: "byte list \<Rightarrow> nat option" where
  "IPv4PayloadOffset packet =
     (case go_index packet 0 of
        None \<Rightarrow> None
      | Some b \<Rightarrow> (let i = unat ((b AND 0x0F) * 4) in if i \<le> length packet then Some i else None))"

definition IPv4Payload :: "byte list \<Rightarrow> byte list option" where
  "IPv4Payload packet = map_option (\<lambda>i. drop i packet) (IPv4PayloadOffset packet)"

definition portAt :: "nat \<Rightarrow> byte list \<Rightarrow> u16 option" where
  "portAt k packet =
     (case IPv4Payload packet of
        None \<Rightarrow> None
      | Some payload \<Rightarrow>
          (case (go_index payload k, go_index payload (k + 1)) of
             (Some a, Some b) \<Rightarrow> Some (push_bit 8 (ucast a) OR ucast b)
           | _ \<Rightarrow> None))"

definition IPv4SourcePort :: "byte list \<Rightarrow> u16 option" where
  "IPv4SourcePort packet = portAt 0 packet"

definition IPv4DestinationPort :: "byte list \<Rightarrow> u16 option" where
  "IPv4DestinationPort packet = portAt 2 packet"

definition setPortAt :: "nat \<Rightarrow> byte list \<Rightarrow> u16 \<Rightarrow> byte list option" where
  "setPortAt k packet port =
     (case IPv4PayloadOffset packet of
        None \<Rightarrow> None
      | Some i \<Rightarrow>
          if i + k + 1 < length packet
          then Some (packet[i + k := ucast (drop_bit 8 port), i + k + 1 := ucast (port AND 0xFF)])
          else None)"

definition SetIPv4SourcePort :: "byte list \<Rightarrow> u16 \<Rightarrow> byte list option" where
  "SetIPv4SourcePort packet port = setPortAt 0 packet port"

definition SetIPv4DestinationPort :: "byte list \<Rightarrow> u16 \<Rightarrow> byte list option" where
  "SetIPv4DestinationPort packet port = setPortAt 2 packet port"

definition ResolvePacket :: "byte list \<Rightarrow> (string \<times> u16 \<times> string \<times> u16) option" where
  "ResolvePacket packet =
     (case (IPv4Source packet, IPv4SourcePort packet, IPv4Destination packet, IPv4DestinationPort packet) of
        (Some src, Some srcPort, Some dst, Some dstPort) \<Rightarrow> Some (showIP src, srcPort, showIP dst, dstPort)
      | _ \<Rightarrow> None)"

subsection \<open>Lemmas\<close>

lemma InArray_iff: "InArray arr str \<longleftrightarrow> str \<in> set arr"
  by (induction arr) auto

lemma InArrayGeneric_iff: "InArrayGeneric arr str \<longleftrightarrow> (\<exists>d\<in>set arr. d \<noteq> [] \<and> (\<exists>p. str = p @ d))"
  by (induction arr) (auto simp: HasSuffix_iff)

lemma Min_int_le: "Min_int m vs \<le> m"
proof (induction vs arbitrary: m)
  case (Cons a vs)
  show ?case using Cons.IH [of "if a \<noteq> 0 \<and> a < m then a else m"] by (auto split: if_splits)
qed simp

lemma Min_int_le_other: "v \<in> set vs \<Longrightarrow> v \<noteq> 0 \<Longrightarrow> Min_int m vs \<le> v"
proof (induction vs arbitrary: m)
  case (Cons a vs)
  show ?case
  proof (cases "v = a")
    case True
    then show ?thesis using Cons.prems Min_int_le [of "if a \<noteq> 0 \<and> a < m then a else m" vs] by (auto split: if_splits)
  qed (use Cons in auto)
qed simp

lemma Min_int_cases: "Min_int m vs = m \<or> Min_int m vs \<in> set vs \<and> Min_int m vs \<noteq> 0"
proof (induction vs arbitrary: m)
  case (Cons a vs)
  show ?case using Cons.IH [of a] Cons.IH [of m] by (cases "a \<noteq> 0 \<and> a < m") auto
qed simp

lemma maskLength_cidrMask: "n \<le> 32 \<Longrightarrow> maskLength parseIPv6 (showIP (cidrMask n)) = n"
  using cidrMask_four [of n] ParseIP4_showIP MaskSize_cidrMask [of n] by (auto simp: maskLength_def simp del: ParseIP4.simps)

text \<open>Writing below or above the fields read leaves the packet's payload offset alone.\<close>

lemma IPv4PayloadOffset_cong:
  "length p = length q \<Longrightarrow> p ! 0 = q ! 0 \<Longrightarrow> IPv4PayloadOffset p = IPv4PayloadOffset q"
  by (auto simp: IPv4PayloadOffset_def go_index_def)

lemma IPv4PayloadOffset_pos:
  assumes "IPv4PayloadOffset packet = Some i" and "5 \<le> packet ! 0 AND 0x0F"
  shows "20 \<le> i"
proof -
  let ?h = "packet ! 0 AND 0x0F"
  have "?h \<le> 0x0F" by (rule word_and_le1)
  then have "unat ?h \<le> 15" by (simp add: word_le_nat_alt)
  moreover have "5 \<le> unat ?h" using assms(2) by (simp add: word_le_nat_alt)
  moreover have "unat (?h * 4) = (unat ?h * 4) mod 256" by (simp add: unat_word_ariths)
  ultimately have "20 \<le> unat (?h * 4)" by simp
  then show ?thesis using assms(1) by (auto simp: IPv4PayloadOffset_def go_index_def Let_def split: if_splits)
qed

lemma port_bytes: "push_bit 8 (ucast (ucast (drop_bit 8 port) :: byte)) OR ucast (ucast (port AND 0xFF) :: byte) = (port :: u16)"
proof -
  have m: "(0xFF :: u16) = mask 8" by (simp add: mask_eq_exp_minus_1)
  show ?thesis unfolding m by (rule bit_word_eqI) (auto simp: bit_simps)
qed

lemma setPortAt_spec:
  assumes "setPortAt k packet port = Some p'" and "5 \<le> packet ! 0 AND 0x0F"
  shows "portAt k p' = Some port" and "j + 1 < k \<or> k + 1 < j \<Longrightarrow> portAt j p' = portAt j packet"
    and "length p' = length packet" and "take 20 p' = take 20 packet"
proof -
  from assms(1) obtain i where i: "IPv4PayloadOffset packet = Some i" "i + k + 1 < length packet"
    and p': "p' = packet[i + k := ucast (drop_bit 8 port), i + k + 1 := ucast (port AND 0xFF)]"
    by (auto simp: setPortAt_def split: option.splits if_splits)
  have i20: "20 \<le> i" by (rule IPv4PayloadOffset_pos [OF i(1) assms(2)])
  have off: "IPv4PayloadOffset p' = Some i"
    using i i20 by (subst IPv4PayloadOffset_cong [of p' packet]) (auto simp: p')
  have pay: "IPv4Payload p' = Some (drop i p')" "IPv4Payload packet = Some (drop i packet)"
    using off i by (simp_all add: IPv4Payload_def)
  show "length p' = length packet" by (simp add: p')
  show "take 20 p' = take 20 packet" using i20 by (simp add: p')
  show "portAt k p' = Some port" using pay(1) i port_bytes [of port] by (simp add: portAt_def p')
  show "portAt j p' = portAt j packet" if "j + 1 < k \<or> k + 1 < j"
    using pay that by (auto simp: portAt_def p' go_index_def)
qed

lemma go_slice_take: "b \<le> n \<Longrightarrow> take n xs = take n ys \<Longrightarrow> length xs = length ys \<Longrightarrow> go_slice xs a b = go_slice ys a b"
proof -
  assume a: "b \<le> n" "take n xs = take n ys" "length xs = length ys"
  then have "take b xs = take b ys" by (metis min.absorb1 take_take)
  then have "drop a (take b xs) = drop a (take b ys)" by simp
  with a(3) show ?thesis by (simp add: go_slice_def drop_take)
qed

subsection \<open>Properties\<close>

text \<open>
  Rewriting a port of an IPv4 packet whose header is at least 20 bytes long: the port
  reads back as written, the other port and both addresses stay, the length stays.
\<close>

theorem SetIPv4SourcePort_roundtrip:
  assumes "SetIPv4SourcePort packet port = Some p'" and "5 \<le> packet ! 0 AND 0x0F"
  shows "IPv4SourcePort p' = Some port \<and> IPv4DestinationPort p' = IPv4DestinationPort packet \<and>
    IPv4Source p' = IPv4Source packet \<and> IPv4Destination p' = IPv4Destination packet \<and> length p' = length packet"
  using setPortAt_spec(1,3,4) [OF assms(1) [unfolded SetIPv4SourcePort_def] assms(2)]
    setPortAt_spec(2) [OF assms(1) [unfolded SetIPv4SourcePort_def] assms(2), of 2]
    go_slice_take [of _ 20 p' packet]
  by (simp add: IPv4SourcePort_def IPv4DestinationPort_def IPv4Source_def IPv4Destination_def)

definition sample_udp :: "byte list" where
  "sample_udp = [0x45, 0, 0, 28, 0, 0, 0, 0, 64, 17, 0, 0, 10, 0, 0, 1, 8, 8, 8, 8, 0x04, 0xd2, 0, 53, 0, 8, 0, 0]"

theorem SetIPv4SourcePort_roundtrip_witness:
  "\<exists>p'. SetIPv4SourcePort sample_udp 4321 = Some p' \<and>
    IPv4SourcePort p' = Some 4321 \<and> IPv4DestinationPort p' = IPv4DestinationPort sample_udp \<and>
    IPv4Source p' = IPv4Source sample_udp \<and> IPv4Destination p' = IPv4Destination sample_udp \<and> length p' = length sample_udp"
proof -
  have "\<exists>p'. SetIPv4SourcePort sample_udp 4321 = Some p'"
    by (simp add: SetIPv4SourcePort_def setPortAt_def IPv4PayloadOffset_def sample_udp_def)
  moreover have "5 \<le> sample_udp ! 0 AND 0x0F" by (simp add: sample_udp_def)
  ultimately show ?thesis using SetIPv4SourcePort_roundtrip by blast
qed

text \<open>
  Netmask conversion is exact: for every prefix length, the dotted form of its mask is
  turned into that length, in both helpers that the routing code uses.
\<close>

theorem IpMask_cidr:
  assumes "n \<le> 32" and "CHR ''/'' \<notin> set ip"
  shows "IpMask2CIDR parseIPv6 ip (showIP (cidrMask n)) = ip @ ''/'' @ showNat n \<and>
    IpMaskToCIDR parseIPv6 (ip @ ''/'' @ showIP (cidrMask n)) = Some (ip @ ''/'' @ showNat n)"
proof -
  obtain a b c d where m: "cidrMask n = [a, b, c, d]" using cidrMask_four by blast
  have "CHR ''/'' \<notin> set (showIP (cidrMask n))" by (simp add: m showIP_def showNat_no_dot)
  then have "Split (CHR ''/'') (ip @ ''/'' @ showIP (cidrMask n)) = [ip, showIP (cidrMask n)]"
    using Split_join [of "[ip, showIP (cidrMask n)]" "CHR ''/''"] assms(2) by simp
  then show ?thesis using maskLength_cidrMask [OF assms(1)]
    by (simp add: IpMask2CIDR_def IpMaskToCIDR_def)
qed

theorem IpMask_cidr_witness:
  "IpMask2CIDR (\<lambda>_. None) ''192.168.1.10'' (showIP (cidrMask 24)) = ''192.168.1.10'' @ ''/'' @ showNat 24 \<and>
   IpMaskToCIDR (\<lambda>_. None) (''192.168.1.10'' @ ''/'' @ showIP (cidrMask 24)) = Some (''192.168.1.10'' @ ''/'' @ showNat 24)"
  by (rule IpMask_cidr) simp_all

text \<open>
  The log filter: a message is written exactly when its level is at least the configured
  one, whose name is compared without case; an unknown name means \<open>Info\<close>.
\<close>

theorem log_filter:
  "(logAt l (logLevel2Int name) s \<noteq> None \<longleftrightarrow> logLevel2Int name \<le> l) \<and>
   (i < 5 \<and> map toLower name = map toLower (levels ! i) \<longrightarrow> logLevel2Int name = i) \<and>
   (map toLower name \<notin> set (map (map toLower) levels) \<longrightarrow> logLevel2Int name = 1)"
proof (intro conjI impI)
  show "logAt l (logLevel2Int name) s \<noteq> None \<longleftrightarrow> logLevel2Int name \<le> l" by (simp add: logAt_def not_less)
  assume "i < 5 \<and> map toLower name = map toLower (levels ! i)"
  moreover then have "i = 0 \<or> i = 1 \<or> i = 2 \<or> i = 3 \<or> i = 4" by auto
  ultimately show "logLevel2Int name = i"
    by (elim disjE) (simp_all add: logLevel2Int_def levels_def toLower_def code_def char_of_def)
next
  assume "map toLower name \<notin> set (map (map toLower) levels)"
  then show "logLevel2Int name = 1" by (auto simp: logLevel2Int_def levels_def)
qed

end
