(* ===== verification/Session.thy ===== *)
theory Session
  imports Packet Utils
begin

text \<open>
  The session objects of \<open>src/session/session.go\<close>.  Objects behind pointers live in a heap
  (\<open>conns\<close>, \<open>dtlss\<close>, by address); the process-wide \<open>Sess\<close> points to the current connection.
  Every \<open>make(chan struct{})\<close> of \<open>NewConnSession\<close> creates a new channel: it is named by its
  role and the address of the connection created with it, and \<open>closed\<close> says which channels
  are closed.  Closing a closed or nil channel panics, as do accesses through nil.
\<close>

datatype chan = ConnClose nat | DtlsSetup nat | DtlsClose nat | SessClose nat

datatype session_panic = CloseOfClosedChannel | CloseOfNilChannel | NilPointer

record Session =
  SessionToken :: string
  PreMasterSecret :: "byte list"
  ActiveClose :: bool
  SessCloseChan :: "chan option"
  CSess :: "nat option"

record stat =
  BytesSent :: u64
  BytesReceived :: u64

record ConnSession =
  ServerAddress :: string
  LocalAddress :: string
  Hostname :: string
  TunName :: string
  VPNAddress :: string
  VPNMask :: string
  DNS :: "string list"
  MTU :: int
  SplitInclude :: "string list"
  SplitExclude :: "string list"
  DynamicSplitTunneling :: bool
  DynamicSplitIncludeDomains :: "string list"
  DynamicSplitIncludeResolved :: "string \<rightharpoonup> string list"
  DynamicSplitExcludeDomains :: "string list"
  DynamicSplitExcludeResolved :: "string \<rightharpoonup> string list"
  TLSCipherSuite :: string
  TLSDpdTime :: int
  TLSKeepaliveTime :: int
  DTLSPort :: string
  DTLSDpdTime :: int
  DTLSKeepaliveTime :: int
  DTLSId :: string
  DTLSCipherSuite :: string
  CSTPCompression :: Compression
  DTLSCompression :: Compression
  IdleTimeout :: int
  AuthExpiration :: "int option"
  Stat :: stat
  CompressStats :: "CompressStat option"
  closeOnce :: bool
  CloseChan :: chan
  PayloadIn :: "Payload list"
  PayloadOutTLS :: "Payload list"
  PayloadOutDTLS :: "Payload list"
  DtlsConnected :: bool
  DtlsSetupChan :: chan
  DSess :: nat
  ResetTLSReadDead :: bool
  ResetDTLSReadDead :: bool

record DtlsSession =
  dtlsOnce :: bool
  DtlsCloseChan :: chan

record world =
  Sess :: Session
  conns :: "nat \<Rightarrow> ConnSession option"
  dtlss :: "nat \<Rightarrow> DtlsSession option"
  closed :: "chan \<Rightarrow> bool"
  nextAddr :: nat

definition close :: "chan \<Rightarrow> world \<Rightarrow> session_panic + world" where
  "close ch w = (if closed w ch then Inl CloseOfClosedChannel else Inr (w\<lparr>closed := (closed w)(ch := True)\<rparr>))"

definition updConn :: "nat \<Rightarrow> (ConnSession \<Rightarrow> ConnSession) \<Rightarrow> world \<Rightarrow> world" where
  "updConn a f w = w\<lparr>conns := (conns w)(a := map_option f (conns w a))\<rparr>"

definition updDtls :: "nat \<Rightarrow> (DtlsSession \<Rightarrow> DtlsSession) \<Rightarrow> world \<Rightarrow> world" where
  "updDtls a f w = w\<lparr>dtlss := (dtlss w)(a := map_option f (dtlss w a))\<rparr>"

subsection \<open>Creating a connection\<close>

definition atoiSafe :: "string \<Rightarrow> int" where
  "atoiSafe s = fst (Atoi s)"

text \<open>The loop over the three durations: the smallest positive one, or 0.\<close>

fun sessionExpiry :: "int \<Rightarrow> int list \<Rightarrow> int" where
  "sessionExpiry expiry [] = expiry"
| "sessionExpiry expiry (v # vs) =
     sessionExpiry (if v > 0 \<and> (expiry = 0 \<or> v < expiry) then v else expiry) vs"

text \<open>\<open>time.Duration(s) * time.Second\<close> in 64 bits.\<close>

definition seconds :: "int \<Rightarrow> int" where
  "seconds s = sint (of_int (s * 1000000000) :: u64)"

text \<open>
  What \<open>xml.Unmarshal\<close> into \<open>proto.DTD\<close> finds in the post-auth document, or \<open>None\<close> on an error:
  the two custom attributes (include domains, exclude domains).
\<close>

type_synonym post_auth = "string \<Rightarrow> (string \<times> string) option"

definition applyPostAuth :: "post_auth \<Rightarrow> string \<Rightarrow> ConnSession \<Rightarrow> ConnSession" where
  "applyPostAuth unmarshal postAuth cs =
     (if postAuth = [] then cs
      else case unmarshal postAuth of
        None \<Rightarrow> cs
      | Some (inc, exc) \<Rightarrow>
          if inc \<noteq> [] then cs\<lparr>DynamicSplitIncludeDomains := Split (CHR '','') inc, DynamicSplitTunneling := True\<rparr>
          else if exc \<noteq> [] then cs\<lparr>DynamicSplitExcludeDomains := Split (CHR '','') exc, DynamicSplitTunneling := True\<rparr>
          else cs)"

text \<open>The connection that the response headers describe, at address \<open>a\<close>.\<close>

definition connOf :: "ClientConfig \<Rightarrow> Interface \<Rightarrow> post_auth \<Rightarrow> int \<Rightarrow> header \<Rightarrow> nat \<Rightarrow> ConnSession" where
  "connOf cfg ifc unmarshal now h a =
     (let cstp = ParseCompression (Get h ''X-CSTP-Content-Encoding'');
          dtls = ParseCompression (Get h ''X-DTLS-Content-Encoding'');
          expiry = sessionExpiry 0 [atoiSafe (Get h ''X-CSTP-Lease-Duration''),
             atoiSafe (Get h ''X-CSTP-Session-Timeout''), atoiSafe (Get h ''X-CSTP-Session-Timeout-Remaining'')]
      in applyPostAuth unmarshal (Get h ''X-CSTP-Post-Auth-XML'')
       \<lparr>ServerAddress = [], LocalAddress = Ip4 ifc, Hostname = [], TunName = [],
        VPNAddress = Get h ''X-CSTP-Address'', VPNMask = Get h ''X-CSTP-Netmask'',
        DNS = Values h ''X-CSTP-DNS'', MTU = fst (Atoi (Get h ''X-CSTP-MTU'')),
        SplitInclude = Values h ''X-CSTP-Split-Include'', SplitExclude = Values h ''X-CSTP-Split-Exclude'',
        DynamicSplitTunneling = False,
        DynamicSplitIncludeDomains = [], DynamicSplitIncludeResolved = Map.empty,
        DynamicSplitExcludeDomains = [], DynamicSplitExcludeResolved = Map.empty,
        TLSCipherSuite = [],
        TLSDpdTime = fst (Atoi (Get h ''X-CSTP-DPD'')), TLSKeepaliveTime = fst (Atoi (Get h ''X-CSTP-Keepalive'')),
        DTLSPort = Get h ''X-DTLS-Port'',
        DTLSDpdTime = fst (Atoi (Get h ''X-DTLS-DPD'')), DTLSKeepaliveTime = fst (Atoi (Get h ''X-DTLS-Keepalive'')),
        DTLSId = (if Get h ''X-DTLS-Session-ID'' = [] then Get h ''X-DTLS-App-ID'' else Get h ''X-DTLS-Session-ID''),
        DTLSCipherSuite = (if NoDTLS cfg then ''Unknown'' else Get h ''X-DTLS12-CipherSuite''),
        CSTPCompression = cstp, DTLSCompression = dtls,
        IdleTimeout = fst (Atoi (Get h ''X-CSTP-Idle-Timeout'')),
        AuthExpiration = (if expiry > 0 then Some (now + seconds expiry) else None),
        Stat = \<lparr>BytesSent = 0, BytesReceived = 0\<rparr>,
        CompressStats = (if cstp \<noteq> CompNone \<or> dtls \<noteq> CompNone
           then Some \<lparr>SendOriginal = 0, SendWire = 0, RecvWire = 0, RecvOriginal = 0\<rparr> else None),
        closeOnce = False, CloseChan = ConnClose a,
        PayloadIn = [], PayloadOutTLS = [], PayloadOutDTLS = [],
        DtlsConnected = False, DtlsSetupChan = DtlsSetup a, DSess = a,
        ResetTLSReadDead = True, ResetDTLSReadDead = True\<rparr>)"

definition NewConnSession ::
    "ClientConfig \<Rightarrow> Interface \<Rightarrow> post_auth \<Rightarrow> int \<Rightarrow> header \<Rightarrow> world \<Rightarrow> nat \<times> world" where
  "NewConnSession cfg ifc unmarshal now h w =
     (let a = nextAddr w in
      (a, w\<lparr>Sess := (Sess w)\<lparr>CSess := Some a, ActiveClose := False, SessCloseChan := Some (SessClose a)\<rparr>,
            conns := (conns w)(a \<mapsto> connOf cfg ifc unmarshal now h a),
            dtlss := (dtlss w)(a \<mapsto> \<lparr>dtlsOnce = False, DtlsCloseChan = DtlsClose a\<rparr>),
            nextAddr := a + 1\<rparr>))"

subsection \<open>Closing\<close>

definition DtlsSession_Close :: "nat \<Rightarrow> world \<Rightarrow> session_panic + world" where
  "DtlsSession_Close d w =
     (case dtlss w d of
        None \<Rightarrow> Inl NilPointer
      | Some ds \<Rightarrow>
          if dtlsOnce ds then Inr w
          else
            res_bind (close (DtlsCloseChan ds) w) (\<lambda>w.
              let w = updDtls d (\<lambda>ds. ds\<lparr>dtlsOnce := True\<rparr>) w in
              case CSess (Sess w) of
                None \<Rightarrow> Inr w
              | Some g \<Rightarrow>
                  (case conns w g of
                     None \<Rightarrow> Inl NilPointer
                   | Some cs \<Rightarrow>
                       if DSess cs = d
                       then Inr (updConn g (\<lambda>cs. cs\<lparr>DtlsConnected := False, DTLSCipherSuite := []\<rparr>) w)
                       else Inr w)))"

definition ConnSession_Close :: "nat \<Rightarrow> world \<Rightarrow> session_panic + world" where
  "ConnSession_Close a w =
     (case conns w a of
        None \<Rightarrow> Inl NilPointer
      | Some cs \<Rightarrow>
          if closeOnce cs then Inr w
          else
            res_bind (if DtlsConnected cs then DtlsSession_Close (DSess cs) w else Inr w) (\<lambda>w.
            res_bind (close (CloseChan cs) w) (\<lambda>w.
              let w = updConn a (\<lambda>cs. cs\<lparr>closeOnce := True\<rparr>) w in
              if CSess (Sess w) = Some a then
                let w = w\<lparr>Sess := (Sess w)\<lparr>CSess := None\<rparr>\<rparr> in
                (case SessCloseChan (Sess w) of
                   None \<Rightarrow> Inl CloseOfNilChannel
                 | Some ch \<Rightarrow> close ch w)
              else Inr w)))"

subsection \<open>Timers\<close>

text \<open>Seconds between two dead-peer probes, and the read timeout of a channel.\<close>

definition dpdInterval :: "ConnSession \<Rightarrow> int" where
  "dpdInterval cs =
     (let dpdTime = Min_int (TLSDpdTime cs) [DTLSDpdTime cs] - 5 in if dpdTime < 10 then 10 else dpdTime)"

definition chanCap :: nat where "chanCap = 64"

text \<open>\<open>select { case ch <- x: default: }\<close> on a channel of capacity 64.\<close>

definition trySend :: "'a \<Rightarrow> 'a list \<Rightarrow> 'a list" where
  "trySend x q = (if length q < chanCap then q @ [x] else q)"

definition tlsDpd :: Payload where
  "tlsDpd = \<lparr>Type = 0x03, Data = [], Spare = replicate 8 0\<rparr>"

definition dtlsDpd :: Payload where
  "dtlsDpd = \<lparr>Type = 0x03, Data = [], Spare = replicate 1 0\<rparr>"

definition DPDTick :: "ConnSession \<Rightarrow> ConnSession" where
  "DPDTick cs =
     (let cs = cs\<lparr>PayloadOutTLS := trySend tlsDpd (PayloadOutTLS cs)\<rparr> in
      if DtlsConnected cs then cs\<lparr>PayloadOutDTLS := trySend dtlsDpd (PayloadOutDTLS cs)\<rparr> else cs)"

definition ReadDeadTick :: "ConnSession \<Rightarrow> ConnSession" where
  "ReadDeadTick cs = cs\<lparr>ResetTLSReadDead := True, ResetDTLSReadDead := True\<rparr>"

datatype expiry_action = NoWarning | WarnSoon int | WarnExpired

text \<open>One tick of \<open>ExpiryTimer\<close> (times in nanoseconds); \<open>WarnExpired\<close> ends the timer.\<close>

definition ExpiryTick :: "int \<Rightarrow> int \<Rightarrow> expiry_action" where
  "ExpiryTick expiration now =
     (let remaining = expiration - now in
      if remaining \<le> 0 then WarnExpired
      else if remaining \<le> 60 * 1000000000 then WarnSoon remaining
      else NoWarning)"

subsection \<open>A new connection\<close>

lemma applyPostAuth_same [simp]:
  "closeOnce (applyPostAuth u p cs) = closeOnce cs" "CloseChan (applyPostAuth u p cs) = CloseChan cs"
  "DtlsSetupChan (applyPostAuth u p cs) = DtlsSetupChan cs" "DSess (applyPostAuth u p cs) = DSess cs"
  "DtlsConnected (applyPostAuth u p cs) = DtlsConnected cs" "CompressStats (applyPostAuth u p cs) = CompressStats cs"
  "CSTPCompression (applyPostAuth u p cs) = CSTPCompression cs" "DTLSCompression (applyPostAuth u p cs) = DTLSCompression cs"
  "AuthExpiration (applyPostAuth u p cs) = AuthExpiration cs" "PayloadIn (applyPostAuth u p cs) = PayloadIn cs"
  "PayloadOutTLS (applyPostAuth u p cs) = PayloadOutTLS cs" "PayloadOutDTLS (applyPostAuth u p cs) = PayloadOutDTLS cs"
  "MTU (applyPostAuth u p cs) = MTU cs" "Stat (applyPostAuth u p cs) = Stat cs"
  by (auto simp: applyPostAuth_def split: option.splits)

lemma connOf_identity:
  "closeOnce (connOf cfg ifc u now h a) = False" "CloseChan (connOf cfg ifc u now h a) = ConnClose a"
  "DtlsSetupChan (connOf cfg ifc u now h a) = DtlsSetup a" "DSess (connOf cfg ifc u now h a) = a"
  "DtlsConnected (connOf cfg ifc u now h a) = False" "PayloadIn (connOf cfg ifc u now h a) = []"
  "PayloadOutTLS (connOf cfg ifc u now h a) = []" "PayloadOutDTLS (connOf cfg ifc u now h a) = []"
  by (simp_all add: connOf_def Let_def)

lemma connOf_compression:
  "CSTPCompression (connOf cfg ifc u now h a) = ParseCompression (Get h ''X-CSTP-Content-Encoding'')"
  "DTLSCompression (connOf cfg ifc u now h a) = ParseCompression (Get h ''X-DTLS-Content-Encoding'')"
  "CompressStats (connOf cfg ifc u now h a) = None \<longleftrightarrow>
     CSTPCompression (connOf cfg ifc u now h a) = CompNone \<and> DTLSCompression (connOf cfg ifc u now h a) = CompNone"
  by (simp_all add: connOf_def Let_def)

lemma connOf_expiration:
  "AuthExpiration (connOf cfg ifc u now h a) =
     (let expiry = sessionExpiry 0 (map (atoiSafe \<circ> Get h)
        [''X-CSTP-Lease-Duration'', ''X-CSTP-Session-Timeout'', ''X-CSTP-Session-Timeout-Remaining''])
      in if expiry > 0 then Some (now + seconds expiry) else None)"
  by (simp add: connOf_def Let_def)

text \<open>Read timeouts of the two channels (\<open>dead\<close>), in nanoseconds.\<close>

definition tlsDead :: "ConnSession \<Rightarrow> int" where
  "tlsDead cs = seconds (TLSDpdTime cs + 5)"

definition dtlsDead :: "ConnSession \<Rightarrow> int" where
  "dtlsDead cs = seconds (DTLSDpdTime cs + 5)"

lemma seconds_id: "0 \<le> s \<Longrightarrow> s < 9000000000 \<Longrightarrow> seconds s = s * 1000000000"
proof -
  assume "0 \<le> s" "s < 9000000000"
  moreover obtain x where x: "s * 1000000000 = x" by simp
  ultimately have "signed_take_bit 63 x = x" by (intro signed_take_bit_int_eq_self) auto
  then show ?thesis unfolding seconds_def x by (simp add: signed_of_int)
qed

lemma sessionExpiry_cases:
  assumes "0 \<le> e"
  shows "(sessionExpiry e vs = 0 \<longleftrightarrow> e = 0 \<and> (\<forall>v\<in>set vs. v \<le> 0)) \<and>
    (sessionExpiry e vs \<noteq> 0 \<longrightarrow> sessionExpiry e vs > 0 \<and> (sessionExpiry e vs = e \<or> sessionExpiry e vs \<in> set vs) \<and>
       (e > 0 \<longrightarrow> sessionExpiry e vs \<le> e) \<and> (\<forall>v\<in>set vs. v > 0 \<longrightarrow> sessionExpiry e vs \<le> v))"
  using assms
proof (induction vs arbitrary: e)
  case (Cons v vs)
  show ?case
  proof (cases "v > 0 \<and> (e = 0 \<or> v < e)")
    case True
    then show ?thesis using Cons.IH [of v] by auto
  next
    case False
    then show ?thesis using Cons.IH [of e] Cons.prems by auto
  qed
qed auto

subsection \<open>Properties\<close>

text \<open>
  The expiry of a session is the smallest positive value among the lease duration, the
  session timeout and the remaining session timeout that the server announces; values that
  are absent, not numeric (\<open>none\<close>), zero or negative do not count, and without any other the
  session has no expiry.
\<close>

theorem session_expiry:
  assumes "vs = map (atoiSafe \<circ> Get h) [''X-CSTP-Lease-Duration'', ''X-CSTP-Session-Timeout'', ''X-CSTP-Session-Timeout-Remaining'']"
  shows "AuthExpiration (connOf cfg ifc u now h a) =
    (if \<exists>v\<in>set vs. v > 0 then Some (now + seconds (Min {v \<in> set vs. v > 0})) else None)"
proof -
  let ?e = "sessionExpiry 0 vs"
  note e = sessionExpiry_cases [of 0 vs]
  have "?e = Min {v \<in> set vs. v > 0}" if "\<exists>v\<in>set vs. v > 0"
  proof (rule Min_eqI [symmetric])
    show "?e \<le> y" if "y \<in> {v \<in> set vs. v > 0}" for y using e that by auto
    show "?e \<in> {v \<in> set vs. v > 0}" using e that by auto
  qed simp
  moreover have "?e > 0 \<longleftrightarrow> (\<exists>v\<in>set vs. v > 0)" using e by force
  ultimately show ?thesis unfolding connOf_expiration assms [symmetric] by (simp add: Let_def)
qed

definition sample_header :: header where
  "sample_header = Set (Set (\<lambda>_. []) ''X-CSTP-Lease-Duration'' ''none'') ''X-CSTP-Session-Timeout'' ''3600''"

definition sample_cfg :: ClientConfig where
  "sample_cfg = \<lparr>LogLevel = [], LogPath = [], InsecureSkipVerify = True, CiscoCompat = True, NoDTLS = False,
     AgentName = [], AgentVersion = [], CfgCompression = True, AutoReconnect = True\<rparr>"

definition sample_ifc :: Interface where
  "sample_ifc = \<lparr>IfName = [], Ip4 = [], Mac = [], Gateway = []\<rparr>"

theorem session_expiry_witness:
  "AuthExpiration (connOf sample_cfg sample_ifc (\<lambda>_. None) 0 sample_header 0) = Some (seconds 3600)"
proof -
  have g: "Get sample_header ''X-CSTP-Lease-Duration'' = ''none''" "Get sample_header ''X-CSTP-Session-Timeout'' = ''3600''"
      "Get sample_header ''X-CSTP-Session-Timeout-Remaining'' = []"
    by (simp_all add: sample_header_def Get_Set canonical_neq Get_empty del: canonical.simps)
  have a: "atoiSafe ''none'' = 0" "atoiSafe ''3600'' = 3600" "atoiSafe [] = 0"
    by (simp_all add: atoiSafe_def Atoi_def Let_def digitVal_def code_def maxUint64_def)
  have s: "{v. (v = 0 \<or> v = 3600 \<or> v = (0 :: int)) \<and> 0 < v} = {3600}" by auto
  show ?thesis using session_expiry [OF refl, of sample_cfg sample_ifc "\<lambda>_. None" 0 sample_header 0] g a s by (simp add: s)
qed

text \<open>
  Dead peer detection is fast enough for the read timeout of a channel exactly when the
  server announced a period of at least five seconds for that channel: then a probe leaves
  before the timeout can expire.  A channel for which the server announced no period (0) has
  a timeout of five seconds, while probes leave every ten seconds or less often.
\<close>

theorem dpd_in_time:
  assumes "0 \<le> TLSDpdTime cs" "TLSDpdTime cs < 1000000000" "0 \<le> DTLSDpdTime cs" "DTLSDpdTime cs < 1000000000"
  shows "10 \<le> dpdInterval cs \<and>
    (seconds (dpdInterval cs) \<le> tlsDead cs \<longleftrightarrow> 5 \<le> TLSDpdTime cs) \<and>
    (seconds (dpdInterval cs) \<le> dtlsDead cs \<longleftrightarrow> 5 \<le> DTLSDpdTime cs)"
proof -
  have "seconds (dpdInterval cs) = dpdInterval cs * 1000000000"
    using assms by (intro seconds_id) (auto simp: dpdInterval_def Let_def)
  moreover have "tlsDead cs = (TLSDpdTime cs + 5) * 1000000000" "dtlsDead cs = (DTLSDpdTime cs + 5) * 1000000000"
    unfolding tlsDead_def dtlsDead_def using assms by (intro seconds_id; simp)+
  ultimately show ?thesis using assms by (auto simp: dpdInterval_def Let_def)
qed

theorem dpd_in_time_witness:
  "\<exists>cs. TLSDpdTime cs = 0 \<and> 10 \<le> dpdInterval cs \<and> \<not> seconds (dpdInterval cs) \<le> tlsDead cs"
proof -
  let ?cs = "connOf sample_cfg sample_ifc (\<lambda>_. None) 0 (\<lambda>_. []) 0"
  have "TLSDpdTime ?cs = 0" "DTLSDpdTime ?cs = 0"
    by (simp_all add: connOf_def applyPostAuth_def Let_def Get_def Values_def Atoi_def)
  with dpd_in_time [of ?cs] show ?thesis by (intro exI [of _ ?cs]) simp
qed

end
