(* ===== verification/Lifecycle.thy ===== *)
theory Lifecycle
  imports Session
begin

text \<open>
  The life cycle of connections: \<open>NewConnSession\<close>, the two \<open>Close\<close> operations, and the
  goroutine \<open>dtlsChannel\<close> with its retry loop (\<open>src/vpn/dtls.go\<close>), interleaved in any order.
  A system state is the session heap together with the local state of every \<open>dtlsChannel\<close>
  goroutine.  The network decides the events of a goroutine; what it does on each event, and
  where it looks at the close channels, is the code's.
\<close>

subsection \<open>dtlsChannel\<close>

text \<open>
  Where the goroutine is: before the check of \<open>CloseChan\<close> (\<open>Top\<close>), in dial and handshake
  (\<open>Dialing\<close>), in \<open>runDtlsEstablished\<close> (\<open>Running\<close>), in \<open>dtlsRetryWait\<close> (\<open>Waiting\<close>), returned.
\<close>

datatype dtls_pc = Top | Dialing | Running | Waiting | Exited

record dtls_local =
  pc :: dtls_pc
  setupClosed :: bool
  delay :: int

datatype dtls_event =
    CheckClose
  | DialFailed
  | HandshakeFailed
  | Negotiated "string option"
  | ChannelLost
  | SessionGone
  | TimerFired
  | CloseSeen

definition closeSetup :: "nat \<Rightarrow> dtls_local \<times> world \<Rightarrow> session_panic + dtls_local \<times> world" where
  "closeSetup a s =
     (case s of (l, w) \<Rightarrow>
        if setupClosed l then Inr (l, w)
        else
          (case conns w a of
             None \<Rightarrow> Inl NilPointer
           | Some cs \<Rightarrow> res_bind (close (DtlsSetupChan cs) w) (\<lambda>w. Inr (l\<lparr>setupClosed := True\<rparr>, w))))"

text \<open>Returning from \<open>dtlsChannel\<close> runs the deferred \<open>closeSetup\<close>.\<close>

definition dtlsReturn :: "nat \<Rightarrow> dtls_local \<times> world \<Rightarrow> session_panic + dtls_local \<times> world" where
  "dtlsReturn a s = res_bind (closeSetup a s) (\<lambda>(l, w). Inr (l\<lparr>pc := Exited\<rparr>, w))"

definition dtlsRetryWait :: "int \<Rightarrow> int" where
  "dtlsRetryWait d = (if d < 60 then d * 2 else d)"

text \<open>\<open>None\<close>: the event cannot happen at this point of the goroutine.\<close>

definition dtlsChannel :: "dtls_event \<Rightarrow> nat \<Rightarrow> dtls_local \<times> world \<Rightarrow> (session_panic + dtls_local \<times> world) option" where
  "dtlsChannel e a s =
     (case s of (l, w) \<Rightarrow>
      (case conns w a of
         None \<Rightarrow> Some (Inl NilPointer)
       | Some cs \<Rightarrow>
      (case (pc l, e) of
         (Top, CheckClose) \<Rightarrow>
           Some (if closed w (CloseChan cs) then dtlsReturn a s else Inr (l\<lparr>pc := Dialing\<rparr>, w))
       | (Dialing, DialFailed) \<Rightarrow>
           Some (res_bind (closeSetup a s) (\<lambda>(l, w). Inr (l\<lparr>pc := Waiting\<rparr>, w)))
       | (Dialing, HandshakeFailed) \<Rightarrow>
           Some (res_bind (closeSetup a s) (\<lambda>(l, w). Inr (l\<lparr>pc := Waiting\<rparr>, w)))
       | (Dialing, Negotiated suite) \<Rightarrow>
           Some (res_bind (closeSetup a s) (\<lambda>(l, w).
             Inr (l\<lparr>pc := Running, delay := 5\<rparr>,
                  updConn a (\<lambda>cs. cs\<lparr>DtlsConnected := True, ResetDTLSReadDead := True,
                    DTLSCipherSuite := (case suite of Some n \<Rightarrow> n | None \<Rightarrow> [])\<rparr>) w)))
       | (Running, ChannelLost) \<Rightarrow>
           Some (Inr (l\<lparr>pc := Waiting\<rparr>, updConn a (\<lambda>cs. cs\<lparr>DtlsConnected := False, DTLSCipherSuite := []\<rparr>) w))
       | (Running, SessionGone) \<Rightarrow>
           (case dtlss w (DSess cs) of
              None \<Rightarrow> Some (Inl NilPointer)
            | Some ds \<Rightarrow> if closed w (DtlsCloseChan ds) then Some (dtlsReturn a s) else None)
       | (Waiting, TimerFired) \<Rightarrow> Some (Inr (l\<lparr>pc := Top, delay := dtlsRetryWait (delay l)\<rparr>, w))
       | (Waiting, CloseSeen) \<Rightarrow> if closed w (CloseChan cs) then Some (dtlsReturn a s) else None
       | _ \<Rightarrow> None)))"

definition dtlsStart :: dtls_local where
  "dtlsStart = \<lparr>pc = Top, setupClosed = False, delay = 5\<rparr>"

subsection \<open>The system\<close>

type_synonym system = "world \<times> (nat \<Rightarrow> dtls_local option)"

text \<open>What packet processing and the timers leave alone.\<close>

definition same_identity :: "ConnSession \<Rightarrow> ConnSession \<Rightarrow> bool" where
  "same_identity cs cs' \<longleftrightarrow> closeOnce cs' = closeOnce cs \<and> CloseChan cs' = CloseChan cs \<and>
     DtlsSetupChan cs' = DtlsSetupChan cs \<and> DSess cs' = DSess cs \<and> DtlsConnected cs' = DtlsConnected cs"

inductive sys_step :: "system \<Rightarrow> system \<Rightarrow> bool" where
  connect: "NewConnSession cfg ifc unmarshal now h w = (a, w') \<Longrightarrow> sys_step (w, g) (w', g)"
| start_dtls: "conns w a \<noteq> None \<Longrightarrow> g a = None \<Longrightarrow> sys_step (w, g) (w, g(a \<mapsto> dtlsStart))"
| dtls: "g a = Some l \<Longrightarrow> dtlsChannel e a (l, w) = Some (Inr (l', w')) \<Longrightarrow> sys_step (w, g) (w', g(a \<mapsto> l'))"
| close_conn: "ConnSession_Close a w = Inr w' \<Longrightarrow> sys_step (w, g) (w', g)"
| data: "conns w a = Some cs \<Longrightarrow> same_identity cs cs' \<Longrightarrow> sys_step (w, g) (w\<lparr>conns := (conns w)(a \<mapsto> cs')\<rparr>, g)"

inductive_cases sys_stepE: "sys_step s s'"

definition initial :: system where
  "initial = (\<lparr>Sess = \<lparr>SessionToken = [], PreMasterSecret = [], ActiveClose = False, SessCloseChan = None, CSess = None\<rparr>,
     conns = (\<lambda>_. None), dtlss = (\<lambda>_. None), closed = (\<lambda>_. False), nextAddr = 0\<rparr>, \<lambda>_. None)"

definition reachable :: "system \<Rightarrow> bool" where
  "reachable s \<longleftrightarrow> sys_step\<^sup>*\<^sup>* initial s"

subsection \<open>The invariant\<close>

fun chan_addr :: "chan \<Rightarrow> nat" where
  "chan_addr (ConnClose a) = a"
| "chan_addr (DtlsSetup a) = a"
| "chan_addr (DtlsClose a) = a"
| "chan_addr (SessClose a) = a"

definition conn_ok :: "world \<Rightarrow> nat \<Rightarrow> bool" where
  "conn_ok w a \<longleftrightarrow>
     (case conns w a of
        None \<Rightarrow> dtlss w a = None
      | Some cs \<Rightarrow> a < nextAddr w \<and> CloseChan cs = ConnClose a \<and> DtlsSetupChan cs = DtlsSetup a \<and> DSess cs = a \<and>
          closed w (ConnClose a) = closeOnce cs \<and>
          (\<exists>ds. dtlss w a = Some ds \<and> DtlsCloseChan ds = DtlsClose a \<and> closed w (DtlsClose a) = dtlsOnce ds))"

definition current_ok :: "world \<Rightarrow> bool" where
  "current_ok w \<longleftrightarrow>
     (\<forall>a. CSess (Sess w) = Some a \<longrightarrow> SessCloseChan (Sess w) = Some (SessClose a) \<and> \<not> closed w (SessClose a) \<and>
        (\<exists>cs. conns w a = Some cs \<and> \<not> closeOnce cs))"

definition dtls_ok :: "system \<Rightarrow> nat \<Rightarrow> bool" where
  "dtls_ok s a \<longleftrightarrow>
     (case snd s a of
        None \<Rightarrow> \<not> closed (fst s) (DtlsSetup a)
      | Some l \<Rightarrow> conns (fst s) a \<noteq> None \<and> closed (fst s) (DtlsSetup a) = setupClosed l \<and>
          (pc l \<in> {Waiting, Running, Exited} \<longrightarrow> setupClosed l) \<and> delay l \<in> {5, 10, 20, 40, 80})"

definition world_ok :: "world \<Rightarrow> bool" where
  "world_ok w \<longleftrightarrow> (\<forall>a. conn_ok w a) \<and> current_ok w \<and> (\<forall>ch. closed w ch \<longrightarrow> chan_addr ch < nextAddr w)"

definition sys_ok :: "system \<Rightarrow> bool" where
  "sys_ok s \<longleftrightarrow> world_ok (fst s) \<and> (\<forall>a. dtls_ok s a)"

subsection \<open>What the operations do in a good world\<close>

lemma conn_okD:
  assumes "world_ok w" and "conns w a = Some cs"
  obtains ds where "a < nextAddr w" "CloseChan cs = ConnClose a" "DtlsSetupChan cs = DtlsSetup a" "DSess cs = a"
    "closed w (ConnClose a) = closeOnce cs" "dtlss w a = Some ds" "DtlsCloseChan ds = DtlsClose a"
    "closed w (DtlsClose a) = dtlsOnce ds"
proof -
  have "conn_ok w a" using assms(1) by (simp add: world_ok_def)
  with assms(2) that show ?thesis by (auto simp: conn_ok_def)
qed

lemma currentD:
  assumes "world_ok w" and "CSess (Sess w) = Some a"
  obtains cs where "conns w a = Some cs" "\<not> closeOnce cs" "SessCloseChan (Sess w) = Some (SessClose a)"
    "\<not> closed w (SessClose a)"
  using assms that by (auto simp: world_ok_def current_ok_def)

text \<open>The session fields that \<open>Close\<close> may reset.\<close>

definition dtls_reset :: "ConnSession \<Rightarrow> ConnSession \<Rightarrow> bool" where
  "dtls_reset cs cs' \<longleftrightarrow> cs' = cs \<or> cs' = cs\<lparr>DtlsConnected := False, DTLSCipherSuite := []\<rparr>"

lemma DtlsSession_Close_spec:
  assumes w: "world_ok w" and cs: "conns w a = Some cs"
  obtains w' cs' ds' where "DtlsSession_Close a w = Inr w'" "conns w' = (conns w)(a \<mapsto> cs')" "dtls_reset cs cs'"
    "dtlss w' = (dtlss w)(a \<mapsto> ds')" "dtlsOnce ds'" "DtlsCloseChan ds' = DtlsClose a"
    "closed w' = (closed w)(DtlsClose a := True)" "Sess w' = Sess w" "nextAddr w' = nextAddr w"
proof -
  from conn_okD [OF w cs] obtain ds where ds: "dtlss w a = Some ds" "DtlsCloseChan ds = DtlsClose a"
    "closed w (DtlsClose a) = dtlsOnce ds" "DSess cs = a" by metis
  show ?thesis
  proof (cases "dtlsOnce ds")
    case True
    with ds have "DtlsSession_Close a w = Inr w" by (simp add: DtlsSession_Close_def)
    with True ds cs show ?thesis by (intro that [of w cs ds]) (auto simp: dtls_reset_def fun_eq_iff)
  next
    case False
    let ?w1 = "updDtls a (\<lambda>ds. ds\<lparr>dtlsOnce := True\<rparr>) (w\<lparr>closed := (closed w)(DtlsClose a := True)\<rparr>)"
    have f: "conns ?w1 = conns w" "Sess ?w1 = Sess w" "dtlss ?w1 = (dtlss w)(a \<mapsto> ds\<lparr>dtlsOnce := True\<rparr>)"
        "closed ?w1 = (closed w)(DtlsClose a := True)" "nextAddr ?w1 = nextAddr w"
      by (simp_all add: updDtls_def ds)
    have step: "DtlsSession_Close a w =
        (case CSess (Sess ?w1) of None \<Rightarrow> Inr ?w1
         | Some g \<Rightarrow> (case conns ?w1 g of None \<Rightarrow> Inl NilPointer
             | Some cs \<Rightarrow> if DSess cs = a then Inr (updConn g (\<lambda>cs. cs\<lparr>DtlsConnected := False, DTLSCipherSuite := []\<rparr>) ?w1) else Inr ?w1))"
      using False ds by (simp add: DtlsSession_Close_def close_def Let_def)
    show ?thesis
    proof (cases "CSess (Sess w) = Some a")
      case True
      let ?w2 = "updConn a (\<lambda>cs. cs\<lparr>DtlsConnected := False, DTLSCipherSuite := []\<rparr>) ?w1"
      have "DtlsSession_Close a w = Inr ?w2" unfolding step f True option.case cs by (simp add: ds)
      then show ?thesis using f cs ds
        by (intro that [of ?w2 "cs\<lparr>DtlsConnected := False, DTLSCipherSuite := []\<rparr>" "ds\<lparr>dtlsOnce := True\<rparr>"])
          (simp_all add: updConn_def dtls_reset_def)
    next
      case False
      have "DtlsSession_Close a w = Inr ?w1"
      proof (cases "CSess (Sess w)")
        case (Some g)
        from currentD [OF w Some] obtain cg where g: "conns w g = Some cg" by blast
        from conn_okD [OF w g] have "DSess cg = g" by blast
        with Some False show ?thesis unfolding step f Some option.case g by auto
      qed (simp add: step f)
      then show ?thesis using f cs ds
        by (intro that [of ?w1 cs "ds\<lparr>dtlsOnce := True\<rparr>"]) (auto simp: dtls_reset_def fun_eq_iff)
    qed
  qed
qed

text \<open>One \<open>Close\<close> in full: the result, on every part of the world.\<close>

definition closes :: "nat \<Rightarrow> ConnSession \<Rightarrow> world \<Rightarrow> world \<Rightarrow> bool" where
  "closes a cs w w' \<longleftrightarrow>
     (\<exists>cs' ds'. conns w' = (conns w)(a \<mapsto> cs'\<lparr>closeOnce := True\<rparr>) \<and> dtls_reset cs cs' \<and>
        dtlss w' = (dtlss w)(a \<mapsto> ds') \<and> DtlsCloseChan ds' = DtlsClose a \<and> dtlsOnce ds' = closed w' (DtlsClose a)) \<and>
     (\<forall>ch. closed w' ch = (closed w ch \<or> ch = ConnClose a \<or> ch = DtlsClose a \<and> DtlsConnected cs \<or>
        ch = SessClose a \<and> CSess (Sess w) = Some a)) \<and>
     Sess w' = (if CSess (Sess w) = Some a then (Sess w)\<lparr>CSess := None\<rparr> else Sess w) \<and>
     nextAddr w' = nextAddr w"

lemma ConnSession_Close_spec:
  assumes w: "world_ok w" and cs: "conns w a = Some cs" and open_: "\<not> closeOnce cs"
  shows "\<exists>w'. ConnSession_Close a w = Inr w' \<and> closes a cs w w'"
proof -
  from conn_okD [OF w cs] obtain ds where ds: "CloseChan cs = ConnClose a" "DSess cs = a" "\<not> closed w (ConnClose a)"
      "dtlss w a = Some ds" "DtlsCloseChan ds = DtlsClose a" "closed w (DtlsClose a) = dtlsOnce ds"
    using open_ by metis
  obtain w1 cs1 ds1 where w1: "(if DtlsConnected cs then DtlsSession_Close (DSess cs) w else Inr w) = Inr w1"
    "conns w1 = (conns w)(a \<mapsto> cs1)" "dtls_reset cs cs1" "dtlss w1 = (dtlss w)(a \<mapsto> ds1)" "DtlsCloseChan ds1 = DtlsClose a"
    "dtlsOnce ds1 = closed w1 (DtlsClose a)"
    "\<forall>ch. closed w1 ch = (closed w ch \<or> ch = DtlsClose a \<and> DtlsConnected cs)" "Sess w1 = Sess w" "nextAddr w1 = nextAddr w"
  proof (cases "DtlsConnected cs")
    case True
    from DtlsSession_Close_spec [OF w cs] obtain w' cs' ds' where "DtlsSession_Close a w = Inr w'" "conns w' = (conns w)(a \<mapsto> cs')"
      "dtls_reset cs cs'" "dtlss w' = (dtlss w)(a \<mapsto> ds')" "dtlsOnce ds'" "DtlsCloseChan ds' = DtlsClose a"
      "closed w' = (closed w)(DtlsClose a := True)" "Sess w' = Sess w" "nextAddr w' = nextAddr w" by blast
    with True ds(2) show ?thesis by (intro that [of w' cs' ds']) auto
  next
    case False
    then show ?thesis using cs ds by (intro that [of w cs ds]) (auto simp: dtls_reset_def)
  qed
  let ?w2 = "w1\<lparr>closed := (closed w1)(ConnClose a := True)\<rparr>"
  let ?w3 = "updConn a (\<lambda>cs. cs\<lparr>closeOnce := True\<rparr>) ?w2"
  have f: "conns ?w3 = (conns w)(a \<mapsto> cs1\<lparr>closeOnce := True\<rparr>)" "dtlss ?w3 = dtlss w1" "Sess ?w3 = Sess w"
      "closed ?w3 = (closed w1)(ConnClose a := True)" "nextAddr ?w3 = nextAddr w"
    by (simp_all add: updConn_def w1)
  have c1: "close (CloseChan cs) w1 = Inr ?w2" using w1 ds by (simp add: close_def)
  have step: "ConnSession_Close a w =
      (if CSess (Sess ?w3) = Some a then
         let w = ?w3\<lparr>Sess := (Sess ?w3)\<lparr>CSess := None\<rparr>\<rparr> in
         (case SessCloseChan (Sess w) of None \<Rightarrow> Inl CloseOfNilChannel | Some ch \<Rightarrow> close ch w)
       else Inr ?w3)"
    unfolding ConnSession_Close_def cs option.case w1(1) by (simp add: open_ c1 Let_def)
  show ?thesis
  proof (cases "CSess (Sess w) = Some a")
    case True
    from currentD [OF w True] have s: "SessCloseChan (Sess w) = Some (SessClose a)" "\<not> closed w (SessClose a)" by blast+
    let ?w4 = "?w3\<lparr>Sess := (Sess w)\<lparr>CSess := None\<rparr>\<rparr>"
    have "close (SessClose a) ?w4 = Inr (?w4\<lparr>closed := (closed ?w3)(SessClose a := True)\<rparr>)"
      using s w1 f by (simp add: close_def)
    then have "ConnSession_Close a w = Inr (?w4\<lparr>closed := (closed ?w3)(SessClose a := True)\<rparr>)"
      unfolding step f using True s by (simp add: Let_def)
    then show ?thesis using f w1 True by (auto simp: closes_def)
  next
    case False
    then have "ConnSession_Close a w = Inr ?w3" unfolding step f by simp
    then show ?thesis using f w1 False by (auto simp: closes_def)
  qed
qed

subsection \<open>The invariant is kept\<close>

lemma world_ok_closes:
  assumes w: "world_ok w" and cs: "conns w a = Some cs" and c: "closes a cs w w'"
  shows "world_ok w'"
proof -
  from conn_okD [OF w cs] obtain ds where a: "a < nextAddr w" "CloseChan cs = ConnClose a" "DtlsSetupChan cs = DtlsSetup a" "DSess cs = a"
    by metis
  from c obtain cs' ds' where w': "conns w' = (conns w)(a \<mapsto> cs'\<lparr>closeOnce := True\<rparr>)" "dtls_reset cs cs'"
      "dtlss w' = (dtlss w)(a \<mapsto> ds')" "DtlsCloseChan ds' = DtlsClose a" "dtlsOnce ds' = closed w' (DtlsClose a)"
    unfolding closes_def by (elim conjE exE) simp
  have cl: "closed w' ch = (closed w ch \<or> ch = ConnClose a \<or> ch = DtlsClose a \<and> DtlsConnected cs \<or>
      ch = SessClose a \<and> CSess (Sess w) = Some a)" for ch
    using c unfolding closes_def by (elim conjE) (erule spec)
  have s: "Sess w' = (if CSess (Sess w) = Some a then (Sess w)\<lparr>CSess := None\<rparr> else Sess w) \<and> nextAddr w' = nextAddr w"
    using c unfolding closes_def by (elim conjE) (rule conjI)
  have id: "CloseChan cs' = ConnClose a" "DtlsSetupChan cs' = DtlsSetup a" "DSess cs' = a"
    using w'(2) a by (auto simp: dtls_reset_def)
  have "conn_ok w' b" for b
  proof (cases "b = a")
    case True
    with id a w' s show ?thesis by (simp add: conn_ok_def cl [of "ConnClose a"])
  next
    case False
    have "conn_ok w b" using w by (simp add: world_ok_def)
    moreover have "closed w' (ConnClose b) = closed w (ConnClose b)" "closed w' (DtlsClose b) = closed w (DtlsClose b)"
      using False by (simp_all add: cl)
    ultimately show ?thesis using False w' s by (simp add: conn_ok_def split: option.splits)
  qed
  moreover have "current_ok w'"
  proof (cases "CSess (Sess w) = Some a")
    case True
    then show ?thesis by (simp add: current_ok_def s)
  next
    case False
    have "current_ok w" using w by (simp add: world_ok_def)
    with False show ?thesis by (auto simp: current_ok_def s w' cl)
  qed
  moreover have "\<forall>ch. closed w' ch \<longrightarrow> chan_addr ch < nextAddr w'"
    using w a(1) by (auto simp: world_ok_def cl s)
  ultimately show ?thesis by (simp add: world_ok_def)
qed

lemma ConnSession_Close_ok:
  assumes w: "world_ok w" and cs: "conns w a = Some cs"
  shows "\<exists>w'. ConnSession_Close a w = Inr w' \<and> world_ok w' \<and> (if closeOnce cs then w' = w else closes a cs w w')"
proof (cases "closeOnce cs")
  case True
  with w cs show ?thesis by (simp add: ConnSession_Close_def)
next
  case False
  with ConnSession_Close_spec [OF w cs] world_ok_closes [OF w cs] show ?thesis by auto
qed

lemma world_ok_NewConnSession:
  assumes w: "world_ok w" and n: "NewConnSession cfg ifc un now h w = (a, w')"
  shows "world_ok w'" and "a = nextAddr w" and "conns w a = None" and "closed w' = closed w"
    and "conns w' = (conns w)(a \<mapsto> connOf cfg ifc un now h a)" and "CSess (Sess w') = Some a"
proof -
  let ?cs = "connOf cfg ifc un now h a"
  from n have a: "a = nextAddr w"
    and w': "w' = w\<lparr>Sess := (Sess w)\<lparr>CSess := Some a, ActiveClose := False, SessCloseChan := Some (SessClose a)\<rparr>,
            conns := (conns w)(a \<mapsto> ?cs), dtlss := (dtlss w)(a \<mapsto> \<lparr>dtlsOnce = False, DtlsCloseChan = DtlsClose a\<rparr>),
            nextAddr := a + 1\<rparr>"
    by (auto simp: NewConnSession_def Let_def)
  show "a = nextAddr w" by (rule a)
  show "conns w a = None"
  proof (cases "conns w a")
    case (Some cs)
    from conn_okD [OF w Some] a show ?thesis by auto
  qed
  show "closed w' = closed w" "conns w' = (conns w)(a \<mapsto> ?cs)" "CSess (Sess w') = Some a" by (simp_all add: w')
  have cs: "\<not> closeOnce ?cs" "CloseChan ?cs = ConnClose a" "DtlsSetupChan ?cs = DtlsSetup a" "DSess ?cs = a"
    by (simp_all add: connOf_identity)
  have nc: "\<not> closed w (ConnClose a)" "\<not> closed w (DtlsClose a)" "\<not> closed w (SessClose a)"
    using w a unfolding world_ok_def by force+
  have "conn_ok w' b" for b
  proof (cases "b = a")
    case True
    with cs nc show ?thesis by (simp add: conn_ok_def w')
  next
    case False
    have "conn_ok w b" using w by (simp add: world_ok_def)
    with False a show ?thesis by (auto simp: conn_ok_def w' split: option.splits)
  qed
  with w cs nc a show "world_ok w'"
    by (auto simp: world_ok_def current_ok_def w' intro: less_SucI)
qed

lemma world_ok_updConn:
  assumes "world_ok w" and "\<And>cs. conns w a = Some cs \<Longrightarrow> closeOnce (f cs) = closeOnce cs \<and> CloseChan (f cs) = CloseChan cs \<and>
      DtlsSetupChan (f cs) = DtlsSetupChan cs \<and> DSess (f cs) = DSess cs"
  shows "world_ok (updConn a f w)"
proof -
  have "conn_ok (updConn a f w) b" for b
    using assms unfolding world_ok_def by (cases "conns w b") (auto simp: conn_ok_def updConn_def dest!: spec [of _ b])
  with assms show ?thesis by (auto simp: world_ok_def current_ok_def updConn_def)
qed

lemma world_ok_setup:
  assumes "world_ok w" and "conns w a \<noteq> None"
  shows "world_ok (w\<lparr>closed := (closed w)(DtlsSetup a := True)\<rparr>)"
proof -
  from assms obtain cs where "conns w a = Some cs" by auto
  from conn_okD [OF assms(1) this] have a: "a < nextAddr w" by blast
  have "conn_ok (w\<lparr>closed := (closed w)(DtlsSetup a := True)\<rparr>) b" for b
    using assms(1) by (auto simp: world_ok_def conn_ok_def split: option.splits dest!: spec [of _ b])
  with assms(1) a show ?thesis by (auto simp: world_ok_def current_ok_def)
qed

lemma closeSetup_spec:
  assumes "sys_ok (w, g)" and "g a = Some l"
  shows "closeSetup a (l, w) = Inr (l\<lparr>setupClosed := True\<rparr>, w\<lparr>closed := (closed w)(DtlsSetup a := True)\<rparr>)"
proof -
  have d: "dtls_ok (w, g) a" and w: "world_ok w" using assms(1) by (simp_all add: sys_ok_def)
  then have c: "closed w (DtlsSetup a) = setupClosed l" and n: "conns w a \<noteq> None" using assms(2) by (simp_all add: dtls_ok_def)
  from n obtain cs where cs: "conns w a = Some cs" by auto
  from conn_okD [OF w cs] have "DtlsSetupChan cs = DtlsSetup a" by blast
  with c cs show ?thesis by (cases "setupClosed l") (auto simp: closeSetup_def close_def fun_eq_iff intro!: world.equality dtls_local.equality)
qed

text \<open>The system after a step of the goroutine of \<open>a\<close> whose set-up channel is now closed.\<close>

lemma sys_ok_dtls:
  assumes "sys_ok (w, g)" and "g a = Some l" and "world_ok w'" and "conns w' a \<noteq> None"
    and "\<forall>b. b \<noteq> a \<longrightarrow> conns w' b = conns w b"
    and "\<forall>b. closed w' (DtlsSetup b) = (if b = a then setupClosed l' else closed w (DtlsSetup b))"
    and "pc l' \<in> {Waiting, Running, Exited} \<longrightarrow> setupClosed l'" and "delay l' \<in> {5, 10, 20, 40, 80}"
  shows "sys_ok (w', g(a \<mapsto> l'))"
proof -
  have "dtls_ok (w', g(a \<mapsto> l')) b" for b
  proof (cases "b = a")
    case True
    then show ?thesis using assms by (simp add: dtls_ok_def)
  next
    case False
    moreover have "dtls_ok (w, g) b" using assms(1) by (simp add: sys_ok_def)
    ultimately show ?thesis using assms(5,6) by (auto simp: dtls_ok_def split: option.splits)
  qed
  with assms(3) show ?thesis by (simp add: sys_ok_def)
qed

lemma delay_dtlsRetryWait: "d \<in> {5, 10, 20, 40, 80} \<Longrightarrow> dtlsRetryWait d \<in> {5, 10, 20, 40, 80}"
  by (auto simp: dtlsRetryWait_def)

lemma dtls_goroutineE:
  assumes "sys_ok (w, g)" and "g a = Some l"
  obtains cs ds where "world_ok w" "conns w a = Some cs" "dtlss w (DSess cs) = Some ds" "delay l \<in> {5, 10, 20, 40, 80}"
    "closed w (DtlsSetup a) = setupClosed l" "pc l \<in> {Waiting, Running, Exited} \<longrightarrow> setupClosed l"
proof -
  have w: "world_ok w" and d: "dtls_ok (w, g) a" using assms(1) by (simp_all add: sys_ok_def)
  from d assms(2) obtain cs where cs: "conns w a = Some cs" by (auto simp: dtls_ok_def)
  from conn_okD [OF w cs] obtain ds where "dtlss w (DSess cs) = Some ds" by metis
  with w cs d assms(2) show thesis by (intro that [of cs ds]) (simp_all add: dtls_ok_def)
qed

text \<open>The three ways in which a step leaves the system: only the goroutine moved, it gave the set-up signal, or it updated its connection.\<close>

lemma sys_ok_local:
  assumes s: "sys_ok (w, g)" and l: "g a = Some l" and "setupClosed l' = setupClosed l" and "delay l' \<in> {5, 10, 20, 40, 80}"
    and "pc l' \<in> {Waiting, Running, Exited} \<longrightarrow> setupClosed l'"
  shows "sys_ok (w, g(a \<mapsto> l'))"
proof -
  from s l obtain cs where "world_ok w" "conns w a = Some cs" "closed w (DtlsSetup a) = setupClosed l" by (rule dtls_goroutineE)
  then show ?thesis using assms(3-5) by (intro sys_ok_dtls [OF s l]) auto
qed

lemma sys_ok_signal:
  assumes s: "sys_ok (w, g)" and l: "g a = Some l" and "setupClosed l'" and "delay l' \<in> {5, 10, 20, 40, 80}"
  shows "sys_ok (w\<lparr>closed := (closed w)(DtlsSetup a := True)\<rparr>, g(a \<mapsto> l'))"
proof -
  from s l obtain cs where c: "world_ok w" "conns w a = Some cs" by (rule dtls_goroutineE)
  then have "world_ok (w\<lparr>closed := (closed w)(DtlsSetup a := True)\<rparr>)" by (intro world_ok_setup) simp_all
  then show ?thesis using c assms(3,4) by (intro sys_ok_dtls [OF s l]) auto
qed

lemma sys_ok_updConn:
  assumes s: "sys_ok (w, g)" and "\<And>cs. closeOnce (f cs) = closeOnce cs \<and> CloseChan (f cs) = CloseChan cs \<and>
      DtlsSetupChan (f cs) = DtlsSetupChan cs \<and> DSess (f cs) = DSess cs"
  shows "sys_ok (updConn a f w, g)"
proof -
  have "world_ok (updConn a f w)" using s by (intro world_ok_updConn) (simp_all add: sys_ok_def assms(2))
  moreover have "dtls_ok (updConn a f w, g) b" for b
    using s by (auto simp: sys_ok_def dtls_ok_def updConn_def split: option.splits dest!: spec [of _ b])
  ultimately show ?thesis by (simp add: sys_ok_def)
qed

lemma dtlsReturn_ok:
  assumes "sys_ok (w, g)" and "g a = Some l"
  shows "\<exists>l' w'. dtlsReturn a (l, w) = Inr (l', w') \<and> sys_ok (w', g(a \<mapsto> l'))"
proof -
  from assms obtain cs where "delay l \<in> {5, 10, 20, 40, 80}" by (rule dtls_goroutineE)
  then have "sys_ok (w\<lparr>closed := (closed w)(DtlsSetup a := True)\<rparr>, g(a \<mapsto> l\<lparr>setupClosed := True, pc := Exited\<rparr>))"
    by (intro sys_ok_signal [OF assms]) simp_all
  then show ?thesis by (simp add: dtlsReturn_def closeSetup_spec [OF assms])
qed

lemma dtls_dial_ok:
  assumes s: "sys_ok (w, g)" and l: "g a = Some l" and e: "dtlsChannel e a (l, w) = Some r" and pc: "pc l = Dialing"
  shows "\<exists>l' w'. r = Inr (l', w') \<and> sys_ok (w', g(a \<mapsto> l'))"
proof -
  let ?ws = "w\<lparr>closed := (closed w)(DtlsSetup a := True)\<rparr>" and ?ls = "l\<lparr>setupClosed := True\<rparr>"
  from s l obtain cs where cs: "conns w a = Some cs" "delay l \<in> {5, 10, 20, 40, 80}" by (rule dtls_goroutineE)
  note cset = closeSetup_spec [OF s l]
  consider "e = DialFailed \<or> e = HandshakeFailed" | suite where "e = Negotiated suite"
    using e cs pc by (cases e) (simp_all add: dtlsChannel_def)
  then show ?thesis
  proof cases
    case 1
    have "sys_ok (?ws, g(a \<mapsto> ?ls\<lparr>pc := Waiting\<rparr>))" by (rule sys_ok_signal [OF s l]) (use cs in simp_all)
    then show ?thesis using 1 e cs pc cset by (auto simp: dtlsChannel_def)
  next
    case 2
    have "sys_ok (?ws, g(a \<mapsto> ?ls\<lparr>pc := Running, delay := 5\<rparr>))" by (rule sys_ok_signal [OF s l]) simp_all
    from sys_ok_updConn [OF this, of "\<lambda>cs. cs\<lparr>DtlsConnected := True, ResetDTLSReadDead := True,
        DTLSCipherSuite := (case suite of Some n \<Rightarrow> n | None \<Rightarrow> [])\<rparr>" a] show ?thesis
      using 2 e cs pc cset by (auto simp: dtlsChannel_def)
  qed
qed

lemma dtlsChannel_ok:
  assumes s: "sys_ok (w, g)" and l: "g a = Some l" and e: "dtlsChannel e a (l, w) = Some r"
  shows "\<exists>l' w'. r = Inr (l', w') \<and> sys_ok (w', g(a \<mapsto> l'))"
proof -
  from s l obtain cs ds where f: "conns w a = Some cs" "dtlss w (DSess cs) = Some ds" "delay l \<in> {5, 10, 20, 40, 80}"
    "pc l \<in> {Waiting, Running, Exited} \<longrightarrow> setupClosed l" by (rule dtls_goroutineE)
  note ret = dtlsReturn_ok [OF s l] and loc = sys_ok_local [OF s l]
  show ?thesis
  proof (cases "pc l")
    case Top
    then have "e = CheckClose" using e f(1) by (cases e) (simp_all add: dtlsChannel_def)
    moreover have "sys_ok (w, g(a \<mapsto> l\<lparr>pc := Dialing\<rparr>))" by (rule loc) (use f(3) in simp_all)
    ultimately show ?thesis using e f(1) Top ret by (auto simp: dtlsChannel_def split: if_splits)
  next
    case Dialing
    then show ?thesis by (rule dtls_dial_ok [OF s l e])
  next
    case Running
    then consider "e = ChannelLost" | "r = dtlsReturn a (l, w)"
      using e f(1,2) by (cases e) (auto simp: dtlsChannel_def split: if_splits)
    moreover have "sys_ok (w, g(a \<mapsto> l\<lparr>pc := Waiting\<rparr>))" by (rule loc) (use f(3,4) Running in simp_all)
    then have "sys_ok (updConn a (\<lambda>cs. cs\<lparr>DtlsConnected := False, DTLSCipherSuite := []\<rparr>) w, g(a \<mapsto> l\<lparr>pc := Waiting\<rparr>))"
      by (rule sys_ok_updConn) simp
    ultimately show ?thesis using e f(1) Running ret by cases (auto simp: dtlsChannel_def)
  next
    case Waiting
    then consider "e = TimerFired" | "r = dtlsReturn a (l, w)"
      using e f(1) by (cases e) (auto simp: dtlsChannel_def split: if_splits)
    moreover have "sys_ok (w, g(a \<mapsto> l\<lparr>pc := Top, delay := dtlsRetryWait (delay l)\<rparr>))"
      by (rule loc) (use delay_dtlsRetryWait [OF f(3)] in simp_all)
    ultimately show ?thesis using e f(1) Waiting ret by cases (auto simp: dtlsChannel_def)
  next
    case Exited
    then show ?thesis using e f(1) by (cases e) (simp_all add: dtlsChannel_def)
  qed
qed

lemma sys_ok_world:
  assumes "sys_ok (w, g)" and "world_ok w'" and "\<And>b. conns w b \<noteq> None \<Longrightarrow> conns w' b \<noteq> None"
    and "\<And>b. closed w' (DtlsSetup b) = closed w (DtlsSetup b)"
  shows "sys_ok (w', g)"
proof -
  have "dtls_ok (w', g) b" for b
    using assms(1,3,4) by (fastforce simp: sys_ok_def dtls_ok_def split: option.splits dest!: spec [of _ b])
  with assms(2) show ?thesis by (simp add: sys_ok_def)
qed

lemma closes_frame:
  assumes "closes a cs w w'"
  shows "conns w b \<noteq> None \<Longrightarrow> conns w' b \<noteq> None" and "closed w' (DtlsSetup b) = closed w (DtlsSetup b)"
  using assms unfolding closes_def by (elim conjE exE; simp)+

lemma sys_ok_step: "sys_step s s' \<Longrightarrow> sys_ok s \<Longrightarrow> sys_ok s'"
proof (induction rule: sys_step.induct)
  case (connect cfg ifc un now h w a w' g)
  then have w: "world_ok w" by (simp add: sys_ok_def)
  note n = world_ok_NewConnSession [OF w connect.hyps]
  show ?case by (rule sys_ok_world [OF connect.prems n(1)]) (simp_all add: n(4,5))
next
  case (start_dtls w a g)
  then have "dtls_ok (w, g) a" by (simp add: sys_ok_def)
  then have "\<not> closed w (DtlsSetup a)" using start_dtls.hyps by (simp add: dtls_ok_def)
  then have "dtls_ok (w, g(a \<mapsto> dtlsStart)) b" for b
    using start_dtls by (auto simp: sys_ok_def dtls_ok_def dtlsStart_def split: option.splits dest!: spec [of _ b])
  with start_dtls.prems show ?case by (simp add: sys_ok_def)
next
  case (dtls g a l e w l' w')
  then show ?case using dtlsChannel_ok [of w g a l e] by auto
next
  case (close_conn a w w' g)
  then have w: "world_ok w" by (simp add: sys_ok_def)
  show ?case
  proof (cases "conns w a")
    case None
    then show ?thesis using close_conn.hyps by (simp add: ConnSession_Close_def)
  next
    case (Some cs)
    from ConnSession_Close_ok [OF w Some] close_conn.hyps
    have ok: "world_ok w'" "if closeOnce cs then w' = w else closes a cs w w'" by auto
    then show ?thesis using close_conn.prems sys_ok_world [OF close_conn.prems ok(1)] closes_frame [of a cs w w']
      by (cases "closeOnce cs") auto
  qed
next
  case (data w a cs cs' g)
  have eq: "w\<lparr>conns := (conns w)(a \<mapsto> cs')\<rparr> = updConn a (\<lambda>_. cs') w" using data.hyps by (simp add: updConn_def)
  have "world_ok (updConn a (\<lambda>_. cs') w)"
    using data by (intro world_ok_updConn) (auto simp: sys_ok_def same_identity_def)
  from sys_ok_world [OF data.prems this] data.hyps show ?case unfolding eq by (auto simp: updConn_def)
qed

lemma sys_ok_initial: "sys_ok initial"
  by (simp add: sys_ok_def initial_def world_ok_def conn_ok_def current_ok_def dtls_ok_def)

lemma reachable_ok: "reachable s \<Longrightarrow> sys_ok s"
  unfolding reachable_def by (induction rule: rtranclp_induct) (use sys_ok_initial sys_ok_step in blast)+

subsection \<open>Closing once\<close>

text \<open>
  Several goroutines close the same session when they exit, in no particular order.  The
  contract that makes this safe: in a good state closing succeeds, leads to a good closed
  state, and closing what is closed changes nothing.
\<close>

locale once_closable =
  fixes shut :: "'s \<Rightarrow> 'e + 's" and good :: "'s \<Rightarrow> bool" and is_closed :: "'s \<Rightarrow> bool"
  assumes shut_ok: "good s \<Longrightarrow> \<exists>s'. shut s = Inr s' \<and> good s' \<and> is_closed s'"
    and shut_again: "good s \<Longrightarrow> is_closed s \<Longrightarrow> shut s = Inr s"

primrec shut_times :: "nat \<Rightarrow> ('s \<Rightarrow> 'e + 's) \<Rightarrow> 's \<Rightarrow> 'e + 's" where
  "shut_times 0 f s = Inr s"
| "shut_times (Suc n) f s = res_bind (f s) (shut_times n f)"

context once_closable
begin

lemma shut_times_closed: "good s \<Longrightarrow> is_closed s \<Longrightarrow> shut_times n shut s = Inr s"
  by (induction n) (simp_all add: shut_again)

lemma shut_times_once: "good s \<Longrightarrow> shut_times (Suc n) shut s = shut s"
  using shut_ok [of s] shut_times_closed by auto

end

definition conn_good :: "nat \<Rightarrow> world \<Rightarrow> bool" where
  "conn_good a w \<longleftrightarrow> world_ok w \<and> conns w a \<noteq> None"

definition conn_closed :: "nat \<Rightarrow> world \<Rightarrow> bool" where
  "conn_closed a w \<longleftrightarrow> closed w (ConnClose a)"

lemma closes_closed:
  assumes "closes a cs w w'"
  shows "conns w' a \<noteq> None" and "closed w' (ConnClose a)"
  using assms unfolding closes_def by (elim conjE exE; simp)+

interpretation conn_close: once_closable "ConnSession_Close a" "conn_good a" "conn_closed a" for a
proof unfold_locales
  fix w assume "conn_good a w"
  then obtain cs where w: "world_ok w" and cs: "conns w a = Some cs" by (auto simp: conn_good_def)
  from ConnSession_Close_ok [OF w cs] obtain w' where w': "ConnSession_Close a w = Inr w'" "world_ok w'"
    "if closeOnce cs then w' = w else closes a cs w w'" by blast
  from conn_okD [OF w cs] have "closed w (ConnClose a) = closeOnce cs" by blast
  with w' cs closes_closed [of a cs w w']
  show "\<exists>w'. ConnSession_Close a w = Inr w' \<and> conn_good a w' \<and> conn_closed a w'"
    by (cases "closeOnce cs") (auto simp: conn_good_def conn_closed_def)
next
  fix w assume "conn_good a w" "conn_closed a w"
  then obtain cs where w: "world_ok w" and cs: "conns w a = Some cs" by (auto simp: conn_good_def)
  from conn_okD [OF w cs] \<open>conn_closed a w\<close> have "closeOnce cs" by (auto simp: conn_closed_def)
  with cs show "ConnSession_Close a w = Inr w" by (simp add: ConnSession_Close_def)
qed

text \<open>The DTLS close signal of a connection that was closed without it stays open.\<close>

definition orphaned :: "nat \<Rightarrow> system \<Rightarrow> bool" where
  "orphaned a s \<longleftrightarrow> closed (fst s) (ConnClose a) \<and> \<not> closed (fst s) (DtlsClose a)"

lemma closes_other:
  assumes "closes b cs w w'" and "a \<noteq> b"
  shows "closed w' (ConnClose a) = closed w (ConnClose a)" "closed w' (DtlsClose a) = closed w (DtlsClose a)"
  using assms unfolding closes_def by (elim conjE exE; simp)+

lemma dtlsChannel_closed:
  assumes "dtlsChannel e b (l, w) = Some (Inr (l', w'))" and "sys_ok (w, g)" and "g b = Some l"
  shows "closed w' (ConnClose a) = closed w (ConnClose a)" "closed w' (DtlsClose a) = closed w (DtlsClose a)"
  using assms(1) closeSetup_spec [OF assms(2,3)]
  by (auto simp: dtlsChannel_def dtlsReturn_def updConn_def split: option.splits dtls_pc.splits dtls_event.splits if_splits)

lemma orphaned_step: "sys_step s s' \<Longrightarrow> sys_ok s \<Longrightarrow> orphaned a s \<Longrightarrow> orphaned a s'"
proof (induction rule: sys_step.induct)
  case (connect cfg ifc un now h w b w' g)
  then have "world_ok w" by (simp add: sys_ok_def)
  from world_ok_NewConnSession(4) [OF this connect.hyps] connect.prems(2) show ?case by (simp add: orphaned_def)
next
  case (dtls g b l e w l' w')
  then show ?case using dtlsChannel_closed [OF dtls.hyps(2) dtls.prems(1) dtls.hyps(1), of a] by (simp add: orphaned_def)
next
  case (close_conn b w w' g)
  then have w: "world_ok w" by (simp add: sys_ok_def)
  obtain cs where cs: "conns w b = Some cs" using close_conn.hyps by (cases "conns w b") (simp_all add: ConnSession_Close_def)
  from ConnSession_Close_ok [OF w cs] close_conn.hyps have c: "if closeOnce cs then w' = w else closes b cs w w'" by auto
  show ?case
  proof (cases "closeOnce cs \<or> a \<noteq> b")
    case True
    then show ?thesis using c close_conn.prems(2) closes_other [of b cs w w' a] by (cases "closeOnce cs") (simp_all add: orphaned_def)
  next
    case False
    with conn_okD [OF w cs] close_conn.prems(2) show ?thesis by (auto simp: orphaned_def)
  qed
qed (simp_all add: orphaned_def)

subsection \<open>Properties\<close>


definition sample_world :: world where
  "sample_world = snd (NewConnSession sample_cfg sample_ifc (\<lambda>_. None) 0 (\<lambda>_. []) (fst initial))"

lemma sample_world_reachable: "reachable (sample_world, \<lambda>_. None)"
  unfolding reachable_def
proof (rule converse_rtranclp_into_rtranclp)
  show "sys_step initial (sample_world, \<lambda>_. None)"
    using sys_step.connect [OF surjective_pairing, where w = "fst initial" and g = "\<lambda>_. None"]
    unfolding sample_world_def by (auto simp: initial_def)
qed simp

lemma sample_world_conn: "conns sample_world 0 \<noteq> None" "CSess (Sess sample_world) = Some 0" "nextAddr sample_world = 1"
  by (simp_all add: sample_world_def NewConnSession_def initial_def Let_def)


text \<open>
  Closing is idempotent: however many goroutines close a session, the first call does all
  the work and the others change nothing.
\<close>

theorem close_once:
  assumes "reachable (w, g)" and "conns w a \<noteq> None"
  shows "shut_times (Suc n) (ConnSession_Close a) w = ConnSession_Close a w"
  by (rule conn_close.shut_times_once) (use reachable_ok [OF assms(1)] assms(2) in \<open>simp add: conn_good_def sys_ok_def\<close>)

theorem close_once_witness:
  "conns sample_world 0 \<noteq> None \<and> shut_times (Suc 4) (ConnSession_Close 0) sample_world = ConnSession_Close 0 sample_world"
  using close_once [OF sample_world_reachable sample_world_conn(1)] sample_world_conn(1) by blast

text \<open>
  C16. A late close of an old session leaves the current one alone: the global pointer, the
  session's data, its close channels and the channel that notifies the user interfaces stay
  as they were.  Closing the current session clears the pointer, and closes its channel and
  the notification channel.
\<close>

theorem close_scope:
  assumes "reachable (w, g)" and "conns w a = Some cs" and "\<not> closeOnce cs" and "ConnSession_Close a w = Inr w'"
  shows "closed w' (ConnClose a) \<and>
    (CSess (Sess w) = Some a \<longrightarrow> CSess (Sess w') = None \<and> closed w' (SessClose a)) \<and>
    (b \<noteq> a \<and> CSess (Sess w) = Some b \<longrightarrow> Sess w' = Sess w \<and> conns w' b = conns w b \<and> dtlss w' b = dtlss w b \<and>
       \<not> closed w' (ConnClose b) \<and> \<not> closed w' (SessClose b) \<and> closed w' (DtlsClose b) = closed w (DtlsClose b))"
proof -
  have w: "world_ok w" using reachable_ok [OF assms(1)] by (simp add: sys_ok_def)
  from ConnSession_Close_spec [OF w assms(2,3)] assms(4) have c: "closes a cs w w'" by simp
  have cl: "closed w' ch = (closed w ch \<or> ch = ConnClose a \<or> ch = DtlsClose a \<and> DtlsConnected cs \<or>
      ch = SessClose a \<and> CSess (Sess w) = Some a)" for ch
    using c unfolding closes_def by (elim conjE) (erule spec)
  have s: "Sess w' = (if CSess (Sess w) = Some a then (Sess w)\<lparr>CSess := None\<rparr> else Sess w)"
    using c unfolding closes_def by (elim conjE)
  have f: "conns w' b = conns w b \<and> dtlss w' b = dtlss w b" if "b \<noteq> a"
    using c that unfolding closes_def by (elim conjE exE) simp
  have "\<not> closed w (ConnClose b) \<and> \<not> closed w (SessClose b)" if b: "CSess (Sess w) = Some b"
  proof -
    from currentD [OF w b] obtain cb where cb: "conns w b = Some cb" "\<not> closeOnce cb" "\<not> closed w (SessClose b)" by blast
    with conn_okD [OF w cb(1)] show ?thesis by blast
  qed
  then show ?thesis using f by (auto simp: cl s)
qed

theorem close_scope_witness:
  "\<exists>cs w'. conns sample_world 0 = Some cs \<and> \<not> closeOnce cs \<and> ConnSession_Close 0 sample_world = Inr w' \<and>
    closed w' (ConnClose 0) \<and> CSess (Sess w') = None \<and> closed w' (SessClose 0)"
proof -
  have w: "world_ok sample_world" using reachable_ok [OF sample_world_reachable] by (simp add: sys_ok_def)
  from currentD [OF w sample_world_conn(2)] obtain cs where cs: "conns sample_world 0 = Some cs" "\<not> closeOnce cs" by blast
  from ConnSession_Close_spec [OF w cs] obtain w' where w': "ConnSession_Close 0 sample_world = Inr w'" by blast
  from close_scope [OF sample_world_reachable cs w', of 0] cs w' sample_world_conn(2) show ?thesis by simp
qed


text \<open>The first steps of a \<open>dtlsChannel\<close> goroutine in the sample world.\<close>

lemma sample_closed: "\<not> closed sample_world ch"
  by (simp add: sample_world_def NewConnSession_def initial_def Let_def)

lemma sample_cs: "\<exists>cs. conns sample_world 0 = Some cs \<and> \<not> closeOnce cs \<and> \<not> DtlsConnected cs \<and> CloseChan cs = ConnClose 0"
  by (simp add: sample_world_def NewConnSession_def initial_def Let_def connOf_identity)

lemma sample_dialing: "reachable (sample_world, [0 \<mapsto> dtlsStart\<lparr>pc := Dialing\<rparr>])"
proof -
  obtain cs where cs: "conns sample_world 0 = Some cs" "CloseChan cs = ConnClose 0" using sample_cs by blast
  then have "dtlsChannel CheckClose 0 (dtlsStart, sample_world) = Some (Inr (dtlsStart\<lparr>pc := Dialing\<rparr>, sample_world))"
    by (simp add: dtlsChannel_def dtlsStart_def sample_closed)
  then have "sys_step (sample_world, [0 \<mapsto> dtlsStart]) (sample_world, [0 \<mapsto> dtlsStart\<lparr>pc := Dialing\<rparr>])"
    using sys_step.dtls [of "[0 \<mapsto> dtlsStart]" 0 dtlsStart CheckClose sample_world "dtlsStart\<lparr>pc := Dialing\<rparr>" sample_world] by simp
  moreover have "sys_step (sample_world, \<lambda>_. None) (sample_world, [0 \<mapsto> dtlsStart])"
    using sys_step.start_dtls [of sample_world 0 "\<lambda>_. None"] sample_world_conn(1) by simp
  ultimately show ?thesis using sample_world_reachable unfolding reachable_def by (meson rtranclp.rtrancl_into_rtrancl)
qed


text \<open>
  C18. A connection closed while its DTLS handshake is under way is never told so: \<open>Close\<close> signals
  the DTLS side only if \<open>DtlsConnected\<close> is already set, and \<open>dtlsChannel\<close> does not look at
  \<open>CloseChan\<close> between the handshake and \<open>runDtlsEstablished\<close>.  There is a reachable state in
  which the goroutine runs an established channel for a closed connection, and from which
  the DTLS close channel stays open whatever happens.
\<close>

theorem dtls_orphan:
  "\<exists>w g l. reachable (w, g) \<and> g 0 = Some l \<and> pc l = Running \<and> closed w (ConnClose 0) \<and> \<not> closed w (DtlsClose 0) \<and>
    {s. sys_step\<^sup>*\<^sup>* (w, g) s} \<subseteq> {s. \<not> closed (fst s) (DtlsClose 0)}"
proof -
  let ?l = "dtlsStart\<lparr>pc := Dialing\<rparr>" and ?g = "[0 \<mapsto> dtlsStart\<lparr>pc := Dialing\<rparr>]"
  obtain cs where cs: "conns sample_world 0 = Some cs" "\<not> closeOnce cs" "\<not> DtlsConnected cs" using sample_cs by blast
  have w: "world_ok sample_world" using reachable_ok [OF sample_world_reachable] by (simp add: sys_ok_def)
  from ConnSession_Close_spec [OF w cs(1,2)] obtain w' where w': "ConnSession_Close 0 sample_world = Inr w'" "closes 0 cs sample_world w'"
    by blast
  have cl: "closed w' ch = (ch = ConnClose 0 \<or> ch = SessClose 0 \<and> CSess (Sess sample_world) = Some 0)" for ch
    using w'(2) cs(3) unfolding closes_def by (elim conjE) (simp add: sample_closed)
  have n: "conns w' 0 \<noteq> None" by (rule closes_closed(1) [OF w'(2)])
  have r1: "reachable (w', ?g)" using sample_dialing sys_step.close_conn [OF w'(1)] unfolding reachable_def
    by (meson rtranclp.rtrancl_into_rtrancl)
  note c = closeSetup_spec [OF reachable_ok [OF r1], of 0 ?l]
  let ?w = "updConn 0 (\<lambda>cs. cs\<lparr>DtlsConnected := True, ResetDTLSReadDead := True, DTLSCipherSuite := []\<rparr>) (w'\<lparr>closed := (closed w')(DtlsSetup 0 := True)\<rparr>)"
  let ?l' = "?l\<lparr>setupClosed := True, pc := Running, delay := 5\<rparr>"
  have "dtlsChannel (Negotiated None) 0 (?l, w') = Some (Inr (?l', ?w))" using n c by (auto simp: dtlsChannel_def)
  from sys_step.dtls [of ?g 0, OF _ this] r1 have r2: "reachable (?w, [0 \<mapsto> ?l'])"
    unfolding reachable_def by (auto intro: rtranclp.rtrancl_into_rtrancl)
  have o: "orphaned 0 (?w, [0 \<mapsto> ?l'])" by (simp add: orphaned_def updConn_def cl)
  have "orphaned 0 s \<and> sys_ok s" if "sys_step\<^sup>*\<^sup>* (?w, [0 \<mapsto> ?l']) s" for s
    using that by (induction rule: rtranclp_induct) (use o reachable_ok [OF r2] orphaned_step sys_ok_step in blast)+
  then show ?thesis using r2 o by (intro exI [of _ ?w] exI [of _ "[0 \<mapsto> ?l']"] exI [of _ ?l']) (auto simp: orphaned_def)
qed

end
