(* ===== verification/Channels.thy ===== *)
theory Channels
  imports Framing Session
begin

text \<open>
  The data path: one round of each of the loops that move packets between the tun device, the
  queues of a connection and the two channels (\<open>src/vpn/tun.go\<close>, \<open>src/vpn/tls.go\<close>,
  \<open>src/vpn/dtls.go\<close>), over the connection and the buffer pool they share, and the ticks of the
  connection's timers.  A round is \<open>None\<close> where the code blocks; otherwise it panics, or gives
  the new state together with whether the loop goes on.  The devices and the network are
  arguments: what was read, and what a write returns.
\<close>

record datapath =
  conn :: ConnSession
  pool :: "Payload list"

type_synonym round = "(panic + bool \<times> datapath) option"

text \<open>What a write returns for the bytes given: an error, or the number of bytes written.\<close>

type_synonym writer = "byte list \<Rightarrow> string + nat"

definition enqueue :: "'a \<Rightarrow> 'a list \<Rightarrow> 'a list option" where
  "enqueue x q = (if length q < chanCap then Some (q @ [x]) else None)"

subsection \<open>The tun device\<close>

text \<open>
  One round of \<open>tunToPayloadOut\<close>: \<open>i\<close> is the pool's choice, \<open>pkt\<close> the packet that the device put
  into the buffer behind the \<open>offset\<close> reserved bytes (\<open>None\<close>: a read error).
\<close>

definition tunToPayloadOut :: "nat \<Rightarrow> nat \<Rightarrow> byte list option \<Rightarrow> datapath \<Rightarrow> round" where
  "tunToPayloadOut offset i pkt dp =
     (case getPayloadBuffer i (pool dp) of (pl, pool') \<Rightarrow>
      (case pkt of
         None \<Rightarrow> Some (Inr (False, dp\<lparr>pool := pool'\<rparr>))
       | Some bs \<Rightarrow>
           let pl = pl\<lparr>Data := take offset (Data pl) @ go_copy (drop offset (Data pl)) bs\<rparr>;
               n = length bs; cs = conn dp in
           (case reslice offset (offset + n) pl of
              Inl p \<Rightarrow> Some (Inl p)
            | Inr pl \<Rightarrow>
                if DtlsConnected cs then
                  map_option (\<lambda>q. Inr (True, dp\<lparr>pool := pool', conn := cs\<lparr>PayloadOutDTLS := q\<rparr>\<rparr>)) (enqueue pl (PayloadOutDTLS cs))
                else
                  map_option (\<lambda>q. Inr (True, dp\<lparr>pool := pool', conn := cs\<lparr>PayloadOutTLS := q\<rparr>\<rparr>)) (enqueue pl (PayloadOutTLS cs)))))"

text \<open>
  One round of \<open>payloadInToTun\<close>.  With domain splitting the ports of the packet are read
  first, which panics on a packet that is too short.
\<close>

definition payloadInToTun :: "nat \<Rightarrow> writer \<Rightarrow> datapath \<Rightarrow> round" where
  "payloadInToTun offset wr dp =
     (case PayloadIn (conn dp) of
        [] \<Rightarrow> None
      | pl # q \<Rightarrow>
          let dp = dp\<lparr>conn := (conn dp)\<lparr>PayloadIn := q\<rparr>\<rparr> in
          if DynamicSplitTunneling (conn dp) \<and> ResolvePacket (Data pl) = None then Some (Inl SliceOutOfRange)
          else
            let buf = (if offset > 0 then replicate offset 0 @ Data pl else Data pl) in
            (case wr buf of
               Inl e \<Rightarrow> Some (Inr (False, dp))
             | Inr _ \<Rightarrow> Some (Inr (True, dp\<lparr>pool := putPayloadBuffer pl (pool dp)\<rparr>))))"

subsection \<open>The TLS channel\<close>

definition addSent :: "nat \<Rightarrow> ConnSession \<Rightarrow> ConnSession" where
  "addSent n cs = cs\<lparr>Stat := (Stat cs)\<lparr>BytesSent := BytesSent (Stat cs) + of_nat n\<rparr>\<rparr>"

definition addReceived :: "nat \<Rightarrow> ConnSession \<Rightarrow> ConnSession" where
  "addReceived n cs = cs\<lparr>Stat := (Stat cs)\<lparr>BytesReceived := BytesReceived (Stat cs) + of_nat n\<rparr>\<rparr>"

definition payloadOutTLSToServer :: "lz4_lib \<Rightarrow> (nat \<Rightarrow> nat) \<Rightarrow> byte list \<Rightarrow> writer \<Rightarrow> datapath \<Rightarrow> round" where
  "payloadOutTLSToServer lz4 grow compressBuf wr dp =
     (case PayloadOutTLS (conn dp) of
        [] \<Rightarrow> None
      | pl # q \<Rightarrow>
          let cs = (conn dp)\<lparr>PayloadOutTLS := q\<rparr> in
          Some (res_bind (tlsPack lz4 grow (CSTPCompression cs) compressBuf pl (CompressStats cs)) (\<lambda>(pl, st).
            let cs = cs\<lparr>CompressStats := st\<rparr> in
            (case wr (Data pl) of
               Inl e \<Rightarrow> Inr (False, dp\<lparr>conn := cs\<rparr>)
             | Inr n \<Rightarrow> Inr (True, dp\<lparr>conn := addSent n cs, pool := putPayloadBuffer pl (pool dp)\<rparr>)))))"

text \<open>
  One round of the receiving loop of \<open>tlsChannel\<close>; \<open>bs\<close> is what \<open>Read\<close> put into the buffer
  (\<open>None\<close>: an error).  A full queue blocks.
\<close>

definition tlsChannel :: "lz4_lib \<Rightarrow> (nat \<Rightarrow> nat) \<Rightarrow> byte list \<Rightarrow> nat \<Rightarrow> byte list option \<Rightarrow> datapath \<Rightarrow> round" where
  "tlsChannel lz4 grow decompressBuf i bs dp =
     (case getPayloadBuffer i (pool dp) of (pl, pool') \<Rightarrow>
        let cs = (conn dp)\<lparr>ResetTLSReadDead := False\<rparr>; dp = dp\<lparr>conn := cs, pool := pool'\<rparr> in
        (case bs of
           None \<Rightarrow> Some (Inr (False, dp))
         | Some bs \<Rightarrow>
             (case tlsUnpack lz4 grow (CSTPCompression cs) decompressBuf (readInto pl bs) (CompressStats cs) of
                Inl p \<Rightarrow> Some (Inl p)
              | Inr (r, st) \<Rightarrow>
                  let cs = cs\<lparr>CompressStats := st\<rparr> in
                  (case r of
                     Deliver pl \<Rightarrow> map_option (\<lambda>q. Inr (True, dp\<lparr>conn := addReceived (length bs) (cs\<lparr>PayloadIn := q\<rparr>)\<rparr>)) (enqueue pl (PayloadIn cs))
                   | Reply pl \<Rightarrow> map_option (\<lambda>q. Inr (True, dp\<lparr>conn := addReceived (length bs) (cs\<lparr>PayloadOutTLS := q\<rparr>)\<rparr>)) (enqueue pl (PayloadOutTLS cs))
                   | Ignored \<Rightarrow> Some (Inr (True, dp\<lparr>conn := addReceived (length bs) cs\<rparr>))
                   | Stop \<Rightarrow> Some (Inr (False, dp\<lparr>conn := cs\<rparr>))))))"

subsection \<open>The DTLS channel\<close>

definition payloadOutDTLSToServer :: "lz4_lib \<Rightarrow> (nat \<Rightarrow> nat) \<Rightarrow> byte list \<Rightarrow> writer \<Rightarrow> datapath \<Rightarrow> round" where
  "payloadOutDTLSToServer lz4 grow compressBuf wr dp =
     (case PayloadOutDTLS (conn dp) of
        [] \<Rightarrow> None
      | pl # q \<Rightarrow>
          let cs = (conn dp)\<lparr>PayloadOutDTLS := q\<rparr> in
          Some (res_bind (dtlsPack lz4 grow (DTLSCompression cs) compressBuf pl (CompressStats cs)) (\<lambda>(pl, st).
            let cs = cs\<lparr>CompressStats := st\<rparr> in
            (case wr (Data pl) of
               Inl e \<Rightarrow> Inr (False, dp\<lparr>conn := cs\<rparr>)
             | Inr n \<Rightarrow> Inr (True, dp\<lparr>conn := addSent n cs, pool := putPayloadBuffer pl (pool dp)\<rparr>)))))"

definition runDtlsEstablished :: "lz4_lib \<Rightarrow> (nat \<Rightarrow> nat) \<Rightarrow> byte list \<Rightarrow> nat \<Rightarrow> byte list option \<Rightarrow> datapath \<Rightarrow> round" where
  "runDtlsEstablished lz4 grow decompressBuf i bs dp =
     (case getPayloadBuffer i (pool dp) of (pl, pool') \<Rightarrow>
        let cs = (conn dp)\<lparr>ResetDTLSReadDead := False\<rparr>; dp = dp\<lparr>conn := cs, pool := pool'\<rparr> in
        (case bs of
           None \<Rightarrow> Some (Inr (False, dp))
         | Some bs \<Rightarrow>
             (case dtlsUnpack lz4 grow (DTLSCompression cs) decompressBuf (length bs) (readInto pl bs) (CompressStats cs) of
                Inl p \<Rightarrow> Some (Inl p)
              | Inr (r, st) \<Rightarrow>
                  let cs = cs\<lparr>CompressStats := st\<rparr> in
                  (case r of
                     Deliver pl \<Rightarrow> map_option (\<lambda>q. Inr (True, dp\<lparr>conn := addReceived (length bs) (cs\<lparr>PayloadIn := q\<rparr>)\<rparr>)) (enqueue pl (PayloadIn cs))
                   | Reply pl \<Rightarrow> map_option (\<lambda>q. Inr (True, dp\<lparr>conn := addReceived (length bs) (cs\<lparr>PayloadOutDTLS := q\<rparr>)\<rparr>)) (enqueue pl (PayloadOutDTLS cs))
                   | Ignored \<Rightarrow> Some (Inr (True, dp\<lparr>conn := addReceived (length bs) cs\<rparr>))
                   | Stop \<Rightarrow> Some (Inr (False, dp\<lparr>conn := cs\<rparr>))))))"

subsection \<open>The data path as a transition system\<close>

text \<open>
  Everything that may happen next.  A device returns packets that fit behind the reserved
  bytes and leave room for the frame header (\<open>fits_tun\<close>); the network is arbitrary, within the
  buffer it reads into.
\<close>

definition fits_tun :: "nat \<Rightarrow> byte list \<Rightarrow> bool" where
  "fits_tun offset bs \<longleftrightarrow> offset + length bs + 8 \<le> BufferSize"

inductive dp_step :: "lz4_lib \<Rightarrow> (nat \<Rightarrow> nat) \<Rightarrow> nat \<Rightarrow> datapath \<Rightarrow> datapath \<Rightarrow> bool"
  for lz4 :: lz4_lib and grow :: "nat \<Rightarrow> nat" and offset :: nat where
  tun_read: "pred_option (fits_tun offset) pkt \<Longrightarrow> tunToPayloadOut offset i pkt dp = Some (Inr (go, dp')) \<Longrightarrow> dp_step lz4 grow offset dp dp'"
| tun_write: "payloadInToTun offset wr dp = Some (Inr (go, dp')) \<Longrightarrow> dp_step lz4 grow offset dp dp'"
| tls_out: "length cbuf = 4096 \<Longrightarrow> payloadOutTLSToServer lz4 grow cbuf wr dp = Some (Inr (go, dp')) \<Longrightarrow> dp_step lz4 grow offset dp dp'"
| dtls_out: "length cbuf = 4096 \<Longrightarrow> payloadOutDTLSToServer lz4 grow cbuf wr dp = Some (Inr (go, dp')) \<Longrightarrow> dp_step lz4 grow offset dp dp'"
| tls_in: "length dbuf = 16384 \<Longrightarrow> tlsChannel lz4 grow dbuf i bs dp = Some (Inr (go, dp')) \<Longrightarrow> dp_step lz4 grow offset dp dp'"
| dtls_in: "length dbuf = 16384 \<Longrightarrow> runDtlsEstablished lz4 grow dbuf i bs dp = Some (Inr (go, dp')) \<Longrightarrow> dp_step lz4 grow offset dp dp'"
| dpd_tick: "dp_step lz4 grow offset dp (dp\<lparr>conn := DPDTick (conn dp)\<rparr>)"
| read_dead_tick: "dp_step lz4 grow offset dp (dp\<lparr>conn := ReadDeadTick (conn dp)\<rparr>)"
| dtls_switch: "dp_step lz4 grow offset dp (dp\<lparr>conn := (conn dp)\<lparr>DtlsConnected := b, DTLSCipherSuite := s\<rparr>\<rparr>)"

definition out_ok :: "nat \<Rightarrow> Payload \<Rightarrow> bool" where
  "out_ok header pl \<longleftrightarrow> (if Type pl = 0 then length (Data pl) + header \<le> cap pl else header \<le> cap pl)"

definition counters_ok :: "ConnSession \<Rightarrow> bool" where
  "counters_ok cs \<longleftrightarrow> CSTPCompression cs \<noteq> CompNone \<or> DTLSCompression cs \<noteq> CompNone \<longrightarrow> CompressStats cs \<noteq> None"

definition dp_ok :: "datapath \<Rightarrow> bool" where
  "dp_ok dp \<longleftrightarrow> list_all fresh (pool dp) \<and>
     list_all (out_ok 8) (PayloadOutTLS (conn dp)) \<and> list_all (out_ok 1) (PayloadOutDTLS (conn dp)) \<and>
     length (PayloadIn (conn dp)) \<le> chanCap \<and> length (PayloadOutTLS (conn dp)) \<le> chanCap \<and>
     length (PayloadOutDTLS (conn dp)) \<le> chanCap \<and> counters_ok (conn dp)"

subsection \<open>The loops keep the invariant\<close>

lemma enqueue_Some: "enqueue x q = Some q' \<longleftrightarrow> length q < chanCap \<and> q' = q @ [x]"
  by (auto simp: enqueue_def)

lemma trySend_ok:
  "list_all P q \<Longrightarrow> P x \<Longrightarrow> list_all P (trySend x q)" "length q \<le> chanCap \<Longrightarrow> length (trySend x q) \<le> chanCap"
  by (auto simp: trySend_def)

lemma stat_fields [simp]:
  "CompressStats (addSent n cs) = CompressStats cs" "CompressStats (addReceived n cs) = CompressStats cs"
  "PayloadIn (addSent n cs) = PayloadIn cs" "PayloadIn (addReceived n cs) = PayloadIn cs"
  "PayloadOutTLS (addSent n cs) = PayloadOutTLS cs" "PayloadOutTLS (addReceived n cs) = PayloadOutTLS cs"
  "PayloadOutDTLS (addSent n cs) = PayloadOutDTLS cs" "PayloadOutDTLS (addReceived n cs) = PayloadOutDTLS cs"
  "CSTPCompression (addSent n cs) = CSTPCompression cs" "CSTPCompression (addReceived n cs) = CSTPCompression cs"
  "DTLSCompression (addSent n cs) = DTLSCompression cs" "DTLSCompression (addReceived n cs) = DTLSCompression cs"
  by (simp_all add: addSent_def addReceived_def)

lemma tlsPack_out:
  assumes "c = CompLZ4 \<Longrightarrow> lz4_contract lz4" and "out_ok 8 pl" and "c \<noteq> CompNone \<Longrightarrow> cs \<noteq> None"
  shows "\<exists>pl' cs'. tlsPack lz4 grow c cbuf pl cs = Inr (pl', cs') \<and> (cs' = None \<longleftrightarrow> cs = None)"
proof (cases "Type pl = 0")
  case True
  have "negotiated lz4 c" by unfold_locales (use assms(1) in auto)
  from negotiated.tlsPack_data [OF this True _ assms(3), of grow cbuf] assms(2) True show ?thesis
    by (auto simp: out_ok_def count_send_def)
next
  case False
  with tlsPack_control [OF False, of lz4 grow c cbuf cs] assms(2) show ?thesis by (auto simp: out_ok_def)
qed

lemma dtlsPack_out:
  assumes "c = CompLZ4 \<Longrightarrow> lz4_contract lz4" and "out_ok 1 pl" and "c \<noteq> CompNone \<Longrightarrow> cs \<noteq> None"
  shows "\<exists>pl' cs'. dtlsPack lz4 grow c cbuf pl cs = Inr (pl', cs') \<and> (cs' = None \<longleftrightarrow> cs = None)"
proof (cases "Type pl = 0")
  case True
  have "negotiated lz4 c" by unfold_locales (use assms(1) in auto)
  from negotiated.dtlsPack_data [OF this True _ assms(3), of grow cbuf] assms(2) True show ?thesis
    by (auto simp: out_ok_def count_send_def)
next
  case False
  with dtlsPack_control [OF False, of lz4 grow c cbuf cs] assms(2) show ?thesis by (auto simp: out_ok_def)
qed

text \<open>What the receiving side may hand on, and that it keeps the counters.\<close>

lemma addRecv_Inr: "addRecv x y cs = Inr st \<Longrightarrow> (st = None \<longleftrightarrow> cs = None)"
  by (cases cs) auto

lemma decompressPayload_result:
  "decompressPayload lz4 grow c dbuf src pl cs = Inr (r, st) \<Longrightarrow> (st = None \<longleftrightarrow> cs = None) \<and> (\<forall>q. r \<noteq> Reply q)"
  by (auto simp: decompressPayload_def res_bind_Inr_iff split: sum.splits prod.splits option.splits if_splits dest: addRecv_Inr)

lemma tlsUnpack_result:
  assumes "tlsUnpack lz4 grow c dbuf pl cs = Inr (r, st)"
  shows "(st = None \<longleftrightarrow> cs = None) \<and> (\<forall>q. r = Reply q \<longrightarrow> q = pl\<lparr>Type := 0x04\<rparr>)"
  using assms
  by (auto simp: tlsUnpack_def Let_def res_bind_Inr_iff split: option.splits if_splits dest: addRecv_Inr decompressPayload_result)

lemma dtlsUnpack_result:
  assumes "dtlsUnpack lz4 grow c dbuf n pl cs = Inr (r, st)"
  shows "(st = None \<longleftrightarrow> cs = None) \<and> (\<forall>q. r = Reply q \<longrightarrow> q = pl\<lparr>Type := 0x04\<rparr>)"
  using assms
  by (auto simp: dtlsUnpack_def Let_def res_bind_Inr_iff split: option.splits if_splits dest: addRecv_Inr decompressPayload_result)

lemma out_ok_reply: "fresh pl \<Longrightarrow> out_ok 8 ((readInto pl bs)\<lparr>Type := 0x04\<rparr>) \<and> out_ok 1 ((readInto pl bs)\<lparr>Type := 0x04\<rparr>)"
  by (simp add: out_ok_def readInto_def fresh_def cap_def backing_def BufferSize_def)

lemma fits_reslice:
  assumes "fresh pl" and "fits_tun offset bs"
  obtains pl' where "reslice offset (offset + length bs) (pl\<lparr>Data := take offset (Data pl) @ go_copy (drop offset (Data pl)) bs\<rparr>) = Inr pl'"
    "Data pl' = bs" "out_ok 8 pl'" "out_ok 1 pl'"
  using assms
  by (simp add: reslice_def fresh_def fits_tun_def cap_def backing_def go_copy_def out_ok_def BufferSize_def)

lemma tunToPayloadOut_ok:
  assumes "dp_ok dp" and "pred_option (fits_tun offset) pkt" and "tunToPayloadOut offset i pkt dp = Some r"
  shows "\<exists>go dp'. r = Inr (go, dp') \<and> dp_ok dp'"
proof -
  obtain pl pool' where g: "getPayloadBuffer i (pool dp) = (pl, pool')" by (cases "getPayloadBuffer i (pool dp)")
  have f: "fresh pl" "list_all fresh pool'" using fresh_getPayloadBuffer [OF _ g] assms(1) by (simp_all add: dp_ok_def)
  show ?thesis
  proof (cases pkt)
    case None
    with assms(1,3) g f show ?thesis by (auto simp: tunToPayloadOut_def dp_ok_def)
  next
    case (Some bs)
    with assms(2) have "fits_tun offset bs" by simp
    from fits_reslice [OF f(1) this] obtain pl' where
      p: "reslice offset (offset + length bs) (pl\<lparr>Data := take offset (Data pl) @ go_copy (drop offset (Data pl)) bs\<rparr>) = Inr pl'"
        "out_ok 8 pl'" "out_ok 1 pl'" by metis
    with assms(1,3) g f Some show ?thesis
      by (auto simp: tunToPayloadOut_def Let_def dp_ok_def enqueue_Some counters_ok_def split: if_splits)
  qed
qed

lemma payloadInToTun_ok:
  assumes "dp_ok dp" and "payloadInToTun offset wr dp = Some (Inr (go, dp'))"
  shows "dp_ok dp'"
  using assms
  by (auto simp: payloadInToTun_def Let_def dp_ok_def counters_ok_def fresh_putPayloadBuffer split: list.splits if_splits sum.splits)

lemma payloadOutTLSToServer_ok:
  assumes "lz4_contract lz4" and "dp_ok dp" and "payloadOutTLSToServer lz4 grow cbuf wr dp = Some r"
  shows "\<exists>go dp'. r = Inr (go, dp') \<and> dp_ok dp'"
proof -
  from assms(3) obtain pl q where q: "PayloadOutTLS (conn dp) = pl # q"
    by (auto simp: payloadOutTLSToServer_def split: list.splits)
  let ?c = "CSTPCompression (conn dp)" and ?s = "CompressStats (conn dp)"
  have "out_ok 8 pl" "?c \<noteq> CompNone \<longrightarrow> ?s \<noteq> None" using assms(2) q by (simp_all add: dp_ok_def counters_ok_def)
  then have "\<exists>pl' st. tlsPack lz4 grow ?c cbuf pl ?s = Inr (pl', st) \<and> (st = None \<longleftrightarrow> ?s = None)"
    using assms(1) by (intro tlsPack_out) auto
  then obtain pl' st where p: "tlsPack lz4 grow ?c cbuf pl ?s = Inr (pl', st)" "st = None \<longleftrightarrow> ?s = None"
    by (elim exE conjE) (rule that)
  with assms(2,3) q show ?thesis
    by (cases "wr (Data pl')") (auto simp: payloadOutTLSToServer_def Let_def dp_ok_def counters_ok_def fresh_putPayloadBuffer)
qed

lemma payloadOutDTLSToServer_ok:
  assumes "lz4_contract lz4" and "dp_ok dp" and "payloadOutDTLSToServer lz4 grow cbuf wr dp = Some r"
  shows "\<exists>go dp'. r = Inr (go, dp') \<and> dp_ok dp'"
proof -
  from assms(3) obtain pl q where q: "PayloadOutDTLS (conn dp) = pl # q"
    by (auto simp: payloadOutDTLSToServer_def split: list.splits)
  let ?c = "DTLSCompression (conn dp)" and ?s = "CompressStats (conn dp)"
  have "out_ok 1 pl" "?c \<noteq> CompNone \<longrightarrow> ?s \<noteq> None" using assms(2) q by (simp_all add: dp_ok_def counters_ok_def)
  then have "\<exists>pl' st. dtlsPack lz4 grow ?c cbuf pl ?s = Inr (pl', st) \<and> (st = None \<longleftrightarrow> ?s = None)"
    using assms(1) by (intro dtlsPack_out) auto
  then obtain pl' st where p: "dtlsPack lz4 grow ?c cbuf pl ?s = Inr (pl', st)" "st = None \<longleftrightarrow> ?s = None"
    by (elim exE conjE) (rule that)
  with assms(2,3) q show ?thesis
    by (cases "wr (Data pl')") (auto simp: payloadOutDTLSToServer_def Let_def dp_ok_def counters_ok_def fresh_putPayloadBuffer)
qed

lemma tlsChannel_ok:
  assumes "dp_ok dp" and "tlsChannel lz4 grow dbuf i bs dp = Some (Inr (go, dp'))"
  shows "dp_ok dp'"
proof -
  obtain pl pool' where g: "getPayloadBuffer i (pool dp) = (pl, pool')" by (cases "getPayloadBuffer i (pool dp)")
  have f: "fresh pl" "list_all fresh pool'" using fresh_getPayloadBuffer [OF _ g] assms(1) by (simp_all add: dp_ok_def)
  show ?thesis
  proof (cases bs)
    case None
    with assms g f show ?thesis by (auto simp: tlsChannel_def dp_ok_def counters_ok_def)
  next
    case (Some b)
    let ?u = "tlsUnpack lz4 grow (CSTPCompression (conn dp)) dbuf (readInto pl b) (CompressStats (conn dp))"
    from assms(2) g Some obtain r st where u: "?u = Inr (r, st)"
      by (cases ?u) (auto simp: tlsChannel_def Let_def)
    note res = tlsUnpack_result [OF u]
    show ?thesis using assms g f Some u res out_ok_reply [OF f(1), of b]
      by (cases r) (auto simp: tlsChannel_def Let_def dp_ok_def counters_ok_def enqueue_Some)
  qed
qed

lemma runDtlsEstablished_ok:
  assumes "dp_ok dp" and "runDtlsEstablished lz4 grow dbuf i bs dp = Some (Inr (go, dp'))"
  shows "dp_ok dp'"
proof -
  obtain pl pool' where g: "getPayloadBuffer i (pool dp) = (pl, pool')" by (cases "getPayloadBuffer i (pool dp)")
  have f: "fresh pl" "list_all fresh pool'" using fresh_getPayloadBuffer [OF _ g] assms(1) by (simp_all add: dp_ok_def)
  show ?thesis
  proof (cases bs)
    case None
    with assms g f show ?thesis by (auto simp: runDtlsEstablished_def dp_ok_def counters_ok_def)
  next
    case (Some b)
    let ?u = "dtlsUnpack lz4 grow (DTLSCompression (conn dp)) dbuf (length b) (readInto pl b) (CompressStats (conn dp))"
    from assms(2) g Some obtain r st where u: "?u = Inr (r, st)"
      by (cases ?u) (auto simp: runDtlsEstablished_def Let_def)
    note res = dtlsUnpack_result [OF u]
    show ?thesis using assms g f Some u res out_ok_reply [OF f(1), of b]
      by (cases r) (auto simp: runDtlsEstablished_def Let_def dp_ok_def counters_ok_def enqueue_Some)
  qed
qed

lemma DPDTick_ok: "dp_ok dp \<Longrightarrow> dp_ok (dp\<lparr>conn := DPDTick (conn dp)\<rparr>)"
  by (auto simp: dp_ok_def DPDTick_def Let_def counters_ok_def tlsDpd_def dtlsDpd_def out_ok_def cap_def backing_def intro!: trySend_ok)

lemma dp_ok_step:
  assumes "lz4_contract lz4" and "dp_step lz4 grow offset dp dp'" and "dp_ok dp"
  shows "dp_ok dp'"
  using assms(2,3)
proof (induction rule: dp_step.induct)
  case (tun_read pkt i dp go dp')
  then show ?case using tunToPayloadOut_ok by fastforce
next
  case (tun_write wr dp go dp')
  then show ?case using payloadInToTun_ok by blast
next
  case (tls_out cbuf wr dp go dp')
  then show ?case using payloadOutTLSToServer_ok [OF assms(1)] by fastforce
next
  case (dtls_out cbuf wr dp go dp')
  then show ?case using payloadOutDTLSToServer_ok [OF assms(1)] by fastforce
next
  case (tls_in dbuf i bs dp go dp')
  then show ?case using tlsChannel_ok by blast
next
  case (dtls_in dbuf i bs dp go dp')
  then show ?case using runDtlsEstablished_ok by blast
next
  case (dpd_tick dp)
  then show ?case by (rule DPDTick_ok)
qed (simp_all add: dp_ok_def ReadDeadTick_def counters_ok_def)

definition dp_start :: "ConnSession \<Rightarrow> datapath" where
  "dp_start cs = \<lparr>conn = cs, pool = []\<rparr>"

lemma dp_ok_start: "dp_ok (dp_start (connOf cfg ifc u now h a))"
  using connOf_compression(3) [of cfg ifc u now h a]
  by (auto simp: dp_ok_def dp_start_def connOf_identity counters_ok_def)

lemma dp_ok_reachable:
  assumes "lz4_contract lz4" and "(dp_step lz4 grow offset)\<^sup>*\<^sup>* (dp_start (connOf cfg ifc u now h a)) dp"
  shows "dp_ok dp"
  using assms(2) by (induction rule: rtranclp_induct) (use dp_ok_start dp_ok_step [OF assms(1)] in blast)+

subsection \<open>Properties\<close>


definition sample_conn :: ConnSession where
  "sample_conn = connOf sample_cfg sample_ifc (\<lambda>_. None) 0 (\<lambda>_. []) 0"


text \<open>
  The limit on packet size is real: the tunnel MTU comes from the server and is not
  bounded, and a packet of more than 2040 bytes from the tun device passes \<open>tunToPayloadOut\<close>
  and then makes the TLS sending loop panic when it makes room for the header.
\<close>

theorem tls_send_oversized:
  assumes "length pkt \<le> BufferSize" and "2040 < length pkt" and "CSTPCompression cs = CompNone"
    and "PayloadOutTLS cs = []" and "\<not> DtlsConnected cs"
  shows "\<exists>dp. tunToPayloadOut 0 0 (Some pkt) (dp_start cs) = Some (Inr (True, dp)) \<and>
    payloadOutTLSToServer lz4 grow cbuf wr dp = Some (Inl SliceOutOfRange)"
proof -
  let ?pl = "\<lparr>Type = 0, Data = pkt, Spare = drop (length pkt) (Data newPayload)\<rparr> :: Payload"
  have "reslice 0 (length pkt) (newPayload\<lparr>Data := go_copy (Data newPayload) pkt\<rparr>) = Inr ?pl"
    using assms(1) by (simp add: reslice_def newPayload_def cap_def backing_def go_copy_def)
  then have "tunToPayloadOut 0 0 (Some pkt) (dp_start cs) = Some (Inr (True, \<lparr>conn = cs\<lparr>PayloadOutTLS := [?pl]\<rparr>, pool = []\<rparr>))"
    using assms(4,5) by (simp add: tunToPayloadOut_def dp_start_def getPayloadBuffer_def Let_def enqueue_def chanCap_def)
  moreover have "tlsPack lz4 grow CompNone cbuf ?pl st = Inl SliceOutOfRange" for st
    using assms(1,2) by (simp add: tlsPack_def compressPayload_def Let_def reslice_def cap_def backing_def newPayload_def BufferSize_def)
  ultimately show ?thesis using assms(3) by (simp add: payloadOutTLSToServer_def Let_def)
qed

theorem tls_send_oversized_witness:
  "\<exists>dp. tunToPayloadOut 0 0 (Some (replicate 2041 0)) (dp_start sample_conn) = Some (Inr (True, dp)) \<and>
    payloadOutTLSToServer lz4_store id (replicate 4096 0) (\<lambda>b. Inr (length b)) dp = Some (Inl SliceOutOfRange)"
proof (rule tls_send_oversized)
  show "CSTPCompression sample_conn = CompNone"
    by (simp add: sample_conn_def connOf_compression ParseCompression_def Get_def Values_def)
  show "PayloadOutTLS sample_conn = []" "\<not> DtlsConnected sample_conn" by (simp_all add: sample_conn_def connOf_identity)
qed (simp_all add: BufferSize_def)

end
