(* ===== verification/Auth.thy ===== *)
theory Auth
  imports Session
begin

text \<open>
  The authentication exchange of \<open>src/auth/auth.go\<close> with the documents of
  \<open>src/proto/dtd.go\<close>, over the state of the agent process (\<open>agent\<close>: the package variables of
  \<open>auth\<close>, \<open>base\<close>, \<open>session\<close> and \<open>vpn\<close>).  What the network answers to a request is an argument
  (\<open>post_outcome\<close>); \<open>xml.Unmarshal\<close> is a parameter that gives its error and what it filled in.
  The requests sent are recorded.
\<close>

subsection \<open>Documents\<close>

record authError =
  ErrID :: string
  Param1 :: string
  ErrValue :: string

record form =
  Action :: string
  Groups :: "string list"

record auth =
  AuthUsername :: string
  AuthPassword :: string
  Message :: string
  Banner :: string
  AuthError :: authError
  Form :: form

record deviceId =
  DevComputerName :: string
  DevDeviceType :: string
  DevPlatformVersion :: string
  DevUniqueId :: string
  DevUniqueIdGlobal :: string

record opaque =
  OpTunnelGroup :: string
  OpGroupAlias :: string
  OpConfigHash :: string

record customAttr =
  ExcludeDomains :: string
  IncludeDomains :: string

record DTD =
  Client :: string
  DocType :: string
  AggregateAuthVersion :: string
  DocVersion :: string
  GroupAccess :: string
  GroupSelect :: string
  DocSessionToken :: string
  DocError :: authError
  Auth :: auth
  DeviceId :: deviceId
  Opaque :: opaque
  MacAddressList :: string
  Config :: customAttr

subsection \<open>State of the agent\<close>

record Profile =
  Host :: string
  Username :: string
  Password :: string
  Group :: string
  SecretKey :: string
  Initialized :: bool
  AppVersion :: string
  PlatformName :: string
  HostWithPort :: string
  Scheme :: string
  AuthPath :: string
  MacAddress :: string
  TunnelGroup :: string
  GroupAlias :: string
  ConfigHash :: string
  ComputerName :: string
  DeviceType :: string
  PlatformVersion :: string
  UniqueId :: string

record request =
  Method :: string
  Url :: string
  ReqHeader :: header
  Body :: string

record agent =
  Cfg :: ClientConfig
  LocalInterface :: Interface
  Prof :: Profile
  ConnOpen :: bool
  WebVpnCookie :: string
  cookies :: "(string \<times> string) list"
  tunHeaders :: "string \<rightharpoonup> string"
  world_of :: world
  sent :: "request list"

definition platformName :: "string \<Rightarrow> string \<Rightarrow> string" where
  "platformName GOOS GOARCH =
     (if GOOS = ''darwin'' then ''mac-intel''
      else if GOOS = ''windows'' then ''win''
      else if GOOS = ''android'' then ''android''
      else if GOOS = ''ios'' then ''apple-ios''
      else if GOARCH = ''386'' \<or> GOARCH = ''arm'' then ''linux''
      else ''linux-64'')"

text \<open>Package initialisation, from what the host reports (name, id, OS name, version, build).\<close>

definition initProfile :: "string \<Rightarrow> string \<Rightarrow> string \<Rightarrow> string \<Rightarrow> string \<Rightarrow> string \<Rightarrow> string \<Rightarrow> Profile \<Rightarrow> Profile" where
  "initProfile GOOS GOARCH hostname uniqueID osName osVersion osBuild p =
     p\<lparr>Scheme := ''https://'', ComputerName := hostname, UniqueId := uniqueID, DeviceType := osName,
       PlatformVersion := (if GOOS = ''windows'' then osBuild else hd (Split (CHR '' '') osVersion)),
       PlatformName := platformName GOOS GOARCH\<rparr>"

subsection \<open>Escaping\<close>

definition isCont :: "char \<Rightarrow> bool" where
  "isCont c \<longleftrightarrow> 128 \<le> code c \<and> code c \<le> 191"

text \<open>
  Length of the UTF-8 sequence of a character allowed in XML at the head of a string whose
  first byte is not ASCII; \<open>None\<close> and a length to skip where there is none.
\<close>

fun runeWidth :: "string \<Rightarrow> nat option \<times> nat" where
  "runeWidth [] = (None, 1)"
| "runeWidth (a # s) =
     (let x = code a in
      case s of
        b # s1 \<Rightarrow>
          if 194 \<le> x \<and> x \<le> 223 \<and> isCont b then (Some 2, 2)
          else
            (case s1 of
               c # s2 \<Rightarrow>
                 if (x = 224 \<and> 160 \<le> code b \<and> isCont b \<or> x = 237 \<and> code b \<le> 159 \<and> isCont b \<or>
                     225 \<le> x \<and> x \<le> 239 \<and> x \<noteq> 237 \<and> isCont b) \<and> isCont c
                 then if x = 239 \<and> code b = 191 \<and> 190 \<le> code c then (None, 3) else (Some 3, 3)
                 else
                   (case s2 of
                      d # _ \<Rightarrow>
                        if (x = 240 \<and> 144 \<le> code b \<and> isCont b \<or> x = 244 \<and> code b \<le> 143 \<and> isCont b \<or>
                            241 \<le> x \<and> x \<le> 243 \<and> isCont b) \<and> isCont c \<and> isCont d
                        then (Some 4, 4) else (None, 1)
                    | [] \<Rightarrow> (None, 1))
             | [] \<Rightarrow> (None, 1))
      | [] \<Rightarrow> (None, 1))"

definition replacement :: string where
  "replacement = [CHR 0xEF, CHR 0xBF, CHR 0xBD]"

definition escapeASCII :: "char \<Rightarrow> string" where
  "escapeASCII c =
     (if code c = 34 then ''&#34;'' else if code c = 39 then ''&#39;'' else if code c = 38 then ''&amp;''
      else if code c = 60 then ''&lt;'' else if code c = 62 then ''&gt;'' else if code c = 9 then ''&#x9;''
      else if code c = 10 then ''&#xA;'' else if code c = 13 then ''&#xD;''
      else if code c < 32 then replacement else [c])"

text \<open>\<open>xml.EscapeText\<close>.\<close>

function (sequential) escapeText :: "string \<Rightarrow> string" where
  "escapeText [] = []"
| "escapeText (c # s) =
     (if code c < 128 then escapeASCII c @ escapeText s
      else case runeWidth (c # s) of
        (Some n, _) \<Rightarrow> take n (c # s) @ escapeText (drop (n - 1) s)
      | (None, n) \<Rightarrow> replacement @ escapeText (drop (n - 1) s))"
  by pat_completeness auto
termination
  by (relation "measure length") auto

declare runeWidth.simps [simp del]
declare escapeText.simps [simp del]

definition elem :: "string \<Rightarrow> string \<Rightarrow> string" where
  "elem tag s = ''<'' @ tag @ ''>'' @ s @ ''</'' @ tag @ ''>''"

definition nl :: "nat \<Rightarrow> string" where
  "nl n = CHR 0x0A # replicate n (CHR '' '')"

definition quoted :: "string \<Rightarrow> string" where
  "quoted s = CHR 0x22 # s @ [CHR 0x22]"

definition xmlHead :: "string \<Rightarrow> Profile \<Rightarrow> string" where
  "xmlHead typ p =
     ''<?xml version='' @ quoted ''1.0'' @ '' encoding='' @ quoted ''UTF-8'' @ ''?>'' @
     nl 0 @ ''<config-auth client='' @ quoted ''vpn'' @ '' type='' @ quoted typ @ '' aggregate-auth-version='' @ quoted ''2'' @ ''>'' @
     nl 4 @ ''<version who='' @ quoted ''vpn'' @ ''>'' @ AppVersion p @ ''</version>'' @
     nl 4 @ elem ''device-id'' (PlatformName p)"

definition templateInit :: "Profile \<Rightarrow> string" where
  "templateInit p =
     xmlHead ''init'' p @
     nl 4 @ elem ''group-access'' (''https://'' @ HostWithPort p @ ''/'') @
     nl 0 @ ''</config-auth>''"

definition templateAuthReply :: "Profile \<Rightarrow> string" where
  "templateAuthReply p =
     xmlHead ''auth-reply'' p @
     nl 4 @ ''<opaque is-for='' @ quoted ''sg'' @ ''>'' @
     nl 8 @ elem ''tunnel-group'' (escapeText (TunnelGroup p)) @
     nl 8 @ elem ''group-alias'' (escapeText (GroupAlias p)) @
     nl 8 @ elem ''config-hash'' (escapeText (ConfigHash p)) @
     nl 4 @ ''</opaque>'' @
     nl 4 @ (if Group p \<noteq> [] then elem ''group-select'' (escapeText (Group p)) else []) @
     nl 4 @ ''<auth>'' @
     nl 8 @ elem ''username'' (escapeText (Username p)) @
     nl 8 @ elem ''password'' (escapeText (Password p)) @
     nl 4 @ ''</auth>'' @
     nl 0 @ ''</config-auth>''"

subsection \<open>The exchange\<close>

datatype post_outcome =
    WriteFailed string
  | ReadFailed string
  | BodyFailed "(string \<times> string) list" string
  | Responded nat string "(string \<times> string) list" string

text \<open>What \<open>xml.Unmarshal\<close> reports and fills in.\<close>

type_synonym unmarshal = "string \<Rightarrow> string option \<times> DTD"

definition setCookie :: "(string \<times> string) list \<Rightarrow> string \<times> string \<Rightarrow> (string \<times> string) list" where
  "setCookie cs c = filter (\<lambda>d. fst d \<noteq> fst c) cs @ [c]"

definition cookieHeader :: "(string \<times> string) list \<Rightarrow> string" where
  "cookieHeader cs =
     foldl (\<lambda>sb (k, v). (if sb \<noteq> [] then sb @ ''; '' else sb) @ k @ ''='' @ v) [] cs"

text \<open>The request of \<open>tplPost\<close>.\<close>

definition tplRequest :: "bool \<Rightarrow> string \<Rightarrow> agent \<Rightarrow> ClientConfig \<times> request" where
  "tplRequest init path ag =
     (let p = Prof ag;
          body = (if init then templateInit p else templateAuthReply p);
          url = Scheme p @ HostWithPort p @ path @ (if SecretKey p \<noteq> [] then ''?'' @ SecretKey p else []);
          (cfg, h) = SetCommonHeader (Cfg ag) (\<lambda>_. []);
          h = h(''X-Transcend-Version'' := [''1''], ''X-Aggregate-Auth'' := [''1'']);
          h = Set (Set h ''Accept'' ''*/*'') ''Accept-Encoding'' ''identity'';
          h = (if cookies ag \<noteq> [] then Set h ''Cookie'' (cookieHeader (cookies ag)) else h)
      in (cfg, \<lparr>Method = ''POST'', Url = url, ReqHeader = h, Body = body\<rparr>))"

definition tplPost :: "unmarshal \<Rightarrow> bool \<Rightarrow> string \<Rightarrow> post_outcome \<Rightarrow> agent \<Rightarrow> (string + DTD) \<times> agent" where
  "tplPost unmarshal init path out ag =
     (let (cfg, req) = tplRequest init path ag;
          ag = ag\<lparr>Cfg := cfg, sent := sent ag @ [req]\<rparr> in
      case out of
        WriteFailed e \<Rightarrow> (Inl e, ag\<lparr>ConnOpen := False\<rparr>)
      | ReadFailed e \<Rightarrow> (Inl e, ag\<lparr>ConnOpen := False\<rparr>)
      | BodyFailed cs e \<Rightarrow> (Inl e, ag\<lparr>cookies := foldl setCookie (cookies ag) cs, ConnOpen := False\<rparr>)
      | Responded status statusText cs body \<Rightarrow>
          let ag = ag\<lparr>cookies := foldl setCookie (cookies ag) cs\<rparr> in
          if status = 200 then
            let (err, dtd) = unmarshal body in
            if err = None \<and> DocType dtd = ''complete'' \<and>
               (ErrValue (DocError dtd) \<noteq> [] \<or> ErrValue (AuthError (Auth dtd)) \<noteq> []) then
              (Inl (if ErrValue (DocError dtd) \<noteq> []
                    then ''auth error('' @ ErrID (DocError dtd) @ ''): '' @ ErrValue (DocError dtd)
                    else ''auth error('' @ ErrID (AuthError (Auth dtd)) @ ''): '' @ ErrValue (AuthError (Auth dtd))), ag)
            else
              let ag = (if DocType dtd = ''complete'' \<and> DocSessionToken dtd = []
                        then (case find (\<lambda>c. fst c = ''webvpn'') cs of
                                Some c \<Rightarrow> ag\<lparr>WebVpnCookie := snd c\<rparr>
                              | None \<Rightarrow> ag)
                        else ag) in
              (case err of Some e \<Rightarrow> (Inl e, ag) | None \<Rightarrow> (Inr dtd, ag))
          else (Inl (''auth error '' @ statusText), ag\<lparr>ConnOpen := False\<rparr>))"

fun joinWith :: "string \<Rightarrow> string list \<Rightarrow> string" where
  "joinWith sep [] = []"
| "joinWith sep [s] = s"
| "joinWith sep (s # t # ss) = s @ sep @ joinWith sep (t # ss)"

text \<open>\<open>dial\<close>: an error of the TLS dial, if any.\<close>

definition InitAuth :: "unmarshal \<Rightarrow> string option \<Rightarrow> post_outcome \<Rightarrow> agent \<Rightarrow> string option \<times> agent" where
  "InitAuth unmarshal dial out ag =
     (let ag = ag\<lparr>WebVpnCookie := [], cookies := []\<rparr> in
      case dial of
        Some e \<Rightarrow> (Some e, ag)
      | None \<Rightarrow>
          let ag = ag\<lparr>ConnOpen := True,
                Prof := (Prof ag)\<lparr>AppVersion := AgentVersion (Cfg ag), MacAddress := Mac (LocalInterface ag)\<rparr>\<rparr> in
          (case tplPost unmarshal True [] out ag of
             (Inl e, ag) \<Rightarrow> (Some e, ag)
           | (Inr dtd, ag) \<Rightarrow>
               let f = Form (Auth dtd); o' = Opaque dtd;
                   ag = ag\<lparr>Prof := (Prof ag)\<lparr>AuthPath := (if Action f = [] then ''/'' else Action f),
                      TunnelGroup := OpTunnelGroup o', GroupAlias := OpGroupAlias o', ConfigHash := OpConfigHash o'\<rparr>\<rparr> in
               if length (Groups f) \<noteq> 0 \<and> \<not> InArray (Groups f) (Group (Prof ag))
               then (Some (''available user groups are: '' @ joinWith '' '' (Groups f)), ag)
               else (None, ag)))"

text \<open>
  \<open>PasswordAuth\<close>: one or two posts; \<open>errorf\<close> stands for \<open>fmt.Errorf\<close> with the server's text as
  the format.
\<close>

definition PasswordAuth ::
    "unmarshal \<Rightarrow> (string \<Rightarrow> string \<Rightarrow> string) \<Rightarrow> post_outcome \<Rightarrow> post_outcome \<Rightarrow> agent \<Rightarrow> string option \<times> agent" where
  "PasswordAuth unmarshal errorf out1 out2 ag =
     (case tplPost unmarshal False (AuthPath (Prof ag)) out1 ag of
        (Inl e, ag) \<Rightarrow> (Some e, ag)
      | (Inr dtd, ag) \<Rightarrow>
          (case (if DocType dtd = ''auth-request'' \<and> ErrValue (AuthError (Auth dtd)) = []
                 then tplPost unmarshal False (AuthPath (Prof ag)) out2 ag else (Inr dtd, ag)) of
             (Inl e, ag) \<Rightarrow> (Some e, ag)
           | (Inr dtd, ag) \<Rightarrow>
               if DocType dtd = ''auth-request'' then
                 (Some (if ErrValue (AuthError (Auth dtd)) \<noteq> []
                        then errorf (ErrValue (AuthError (Auth dtd))) (Param1 (AuthError (Auth dtd)))
                        else Message (Auth dtd)), ag)
               else
                 let tok = (if WebVpnCookie ag \<noteq> [] then WebVpnCookie ag else DocSessionToken dtd) in
                 (None, ag\<lparr>world_of := (world_of ag)\<lparr>Sess := (Sess (world_of ag))\<lparr>SessionToken := tok\<rparr>\<rparr>\<rparr>)))"

subsection \<open>Lemmas\<close>

text \<open>Bytes taken over as part of a multi-byte character are not ASCII.\<close>

lemma runeWidth_bytes:
  assumes "128 \<le> code c" and "runeWidth (c # s) = (Some n, m)" and "x \<in> set (take n (c # s))"
  shows "128 \<le> code x"
proof -
  have cont: "isCont d \<Longrightarrow> 128 \<le> code d" for d by (simp add: isCont_def)
  show ?thesis using assms cont
    by (auto simp: runeWidth.simps Let_def numeral_eq_Suc split: list.splits if_splits)
qed

definition markup :: "char set" where
  "markup = {CHR ''<'', CHR ''>'', CHR 0x22, CHR 0x27}"

lemma markup_code: "x \<in> markup \<Longrightarrow> code x < 128"
  by (auto simp: markup_def code_def)

lemma escapeASCII_markup: "set (escapeASCII c) \<inter> markup = {}"
  by (auto simp: escapeASCII_def markup_def replacement_def code_def split: if_splits)

lemma escapeText_markup: "set (escapeText s) \<inter> markup = {}"
proof (induction s rule: escapeText.induct)
  case 1
  then show ?case by (simp add: escapeText.simps)
next
  case (2 c s)
  show ?case
  proof (cases "code c < 128")
    case True
    with 2(1) escapeASCII_markup [of c] show ?thesis by (auto simp: escapeText.simps)
  next
    case False
    obtain r m where r: "runeWidth (c # s) = (r, m)" by (cases "runeWidth (c # s)")
    show ?thesis
    proof (cases r)
      case None
      with 2(2) [OF False r [symmetric] None] False r show ?thesis by (auto simp: escapeText.simps replacement_def markup_def)
    next
      case (Some n)
      have "128 \<le> code x" if "x \<in> set (take n (c # s))" for x
        using runeWidth_bytes [of c s n m x] False r Some that by simp
      then have "set (take n (c # s)) \<inter> markup = {}" using markup_code by fastforce
      with 2(3) [OF False r [symmetric] Some] False r Some show ?thesis by (auto simp: escapeText.simps)
    qed
  qed
qed

text \<open>\<open>accepted un out dtd\<close>: the answer has status 200 and its body is the document \<open>dtd\<close>.\<close>

definition accepted :: "unmarshal \<Rightarrow> post_outcome \<Rightarrow> DTD \<Rightarrow> bool" where
  "accepted un out dtd \<longleftrightarrow>
     (case out of Responded status _ _ body \<Rightarrow> status = 200 \<and> un body = (None, dtd) | _ \<Rightarrow> False)"

lemma tplPost_Inr:
  assumes "tplPost un init path out ag = (Inr dtd, ag')"
  shows "\<not> (DocType dtd = ''complete'' \<and> (ErrValue (DocError dtd) \<noteq> [] \<or> ErrValue (AuthError (Auth dtd)) \<noteq> []))"
    and "ConnOpen ag' = ConnOpen ag" and "world_of ag' = world_of ag"
    and "accepted un out dtd"
    and "Prof ag' = Prof ag" and "\<exists>req. sent ag' = sent ag @ [req]"
  using assms
  by (auto simp: tplPost_def Let_def accepted_def split: post_outcome.splits prod.splits if_splits option.splits)

lemma tplPost_Inl:
  assumes "tplPost un init path out ag = (Inl e, ag')"
  shows "world_of ag' = world_of ag" and "\<exists>req. sent ag' = sent ag @ [req]"
    and "ConnOpen ag' \<longrightarrow> (\<exists>txt cs body. out = Responded 200 txt cs body)"
  using assms
  by (auto simp: tplPost_def Let_def split: post_outcome.splits prod.splits if_splits option.splits)

subsection \<open>Properties\<close>

text \<open>
  Text put into the authentication document cannot break out of its element: whatever
  bytes the user name, the password, the group or the values echoed from the server contain,
  the escaped text has no angle bracket and no quote, so the only mark-up of the document is
  the template's.
\<close>

theorem escapeText_no_markup:
  "set (escapeText s) \<inter> {CHR ''<'', CHR ''>'', CHR 0x22, CHR 0x27} = {}"
  using escapeText_markup [of s] by (simp add: markup_def)


definition sample_profile :: Profile where
  "sample_profile = \<lparr>Host = ''vpn'', Username = ''u'', Password = ''p'', Group = ''staff'', SecretKey = [], Initialized = True,
     AppVersion = [], PlatformName = ''linux-64'', HostWithPort = ''vpn:443'', Scheme = ''https://'', AuthPath = ''/'',
     MacAddress = [], TunnelGroup = [], GroupAlias = [], ConfigHash = [], ComputerName = ''h'', DeviceType = [],
     PlatformVersion = [], UniqueId = []\<rparr>"

definition sample_agent :: agent where
  "sample_agent = \<lparr>Cfg = sample_cfg, LocalInterface = sample_ifc, Prof = sample_profile, ConnOpen = True, WebVpnCookie = [],
     cookies = [], tunHeaders = Map.empty,
     world_of = \<lparr>Sess = \<lparr>SessionToken = [], PreMasterSecret = [], ActiveClose = False, SessCloseChan = None, CSess = None\<rparr>,
       conns = (\<lambda>_. None), dtlss = (\<lambda>_. None), closed = (\<lambda>_. False), nextAddr = 0\<rparr>,
     sent = []\<rparr>"

definition sample_dtd :: "string \<Rightarrow> string list \<Rightarrow> DTD" where
  "sample_dtd tok gs =
     (let e = \<lparr>ErrID = [], Param1 = [], ErrValue = []\<rparr> in
      \<lparr>Client = ''vpn'', DocType = ''complete'', AggregateAuthVersion = ''2'', DocVersion = [], GroupAccess = [], GroupSelect = [],
       DocSessionToken = tok, DocError = e,
       Auth = \<lparr>AuthUsername = [], AuthPassword = [], Message = [], Banner = [], AuthError = e, Form = \<lparr>Action = [], Groups = gs\<rparr>\<rparr>,
       DeviceId = \<lparr>DevComputerName = [], DevDeviceType = [], DevPlatformVersion = [], DevUniqueId = [], DevUniqueIdGlobal = []\<rparr>,
       Opaque = \<lparr>OpTunnelGroup = [], OpGroupAlias = [], OpConfigHash = []\<rparr>, MacAddressList = [],
       Config = \<lparr>ExcludeDomains = [], IncludeDomains = []\<rparr>\<rparr>)"


text \<open>
  \<open>InitAuth\<close> succeeds only with a document of status 200, over an open connection; then the
  path for the credentials is never empty, and if the server lists user groups the configured
  group is one of them.
\<close>

theorem InitAuth_ok:
  assumes "InitAuth un dial out ag = (None, ag')"
  shows "\<exists>dtd. accepted un out dtd \<and> ConnOpen ag' \<and> AuthPath (Prof ag') \<noteq> [] \<and>
    (Groups (Form (Auth dtd)) = [] \<or> Group (Prof ag) \<in> set (Groups (Form (Auth dtd)))) \<and>
    TunnelGroup (Prof ag') = OpTunnelGroup (Opaque dtd)"
proof -
  from assms have d: "dial = None" by (cases dial) (simp_all add: InitAuth_def)
  let ?ag = "ag\<lparr>WebVpnCookie := [], cookies := [], ConnOpen := True,
      Prof := (Prof ag)\<lparr>AppVersion := AgentVersion (Cfg ag), MacAddress := Mac (LocalInterface ag)\<rparr>\<rparr>"
  obtain r ag1 where p: "tplPost un True [] out ?ag = (r, ag1)" by (cases "tplPost un True [] out ?ag")
  with assms d obtain dtd where r: "r = Inr dtd" by (cases r) (auto simp: InitAuth_def Let_def)
  from tplPost_Inr [OF p [unfolded r]] assms d p r show ?thesis
    by (auto simp: InitAuth_def Let_def InArray_iff split: if_splits)
qed

theorem InitAuth_ok_witness:
  "\<exists>ag'. InitAuth (\<lambda>_. (None, sample_dtd [] [''guest'', ''staff''])) None (Responded 200 ''OK'' [] []) sample_agent = (None, ag') \<and>
     ConnOpen ag' \<and> AuthPath (Prof ag') \<noteq> [] \<and> TunnelGroup (Prof ag') = []"
proof -
  let ?un = "\<lambda>_ :: string. (None :: string option, sample_dtd [] [''guest'', ''staff''])"
  obtain ag' where p: "InitAuth ?un None (Responded 200 ''OK'' [] []) sample_agent = (None, ag')"
    by (simp add: InitAuth_def tplPost_def Let_def split_beta sample_dtd_def sample_agent_def sample_profile_def tplRequest_def)
  from InitAuth_ok [OF p] have "ConnOpen ag'" "AuthPath (Prof ag') \<noteq> []" "TunnelGroup (Prof ag') = []"
    by (simp_all add: accepted_def) (auto simp: sample_dtd_def Let_def)
  with p show ?thesis by blast
qed

end
