(* ===== verification/Tunnel.thy ===== *)
theory Tunnel
  imports Auth Lifecycle
begin

text \<open>
  Tunnel negotiation (\<open>src/vpn/tunnel.go\<close>), device set-up and domain splitting
  (\<open>src/vpn/tun.go\<close>), and the DTLS configuration (\<open>src/vpn/dtls.go\<close>).  The network, the tun device
  and the route table are arguments of the operations (\<open>env\<close>); the DNS packet parser is a
  third-party library and a parameter.
\<close>

subsection \<open>Request headers\<close>

definition tunnelInit :: "string \<rightharpoonup> string" where
  "tunnelInit = [''X-CSTP-Version'' \<mapsto> ''1'', ''X-CSTP-Address-Type'' \<mapsto> ''IPv4'',
     ''X-CSTP-Protocol'' \<mapsto> ''Copyright (c) 2004 Cisco Systems, Inc.'',
     ''X-CSTP-MTU'' \<mapsto> ''1399'', ''X-CSTP-Base-MTU'' \<mapsto> ''1399'']"

definition applyCompressionHeaders :: "bool \<Rightarrow> (string \<rightharpoonup> string) \<Rightarrow> (string \<rightharpoonup> string)" where
  "applyCompressionHeaders compression m =
     (if compression
      then m(''X-CSTP-Accept-Encoding'' \<mapsto> ''oc-lz4,lzs'', ''X-DTLS-Accept-Encoding'' \<mapsto> ''oc-lz4,lzs'')
      else m(''X-CSTP-Accept-Encoding'' := None, ''X-DTLS-Accept-Encoding'' := None))"

text \<open>\<open>secret\<close> is what \<open>MakeMasterSecret\<close> returned.\<close>

definition initTunnel :: "byte list \<Rightarrow> agent \<Rightarrow> agent" where
  "initTunnel secret ag =
     (let m = tunHeaders ag;
          m = m(''Cookie'' \<mapsto> ''webvpn='' @ SessionToken (Sess (world_of ag)),
                ''X-CSTP-Hostname'' \<mapsto> ComputerName (Prof ag),
                ''X-CSTP-Local-VPNAddress-IP4'' \<mapsto> Ip4 (LocalInterface ag));
          m = applyCompressionHeaders (CfgCompression (Cfg ag)) m;
          m = m(''X-DTLS-Master-Secret'' \<mapsto> EncodeToString secret,
                ''X-DTLS12-CipherSuite'' \<mapsto> ''ECDHE-ECDSA-AES256-GCM-SHA384:ECDHE-RSA-AES256-GCM-SHA384:ECDHE-ECDSA-AES128-GCM-SHA256:ECDHE-RSA-AES128-GCM-SHA256:AES128-GCM-SHA256'')
      in ag\<lparr>tunHeaders := m,
            world_of := (world_of ag)\<lparr>Sess := (Sess (world_of ag))\<lparr>PreMasterSecret := secret\<rparr>\<rparr>\<rparr>)"

definition connectRequest :: "agent \<Rightarrow> ClientConfig \<times> request" where
  "connectRequest ag =
     (let (cfg, h) = SetCommonHeader (Cfg ag) (\<lambda>_. []);
          h = (\<lambda>k. case tunHeaders ag k of Some v \<Rightarrow> [v] | None \<Rightarrow> h k)
      in (cfg, \<lparr>Method = ''CONNECT'', Url = Scheme (Prof ag) @ HostWithPort (Prof ag) @ ''/CSCOSSLC/tunnel'',
                ReqHeader = h, Body = []\<rparr>))"

subsection \<open>Device set-up\<close>

record env =
  GOOS :: string
  secret :: "byte list"
  writeErr :: "string option"
  response :: "string + nat \<times> string \<times> header"
  time_now :: int
  remoteAddr :: string
  tlsSuite :: string
  createErr :: "string option"
  devName :: string
  configErr :: "string option"
  routesErr :: "string option"
  parseXML :: unmarshal

datatype goroutine = GoTunToPayloadOut | GoPayloadInToTun | GoTls | GoDtls | GoDPDTimer | GoReadDeadTimer | GoExpiryTimer

definition tunOffset :: "string \<Rightarrow> nat" where
  "tunOffset os = (if os = ''darwin'' then 4 else 0)"

definition setupTun :: "env \<Rightarrow> ConnSession \<Rightarrow> string option \<times> goroutine list \<times> ConnSession" where
  "setupTun e cs =
     (let cs = cs\<lparr>TunName := (if GOOS e = ''windows'' then ''SSLCon'' else if GOOS e = ''darwin'' then ''utun'' else ''sslcon'')\<rparr> in
      case createErr e of
        Some err \<Rightarrow> (Some err, [], cs)
      | None \<Rightarrow>
          let cs = (if GOOS e = ''darwin'' then cs\<lparr>TunName := devName e\<rparr> else cs) in
          (case configErr e of
             Some err \<Rightarrow> (Some err, [], cs)
           | None \<Rightarrow> (None, [GoTunToPayloadOut, GoPayloadInToTun], cs)))"

subsection \<open>SetupTunnel\<close>

definition postAuthOf :: "unmarshal \<Rightarrow> post_auth" where
  "postAuthOf un s = (case un s of (None, d) \<Rightarrow> Some (IncludeDomains (Config d), ExcludeDomains (Config d)) | (Some _, _) \<Rightarrow> None)"

text \<open>\<open>auth.Conn.Close()\<close> and \<open>cSess.Close()\<close>, then return the error.\<close>

definition abortTunnel :: "string \<Rightarrow> goroutine list \<Rightarrow> nat \<Rightarrow> agent \<Rightarrow> session_panic + string option \<times> goroutine list \<times> agent" where
  "abortTunnel err gs a ag =
     res_bind (ConnSession_Close a (world_of ag)) (\<lambda>w. Inr (Some err, gs, ag\<lparr>ConnOpen := False, world_of := w\<rparr>))"

definition SetupTunnel :: "env \<Rightarrow> agent \<Rightarrow> session_panic + string option \<times> goroutine list \<times> agent" where
  "SetupTunnel e ag =
     (let ag = initTunnel (secret e) ag;
          (cfg, req) = connectRequest ag;
          ag = ag\<lparr>Cfg := cfg, sent := sent ag @ [req]\<rparr> in
      case writeErr e of
        Some err \<Rightarrow> Inr (Some err, [], ag\<lparr>ConnOpen := False\<rparr>)
      | None \<Rightarrow>
      (case response e of
         Inl err \<Rightarrow> Inr (Some err, [], ag\<lparr>ConnOpen := False\<rparr>)
       | Inr (status, statusText, h) \<Rightarrow>
           if status \<noteq> 200 then Inr (Some (''tunnel negotiation failed '' @ statusText), [], ag\<lparr>ConnOpen := False\<rparr>)
           else
             let (a, w) = NewConnSession (Cfg ag) (LocalInterface ag) (postAuthOf (parseXML e)) (time_now e) h (world_of ag);
                 w = updConn a (\<lambda>cs. cs\<lparr>ServerAddress := hd (Split (CHR '':'') (remoteAddr e)), Hostname := Host (Prof ag),
                       TLSCipherSuite := tlsSuite e\<rparr>) w in
             (case conns w a of
                None \<Rightarrow> Inl NilPointer
              | Some cs \<Rightarrow>
                  (case setupTun e cs of (r, gs, cs) \<Rightarrow>
                     let ag = ag\<lparr>world_of := updConn a (\<lambda>_. cs) w\<rparr> in
                     (case r of
                        Some err \<Rightarrow> abortTunnel err gs a ag
                      | None \<Rightarrow>
                          (case routesErr e of
                             Some err \<Rightarrow> abortTunnel err gs a ag
                           | None \<Rightarrow>
                               Inr (None,
                                 gs @ [GoTls] @ (if \<not> NoDTLS (Cfg ag) \<and> DTLSPort cs \<noteq> [] then [GoDtls] else []) @
                                   [GoDPDTimer, GoReadDeadTimer] @ (if AuthExpiration cs \<noteq> None then [GoExpiryTimer] else []),
                                 ag)))))))"

subsection \<open>DTLS configuration\<close>

datatype cipher_suite =
    ECDHE_ECDSA_AES128_GCM_SHA256
  | ECDHE_RSA_AES128_GCM_SHA256
  | ECDHE_ECDSA_AES256_GCM_SHA384
  | ECDHE_RSA_AES256_GCM_SHA384

definition dtlsCipherSuites :: "string \<Rightarrow> cipher_suite list" where
  "dtlsCipherSuites s =
     (if s = ''ECDHE-ECDSA-AES128-GCM-SHA256'' then [ECDHE_ECDSA_AES128_GCM_SHA256]
      else if s = ''ECDHE-RSA-AES128-GCM-SHA256'' then [ECDHE_RSA_AES128_GCM_SHA256]
      else if s = ''ECDHE-ECDSA-AES256-GCM-SHA384'' then [ECDHE_ECDSA_AES256_GCM_SHA384]
      else if s = ''ECDHE-RSA-AES256-GCM-SHA384'' then [ECDHE_RSA_AES256_GCM_SHA384]
      else [ECDHE_ECDSA_AES128_GCM_SHA256])"

record dtls_config =
  PeerIP :: string
  PeerPort :: int
  CipherSuites :: "cipher_suite list"
  StoredID :: "byte list"
  StoredSecret :: "byte list"

definition dtlsConfig :: "Session \<Rightarrow> ConnSession \<Rightarrow> dtls_config" where
  "dtlsConfig s cs =
     \<lparr>PeerIP = ServerAddress cs, PeerPort = fst (Atoi (DTLSPort cs)), CipherSuites = dtlsCipherSuites (DTLSCipherSuite cs),
      StoredID = fst (DecodeString (DTLSId cs)), StoredSecret = PreMasterSecret s\<rparr>"

text \<open>The session store gives every key the one stored session and forgets what it is told.\<close>

definition SessionStore_Get :: "byte list \<times> byte list \<Rightarrow> byte list \<Rightarrow> byte list \<times> byte list" where
  "SessionStore_Get store key = store"

definition SessionStore_Set :: "byte list \<Rightarrow> byte list \<times> byte list \<Rightarrow> byte list \<times> byte list \<Rightarrow> byte list \<times> byte list" where
  "SessionStore_Set key s store = store"

definition SessionStore_Del :: "byte list \<Rightarrow> byte list \<times> byte list \<Rightarrow> byte list \<times> byte list" where
  "SessionStore_Del key store = store"

subsection \<open>Domain splitting\<close>

text \<open>What the DNS layer of a packet holds: question names, answer count, and the answers
  with whether they are of type A and their address in text.\<close>

record dns =
  Questions :: "string list"
  ANCount :: nat
  Answers :: "(bool \<times> string) list"

datatype route_request = AddInclude "string list" | AddExclude "string list"

text \<open>\<open>None\<close> is the panic of \<open>dns.Questions[0]\<close>.\<close>

definition dynamicSplitRoutes ::
    "(byte list \<Rightarrow> dns option) \<Rightarrow> byte list \<Rightarrow> ConnSession \<Rightarrow> (ConnSession \<times> route_request list) option" where
  "dynamicSplitRoutes parseDNS data cs =
     (case parseDNS data of
        None \<Rightarrow> Some (cs, [])
      | Some d \<Rightarrow>
          (case go_index (Questions d) 0 of
             None \<Rightarrow> None
           | Some query \<Rightarrow>
               let answers = map snd (filter fst (Answers d)) in
               if InArrayGeneric (DynamicSplitIncludeDomains cs) query then
                 (if DynamicSplitIncludeResolved cs query = None \<and> ANCount d > 0 \<and> length answers > 0
                  then Some (cs\<lparr>DynamicSplitIncludeResolved := (DynamicSplitIncludeResolved cs)(query \<mapsto> answers)\<rparr>, [AddInclude answers])
                  else Some (cs, []))
               else if InArrayGeneric (DynamicSplitExcludeDomains cs) query then
                 (if DynamicSplitExcludeResolved cs query = None \<and> ANCount d > 0 \<and> length answers > 0
                  then Some (cs\<lparr>DynamicSplitExcludeResolved := (DynamicSplitExcludeResolved cs)(query \<mapsto> answers)\<rparr>, [AddExclude answers])
                  else Some (cs, []))
               else Some (cs, [])))"

subsection \<open>Lemmas\<close>

lemma world_ok_Sess:
  assumes "world_ok w" and "CSess s = CSess (Sess w)" and "SessCloseChan s = SessCloseChan (Sess w)"
  shows "world_ok (w\<lparr>Sess := s\<rparr>)"
proof -
  have "conn_ok (w\<lparr>Sess := s\<rparr>) a = conn_ok w a" for a by (cases "conns w a") (simp_all add: conn_ok_def)
  with assms show ?thesis by (simp add: world_ok_def current_ok_def)
qed

lemma initTunnel_world:
  "world_of (initTunnel s ag) = (world_of ag)\<lparr>Sess := (Sess (world_of ag))\<lparr>PreMasterSecret := s\<rparr>\<rparr>"
  "LocalInterface (initTunnel s ag) = LocalInterface ag" "Prof (initTunnel s ag) = Prof ag"
  "Cfg (initTunnel s ag) = Cfg ag" "ConnOpen (initTunnel s ag) = ConnOpen ag" "sent (initTunnel s ag) = sent ag"
  by (simp_all add: initTunnel_def Let_def)

lemma connectRequest_NoDTLS: "NoDTLS (fst (connectRequest ag)) = NoDTLS (Cfg ag)"
  by (simp add: connectRequest_def SetCommonHeader_def Let_def)

lemma setupTun_cases:
  obtains (failed) err cs' where "setupTun e cs = (Some err, [], cs')" "\<exists>n. cs' = cs\<lparr>TunName := n\<rparr>"
  | (ready) cs' where "setupTun e cs = (None, [GoTunToPayloadOut, GoPayloadInToTun], cs')" "\<exists>n. cs' = cs\<lparr>TunName := n\<rparr>"
proof -
  let ?n = "if GOOS e = ''windows'' then ''SSLCon'' else if GOOS e = ''darwin'' then ''utun'' else ''sslcon''"
  let ?m = "if GOOS e = ''darwin'' then devName e else ?n"
  have m: "(if GOOS e = ''darwin'' then cs\<lparr>TunName := ?n, TunName := devName e\<rparr> else cs\<lparr>TunName := ?n\<rparr>) = cs\<lparr>TunName := ?m\<rparr>"
    by simp
  consider err where "setupTun e cs = (Some err, [], cs\<lparr>TunName := ?n\<rparr>)" | err where "setupTun e cs = (Some err, [], cs\<lparr>TunName := ?m\<rparr>)"
    | "setupTun e cs = (None, [GoTunToPayloadOut, GoPayloadInToTun], cs\<lparr>TunName := ?m\<rparr>)"
    unfolding setupTun_def Let_def m by (cases "createErr e"; cases "configErr e") simp_all
  then show ?thesis by cases (blast intro: that)+
qed

text \<open>The session heap after the connection is created and its first fields are set.\<close>

lemma new_connection:
  assumes "world_ok w" and "NewConnSession cfg ifc u now h w = (a, w1)"
    and "\<And>cs. closeOnce (f cs) = closeOnce cs \<and> CloseChan (f cs) = CloseChan cs \<and> DtlsSetupChan (f cs) = DtlsSetupChan cs \<and> DSess (f cs) = DSess cs"
  shows "world_ok (updConn a f w1)" and "conns (updConn a f w1) a = Some (f (connOf cfg ifc u now h a))"
    and "CSess (Sess (updConn a f w1)) = Some a"
  using world_ok_NewConnSession [OF assms(1,2)] world_ok_updConn [of w1 a f] assms(3)
  by (auto simp: updConn_def)

lemma updConn_const:
  assumes "world_ok w" and "conns w a = Some cs" and "cs' = cs\<lparr>TunName := n\<rparr>"
  shows "world_ok (updConn a (\<lambda>_. cs') w)" and "conns (updConn a (\<lambda>_. cs') w) a = Some cs'"
    and "CSess (Sess (updConn a (\<lambda>_. cs') w)) = CSess (Sess w)"
  using assms world_ok_updConn [of w a "\<lambda>_. cs'"] by (auto simp: updConn_def)

lemma abortTunnel_ok:
  assumes w: "world_ok (world_of ag)" and cs: "conns (world_of ag) a = Some cs" and o: "\<not> closeOnce cs"
    and cur: "CSess (Sess (world_of ag)) = Some a"
  shows "\<exists>ag'. abortTunnel err gs a ag = Inr (Some err, gs, ag') \<and> \<not> ConnOpen ag' \<and> world_ok (world_of ag') \<and>
    CSess (Sess (world_of ag')) = None \<and> closed (world_of ag') (ConnClose a) \<and> closed (world_of ag') (SessClose a) \<and>
    ActiveClose (Sess (world_of ag')) = ActiveClose (Sess (world_of ag))"
proof -
  from ConnSession_Close_spec [OF w cs o] obtain w' where w': "ConnSession_Close a (world_of ag) = Inr w'" "closes a cs (world_of ag) w'" by blast
  have cl: "closed w' ch = (closed (world_of ag) ch \<or> ch = ConnClose a \<or> ch = DtlsClose a \<and> DtlsConnected cs \<or>
      ch = SessClose a \<and> CSess (Sess (world_of ag)) = Some a)" for ch
    using w'(2) unfolding closes_def by (elim conjE) (erule spec)
  have s: "Sess w' = (if CSess (Sess (world_of ag)) = Some a then (Sess (world_of ag))\<lparr>CSess := None\<rparr> else Sess (world_of ag))"
    using w'(2) unfolding closes_def by (elim conjE)
  show ?thesis using w'(1) world_ok_closes [OF w cs w'(2)] cur by (simp add: abortTunnel_def cl s)
qed

text \<open>Everything \<open>SetupTunnel\<close> may do, from a good heap.\<close>

definition refused :: "agent \<Rightarrow> agent \<Rightarrow> goroutine list \<Rightarrow> bool" where
  "refused ag ag' gs \<longleftrightarrow> gs = [] \<and> \<not> ConnOpen ag' \<and>
     world_of ag' = (world_of ag)\<lparr>Sess := Sess (world_of ag')\<rparr> \<and> CSess (Sess (world_of ag')) = CSess (Sess (world_of ag)) \<and>
     ActiveClose (Sess (world_of ag')) = ActiveClose (Sess (world_of ag))"

definition aborted :: "agent \<Rightarrow> goroutine list \<Rightarrow> bool" where
  "aborted ag' gs \<longleftrightarrow> set gs \<subseteq> {GoTunToPayloadOut, GoPayloadInToTun} \<and> \<not> ConnOpen ag' \<and> CSess (Sess (world_of ag')) = None \<and>
     \<not> ActiveClose (Sess (world_of ag')) \<and> (\<exists>a. closed (world_of ag') (ConnClose a) \<and> closed (world_of ag') (SessClose a))"

definition established :: "agent \<Rightarrow> agent \<Rightarrow> goroutine list \<Rightarrow> bool" where
  "established ag ag' gs \<longleftrightarrow>
     (\<exists>a cs. CSess (Sess (world_of ag')) = Some a \<and> conns (world_of ag') a = Some cs \<and> \<not> closeOnce cs \<and>
        conns (world_of ag) a = None \<and> ConnOpen ag' = ConnOpen ag \<and> \<not> ActiveClose (Sess (world_of ag')) \<and>
        GoTls \<in> set gs \<and> GoTunToPayloadOut \<in> set gs \<and> GoPayloadInToTun \<in> set gs \<and>
        (GoDtls \<in> set gs \<longleftrightarrow> \<not> NoDTLS (Cfg ag) \<and> DTLSPort cs \<noteq> []) \<and>
        (GoExpiryTimer \<in> set gs \<longleftrightarrow> AuthExpiration cs \<noteq> None))"

text \<open>The state between the creation of the session and the set-up of the device, and what \<open>SetupTunnel\<close> does from there.\<close>

definition fresh_session :: "agent \<Rightarrow> agent \<Rightarrow> nat \<Rightarrow> ConnSession \<Rightarrow> bool" where
  "fresh_session ag ag' a cs \<longleftrightarrow> world_ok (world_of ag') \<and> conns (world_of ag') a = Some cs \<and> CSess (Sess (world_of ag')) = Some a \<and>
     \<not> ActiveClose (Sess (world_of ag')) \<and> \<not> closeOnce cs \<and> conns (world_of ag) a = None \<and> ConnOpen ag' = ConnOpen ag \<and>
     NoDTLS (Cfg ag') = NoDTLS (Cfg ag)"

definition finishSetup :: "env \<Rightarrow> nat \<Rightarrow> ConnSession \<Rightarrow> agent \<Rightarrow> session_panic + string option \<times> goroutine list \<times> agent" where
  "finishSetup e a cs ag =
     (case setupTun e cs of (r, gs, cs) \<Rightarrow>
        let ag = ag\<lparr>world_of := updConn a (\<lambda>_. cs) (world_of ag)\<rparr> in
        (case r of Some err \<Rightarrow> abortTunnel err gs a ag
         | None \<Rightarrow> (case routesErr e of Some err \<Rightarrow> abortTunnel err gs a ag
            | None \<Rightarrow> Inr (None, gs @ [GoTls] @ (if \<not> NoDTLS (Cfg ag) \<and> DTLSPort cs \<noteq> [] then [GoDtls] else []) @
                [GoDPDTimer, GoReadDeadTimer] @ (if AuthExpiration cs \<noteq> None then [GoExpiryTimer] else []), ag))))"

lemma fresh_session_device:
  assumes "fresh_session ag ag' a cs" and "cs' = cs\<lparr>TunName := m\<rparr>"
  shows "fresh_session ag (ag'\<lparr>world_of := updConn a (\<lambda>_. cs') (world_of ag')\<rparr>) a cs'"
proof -
  have f: "world_ok (world_of ag')" "conns (world_of ag') a = Some cs" using assms(1) by (simp_all add: fresh_session_def)
  note u = updConn_const [OF f assms(2)]
  have "Sess (updConn a (\<lambda>_. cs') (world_of ag')) = Sess (world_of ag')" by (simp add: updConn_def)
  moreover have "closeOnce cs' = closeOnce cs" using assms(2) by simp
  ultimately show ?thesis using u assms(1) by (simp add: fresh_session_def)
qed

lemma abort_fresh:
  assumes "fresh_session ag ag' a cs" and "set gs \<subseteq> {GoTunToPayloadOut, GoPayloadInToTun}"
  shows "\<exists>ag''. abortTunnel err gs a ag' = Inr (Some err, gs, ag'') \<and> world_ok (world_of ag'') \<and> aborted ag'' gs"
proof -
  have "world_ok (world_of ag')" "conns (world_of ag') a = Some cs" "\<not> closeOnce cs" "CSess (Sess (world_of ag')) = Some a"
    "\<not> ActiveClose (Sess (world_of ag'))" using assms(1) by (simp_all add: fresh_session_def)
  from abortTunnel_ok [OF this(1-4), of err gs] this(5) assms(2) show ?thesis by (auto simp: aborted_def)
qed

lemma finishSetup_cases:
  assumes fs: "fresh_session ag ag' a cs"
  shows "\<exists>r gs ag''. finishSetup e a cs ag' = Inr (r, gs, ag'') \<and> world_ok (world_of ag'') \<and>
    (if r = None then established ag ag'' gs else aborted ag'' gs)"
proof (cases rule: setupTun_cases [of e cs])
  case (failed err cs')
  then obtain m where "cs' = cs\<lparr>TunName := m\<rparr>" by blast
  from abort_fresh [OF fresh_session_device [OF fs this], of "[]" err] show ?thesis by (auto simp: finishSetup_def failed(1) Let_def)
next
  case (ready cs')
  then obtain m where "cs' = cs\<lparr>TunName := m\<rparr>" by blast
  note fs' = fresh_session_device [OF fs this]
  show ?thesis
  proof (cases "routesErr e")
    case (Some err)
    with abort_fresh [OF fs', of "[GoTunToPayloadOut, GoPayloadInToTun]" err] show ?thesis by (auto simp: finishSetup_def ready(1) Let_def)
  next
    case None
    then show ?thesis using fs' by (auto simp: finishSetup_def ready(1) Let_def established_def fresh_session_def)
  qed
qed

lemma SetupTunnel_session:
  assumes w: "world_ok (world_of ag)" and ok: "writeErr e = None" "response e = Inr (200, t, h)"
  shows "\<exists>a cs ag'. fresh_session ag ag' a cs \<and> SetupTunnel e ag = finishSetup e a cs ag'"
proof -
  let ?ag1 = "initTunnel (secret e) ag"
  obtain cfg req where req: "connectRequest ?ag1 = (cfg, req)" by (cases "connectRequest ?ag1")
  let ?ag2 = "?ag1\<lparr>Cfg := cfg, sent := sent ?ag1 @ [req]\<rparr>"
  let ?f = "\<lambda>cs. cs\<lparr>ServerAddress := hd (Split (CHR '':'') (remoteAddr e)), Hostname := Host (Prof ag), TLSCipherSuite := tlsSuite e\<rparr>"
  let ?cs = "connOf cfg (LocalInterface ag) (postAuthOf (parseXML e)) (time_now e) h (nextAddr (world_of ag))"
  have w2: "world_ok (world_of ?ag2)" using w by (simp add: initTunnel_world world_ok_Sess)
  obtain a w1 where n: "NewConnSession cfg (LocalInterface ag) (postAuthOf (parseXML e)) (time_now e) h (world_of ?ag2) = (a, w1)"
    by (cases "NewConnSession cfg (LocalInterface ag) (postAuthOf (parseXML e)) (time_now e) h (world_of ?ag2)")
  note nw = world_ok_NewConnSession [OF w2 n] and nc = new_connection [OF w2 n, of ?f]
  have a: "a = nextAddr (world_of ag)" "conns (world_of ag) a = None" using nw(2,3) by (simp_all add: initTunnel_world)
  have "\<not> ActiveClose (Sess w1)" using n by (auto simp: NewConnSession_def Let_def)
  then have "fresh_session ag (?ag2\<lparr>world_of := updConn a ?f w1\<rparr>) a (?f ?cs)"
    using nc a connectRequest_NoDTLS [of ?ag1]
    by (simp add: fresh_session_def connOf_identity updConn_def initTunnel_world req)
  moreover have "conns (updConn a ?f w1) a = Some (?f ?cs)" using nc(2) a(1) by simp
  then have "SetupTunnel e ag = finishSetup e a (?f ?cs) (?ag2\<lparr>world_of := updConn a ?f w1\<rparr>)"
    using ok n by (simp add: SetupTunnel_def finishSetup_def req Let_def initTunnel_world)
  ultimately show ?thesis by blast
qed

lemma SetupTunnel_cases:
  assumes w: "world_ok (world_of ag)"
  shows "\<exists>r gs ag'. SetupTunnel e ag = Inr (r, gs, ag') \<and> world_ok (world_of ag') \<and>
    (if r = None then established ag ag' gs else refused ag ag' gs \<or> aborted ag' gs)"
proof -
  let ?ag1 = "initTunnel (secret e) ag"
  obtain cfg req where req: "connectRequest ?ag1 = (cfg, req)" by (cases "connectRequest ?ag1")
  let ?ag2 = "?ag1\<lparr>Cfg := cfg, sent := sent ?ag1 @ [req], ConnOpen := False\<rparr>"
  have ref: "refused ag ?ag2 []" "world_ok (world_of ?ag2)" using w by (simp_all add: refused_def initTunnel_world world_ok_Sess)
  consider (early) "writeErr e \<noteq> None \<or> (\<exists>err. response e = Inl err) \<or> (\<exists>s t h. response e = Inr (s, t, h) \<and> s \<noteq> 200)"
    | (ok) t h where "writeErr e = None" "response e = Inr (200, t, h)"
    by (cases "writeErr e"; cases "response e") auto
  then show ?thesis
  proof cases
    case early
    then obtain err where "SetupTunnel e ag = Inr (Some err, [], ?ag2)"
      by (cases "writeErr e"; cases "response e") (auto simp: SetupTunnel_def [of e ag] req Let_def)
    with ref show ?thesis by (intro exI [of _ "Some err"] exI [of _ "[]"] exI [of _ ?ag2]) simp
  next
    case ok
    from SetupTunnel_session [OF w ok] obtain a cs ag' where s: "fresh_session ag ag' a cs" "SetupTunnel e ag = finishSetup e a cs ag'" by blast
    from finishSetup_cases [OF s(1), of e] show ?thesis unfolding s(2) by (metis (full_types))
  qed
qed

subsection \<open>Properties\<close>

text \<open>
  The compression offer follows the configuration of the moment: whatever earlier
  connections left in the process-wide header map, after \<open>initTunnel\<close> both \<open>Accept-Encoding\<close>
  headers are present if compression is configured and absent otherwise, and no other header
  depends on the setting.
\<close>

theorem compression_offer:
  "(tunHeaders (initTunnel s ag) ''X-CSTP-Accept-Encoding'' =
      (if CfgCompression (Cfg ag) then Some ''oc-lz4,lzs'' else None)) \<and>
   (tunHeaders (initTunnel s ag) ''X-DTLS-Accept-Encoding'' =
      (if CfgCompression (Cfg ag) then Some ''oc-lz4,lzs'' else None)) \<and>
   (k \<in> {''X-CSTP-Accept-Encoding'', ''X-DTLS-Accept-Encoding''} \<or>
    tunHeaders (initTunnel s ag) k = tunHeaders (initTunnel s (ag\<lparr>Cfg := (Cfg ag)\<lparr>CfgCompression := b\<rparr>\<rparr>)) k)"
  by (simp add: initTunnel_def applyCompressionHeaders_def Let_def)


definition sample_env :: env where
  "sample_env = \<lparr>GOOS = ''linux'', secret = replicate 48 0, writeErr = None, response = Inr (200, ''OK'', sample_header), time_now = 0,
     remoteAddr = ''192.0.2.1:443'', tlsSuite = ''x'', createErr = None, devName = ''sslcon'', configErr = None, routesErr = Some ''no route'',
     parseXML = (\<lambda>_. (Some ''bad'', sample_dtd [] []))\<rparr>"

lemma sample_agent_ok: "world_ok (world_of sample_agent)"
  by (simp add: sample_agent_def world_ok_def conn_ok_def current_ok_def)


text \<open>
  Domain splitting adds routes for a domain once: routes are requested only for a
  question that matches a configured suffix and was not resolved before, exactly for the
  addresses of the answer, which are remembered; the same question asked again requests
  nothing and changes nothing.  A DNS message without a question panics.
\<close>

theorem dynamicSplitRoutes_once:
  assumes "parseDNS data = Some d"
  shows "(dynamicSplitRoutes parseDNS data cs = None \<longleftrightarrow> Questions d = []) \<and>
    (\<forall>cs' rs. dynamicSplitRoutes parseDNS data cs = Some (cs', rs) \<longrightarrow>
       (rs \<noteq> [] \<longrightarrow>
          (let query = hd (Questions d); answers = map snd (filter fst (Answers d)) in
           answers \<noteq> [] \<and>
           (rs = [AddInclude answers] \<and> InArrayGeneric (DynamicSplitIncludeDomains cs) query \<and>
              DynamicSplitIncludeResolved cs query = None \<and> DynamicSplitIncludeResolved cs' query = Some answers \<or>
            rs = [AddExclude answers] \<and> InArrayGeneric (DynamicSplitExcludeDomains cs) query \<and>
              DynamicSplitExcludeResolved cs query = None \<and> DynamicSplitExcludeResolved cs' query = Some answers))) \<and>
       dynamicSplitRoutes parseDNS data cs' = Some (cs', []))"
proof (cases "Questions d")
  case Nil
  then show ?thesis using assms by (simp add: dynamicSplitRoutes_def go_index_def)
next
  case (Cons query qs)
  then show ?thesis using assms by (auto simp: dynamicSplitRoutes_def go_index_def Let_def split: if_splits)
qed

definition sample_dns :: "byte list \<Rightarrow> dns option" where
  "sample_dns _ = Some \<lparr>Questions = [''www.example.com''], ANCount = 2, Answers = [(False, ''cname''), (True, ''192.0.2.7'')]\<rparr>"

definition sample_split :: ConnSession where
  "sample_split = (connOf sample_cfg sample_ifc (\<lambda>_. None) 0 (\<lambda>_. []) 0)\<lparr>DynamicSplitIncludeDomains := [''example.com'']\<rparr>"

theorem dynamicSplitRoutes_once_witness:
  "\<exists>cs'. dynamicSplitRoutes sample_dns [] sample_split = Some (cs', [AddInclude [''192.0.2.7'']]) \<and>
     dynamicSplitRoutes sample_dns [] cs' = Some (cs', [])"
proof -
  have "DynamicSplitIncludeResolved sample_split = Map.empty"
    by (simp add: sample_split_def connOf_def applyPostAuth_def Let_def)
  then obtain cs' where c: "dynamicSplitRoutes sample_dns [] sample_split = Some (cs', [AddInclude [''192.0.2.7'']])"
    by (simp add: dynamicSplitRoutes_def sample_dns_def sample_split_def go_index_def HasSuffix_def Let_def)
  have d: "sample_dns [] = Some \<lparr>Questions = [''www.example.com''], ANCount = 2, Answers = [(False, ''cname''), (True, ''192.0.2.7'')]\<rparr>"
    by (simp add: sample_dns_def)
  show ?thesis using dynamicSplitRoutes_once [of sample_dns "[]", OF d, of sample_split] c by blast
qed

end
