(* ===== verification/Logging.thy ===== *)
theory Logging
  imports Utils
begin

text \<open>
  The log writer of \<open>src/base/log.go\<close>: which file the log goes to, how a failure to open it is
  reported, and \<open>InitLog\<close>, which runs at start-up and after every \<open>CONFIG\<close> request.  The file
  system's answers are arguments.  Logging through a logger that was never created is the nil
  dereference.
\<close>

subsection \<open>File names\<close>

text \<open>\<open>path.Clean\<close>: one pass over the elements, with the kept ones on a stack (last first).\<close>

definition cleanStep :: "bool \<Rightarrow> string list \<Rightarrow> string \<Rightarrow> string list" where
  "cleanStep rooted st x =
     (if x = '''' \<or> x = ''.'' then st
      else if x = ''..'' then
        (case st of
           [] \<Rightarrow> if rooted then [] else [x]
         | t # ts \<Rightarrow> if t = ''..'' then x # st else ts)
      else x # st)"

definition path_Clean :: "string \<Rightarrow> string" where
  "path_Clean p =
     (let rooted = (p \<noteq> [] \<and> hd p = CHR ''/'');
          r = (if rooted then ''/'' else '''') @ join (CHR ''/'') (rev (foldl (cleanStep rooted) [] (Split (CHR ''/'') p)))
      in if r = '''' then ''.'' else r)"

definition path_Join :: "string list \<Rightarrow> string" where
  "path_Join es =
     (let ne = filter (\<lambda>e. e \<noteq> '''') es in if ne = [] then '''' else path_Clean (join (CHR ''/'') ne))"

subsection \<open>The writer\<close>

datatype log_file = Stdout | File string

record logWriter =
  UseStdout :: bool
  FileName :: string
  LogFile :: "log_file option"

record logger =
  baseWriter :: logWriter
  baseLevel :: nat

definition logName :: string where
  "logName = ''vpnagent.log''"

record log_fs =
  mkdirErr :: "string option"
  openErr :: "string option"

text \<open>
  \<open>newFile\<close>.  \<open>lg\<close> is the logger in place, \<open>None\<close> before the first \<open>InitLog\<close>; the new writer is
  already the global one, the level is still the old one.  The result is the line logged, if
  any, the file it went to, and the writer with its file, or the nil dereference.
\<close>

definition reportErr :: "logger option \<Rightarrow> string \<Rightarrow> (log_file option \<times> string) option option" where
  "reportErr lg err =
     (case lg of
        None \<Rightarrow> None
      | Some g \<Rightarrow> Some (map_option (\<lambda>line. (LogFile (baseWriter g), line)) (logAt 3 (baseLevel g) err)))"

definition newFile :: "log_fs \<Rightarrow> string \<Rightarrow> logger option \<Rightarrow> logWriter \<Rightarrow> ((log_file option \<times> string) option \<times> logWriter) option" where
  "newFile fs logPath lg lw =
     (if UseStdout lw then Some (None, lw\<lparr>LogFile := Some Stdout\<rparr>)
      else
        case (if logPath \<noteq> [] then mkdirErr fs else None) of
          Some err \<Rightarrow> map_option (\<lambda>out. (out, lw\<lparr>LogFile := Some Stdout\<rparr>)) (reportErr lg err)
        | None \<Rightarrow>
            (case openErr fs of
               Some err \<Rightarrow> map_option (\<lambda>out. (out, lw\<lparr>LogFile := Some Stdout\<rparr>)) (reportErr lg err)
             | None \<Rightarrow> Some (None, lw\<lparr>LogFile := Some (File (FileName lw))\<rparr>)))"

definition InitLog :: "log_fs \<Rightarrow> ClientConfig \<Rightarrow> logger option \<Rightarrow> ((log_file option \<times> string) option \<times> logger) option" where
  "InitLog fs cfg lg =
     map_option (\<lambda>(out, w). (out, \<lparr>baseWriter = w, baseLevel = logLevel2Int (LogLevel cfg)\<rparr>))
       (newFile fs (LogPath cfg) lg \<lparr>UseStdout = (LogPath cfg = ''''), FileName = path_Join [LogPath cfg, logName], LogFile = None\<rparr>)"

text \<open>\<open>Setup\<close> at program start: default configuration, then the logger, then its first line.\<close>

definition zeroCfg :: ClientConfig where
  "zeroCfg = \<lparr>LogLevel = [], LogPath = [], InsecureSkipVerify = False, CiscoCompat = False, NoDTLS = False, AgentName = [],
     AgentVersion = [], CfgCompression = False, AutoReconnect = False\<rparr>"

definition base_Setup :: "log_fs \<Rightarrow> string \<Rightarrow> (ClientConfig \<times> logger \<times> string option) option" where
  "base_Setup fs version =
     (let cfg = initCfg zeroCfg in
      map_option (\<lambda>(_, lg). (cfg, lg, logAt 1 (baseLevel lg) (''sslcon version: '' @ version))) (InitLog fs cfg None))"

subsection \<open>Lemmas\<close>

lemma reportErr_some: "reportErr (Some g) err \<noteq> None"
  by (simp add: reportErr_def)

lemma InitLog_stdout: "LogPath cfg = '''' \<Longrightarrow>
  InitLog fs cfg lg = Some (None, \<lparr>baseWriter = \<lparr>UseStdout = True, FileName = path_Join ['''', logName], LogFile = Some Stdout\<rparr>,
     baseLevel = logLevel2Int (LogLevel cfg)\<rparr>)"
  by (simp add: InitLog_def newFile_def)

lemma InitLog_total: "\<exists>out lg'. InitLog fs cfg (Some lg) = Some (out, lg') \<and> LogFile (baseWriter lg') \<noteq> None"
  by (auto simp: InitLog_def newFile_def reportErr_def split: option.splits)

subsection \<open>Properties\<close>

text \<open>
  After start-up the agent always has a log: \<open>Setup\<close> succeeds whatever the file system does, and
  every later \<open>InitLog\<close> gives a logger with an open file and the level of the configuration.  The
  file is the one in the configured directory unless none is configured, or it cannot be made or
  opened; then it is the standard output, and the reason goes to the log in place before, if its level
  lets errors through.
\<close>

theorem InitLog_outcome:
  "(\<exists>cfg' lg'. base_Setup fs0 version = Some (cfg', lg', Some (''[Info] sslcon version: '' @ version))) \<and>
   (\<exists>out lg'. InitLog fs cfg (Some lg) = Some (out, lg') \<and> baseLevel lg' = logLevel2Int (LogLevel cfg) \<and>
      (if LogPath cfg = '''' then LogFile (baseWriter lg') = Some Stdout \<and> out = None
       else case (if mkdirErr fs \<noteq> None then mkdirErr fs else openErr fs) of
           None \<Rightarrow> LogFile (baseWriter lg') = Some (File (path_Join [LogPath cfg, ''vpnagent.log''])) \<and> out = None
         | Some e \<Rightarrow> LogFile (baseWriter lg') = Some Stdout \<and>
             out = (if baseLevel lg \<le> 3 then Some (LogFile (baseWriter lg), ''[Error] '' @ e) else None)))"
proof (rule conjI)
  show "\<exists>cfg' lg'. base_Setup fs0 version = Some (cfg', lg', Some (''[Info] sslcon version: '' @ version))"
    by (simp add: base_Setup_def InitLog_stdout initCfg_def zeroCfg_def logLevel2Int_def levels_def logAt_def Let_def toLower_def code_def char_of_def)
next
  have "logAt 3 b e = (if b \<le> 3 then Some (''[Error] '' @ e) else None)" for b e
    by (simp add: logAt_def levels_def numeral_3_eq_3)
  then show "\<exists>out lg'. InitLog fs cfg (Some lg) = Some (out, lg') \<and> baseLevel lg' = logLevel2Int (LogLevel cfg) \<and>
      (if LogPath cfg = '''' then LogFile (baseWriter lg') = Some Stdout \<and> out = None
       else case (if mkdirErr fs \<noteq> None then mkdirErr fs else openErr fs) of
           None \<Rightarrow> LogFile (baseWriter lg') = Some (File (path_Join [LogPath cfg, ''vpnagent.log''])) \<and> out = None
         | Some e \<Rightarrow> LogFile (baseWriter lg') = Some Stdout \<and>
             out = (if baseLevel lg \<le> 3 then Some (LogFile (baseWriter lg), ''[Error] '' @ e) else None))"
    by (cases "LogPath cfg = []"; cases "mkdirErr fs"; cases "openErr fs")
      (simp_all add: InitLog_stdout InitLog_def newFile_def reportErr_def logName_def)
qed

end
