(* ===== verification/Rpc.thy ===== *)
theory Rpc
  imports Tunnel Logging
begin

text \<open>
  The request handler of the agent (\<open>src/rpc/rpc.go\<close>), connection set-up and tear-down
  (\<open>src/rpc/connect.go\<close>), and the automatic reconnection loop.  Requests arrive with their
  parameters decoded: \<open>json.Unmarshal\<close> is a function of the target that returns its error, if any, and
  the target as it left it, and a request without parameters has none (the handler then
  dereferences nil).  What the network does during a call is an argument (\<open>net\<close>).
\<close>

subsection \<open>connect.go\<close>

record net =
  localIf :: "string + Interface"
  dialErr :: "string option"
  initOut :: post_outcome
  authOut1 :: post_outcome
  authOut2 :: post_outcome
  errorf :: "string \<Rightarrow> string \<Rightarrow> string"
  tunEnv :: env
  logFs :: log_fs

type_synonym setup_result = "session_panic + string option \<times> goroutine list \<times> agent"

definition GetLocalInterface :: "net \<Rightarrow> agent \<Rightarrow> string option \<times> agent" where
  "GetLocalInterface n ag = (case localIf n of Inl e \<Rightarrow> (Some e, ag) | Inr i \<Rightarrow> (None, ag\<lparr>LocalInterface := i\<rparr>))"

definition rpc_SetupTunnel :: "net \<Rightarrow> bool \<Rightarrow> agent \<Rightarrow> setup_result" where
  "rpc_SetupTunnel n reconnect ag =
     (case (if reconnect \<and> \<not> Initialized (Prof ag) then GetLocalInterface n ag else (None, ag)) of
        (Some e, ag) \<Rightarrow> Inr (Some e, [], ag)
      | (None, ag) \<Rightarrow> SetupTunnel (tunEnv n) ag)"

text \<open>\<open>InitAuth\<close>, then \<open>PasswordAuth\<close>, then the tunnel: each only if the one before succeeded.\<close>

definition authAndTunnel :: "net \<Rightarrow> bool \<Rightarrow> agent \<Rightarrow> setup_result" where
  "authAndTunnel n reconnect ag =
     (case InitAuth (parseXML (tunEnv n)) (dialErr n) (initOut n) ag of
        (Some e, ag) \<Rightarrow> Inr (Some e, [], ag)
      | (None, ag) \<Rightarrow>
          (case PasswordAuth (parseXML (tunEnv n)) (errorf n) (authOut1 n) (authOut2 n) ag of
             (Some e, ag) \<Rightarrow> Inr (Some e, [], ag)
           | (None, ag) \<Rightarrow> rpc_SetupTunnel n reconnect ag))"

definition hostWithPort :: "string \<Rightarrow> string" where
  "hostWithPort h = (if CHR '':'' \<in> set h then h else h @ '':443'')"

definition Connect :: "net \<Rightarrow> agent \<Rightarrow> setup_result" where
  "Connect n ag =
     (let ag = ag\<lparr>Prof := (Prof ag)\<lparr>HostWithPort := hostWithPort (Host (Prof ag))\<rparr>\<rparr> in
      case (if \<not> Initialized (Prof ag) then GetLocalInterface n ag else (None, ag)) of
        (Some e, ag) \<Rightarrow> Inr (Some e, [], ag)
      | (None, ag) \<Rightarrow> authAndTunnel n False ag)"

text \<open>\<open>DisConnect\<close>; the session whose routes are reset, if any, is part of the result.\<close>

definition DisConnect :: "agent \<Rightarrow> session_panic + nat option \<times> agent" where
  "DisConnect ag =
     (let w = (world_of ag)\<lparr>Sess := (Sess (world_of ag))\<lparr>ActiveClose := True\<rparr>\<rparr> in
      case CSess (Sess w) of
        None \<Rightarrow> Inr (None, ag\<lparr>world_of := w\<rparr>)
      | Some a \<Rightarrow> res_bind (ConnSession_Close a w) (\<lambda>w. Inr (Some a, ag\<lparr>world_of := w\<rparr>)))"

subsection \<open>Requests\<close>

datatype rpc_method = STATUS | CONFIG | CONNECT | DISCONNECT | RECONNECT | INTERFACE | ABORT | STAT | VERSION | OTHER

definition method_of :: "nat \<Rightarrow> rpc_method" where
  "method_of num =
     (if num = 0 then STATUS else if num = 1 then CONFIG else if num = 2 then CONNECT else if num = 3 then DISCONNECT
      else if num = 4 then RECONNECT else if num = 5 then INTERFACE else if num = 6 then ABORT
      else if num = 7 then STAT else if num = 8 then VERSION else OTHER)"

record statReply =
  rBytesSent :: u64
  rBytesReceived :: u64
  rCompressStat :: "CompressStat option"
  rCSTPCompression :: Compression
  rDTLSCompression :: Compression

record versionReply =
  vVersion :: string
  vCommit :: string
  vAgentVersion :: string
  vGoVersion :: string

datatype reply =
    Stats statReply
  | Version versionReply
  | Status ConnSession
  | Text string
  | Error string

record rpc_state =
  agent_of :: agent
  connectedStr :: string
  disconnectedStr :: string
  autoReconnecting :: bool
  log_of :: logger
  Clients :: "nat list"

text \<open>
  Decoded parameters of a request, by the target they are decoded into.  The configuration is
  decoded into a pointer, which \<open>null\<close> sets to nil (\<open>None\<close>).
\<close>

record params =
  pProfile :: "Profile \<Rightarrow> string option \<times> Profile"
  pConfig :: "ClientConfig \<Rightarrow> string option \<times> ClientConfig option"
  pInterface :: "Interface \<Rightarrow> string option \<times> Interface"

record build =
  bVersion :: string
  bCommit :: string
  bGoVersion :: string

text \<open>The replies, the goroutines started, whether \<open>monitor\<close> is started, and the new state.\<close>

type_synonym handled = "session_panic + reply list \<times> goroutine list \<times> bool \<times> rpc_state"

definition setAgent :: "agent \<Rightarrow> rpc_state \<Rightarrow> rpc_state" where
  "setAgent ag s = s\<lparr>agent_of := ag\<rparr>"

definition current :: "rpc_state \<Rightarrow> nat option" where
  "current s = CSess (Sess (world_of (agent_of s)))"

text \<open>The error reply and the \<open>DisConnect\<close> that follow a failed set-up.\<close>

definition setupFailed :: "string \<Rightarrow> goroutine list \<Rightarrow> agent \<Rightarrow> rpc_state \<Rightarrow> handled" where
  "setupFailed err gs ag s = res_bind (DisConnect ag) (\<lambda>(_, ag). Inr ([Error err], gs, False, setAgent ag s))"

definition handleStat :: "rpc_state \<Rightarrow> handled" where
  "handleStat s =
     (case current s of
        None \<Rightarrow> Inr ([Error (disconnectedStr s)], [], False, s)
      | Some a \<Rightarrow>
          (case conns (world_of (agent_of s)) a of
             None \<Rightarrow> Inl NilPointer
           | Some cs \<Rightarrow>
               Inr ([Stats \<lparr>rBytesSent = BytesSent (Stat cs), rBytesReceived = BytesReceived (Stat cs), rCompressStat = CompressStats cs,
                      rCSTPCompression = CSTPCompression cs, rDTLSCompression = DTLSCompression cs\<rparr>], [], False, s)))"

text \<open>
  \<open>STATUS\<close> waits for the DTLS set-up to end (\<open>None\<close>: the channel it receives from is not closed) and
  then answers from the state of that moment.
\<close>

definition statusReply :: "rpc_state \<Rightarrow> handled" where
  "statusReply s =
     (case current s of
        None \<Rightarrow> Inr ([Error (disconnectedStr s)], [], False, s)
      | Some a \<Rightarrow>
          (case conns (world_of (agent_of s)) a of
             None \<Rightarrow> Inl NilPointer
           | Some cs \<Rightarrow> Inr ([Status cs], [], False, s)))"

definition handleStatus :: "rpc_state \<Rightarrow> handled option" where
  "handleStatus s =
     (case current s of
        None \<Rightarrow> Some (statusReply s)
      | Some a \<Rightarrow>
          (case conns (world_of (agent_of s)) a of
             None \<Rightarrow> Some (Inl NilPointer)
           | Some cs \<Rightarrow>
               if \<not> NoDTLS (Cfg (agent_of s)) \<and> DTLSPort cs \<noteq> [] \<and> \<not> closed (world_of (agent_of s)) (DtlsSetupChan cs)
               then None
               else Some (statusReply s)))"

definition handleConnect :: "net \<Rightarrow> params option \<Rightarrow> rpc_state \<Rightarrow> handled" where
  "handleConnect n p s =
     (if autoReconnecting s then Inr ([Error ''auto reconnecting, please wait''], [], False, s)
      else if current s \<noteq> None then Inr ([Text (connectedStr s)], [], False, s)
      else case p of
        None \<Rightarrow> Inl NilPointer
      | Some p \<Rightarrow>
          (let (r, prof) = pProfile p (Prof (agent_of s)); ag = (agent_of s)\<lparr>Prof := prof\<rparr> in
           case r of
             Some e \<Rightarrow> Inr ([Error e], [], False, setAgent ag s)
           | None \<Rightarrow>
               res_bind (Connect n ag) (\<lambda>(r, gs, ag).
                 case r of
                   Some e \<Rightarrow> setupFailed e gs ag s
                 | None \<Rightarrow>
                     let s = s\<lparr>connectedStr := ''connected to '' @ Host (Prof ag), disconnectedStr := ''disconnected from '' @ Host (Prof ag)\<rparr> in
                     Inr ([Text (connectedStr s)], gs, True, setAgent ag s))))"

definition handleReconnect :: "net \<Rightarrow> rpc_state \<Rightarrow> handled" where
  "handleReconnect n s =
     (if current s \<noteq> None then Inr ([Text (connectedStr s)], [], False, s)
      else
        res_bind (rpc_SetupTunnel n True (agent_of s)) (\<lambda>(r, gs, ag).
          case r of
            Some e \<Rightarrow> setupFailed e gs ag s
          | None \<Rightarrow> Inr ([Text (connectedStr s)], gs, True, setAgent ag s)))"

definition handleDisconnect :: "rpc_state \<Rightarrow> handled" where
  "handleDisconnect s =
     (if autoReconnecting s then
        res_bind (DisConnect (agent_of s)) (\<lambda>(_, ag). Inr ([Text (disconnectedStr s)], [], False, setAgent ag s))
      else if current s \<noteq> None then
        res_bind (DisConnect (agent_of s)) (\<lambda>(_, ag). Inr ([], [], False, setAgent ag s))
      else Inr ([Error (disconnectedStr s)], [], False, s))"

definition handleConfig :: "net \<Rightarrow> params option \<Rightarrow> rpc_state \<Rightarrow> handled" where
  "handleConfig n p s =
     (case p of
        None \<Rightarrow> Inl NilPointer
      | Some p \<Rightarrow>
          (case pConfig p (Cfg (agent_of s)) of
             (_, None) \<Rightarrow> Inl NilPointer
           | (Some e, Some cfg) \<Rightarrow> Inr ([Error e], [], False, setAgent ((agent_of s)\<lparr>Cfg := cfg\<rparr>) s)
           | (None, Some cfg) \<Rightarrow>
               (case InitLog (logFs n) cfg (Some (log_of s)) of
                  None \<Rightarrow> Inl NilPointer
                | Some (_, lg) \<Rightarrow>
                    Inr ([Text ''ready to connect''], [], False, (setAgent ((agent_of s)\<lparr>Cfg := cfg\<rparr>) s)\<lparr>log_of := lg\<rparr>))))"

definition handleInterface :: "params option \<Rightarrow> rpc_state \<Rightarrow> handled" where
  "handleInterface p s =
     (case p of
        None \<Rightarrow> Inl NilPointer
      | Some p \<Rightarrow>
          (let (r, i) = pInterface p (LocalInterface (agent_of s)); ag = (agent_of s)\<lparr>LocalInterface := i\<rparr> in
           case r of
             Some e \<Rightarrow> Inr ([Error e], [], False, setAgent ag s)
           | None \<Rightarrow> Inr ([Text ''ready to connect''], [], False, setAgent (ag\<lparr>Prof := (Prof ag)\<lparr>Initialized := True\<rparr>\<rparr>) s)))"

text \<open>\<open>Handle\<close>: the id of the request is the method, its name only appears in the error.\<close>

definition Handle :: "build \<Rightarrow> net \<Rightarrow> nat \<Rightarrow> string \<Rightarrow> params option \<Rightarrow> rpc_state \<Rightarrow> handled option" where
  "Handle b n num name p s =
     (case method_of num of
        STAT \<Rightarrow> Some (handleStat s)
      | VERSION \<Rightarrow> Some (Inr ([Version \<lparr>vVersion = bVersion b, vCommit = bCommit b, vAgentVersion = AgentVersion (Cfg (agent_of s)),
            vGoVersion = bGoVersion b\<rparr>], [], False, s))
      | STATUS \<Rightarrow> handleStatus s
      | CONNECT \<Rightarrow> Some (handleConnect n p s)
      | RECONNECT \<Rightarrow> Some (handleReconnect n s)
      | DISCONNECT \<Rightarrow> Some (handleDisconnect s)
      | CONFIG \<Rightarrow> Some (handleConfig n p s)
      | INTERFACE \<Rightarrow> Some (handleInterface p s)
      | _ \<Rightarrow> Some (Inr ([Error (''unknown method: '' @ name)], [], False, s)))"

subsection \<open>Monitoring and reconnecting\<close>

text \<open>
  \<open>monitor\<close> after the session's channel was closed: what each client is told, and whether the
  reconnection loop is asked to start.
\<close>

definition monitor :: "rpc_state \<Rightarrow> (nat \<times> rpc_method \<times> string) list \<times> bool" where
  "monitor s =
     (let active = ActiveClose (Sess (world_of (agent_of s))) in
      (map (\<lambda>c. (c, if active then DISCONNECT else ABORT, disconnectedStr s)) (Clients s),
       \<not> active \<and> AutoReconnect (Cfg (agent_of s))))"

text \<open>A client that goes away is taken out of the list, at its first occurrence.\<close>

definition dropClient :: "nat \<Rightarrow> rpc_state \<Rightarrow> rpc_state" where
  "dropClient c s = s\<lparr>Clients := remove1 c (Clients s)\<rparr>"

definition addClient :: "nat \<Rightarrow> rpc_state \<Rightarrow> rpc_state" where
  "addClient c s = s\<lparr>Clients := Clients s @ [c]\<rparr>"

datatype ar_pc = ArTop | ArSleeping | ArAttempt | ArDone

record ar_local =
  arPc :: ar_pc
  arDelay :: int

definition startAutoReconnect :: "rpc_state \<Rightarrow> (ar_local \<times> rpc_state) option" where
  "startAutoReconnect s =
     (if autoReconnecting s then None
      else Some (\<lparr>arPc = ArTop, arDelay = 1\<rparr>, s\<lparr>autoReconnecting := True\<rparr>))"

definition nextDelay :: "int \<Rightarrow> int" where
  "nextDelay d = (let d = d * 2 in if d > 60 then 60 else d)"

definition reconnectOnce :: "net \<Rightarrow> agent \<Rightarrow> setup_result" where
  "reconnectOnce n ag = authAndTunnel n True ag"

definition arReturn :: "ar_local \<Rightarrow> rpc_state \<Rightarrow> ar_local \<times> rpc_state" where
  "arReturn l s = (l\<lparr>arPc := ArDone\<rparr>, s\<lparr>autoReconnecting := False\<rparr>)"

text \<open>
  One step of the loop; the flag says whether \<open>monitor\<close> is started.  The attempt is a step of
  its own: a request may be served between the check before it and the attempt.
\<close>

definition autoReconnect :: "net \<Rightarrow> ar_local \<Rightarrow> rpc_state \<Rightarrow> session_panic + bool \<times> ar_local \<times> rpc_state" where
  "autoReconnect n l s =
     (let active = ActiveClose (Sess (world_of (agent_of s))) in
      case arPc l of
        ArTop \<Rightarrow> if active then Inr (False, arReturn l s) else Inr (False, l\<lparr>arPc := ArSleeping\<rparr>, s)
      | ArSleeping \<Rightarrow> if active then Inr (False, arReturn l s) else Inr (False, l\<lparr>arPc := ArAttempt\<rparr>, s)
      | ArAttempt \<Rightarrow>
          res_bind (reconnectOnce n (agent_of s)) (\<lambda>(r, gs, ag).
            let s = setAgent ag s in
            case r of
              Some e \<Rightarrow> Inr (False, l\<lparr>arPc := ArTop, arDelay := nextDelay (arDelay l)\<rparr>, s)
            | None \<Rightarrow>
                if ActiveClose (Sess (world_of ag))
                then res_bind (DisConnect ag) (\<lambda>(_, ag). Inr (False, arReturn l (setAgent ag s)))
                else Inr (True, arReturn l (s\<lparr>connectedStr := ''connected to '' @ Host (Prof ag)\<rparr>)))
      | ArDone \<Rightarrow> Inr (False, l, s))"

subsection \<open>What setting up and tearing down do\<close>

abbreviation sess_of :: "agent \<Rightarrow> Session" where
  "sess_of ag \<equiv> Sess (world_of ag)"

lemma InitAuth_world: "InitAuth un d out ag = (r, ag') \<Longrightarrow> world_of ag' = world_of ag"
  by (auto simp: InitAuth_def tplPost_def Let_def split: option.splits post_outcome.splits prod.splits if_splits sum.splits)

lemma tplPost_world: "tplPost un init path out ag = (r, ag') \<Longrightarrow> world_of ag' = world_of ag"
  using tplPost_Inl(1) tplPost_Inr(3) by (cases r) blast+

lemma PasswordAuth_world:
  assumes "PasswordAuth un f out1 out2 ag = (r, ag')"
  obtains tok where "world_of ag' = (world_of ag)\<lparr>Sess := (sess_of ag)\<lparr>SessionToken := tok\<rparr>\<rparr>"
proof -
  have "world_of ag' = world_of ag \<or> (\<exists>tok. world_of ag' = (world_of ag)\<lparr>Sess := (sess_of ag)\<lparr>SessionToken := tok\<rparr>\<rparr>)"
    using assms by (auto simp: PasswordAuth_def Let_def dest!: tplPost_world split: prod.splits sum.splits if_splits)
  moreover have "world_of ag = (world_of ag)\<lparr>Sess := (sess_of ag)\<lparr>SessionToken := SessionToken (sess_of ag)\<rparr>\<rparr>" by simp
  ultimately show ?thesis using that by metis
qed

text \<open>\<open>DisConnect\<close> closes the current session, if there is one, and says that this was wanted.\<close>

lemma DisConnect_spec:
  assumes w: "world_ok (world_of ag)"
  shows "\<exists>ag'. DisConnect ag = Inr (CSess (sess_of ag), ag') \<and> world_ok (world_of ag') \<and> CSess (sess_of ag') = None \<and>
    ActiveClose (sess_of ag') \<and> (\<forall>a. CSess (sess_of ag) = Some a \<longrightarrow> closed (world_of ag') (ConnClose a) \<and> closed (world_of ag') (SessClose a)) \<and>
    Cfg ag' = Cfg ag \<and> Prof ag' = Prof ag"
proof -
  let ?w = "(world_of ag)\<lparr>Sess := (sess_of ag)\<lparr>ActiveClose := True\<rparr>\<rparr>"
  have w': "world_ok ?w" using w by (simp add: world_ok_Sess)
  show ?thesis
  proof (cases "CSess (sess_of ag)")
    case None
    with w' show ?thesis by (auto simp: DisConnect_def Let_def)
  next
    case (Some a)
    with w' obtain cs where cs: "conns ?w a = Some cs" "\<not> closeOnce cs" by (auto elim: currentD [of ?w a])
    from ConnSession_Close_spec [OF w' cs] obtain w2 where c: "ConnSession_Close a ?w = Inr w2" "closes a cs ?w w2" by blast
    have "closed w2 (ConnClose a) \<and> closed w2 (SessClose a) \<and> Sess w2 = (Sess ?w)\<lparr>CSess := None\<rparr>"
      using c(2) Some unfolding closes_def by (elim conjE) simp
    with c world_ok_closes [OF w' cs(1) c(2)] Some show ?thesis by (auto simp: DisConnect_def Let_def)
  qed
qed

text \<open>
  The contract of setting up a tunnel: no panic, a consistent heap, and either a new session
  that nobody asked to close, or the error with no session that was not there before.
\<close>

definition setup_post :: "world \<Rightarrow> string option \<Rightarrow> world \<Rightarrow> bool" where
  "setup_post w r w' \<longleftrightarrow> world_ok w' \<and>
     (if r = None then \<not> ActiveClose (Sess w') \<and> (\<exists>a. CSess (Sess w') = Some a \<and> conns w a = None)
      else (CSess (Sess w') = CSess (Sess w) \<or> CSess (Sess w') = None) \<and> (ActiveClose (Sess w') \<longrightarrow> ActiveClose (Sess w)))"

locale tunnel_setup =
  fixes setUp :: "agent \<Rightarrow> setup_result"
  assumes setUp_post: "world_ok (world_of ag) \<Longrightarrow> \<exists>r gs ag'. setUp ag = Inr (r, gs, ag') \<and> setup_post (world_of ag) r (world_of ag')"
begin

text \<open>What a request handler does with it: go on, or reply with the error and disconnect.\<close>

lemma attempt:
  assumes w: "world_ok (world_of ag)" and c: "CSess (sess_of ag) = None"
  obtains (opened) gs ag' a where
    "res_bind (setUp ag) (\<lambda>(r, gs, ag). case r of Some e \<Rightarrow> setupFailed e gs ag s | None \<Rightarrow> k gs ag) = k gs ag'"
    "world_ok (world_of ag')" "\<not> ActiveClose (sess_of ag')" "CSess (sess_of ag') = Some a" "conns (world_of ag) a = None"
  | (failed) e gs ag' where
    "res_bind (setUp ag) (\<lambda>(r, gs, ag). case r of Some e \<Rightarrow> setupFailed e gs ag s | None \<Rightarrow> k gs ag) =
       Inr ([Error e], gs, False, setAgent ag' s)"
    "world_ok (world_of ag')" "ActiveClose (sess_of ag')" "CSess (sess_of ag') = None"
proof -
  from setUp_post [OF w] obtain r gs ag1 where u: "setUp ag = Inr (r, gs, ag1)" "setup_post (world_of ag) r (world_of ag1)" by blast
  show ?thesis
  proof (cases r)
    case None
    with u show ?thesis by (auto simp: setup_post_def intro!: opened [of gs ag1])
  next
    case (Some e)
    from u(2) have "world_ok (world_of ag1)" by (simp add: setup_post_def)
    from DisConnect_spec [OF this] obtain ag2 where d: "DisConnect ag1 = Inr (CSess (sess_of ag1), ag2)" "world_ok (world_of ag2)"
      "CSess (sess_of ag2) = None" "ActiveClose (sess_of ag2)" by blast
    show ?thesis using u(1) Some d by (intro failed [of e gs ag2]) (simp_all add: setupFailed_def)
  qed
qed

end

lemma rpc_SetupTunnel_post:
  assumes "world_ok (world_of ag)"
  shows "\<exists>r gs ag'. rpc_SetupTunnel n rc ag = Inr (r, gs, ag') \<and> setup_post (world_of ag) r (world_of ag')"
proof -
  obtain r1 ag1 where g: "(if rc \<and> \<not> Initialized (Prof ag) then GetLocalInterface n ag else (None, ag)) = (r1, ag1)" by fastforce
  then have w: "world_of ag1 = world_of ag" by (auto simp: GetLocalInterface_def split: if_splits sum.splits)
  show ?thesis
  proof (cases r1)
    case None
    from SetupTunnel_cases [of ag1 "tunEnv n"] assms w obtain r gs ag' where t: "SetupTunnel (tunEnv n) ag1 = Inr (r, gs, ag')"
      "world_ok (world_of ag')" "if r = None then established ag1 ag' gs else refused ag1 ag' gs \<or> aborted ag' gs" by auto
    have "setup_post (world_of ag) r (world_of ag')"
      using t(2,3) w by (auto simp: setup_post_def established_def refused_def aborted_def split: if_splits)
    with t(1) g None show ?thesis by (simp add: rpc_SetupTunnel_def)
  next
    case (Some e)
    with g w assms show ?thesis by (auto simp: rpc_SetupTunnel_def setup_post_def)
  qed
qed

lemma authAndTunnel_post:
  assumes w: "world_ok (world_of ag)"
  shows "\<exists>r gs ag'. authAndTunnel n rc ag = Inr (r, gs, ag') \<and> setup_post (world_of ag) r (world_of ag')"
proof -
  obtain r1 ag1 where i: "InitAuth (parseXML (tunEnv n)) (dialErr n) (initOut n) ag = (r1, ag1)" by fastforce
  note w1 = InitAuth_world [OF i]
  obtain r2 ag2 where p: "PasswordAuth (parseXML (tunEnv n)) (errorf n) (authOut1 n) (authOut2 n) ag1 = (r2, ag2)" by fastforce
  from PasswordAuth_world [OF p] obtain tok where w2: "world_of ag2 = (world_of ag1)\<lparr>Sess := (sess_of ag1)\<lparr>SessionToken := tok\<rparr>\<rparr>" .
  have ok2: "world_ok (world_of ag2)" using w w1 by (simp add: w2 world_ok_Sess)
  note def = authAndTunnel_def [of n rc ag] i p
  consider (init) e where "r1 = Some e" | (pass) e where "r1 = None" "r2 = Some e" | (ok) "r1 = None" "r2 = None" by (cases r1; cases r2) auto
  then show ?thesis
  proof cases
    case init
    with w w1 show ?thesis by (auto simp: def setup_post_def)
  next
    case pass
    with w1 w2 ok2 show ?thesis by (auto simp: def setup_post_def)
  next
    case ok
    from rpc_SetupTunnel_post [OF ok2, of n rc] obtain r gs ag' where "rpc_SetupTunnel n rc ag2 = Inr (r, gs, ag')"
      "setup_post (world_of ag2) r (world_of ag')" by blast
    with ok w1 w2 show ?thesis by (auto simp: def setup_post_def)
  qed
qed

interpretation setup_tunnel: tunnel_setup "rpc_SetupTunnel n rc" for n rc
  by unfold_locales (rule rpc_SetupTunnel_post)

interpretation reconnect_once: tunnel_setup "reconnectOnce n" for n
  by unfold_locales (simp add: reconnectOnce_def authAndTunnel_post)

interpretation connect: tunnel_setup "Connect n" for n
proof
  fix ag :: agent assume w: "world_ok (world_of ag)"
  let ?ag = "ag\<lparr>Prof := (Prof ag)\<lparr>HostWithPort := hostWithPort (Host (Prof ag))\<rparr>\<rparr>"
  obtain r1 ag1 where g: "(if \<not> Initialized (Prof ?ag) then GetLocalInterface n ?ag else (None, ?ag)) = (r1, ag1)" by fastforce
  then have w1: "world_of ag1 = world_of ag" by (auto simp: GetLocalInterface_def split: if_splits sum.splits)
  show "\<exists>r gs ag'. Connect n ag = Inr (r, gs, ag') \<and> setup_post (world_of ag) r (world_of ag')"
    using authAndTunnel_post [of ag1 n False] w w1 g
    by (cases r1) (auto simp: Connect_def setup_post_def Let_def)
qed


subsection \<open>The abstract client\<close>

text \<open>
  What a front end sees of the agent: no session, or one, and whether the last session was
  meant to end.
\<close>

datatype phase = Down | Up nat

definition abs_state :: "rpc_state \<Rightarrow> phase \<times> bool" where
  "abs_state s = (case current s of None \<Rightarrow> Down | Some a \<Rightarrow> Up a, ActiveClose (sess_of (agent_of s)))"

inductive spec_step :: "rpc_method \<Rightarrow> phase \<times> bool \<Rightarrow> phase \<times> bool \<Rightarrow> bool" where
  opened: "m \<in> {CONNECT, RECONNECT} \<Longrightarrow> spec_step m (Down, c) (Up a, False)"
| failed: "m \<in> {CONNECT, RECONNECT} \<Longrightarrow> spec_step m (Down, c) (Down, True)"
| ended: "spec_step DISCONNECT (p, c) (Down, True)"
| stays: "m \<noteq> DISCONNECT \<or> p = Down \<Longrightarrow> spec_step m (p, c) (p, c)"

lemma spec_step_meant: "spec_step m x y \<Longrightarrow> (fst x = Down \<or> \<not> snd x) \<Longrightarrow> fst y = Down \<or> \<not> snd y"
  by (induction rule: spec_step.induct) auto

lemma spec_step_id: "m \<noteq> DISCONNECT \<Longrightarrow> spec_step m x x"
  by (cases x) (simp add: spec_step.stays)

text \<open>A request that was served: \<open>mon\<close> says that \<open>monitor\<close> is started for a new session.\<close>

definition served :: "rpc_method \<Rightarrow> rpc_state \<Rightarrow> reply list \<Rightarrow> bool \<Rightarrow> rpc_state \<Rightarrow> bool" where
  "served m s rs mon s' \<longleftrightarrow>
     spec_step m (abs_state s) (abs_state s') \<and> world_ok (world_of (agent_of s')) \<and>
     autoReconnecting s' = autoReconnecting s \<and> Clients s' = Clients s \<and>
     (mon \<longleftrightarrow> current s = None \<and> current s' \<noteq> None) \<and>
     (\<forall>a. mon \<and> current s' = Some a \<longrightarrow> conns (world_of (agent_of s)) a = None) \<and>
     (length rs = 1 \<or> rs = [] \<and> m = DISCONNECT \<and> current s \<noteq> None)"

lemma current_setAgent [simp]: "current (setAgent ag s) = CSess (sess_of ag)" "agent_of (setAgent ag s) = ag"
  "autoReconnecting (setAgent ag s) = autoReconnecting s" "Clients (setAgent ag s) = Clients s"
  "connectedStr (setAgent ag s) = connectedStr s" "disconnectedStr (setAgent ag s) = disconnectedStr s" "log_of (setAgent ag s) = log_of s"
  by (simp_all add: current_def setAgent_def)

lemma current_updates [simp]: "current (s\<lparr>connectedStr := x\<rparr>) = current s" "current (s\<lparr>disconnectedStr := x\<rparr>) = current s"
  "current (s\<lparr>log_of := lg\<rparr>) = current s" "current (s\<lparr>autoReconnecting := b\<rparr>) = current s"
  "current (s\<lparr>connectedStr := x, disconnectedStr := y\<rparr>) = current s"
  by (simp_all add: current_def)

lemma served_same:
  assumes "world_ok (world_of (agent_of s))" and "m \<noteq> DISCONNECT" and "length rs = 1"
    and "world_of (agent_of s') = world_of (agent_of s)" and "autoReconnecting s' = autoReconnecting s" and "Clients s' = Clients s"
  shows "served m s rs False s'"
proof -
  have "abs_state s' = abs_state s" "current s' = current s" using assms(4) by (simp_all add: abs_state_def current_def)
  with assms show ?thesis by (auto simp: served_def spec_step_id)
qed

lemma served_opened:
  assumes "m \<in> {CONNECT, RECONNECT}" and "current s = None" and "current s' = Some a" and "world_ok (world_of (agent_of s'))"
    and "\<not> ActiveClose (sess_of (agent_of s'))" and "conns (world_of (agent_of s)) a = None" and "length rs = 1"
    and "autoReconnecting s' = autoReconnecting s" and "Clients s' = Clients s"
  shows "served m s rs True s'"
  using assms spec_step.opened [OF assms(1)] by (auto simp: served_def abs_state_def)

lemma served_failed:
  assumes "m \<in> {CONNECT, RECONNECT}" and "current s = None" and "current s' = None" and "world_ok (world_of (agent_of s'))"
    and "ActiveClose (sess_of (agent_of s'))" and "length rs = 1"
    and "autoReconnecting s' = autoReconnecting s" and "Clients s' = Clients s"
  shows "served m s rs False s'"
  using assms spec_step.failed [OF assms(1)] by (auto simp: served_def abs_state_def)

lemma ex_not [simp]: "(\<exists>b. \<not> b \<and> P b) = P False"
  by auto

lemma handleStat_served:
  assumes "world_ok (world_of (agent_of s))"
  shows "\<exists>rs. handleStat s = Inr (rs, [], False, s) \<and> served STAT s rs False s"
proof (cases "current s")
  case None
  with assms show ?thesis by (simp add: handleStat_def served_same)
next
  case (Some a)
  with assms obtain cs where "conns (world_of (agent_of s)) a = Some cs" by (auto simp: current_def elim: currentD)
  with assms Some show ?thesis by (simp add: handleStat_def served_same)
qed

lemma handleStatus_served:
  assumes "world_ok (world_of (agent_of s))"
  shows "handleStatus s = None \<or> (\<exists>rs. handleStatus s = Some (Inr (rs, [], False, s)) \<and> served STATUS s rs False s)"
proof (cases "current s")
  case None
  with assms show ?thesis by (simp add: handleStatus_def statusReply_def served_same)
next
  case (Some a)
  with assms obtain cs where "conns (world_of (agent_of s)) a = Some cs" by (auto simp: current_def elim: currentD)
  with assms Some show ?thesis by (simp add: handleStatus_def statusReply_def served_same)
qed

lemma handleConnect_served:
  assumes w: "world_ok (world_of (agent_of s))"
  shows "\<exists>rs gs mon s'. handleConnect n (Some q) s = Inr (rs, gs, mon, s') \<and> served CONNECT s rs mon s'"
proof (cases "autoReconnecting s \<or> current s \<noteq> None")
  case True
  then have "\<exists>r. handleConnect n (Some q) s = Inr ([r], [], False, s)" by (cases "autoReconnecting s") (simp_all add: handleConnect_def)
  with w show ?thesis by (auto simp: served_same)
next
  case False
  obtain r prof where q: "pProfile q (Prof (agent_of s)) = (r, prof)" by fastforce
  show ?thesis
  proof (cases r)
    case (Some e)
    with w False q show ?thesis by (simp add: handleConnect_def served_same)
  next
    case None
    let ?ag = "(agent_of s)\<lparr>Prof := prof\<rparr>"
    let ?s = "\<lambda>ag. s\<lparr>connectedStr := ''connected to '' @ Host (Prof ag), disconnectedStr := ''disconnected from '' @ Host (Prof ag)\<rparr>"
    let ?k = "\<lambda>gs ag. Inr ([Text (connectedStr (?s ag))], gs, True, setAgent ag (?s ag))"
    have h: "handleConnect n (Some q) s =
        res_bind (Connect n ?ag) (\<lambda>(r, gs, ag). case r of Some e \<Rightarrow> setupFailed e gs ag s | None \<Rightarrow> ?k gs ag)"
      unfolding handleConnect_def Let_def using False q None by simp
    have w': "world_ok (world_of ?ag)" and c: "CSess (sess_of ?ag) = None" using w False by (simp_all add: current_def)
    from w' c show ?thesis
    proof (cases rule: connect.attempt [where ag = ?ag and n = n and s = s and k = ?k])
      case (opened gs ag' a)
      then have "served CONNECT s [Text (connectedStr (?s ag'))] True (setAgent ag' (?s ag'))"
        using False by (intro served_opened [where a = a]) simp_all
      with opened(1) show ?thesis unfolding h by blast
    next
      case (failed e gs ag')
      then have "served CONNECT s [Error e] False (setAgent ag' s)" using False by (intro served_failed) simp_all
      with failed(1) show ?thesis unfolding h by blast
    qed
  qed
qed

lemma handleReconnect_served:
  assumes w: "world_ok (world_of (agent_of s))"
  shows "\<exists>rs gs mon s'. handleReconnect n s = Inr (rs, gs, mon, s') \<and> served RECONNECT s rs mon s'"
proof (cases "current s")
  case (Some a)
  with w show ?thesis by (simp add: handleReconnect_def served_same)
next
  case None
  let ?k = "\<lambda>gs ag. Inr ([Text (connectedStr s)], gs, True, setAgent ag s)"
  have h: "handleReconnect n s =
      res_bind (rpc_SetupTunnel n True (agent_of s)) (\<lambda>(r, gs, ag). case r of Some e \<Rightarrow> setupFailed e gs ag s | None \<Rightarrow> ?k gs ag)"
    using None by (simp add: handleReconnect_def)
  from w None [unfolded current_def] show ?thesis
  proof (cases rule: setup_tunnel.attempt [where ag = "agent_of s" and n = n and rc = True and s = s and k = ?k])
    case (opened gs ag' a)
    then have "served RECONNECT s [Text (connectedStr s)] True (setAgent ag' s)"
      using None by (intro served_opened [where a = a]) simp_all
    with opened(1) show ?thesis unfolding h by blast
  next
    case (failed e gs ag')
    then have "served RECONNECT s [Error e] False (setAgent ag' s)" using None by (intro served_failed) simp_all
    with failed(1) show ?thesis unfolding h by blast
  qed
qed

text \<open>A request to disconnect, with a session or while reconnecting.\<close>

lemma handleDisconnect_ends:
  assumes w: "world_ok (world_of (agent_of s))" and c: "autoReconnecting s \<or> current s \<noteq> None"
  obtains ag' where "handleDisconnect s = Inr (if autoReconnecting s then [Text (disconnectedStr s)] else [], [], False, setAgent ag' s)"
    "world_ok (world_of ag')" "CSess (sess_of ag') = None" "ActiveClose (sess_of ag')" "Cfg ag' = Cfg (agent_of s)" "Prof ag' = Prof (agent_of s)"
    "\<forall>a. current s = Some a \<longrightarrow> closed (world_of ag') (ConnClose a) \<and> closed (world_of ag') (SessClose a)"
proof -
  from DisConnect_spec [OF w] obtain ag' where "DisConnect (agent_of s) = Inr (current s, ag')" "world_ok (world_of ag')" "CSess (sess_of ag') = None"
    "ActiveClose (sess_of ag')" "Cfg ag' = Cfg (agent_of s)" "Prof ag' = Prof (agent_of s)"
    "\<forall>a. current s = Some a \<longrightarrow> closed (world_of ag') (ConnClose a) \<and> closed (world_of ag') (SessClose a)" unfolding current_def by blast
  with c that show ?thesis by (auto simp: handleDisconnect_def)
qed

lemma handleDisconnect_served:
  assumes w: "world_ok (world_of (agent_of s))"
  shows "\<exists>rs s'. handleDisconnect s = Inr (rs, [], False, s') \<and> served DISCONNECT s rs False s'"
proof (cases "autoReconnecting s \<or> current s \<noteq> None")
  case True
  from handleDisconnect_ends [OF w True] obtain ag' where d:
    "handleDisconnect s = Inr (if autoReconnecting s then [Text (disconnectedStr s)] else [], [], False, setAgent ag' s)"
    "world_ok (world_of ag')" "CSess (sess_of ag') = None" "ActiveClose (sess_of ag')" .
  have "spec_step DISCONNECT (abs_state s) (abs_state (setAgent ag' s))"
    using d(3,4) spec_step.ended by (cases "abs_state s") (simp add: abs_state_def)
  with d True show ?thesis by (auto simp: served_def)
next
  case False
  have "spec_step DISCONNECT (abs_state s) (abs_state s)" using False by (auto simp: abs_state_def intro: spec_step.stays)
  with w False show ?thesis by (auto simp: handleDisconnect_def served_def)
qed

lemma handleConfig_served:
  assumes w: "world_ok (world_of (agent_of s))" and q: "snd (pConfig q (Cfg (agent_of s))) \<noteq> None"
  shows "\<exists>rs s'. handleConfig n (Some q) s = Inr (rs, [], False, s') \<and> served CONFIG s rs False s'"
proof -
  obtain r cfg where c: "pConfig q (Cfg (agent_of s)) = (r, Some cfg)" using q by (metis option.exhaust prod.collapse)
  from InitLog_total [of "logFs n" cfg "log_of s"] obtain out lg where l: "InitLog (logFs n) cfg (Some (log_of s)) = Some (out, lg)" by blast
  show ?thesis using w c l by (cases r) (simp_all add: handleConfig_def served_same)
qed

lemma handleInterface_served:
  assumes w: "world_ok (world_of (agent_of s))"
  shows "\<exists>rs s'. handleInterface (Some q) s = Inr (rs, [], False, s') \<and> served INTERFACE s rs False s'"
proof -
  obtain r i where "pInterface q (LocalInterface (agent_of s)) = (r, i)" by fastforce
  with w show ?thesis by (cases r) (simp_all add: handleInterface_def served_same)
qed

lemma Handle_served:
  assumes w: "world_ok (world_of (agent_of s))" and q: "snd (pConfig q (Cfg (agent_of s))) \<noteq> None"
  shows "Handle b n num name (Some q) s = None \<and> method_of num = STATUS \<or>
    (\<exists>rs gs mon s'. Handle b n num name (Some q) s = Some (Inr (rs, gs, mon, s')) \<and> served (method_of num) s rs mon s')"
proof -
  have other: "served m s [r] False s" if "m \<noteq> DISCONNECT" for m r using w that by (simp add: served_same)
  note h = handleStat_served [OF w] handleStatus_served [OF w] handleConnect_served [OF w, of n q] handleReconnect_served [OF w, of n]
    handleDisconnect_served [OF w] handleConfig_served [OF w q, of n] handleInterface_served [OF w, of q]
  show ?thesis
  proof (cases "method_of num")
    case STATUS
    with h(2) show ?thesis by (auto simp: Handle_def)
  next
    case STAT
    with h(1) show ?thesis by (auto simp: Handle_def)
  next
    case CONNECT
    with h(3) show ?thesis by (simp add: Handle_def)
  next
    case RECONNECT
    with h(4) show ?thesis by (simp add: Handle_def)
  next
    case DISCONNECT
    with h(5) show ?thesis by (simp add: Handle_def) blast
  next
    case CONFIG
    with h(6) show ?thesis by (simp add: Handle_def) blast
  next
    case INTERFACE
    with h(7) show ?thesis by (simp add: Handle_def) blast
  qed (simp_all add: Handle_def other)
qed

text \<open>The same for every request that is answered, with or without parameters.\<close>

lemma Handle_answered:
  assumes w: "world_ok (world_of (agent_of s))" and h: "Handle b n num name p s = Some (Inr (rs, gs, mon, s'))"
  shows "served (method_of num) s rs mon s'"
proof -
  obtain q where q: "snd (pConfig q (Cfg (agent_of s))) \<noteq> None" and eq: "Handle b n num name p s = Handle b n num name (Some q) s"
  proof (cases "\<exists>q. p = Some q \<and> snd (pConfig q (Cfg (agent_of s))) \<noteq> None")
    case True
    with that show ?thesis by blast
  next
    case False
    let ?q = "case p of None \<Rightarrow> \<lparr>pProfile = Pair None, pConfig = \<lambda>c. (None, Some c), pInterface = Pair None\<rparr> | Some q \<Rightarrow> q\<lparr>pConfig := \<lambda>c. (None, Some c)\<rparr>"
    have "Handle b n num name p s = Handle b n num name (Some ?q) s"
      using h False by (cases p; cases "method_of num"; cases "pConfig (the p) (Cfg (agent_of s))")
        (auto simp: Handle_def handleConfig_def handleConnect_def handleInterface_def split: if_splits option.splits)
    moreover have "snd (pConfig ?q (Cfg (agent_of s))) \<noteq> None" by (cases p) simp_all
    ultimately show ?thesis using that by blast
  qed
  from Handle_served [OF w q, of b n num name] h eq show ?thesis by auto
qed

subsection \<open>The agent as a whole\<close>

text \<open>
  Requests, clients that come and go, sessions that the channels close, and the reconnection loop
  (\<open>None\<close> when it does not run), in any order.
\<close>

type_synonym agent_system = "rpc_state \<times> ar_local option"

inductive agent_step :: "agent_system \<Rightarrow> agent_system \<Rightarrow> bool" where
  request: "Handle b n num name p s = Some (Inr (rs, gs, mon, s')) \<Longrightarrow> agent_step (s, l) (s', l)"
| join: "agent_step (s, l) (addClient c s, l)"
| leave: "agent_step (s, l) (dropClient c s, l)"
| lost: "ConnSession_Close a (world_of (agent_of s)) = Inr w \<Longrightarrow> agent_step (s, l) (setAgent ((agent_of s)\<lparr>world_of := w\<rparr>) s, l)"
| start: "snd (monitor s) \<Longrightarrow> startAutoReconnect s = Some (l', s') \<Longrightarrow> agent_step (s, l) (s', Some l')"
| loop: "autoReconnect n l s = Inr (mon, l', s') \<Longrightarrow> agent_step (s, Some l) (s', if arPc l' = ArDone then None else Some l')"

definition agent_start :: "rpc_state \<Rightarrow> bool" where
  "agent_start s \<longleftrightarrow> world_of (agent_of s) = fst initial \<and> \<not> autoReconnecting s"

definition loop_ok :: "ar_local \<Rightarrow> bool" where
  "loop_ok l \<longleftrightarrow> arPc l \<noteq> ArDone \<and> 1 \<le> arDelay l \<and> arDelay l \<le> 60"

definition agent_ok :: "agent_system \<Rightarrow> bool" where
  "agent_ok x \<longleftrightarrow> (case x of (s, l) \<Rightarrow>
     world_ok (world_of (agent_of s)) \<and> (current s \<noteq> None \<longrightarrow> \<not> ActiveClose (sess_of (agent_of s))) \<and>
     (autoReconnecting s \<longleftrightarrow> l \<noteq> None) \<and> (\<forall>l'. l = Some l' \<longrightarrow> loop_ok l'))"

lemma abs_meant: "(fst (abs_state s) = Down \<or> \<not> snd (abs_state s)) \<longleftrightarrow> (current s \<noteq> None \<longrightarrow> \<not> ActiveClose (sess_of (agent_of s)))"
  by (auto simp: abs_state_def split: option.splits)

lemma agent_ok_request:
  assumes "agent_ok (s, l)" and "Handle b n num name p s = Some (Inr (rs, gs, mon, s'))"
  shows "agent_ok (s', l)"
proof -
  from assms(1) have "world_ok (world_of (agent_of s))" by (simp add: agent_ok_def)
  from Handle_answered [OF this assms(2)] have v: "served (method_of num) s rs mon s'" .
  then have "spec_step (method_of num) (abs_state s) (abs_state s')" by (simp add: served_def)
  from spec_step_meant [OF this] have "(current s \<noteq> None \<longrightarrow> \<not> ActiveClose (sess_of (agent_of s))) \<Longrightarrow>
      (current s' \<noteq> None \<longrightarrow> \<not> ActiveClose (sess_of (agent_of s')))" by (simp add: abs_meant)
  with v assms(1) show ?thesis by (simp add: agent_ok_def served_def)
qed

lemma closes_Sess: "closes a cs w w' \<Longrightarrow> Sess w' = (if CSess (Sess w) = Some a then (Sess w)\<lparr>CSess := None\<rparr> else Sess w)"
  unfolding closes_def by (elim conjE)

lemma agent_ok_lost:
  assumes "agent_ok (s, l)" and c: "ConnSession_Close a (world_of (agent_of s)) = Inr w"
  shows "agent_ok (setAgent ((agent_of s)\<lparr>world_of := w\<rparr>) s, l)"
proof -
  let ?w = "world_of (agent_of s)"
  from assms(1) have ok: "world_ok ?w" by (simp add: agent_ok_def)
  from c obtain cs where cs: "conns ?w a = Some cs" by (cases "conns ?w a") (simp_all add: ConnSession_Close_def)
  from ConnSession_Close_ok [OF ok cs] c have w: "world_ok w" "if closeOnce cs then w = ?w else closes a cs ?w w" by simp_all
  then have "Sess w = Sess ?w \<or> Sess w = (Sess ?w)\<lparr>CSess := None\<rparr>"
    using closes_Sess [of a cs ?w w] by (cases "closeOnce cs") simp_all
  with w(1) assms(1) show ?thesis by (auto simp: agent_ok_def current_def)
qed

lemma loop_ok_next: "loop_ok l \<Longrightarrow> loop_ok (l\<lparr>arPc := ArTop, arDelay := nextDelay (arDelay l)\<rparr>)"
  by (simp add: loop_ok_def nextDelay_def Let_def)

text \<open>One attempt of the loop.\<close>

lemma autoReconnect_attempt:
  assumes w: "world_ok (world_of (agent_of s))" and pc: "arPc l = ArAttempt"
  obtains (failed) ag where "\<exists>e gs. reconnectOnce n (agent_of s) = Inr (Some e, gs, ag)"
      "autoReconnect n l s = Inr (False, l\<lparr>arPc := ArTop, arDelay := nextDelay (arDelay l)\<rparr>, setAgent ag s)"
      "setup_post (world_of (agent_of s)) (Some []) (world_of ag)"
  | (opened) ag where "\<exists>gs. reconnectOnce n (agent_of s) = Inr (None, gs, ag)"
      "autoReconnect n l s = Inr (True, arReturn l ((setAgent ag s)\<lparr>connectedStr := ''connected to '' @ Host (Prof ag)\<rparr>))"
      "setup_post (world_of (agent_of s)) None (world_of ag)"
proof -
  from reconnect_once.setUp_post [OF w, of n] obtain r gs ag where u: "reconnectOnce n (agent_of s) = Inr (r, gs, ag)"
    "setup_post (world_of (agent_of s)) r (world_of ag)" by blast
  show ?thesis
  proof (cases r)
    case (Some e)
    with u pc show ?thesis by (intro failed) (simp_all add: autoReconnect_def setup_post_def Let_def)
  next
    case None
    with u(2) have "\<not> ActiveClose (sess_of ag)" by (simp add: setup_post_def)
    with u pc None show ?thesis by (intro opened) (simp_all add: autoReconnect_def Let_def)
  qed
qed

lemma arReturn_simps [simp]: "current (snd (arReturn l s)) = current s" "agent_of (snd (arReturn l s)) = agent_of s"
  "\<not> autoReconnecting (snd (arReturn l s))" "arPc (fst (arReturn l s)) = ArDone"
  by (simp_all add: arReturn_def)

lemma agent_ok_return: "agent_ok (s, l) \<Longrightarrow> agent_ok (snd (arReturn l' s), None)"
  by (simp add: agent_ok_def)

lemma agent_ok_loop:
  assumes ok: "agent_ok (s, Some l)" and r: "autoReconnect n l s = Inr (mon, l', s')"
  shows "agent_ok (s', if arPc l' = ArDone then None else Some l')"
proof (cases "arPc l")
  case ArAttempt
  from ok have w: "world_ok (world_of (agent_of s))" and l: "loop_ok l" by (simp_all add: agent_ok_def)
  from w ArAttempt show ?thesis
  proof (cases rule: autoReconnect_attempt [where n = n])
    case (failed ag)
    with ok r show ?thesis by (auto simp: agent_ok_def setup_post_def loop_ok_next current_def)
  next
    case (opened ag)
    let ?s = "(setAgent ag s)\<lparr>connectedStr := ''connected to '' @ Host (Prof ag)\<rparr>"
    have "agent_ok (?s, Some l)" using ok opened(3) by (simp add: agent_ok_def setup_post_def)
    from agent_ok_return [OF this, of l] opened(2) r show ?thesis by (auto simp: prod_eq_iff)
  qed
next
  case ArDone
  with ok show ?thesis by (simp add: agent_ok_def loop_ok_def)
qed (use ok r agent_ok_return [OF ok, of l] in
  \<open>auto simp: autoReconnect_def agent_ok_def loop_ok_def Let_def prod_eq_iff split: if_splits\<close>)

lemma agent_ok_step: "agent_step x y \<Longrightarrow> agent_ok x \<Longrightarrow> agent_ok y"
proof (induction rule: agent_step.induct)
  case (start s l' s' l)
  then show ?case by (auto simp: startAutoReconnect_def agent_ok_def loop_ok_def split: if_splits)
next
  case (join s l c)
  then show ?case by (simp add: agent_ok_def addClient_def current_def)
next
  case (leave s l c)
  then show ?case by (simp add: agent_ok_def dropClient_def current_def)
qed (blast intro: agent_ok_request agent_ok_lost agent_ok_loop)+

lemma agent_ok_start: "agent_start s \<Longrightarrow> agent_ok (s, None)"
  using sys_ok_initial by (simp add: agent_start_def agent_ok_def current_def sys_ok_def) (simp add: initial_def)

lemma agent_reachable_ok: "agent_step\<^sup>*\<^sup>* (s0, None) x \<Longrightarrow> agent_start s0 \<Longrightarrow> agent_ok x"
  by (induction rule: rtranclp_induct) (auto intro: agent_ok_step agent_ok_start)

subsection \<open>The reconnection loop\<close>

text \<open>A round: the check, the sleep and the check after it, the attempt.\<close>

definition arRound :: "net \<Rightarrow> ar_local \<Rightarrow> rpc_state \<Rightarrow> session_panic + bool \<times> ar_local \<times> rpc_state" where
  "arRound n l s =
     res_bind (autoReconnect n l s) (\<lambda>(_, l, s). res_bind (autoReconnect n l s) (\<lambda>(_, l, s). autoReconnect n l s))"

fun arRun :: "net list \<Rightarrow> ar_local \<Rightarrow> rpc_state \<Rightarrow> session_panic + bool \<times> ar_local \<times> rpc_state" where
  "arRun [] l s = Inr (False, l, s)"
| "arRun (n # ns) l s =
     res_bind (arRound n l s) (\<lambda>(mon, l, s). if arPc l = ArDone then Inr (mon, l, s) else arRun ns l s)"

definition wants_session :: "rpc_state \<Rightarrow> bool" where
  "wants_session s \<longleftrightarrow> world_ok (world_of (agent_of s)) \<and> current s = None \<and> \<not> ActiveClose (sess_of (agent_of s))"

lemma arRound_cases:
  assumes s: "wants_session s" and pc: "arPc l = ArTop"
  obtains (failed) ag where "\<exists>e gs. reconnectOnce n (agent_of s) = Inr (Some e, gs, ag)"
      "arRound n l s = Inr (False, l\<lparr>arPc := ArTop, arDelay := nextDelay (arDelay l)\<rparr>, setAgent ag s)"
      "wants_session (setAgent ag s)"
  | (opened) l' s' where "\<exists>gs ag. reconnectOnce n (agent_of s) = Inr (None, gs, ag)" "arRound n l s = Inr (True, l', s')" "arPc l' = ArDone"
      "world_ok (world_of (agent_of s'))" "current s' \<noteq> None" "\<not> ActiveClose (sess_of (agent_of s'))" "\<not> autoReconnecting s'"
proof -
  have r: "arRound n l s = autoReconnect n (l\<lparr>arPc := ArAttempt\<rparr>) s"
    using s pc by (simp add: arRound_def autoReconnect_def wants_session_def Let_def)
  from s have "world_ok (world_of (agent_of s))" by (simp add: wants_session_def)
  moreover have "arPc (l\<lparr>arPc := ArAttempt\<rparr>) = ArAttempt" by simp
  ultimately show ?thesis
  proof (cases rule: autoReconnect_attempt [where n = n])
    case (failed ag)
    then show ?thesis using s r by (intro that(1) [of ag]) (auto simp: wants_session_def setup_post_def current_def)
  next
    case (opened ag)
    obtain l' s' where p: "arReturn (l\<lparr>arPc := ArAttempt\<rparr>) ((setAgent ag s)\<lparr>connectedStr := ''connected to '' @ Host (Prof ag)\<rparr>) = (l', s')" by fastforce
    then have "l' = l\<lparr>arPc := ArDone\<rparr>" "s' = ((setAgent ag s)\<lparr>connectedStr := ''connected to '' @ Host (Prof ag)\<rparr>)\<lparr>autoReconnecting := False\<rparr>"
      by (auto simp: arReturn_def)
    with opened r p show ?thesis by (intro that(2) [of l' s']) (auto simp: setup_post_def)
  qed
qed

text \<open>A network on which everything works, and that asks for no user group.\<close>

definition net_up :: "net \<Rightarrow> bool" where
  "net_up n \<longleftrightarrow> (\<exists>i. localIf n = Inr i) \<and> dialErr n = None \<and>
     (\<exists>dtd. accepted (parseXML (tunEnv n)) (initOut n) dtd \<and> DocType dtd = ''auth-request'' \<and> Groups (Form (Auth dtd)) = []) \<and>
     (\<exists>dtd. accepted (parseXML (tunEnv n)) (authOut1 n) dtd \<and> DocType dtd = ''complete'' \<and> ErrValue (DocError dtd) = [] \<and>
        ErrValue (AuthError (Auth dtd)) = []) \<and>
     writeErr (tunEnv n) = None \<and> (\<exists>t h. response (tunEnv n) = Inr (200, t, h)) \<and> createErr (tunEnv n) = None \<and>
     configErr (tunEnv n) = None \<and> routesErr (tunEnv n) = None"

lemma tplPost_accepted:
  assumes "accepted un out dtd" and "DocType dtd = ''complete'' \<Longrightarrow> ErrValue (DocError dtd) = [] \<and> ErrValue (AuthError (Auth dtd)) = []"
  shows "\<exists>ag'. tplPost un init path out ag = (Inr dtd, ag')"
  using assms by (cases out) (auto simp: accepted_def tplPost_def Let_def split_beta)

lemma SetupTunnel_succeeds:
  assumes "writeErr e = None" and "response e = Inr (200, t, h)" and "createErr e = None" and "configErr e = None" and "routesErr e = None"
  shows "\<exists>gs ag'. SetupTunnel e ag = Inr (None, gs, ag')"
  using assms by (simp add: SetupTunnel_def setupTun_def NewConnSession_def updConn_def Let_def split_beta)

lemma reconnectOnce_succeeds:
  assumes "net_up n"
  shows "\<exists>gs ag'. reconnectOnce n ag = Inr (None, gs, ag')"
proof -
  let ?un = "parseXML (tunEnv n)"
  from assms obtain i dtd1 dtd2 t h where n: "localIf n = Inr i" "dialErr n = None" "accepted ?un (initOut n) dtd1" "DocType dtd1 = ''auth-request''"
    "Groups (Form (Auth dtd1)) = []" "accepted ?un (authOut1 n) dtd2" "DocType dtd2 = ''complete''" "ErrValue (DocError dtd2) = []"
    "ErrValue (AuthError (Auth dtd2)) = []" "writeErr (tunEnv n) = None" "response (tunEnv n) = Inr (200, t, h)" "createErr (tunEnv n) = None"
    "configErr (tunEnv n) = None" "routesErr (tunEnv n) = None"
    unfolding net_up_def by (elim conjE exE) (rule that)
  let ?ag = "ag\<lparr>WebVpnCookie := [], cookies := [], ConnOpen := True,
      Prof := (Prof ag)\<lparr>AppVersion := AgentVersion (Cfg ag), MacAddress := Mac (LocalInterface ag)\<rparr>\<rparr>"
  from tplPost_accepted [OF n(3), of True "[]" ?ag] n(4) obtain ag0 where "tplPost ?un True [] (initOut n) ?ag = (Inr dtd1, ag0)" by auto
  then have "\<exists>ag'. InitAuth ?un (dialErr n) (initOut n) ag = (None, ag')"
    using n(2,5) by (simp add: InitAuth_def Let_def)
  then obtain ag1 where i: "InitAuth ?un (dialErr n) (initOut n) ag = (None, ag1)" by blast
  from tplPost_accepted [OF n(6), of False "AuthPath (Prof ag1)" ag1] n(7-9)
  obtain ag2 where "tplPost ?un False (AuthPath (Prof ag1)) (authOut1 n) ag1 = (Inr dtd2, ag2)" by auto
  then obtain ag3 where p: "PasswordAuth ?un (errorf n) (authOut1 n) (authOut2 n) ag1 = (None, ag3)"
    using n(7-9) by (auto simp: PasswordAuth_def Let_def)
  have "\<exists>gs ag'. rpc_SetupTunnel n True ag3 = Inr (None, gs, ag')"
    using SetupTunnel_succeeds [OF n(10-14)] n(1) by (simp add: rpc_SetupTunnel_def GetLocalInterface_def)
  then show ?thesis using i p by (simp add: reconnectOnce_def authAndTunnel_def)
qed

lemma nextDelay_capped: "nextDelay (min (2 ^ k) 60) = min (2 ^ Suc k) 60"
  by (simp add: nextDelay_def min_def)

lemma arRun_cases:
  assumes "wants_session s" and "arPc l = ArTop" and "arDelay l = min (2 ^ k) 60"
  shows "\<exists>mon l' s'. arRun ns l s = Inr (mon, l', s') \<and>
    (if arPc l' = ArDone then mon \<and> current s' \<noteq> None \<and> \<not> ActiveClose (sess_of (agent_of s')) \<and> \<not> autoReconnecting s'
     else \<not> mon \<and> wants_session s' \<and> arDelay l' = min (2 ^ (k + length ns)) 60)"
  using assms
proof (induction ns arbitrary: l s k)
  case Nil
  then show ?case by auto
next
  case (Cons n ns)
  from Cons.prems(1,2) show ?case
  proof (cases rule: arRound_cases [where n = n])
    case (failed ag)
    have d: "nextDelay (arDelay l) = min (2 ^ Suc k) 60" by (simp only: Cons.prems(3) nextDelay_capped)
    have "\<exists>mon l' s'. arRun ns (l\<lparr>arPc := ArTop, arDelay := nextDelay (arDelay l)\<rparr>) (setAgent ag s) = Inr (mon, l', s') \<and>
      (if arPc l' = ArDone then mon \<and> current s' \<noteq> None \<and> \<not> ActiveClose (sess_of (agent_of s')) \<and> \<not> autoReconnecting s'
       else \<not> mon \<and> wants_session s' \<and> arDelay l' = min (2 ^ (Suc k + length ns)) 60)"
      using d by (intro Cons.IH [OF failed(3)]) simp_all
    moreover have "arRun (n # ns) l s = arRun ns (l\<lparr>arPc := ArTop, arDelay := nextDelay (arDelay l)\<rparr>) (setAgent ag s)"
      using failed(2) by simp
    ultimately show ?thesis by (simp only: length_Cons add_Suc_right add_Suc)
  next
    case (opened l' s')
    then show ?thesis by auto
  qed
qed

lemma arRun_up:
  assumes "wants_session s" and "arPc l = ArTop" and "net_up n"
  shows "\<exists>l' s'. arRun (ns @ [n]) l s = Inr (True, l', s') \<and> arPc l' = ArDone \<and> current s' \<noteq> None \<and>
    \<not> ActiveClose (sess_of (agent_of s')) \<and> \<not> autoReconnecting s'"
  using assms(1,2)
proof (induction ns arbitrary: l s)
  case Nil
  from Nil show ?case
  proof (cases rule: arRound_cases [where n = n])
    case (failed ag)
    with reconnectOnce_succeeds [OF assms(3), of "agent_of s"] show ?thesis by auto
  qed simp
next
  case (Cons m ns)
  from Cons.prems show ?case
  proof (cases rule: arRound_cases [where n = m])
    case (failed ag)
    have "\<exists>l' s'. arRun (ns @ [n]) (l\<lparr>arPc := ArTop, arDelay := nextDelay (arDelay l)\<rparr>) (setAgent ag s) = Inr (True, l', s') \<and>
      arPc l' = ArDone \<and> current s' \<noteq> None \<and> \<not> ActiveClose (sess_of (agent_of s')) \<and> \<not> autoReconnecting s'"
      by (intro Cons.IH [OF failed(3)]) simp
    with failed(2) show ?thesis by simp
  qed simp
qed

subsection \<open>Samples\<close>

definition sample_net :: net where
  "sample_net = \<lparr>localIf = Inr sample_ifc, dialErr = None, initOut = Responded 200 ''OK'' [] ''init'', authOut1 = Responded 200 ''OK'' [] [],
     authOut2 = ReadFailed [], errorf = (\<lambda>f _. f),
     tunEnv = sample_env\<lparr>routesErr := None, parseXML := (\<lambda>b. (None, if b = ''init'' then (sample_dtd [] [])\<lparr>DocType := ''auth-request''\<rparr> else sample_dtd ''t'' []))\<rparr>,
     logFs = \<lparr>mkdirErr = None, openErr = None\<rparr>\<rparr>"

definition sample_logger :: logger where
  "sample_logger = \<lparr>baseWriter = \<lparr>UseStdout = True, FileName = logName, LogFile = Some Stdout\<rparr>, baseLevel = 1\<rparr>"

definition sample_state :: "bool \<Rightarrow> rpc_state" where
  "sample_state b = \<lparr>agent_of = sample_agent, connectedStr = [], disconnectedStr = ''bye'', autoReconnecting = b, log_of = sample_logger, Clients = [1, 2]\<rparr>"

definition sample_params :: params where
  "sample_params = \<lparr>pProfile = Pair None, pConfig = (\<lambda>c. (None, Some c)), pInterface = Pair None\<rparr>"

definition sample_build :: build where
  "sample_build = \<lparr>bVersion = ''2.1.3'', bCommit = [], bGoVersion = ''go''\<rparr>"

lemma sample_net_up: "net_up sample_net"
  by (simp add: net_up_def sample_net_def accepted_def sample_env_def sample_dtd_def Let_def)

lemma sample_state_ok: "world_ok (world_of (agent_of (sample_state b)))" "current (sample_state b) = None"
  "\<not> ActiveClose (sess_of (agent_of (sample_state b)))" "autoReconnecting (sample_state b) = b" "agent_start (sample_state False)"
  using sample_agent_ok by (simp_all add: sample_state_def current_def agent_start_def initial_def) (simp_all add: sample_agent_def)

definition sample_up :: rpc_state where
  "sample_up = setAgent (sample_agent\<lparr>Cfg := sample_cfg\<lparr>NoDTLS := True\<rparr>, world_of := updConn 0 (\<lambda>cs. cs\<lparr>DTLSPort := ''443''\<rparr>) sample_world\<rparr>)
     (sample_state False)"

lemma sample_up_ok: "current sample_up = Some 0" "NoDTLS (Cfg (agent_of sample_up))" "\<not> closed (world_of (agent_of sample_up)) (DtlsSetup 0)"
  "\<exists>cs. conns (world_of (agent_of sample_up)) 0 = Some cs \<and> DTLSPort cs = ''443''" "world_ok (world_of (agent_of sample_up))"
proof -
  have w: "world_ok sample_world" using reachable_ok [OF sample_world_reachable] by (simp add: sys_ok_def)
  from sample_world_conn(1) obtain cs where cs: "conns sample_world 0 = Some cs" by blast
  show "current sample_up = Some 0" "NoDTLS (Cfg (agent_of sample_up))" "\<exists>cs. conns (world_of (agent_of sample_up)) 0 = Some cs \<and> DTLSPort cs = ''443''"
    using sample_world_conn cs by (auto simp: sample_up_def updConn_def)
  show "\<not> closed (world_of (agent_of sample_up)) (DtlsSetup 0)"
    by (simp add: sample_up_def updConn_def sample_world_def NewConnSession_def initial_def Let_def split: option.split)
  show "world_ok (world_of (agent_of sample_up))" using w by (simp add: sample_up_def world_ok_updConn)
qed

subsection \<open>Properties\<close>







text \<open>
  C32. The race that makes C31 fail at the third point of the loop: a request to disconnect that
  arrives after the second check is answered as disconnected, but if the attempt that follows
  succeeds, \<open>NewConnSession\<close> has cleared the mark before the check after the attempt reads it; the
  session stays up and is monitored.
\<close>

theorem lost_disconnect:
  assumes "world_ok (world_of (agent_of s))" and "autoReconnecting s" and "arPc l = ArAttempt" and "net_up n"
  shows "\<exists>s1 l2 s2. Handle b n 3 name p s = Some (Inr ([Text (disconnectedStr s)], [], False, s1)) \<and>
    ActiveClose (Sess (world_of (agent_of s1))) \<and>
    autoReconnect n l s1 = Inr (True, l2, s2) \<and> current s2 \<noteq> None \<and> \<not> ActiveClose (Sess (world_of (agent_of s2)))"
proof -
  from handleDisconnect_ends [OF assms(1)] assms(2) obtain ag' where d:
    "handleDisconnect s = Inr ([Text (disconnectedStr s)], [], False, setAgent ag' s)" "world_ok (world_of ag')" "ActiveClose (sess_of ag')" by auto
  have h: "Handle b n 3 name p s = Some (handleDisconnect s)" by (simp add: Handle_def method_of_def)
  from d(2) have "world_ok (world_of (agent_of (setAgent ag' s)))" by simp
  then have "\<exists>l2 s2. autoReconnect n l (setAgent ag' s) = Inr (True, l2, s2) \<and> current s2 \<noteq> None \<and> \<not> ActiveClose (sess_of (agent_of s2))"
    using assms(3)
  proof (cases rule: autoReconnect_attempt [where n = n])
    case (failed ag)
    with reconnectOnce_succeeds [OF assms(4), of ag'] show ?thesis by auto
  next
    case (opened ag)
    then show ?thesis by (auto simp: setup_post_def arReturn_def)
  qed
  with h d show ?thesis by auto
qed

theorem lost_disconnect_witness:
  "\<exists>s1 l2 s2. Handle sample_build sample_net 3 [] None (sample_state True) = Some (Inr ([Text ''bye''], [], False, s1)) \<and>
     autoReconnect sample_net \<lparr>arPc = ArAttempt, arDelay = 1\<rparr> s1 = Inr (True, l2, s2) \<and> current s2 \<noteq> None"
proof -
  have "disconnectedStr (sample_state True) = ''bye''" by (simp add: sample_state_def)
  with lost_disconnect [of "sample_state True" "\<lparr>arPc = ArAttempt, arDelay = 1\<rparr>" sample_net sample_build "[]" None]
    sample_state_ok sample_net_up show ?thesis by auto
qed

text \<open>
  C33. The reconnection loop gets there: whatever the network did in the attempts before, the first
  attempt on a working network at the latest ends the loop with a session up, monitored,
  and the flag of the loop cleared.
\<close>

theorem reconnect_eventually:
  assumes "world_ok (world_of (agent_of s))" and "current s = None" and "\<not> ActiveClose (Sess (world_of (agent_of s)))"
    and "startAutoReconnect s = Some (l, s1)" and "net_up n"
  shows "\<exists>l' s'. arRun (ns @ [n]) l s1 = Inr (True, l', s') \<and> arPc l' = ArDone \<and> current s' \<noteq> None \<and>
    \<not> ActiveClose (Sess (world_of (agent_of s'))) \<and> \<not> autoReconnecting s'"
proof -
  from assms(4) have l: "arPc l = ArTop" and s1: "s1 = s\<lparr>autoReconnecting := True\<rparr>" by (auto simp: startAutoReconnect_def split: if_splits)
  from assms(1-3) have "wants_session s1" by (simp add: wants_session_def s1)
  from arRun_up [OF this l assms(5)] show ?thesis .
qed

theorem reconnect_eventually_witness:
  "\<exists>l s1 l' s'. startAutoReconnect (sample_state False) = Some (l, s1) \<and>
     arRun [sample_net\<lparr>dialErr := Some ''down''\<rparr>, sample_net] l s1 = Inr (True, l', s') \<and> current s' \<noteq> None"
proof -
  obtain l s1 where ls: "startAutoReconnect (sample_state False) = Some (l, s1)" by (simp add: startAutoReconnect_def sample_state_def)
  from reconnect_eventually [OF sample_state_ok(1-3) ls sample_net_up, of "[sample_net\<lparr>dialErr := Some ''down''\<rparr>]"] ls
  show ?thesis by auto
qed

text \<open>
  The back-off in closed form: after any number of attempts the loop has either
  ended with a session up, or it still has none and waits \<open>min (2 ^ n) 60\<close> seconds before
  the next attempt, \<open>n\<close> being the number of attempts made.
\<close>

theorem reconnect_backoff:
  assumes "world_ok (world_of (agent_of s))" and "current s = None" and "\<not> ActiveClose (Sess (world_of (agent_of s)))"
    and "startAutoReconnect s = Some (l, s1)"
  shows "\<exists>mon l' s'. arRun ns l s1 = Inr (mon, l', s') \<and>
    (if arPc l' = ArDone then mon \<and> current s' \<noteq> None
     else \<not> mon \<and> current s' = None \<and> arDelay l' = min (2 ^ length ns) 60)"
proof -
  from assms(4) have l: "arPc l = ArTop" "arDelay l = min (2 ^ 0) 60" and s1: "s1 = s\<lparr>autoReconnecting := True\<rparr>"
    by (auto simp: startAutoReconnect_def split: if_splits)
  from assms(1-3) have "wants_session s1" by (simp add: wants_session_def s1)
  from arRun_cases [OF this l, of ns] show ?thesis unfolding wants_session_def by (auto split: if_splits)
qed

theorem reconnect_backoff_witness:
  "\<exists>l s1 mon l' s'. startAutoReconnect (sample_state False) = Some (l, s1) \<and>
     arRun (replicate 7 (sample_net\<lparr>dialErr := Some ''down''\<rparr>)) l s1 = Inr (mon, l', s') \<and> (arPc l' = ArDone \<or> arDelay l' = 60)"
proof -
  obtain l s1 where ls: "startAutoReconnect (sample_state False) = Some (l, s1)" by (simp add: startAutoReconnect_def sample_state_def)
  from reconnect_backoff [OF sample_state_ok(1-3) ls, of "replicate 7 (sample_net\<lparr>dialErr := Some ''down''\<rparr>)"] ls
  show ?thesis by (auto split: if_splits)
qed

text \<open>
  \<open>STATUS\<close> can wait for ever: with a session that was set up without DTLS although the server
  offered a port, \<open>STATUS\<close> is answered; after a \<open>CONFIG\<close> that allows DTLS it waits for the end of a
  DTLS set-up that nobody started, although nothing changed for the session.
\<close>

theorem status_waits:
  assumes "world_ok (world_of (agent_of s))" and "current s = Some a" and "conns (world_of (agent_of s)) a = Some cs" and "DTLSPort cs \<noteq> []"
    and "\<not> closed (world_of (agent_of s)) (DtlsSetup a)" and "NoDTLS (Cfg (agent_of s))"
    and "pConfig q (Cfg (agent_of s)) = (None, Some cfg)" and "\<not> NoDTLS cfg"
  shows "Handle b n 0 name p s = Some (Inr ([Status cs], [], False, s)) \<and>
    (\<exists>rs s'. Handle b n 1 name (Some q) s = Some (Inr (rs, [], False, s')) \<and> current s' = Some a \<and>
       Handle b n 0 name p s' = None)"
proof -
  from conn_okD [OF assms(1,3)] have c: "DtlsSetupChan cs = DtlsSetup a" by blast
  from InitLog_total [of "logFs n" cfg "log_of s"] obtain out lg where l: "InitLog (logFs n) cfg (Some (log_of s)) = Some (out, lg)" by blast
  let ?s = "(setAgent ((agent_of s)\<lparr>Cfg := cfg\<rparr>) s)\<lparr>log_of := lg\<rparr>"
  have "Handle b n 1 name (Some q) s = Some (Inr ([Text ''ready to connect''], [], False, ?s))"
    using assms(7) l by (simp add: Handle_def method_of_def handleConfig_def)
  moreover have "Handle b n 0 name p s = Some (Inr ([Status cs], [], False, s))"
    using assms by (simp add: Handle_def method_of_def handleStatus_def statusReply_def)
  moreover have "Handle b n 0 name p ?s = None"
    using assms c by (simp add: Handle_def method_of_def handleStatus_def current_def)
  moreover have "current ?s = Some a" using assms(2) by (simp add: current_def)
  ultimately show ?thesis by blast
qed

theorem status_waits_witness:
  "\<exists>rs s'. Handle sample_build sample_net 1 [] (Some (sample_params\<lparr>pConfig := \<lambda>c. (None, Some (c\<lparr>NoDTLS := False\<rparr>))\<rparr>)) sample_up =
      Some (Inr (rs, [], False, s')) \<and> Handle sample_build sample_net 0 [] None s' = None"
proof -
  let ?q = "sample_params\<lparr>pConfig := \<lambda>c. (None, Some (c\<lparr>NoDTLS := False\<rparr>))\<rparr>"
  obtain cs where cs: "conns (world_of (agent_of sample_up)) 0 = Some cs" "DTLSPort cs \<noteq> []" using sample_up_ok(4) by auto
  have q: "pConfig ?q (Cfg (agent_of sample_up)) = (None, Some ((Cfg (agent_of sample_up))\<lparr>NoDTLS := False\<rparr>))" by simp
  from status_waits [OF sample_up_ok(5,1) cs sample_up_ok(3,2) q, of sample_build sample_net "[]" None] show ?thesis by auto
qed

end
