(* ===== verification/Teardown.thy ===== *)
theory Teardown
  imports Rpc "HOL-Library.Option_ord"
begin

text \<open>
  The end of a session.  Four parts of the program take part in it, each a goroutine of its own:
  the set-up that is still under way (\<open>src/vpn/tunnel.go\<close>, \<open>src/vpn/tun.go\<close>), the two loops of the tun
  device with their deferred functions (\<open>src/vpn/tun.go\<close>), the request to disconnect
  (\<open>src/rpc/connect.go\<close>) and every channel or timer that closes the session because the connection
  is lost.  They share the session heap, the flag \<open>ActiveClose\<close> and the routing table.  Each
  read or write of the shared state is a step, so that the theory covers every interleaving; the
  routing table is seen as the sequence of calls that set and reset the routes of a session.
\<close>

subsection \<open>The processes\<close>

datatype route_call = RoutesSet nat | RoutesReset nat

text \<open>\<open>SetupTunnel\<close> after \<open>NewConnSession\<close>: create the device, set the routes, or close the session.\<close>

datatype setup_pc = SetupTun | SetupRoutes | SetupAbort | SetupReturned

text \<open>\<open>payloadInToTun\<close>: its loop, then the deferred function line by line.\<close>

datatype in_pc = InLoop | InCheck | InReset | InClose | InDev | InExited

text \<open>\<open>tunToPayloadOut\<close>: its loop, then the deferred function.\<close>

datatype out_pc = OutLoop | OutDev | OutExited

text \<open>\<open>DisConnect\<close>: mark, compare with nil, reset the routes, close.\<close>

datatype dis_pc = DisMark | DisCheck | DisReset | DisClose

record ends =
  heap :: world
  routes :: "route_call list"
  devClosed :: "nat \<Rightarrow> bool"
  setupPc :: "nat \<Rightarrow> setup_pc option"
  inPc :: "nat \<Rightarrow> in_pc option"
  outPc :: "nat \<Rightarrow> out_pc option"
  disPc :: "nat \<Rightarrow> dis_pc option"

definition closeIn :: "nat \<Rightarrow> ends \<Rightarrow> session_panic + ends" where
  "closeIn a s = res_bind (ConnSession_Close a (heap s)) (\<lambda>w. Inr (s\<lparr>heap := w\<rparr>))"

text \<open>
  One step of the set-up of session \<open>a\<close>; \<open>ok\<close> says whether the device, or the routes, could be set
  up.  The two loops start as soon as the device is there, before the routes are set; routes that
  could only be set in part count as set.
\<close>

definition setupStep :: "bool \<Rightarrow> nat \<Rightarrow> ends \<Rightarrow> (session_panic + ends) option" where
  "setupStep ok a s =
     (case setupPc s a of
        None \<Rightarrow> None
      | Some SetupTun \<Rightarrow>
          Some (Inr (if ok
            then s\<lparr>setupPc := (setupPc s)(a \<mapsto> SetupRoutes), inPc := (inPc s)(a \<mapsto> InLoop), outPc := (outPc s)(a \<mapsto> OutLoop)\<rparr>
            else s\<lparr>setupPc := (setupPc s)(a \<mapsto> SetupAbort)\<rparr>))
      | Some SetupRoutes \<Rightarrow>
          Some (Inr (s\<lparr>routes := routes s @ [RoutesSet a],
            setupPc := (setupPc s)(a \<mapsto> if ok then SetupReturned else SetupAbort)\<rparr>))
      | Some SetupAbort \<Rightarrow> Some (closeIn a (s\<lparr>setupPc := (setupPc s)(a \<mapsto> SetupReturned)\<rparr>))
      | Some SetupReturned \<Rightarrow> None)"

text \<open>
  One step of \<open>payloadInToTun\<close>.  The loop is left when the close signal is received or the device
  refuses a packet (\<open>failed\<close>); the deferred function then reads \<open>ActiveClose\<close>, which belongs to the
  program and not to this session.
\<close>

definition inStep :: "bool \<Rightarrow> nat \<Rightarrow> ends \<Rightarrow> (session_panic + ends) option" where
  "inStep failed a s =
     (case inPc s a of
        None \<Rightarrow> None
      | Some InLoop \<Rightarrow>
          (case conns (heap s) a of
             None \<Rightarrow> Some (Inl NilPointer)
           | Some cs \<Rightarrow> if failed \<or> closed (heap s) (CloseChan cs) then Some (Inr (s\<lparr>inPc := (inPc s)(a \<mapsto> InCheck)\<rparr>)) else None)
      | Some InCheck \<Rightarrow> Some (Inr (s\<lparr>inPc := (inPc s)(a \<mapsto> if ActiveClose (Sess (heap s)) then InClose else InReset)\<rparr>))
      | Some InReset \<Rightarrow> Some (Inr (s\<lparr>routes := routes s @ [RoutesReset a], inPc := (inPc s)(a \<mapsto> InClose)\<rparr>))
      | Some InClose \<Rightarrow> Some (closeIn a (s\<lparr>inPc := (inPc s)(a \<mapsto> InDev)\<rparr>))
      | Some InDev \<Rightarrow> Some (Inr (s\<lparr>devClosed := (devClosed s)(a := True), inPc := (inPc s)(a \<mapsto> InExited)\<rparr>))
      | Some InExited \<Rightarrow> None)"

text \<open>
  One step of \<open>tunToPayloadOut\<close>.  Its loop is left when reading fails, which it does on a closed
  device and may do at any time (\<open>ReadFailed\<close>), and when a packet for the TLS channel meets the
  close signal.
\<close>

datatype out_event = ReadClosed | ReadFailed | ReadPacket

definition outStep :: "out_event \<Rightarrow> nat \<Rightarrow> ends \<Rightarrow> (session_panic + ends) option" where
  "outStep ev a s =
     (case outPc s a of
        None \<Rightarrow> None
      | Some OutLoop \<Rightarrow>
          (case conns (heap s) a of
             None \<Rightarrow> Some (Inl NilPointer)
           | Some cs \<Rightarrow>
               if (case ev of ReadClosed \<Rightarrow> devClosed s a | ReadFailed \<Rightarrow> True
                   | ReadPacket \<Rightarrow> \<not> devClosed s a \<and> \<not> DtlsConnected cs \<and> closed (heap s) (CloseChan cs))
               then Some (Inr (s\<lparr>outPc := (outPc s)(a \<mapsto> OutDev)\<rparr>)) else None)
      | Some OutDev \<Rightarrow> Some (Inr (s\<lparr>devClosed := (devClosed s)(a := True), outPc := (outPc s)(a \<mapsto> OutExited)\<rparr>))
      | Some OutExited \<Rightarrow> None)"

text \<open>
  One step of \<open>DisConnect\<close> for request \<open>i\<close>.  The code names \<open>session.Sess.CSess\<close> three times; each
  time it is read anew, so the value compared with nil is not the one whose routes are reset,
  nor that one the session which is closed.
\<close>

definition disStep :: "nat \<Rightarrow> ends \<Rightarrow> (session_panic + ends) option" where
  "disStep i s =
     (let w = heap s in
      case disPc s i of
        None \<Rightarrow> None
      | Some DisMark \<Rightarrow>
          Some (Inr (s\<lparr>heap := w\<lparr>Sess := (Sess w)\<lparr>ActiveClose := True\<rparr>\<rparr>, disPc := (disPc s)(i \<mapsto> DisCheck)\<rparr>))
      | Some DisCheck \<Rightarrow> Some (Inr (s\<lparr>disPc := (disPc s)(i := if CSess (Sess w) = None then None else Some DisReset)\<rparr>))
      | Some DisReset \<Rightarrow>
          (case CSess (Sess w) of
             None \<Rightarrow> Some (Inl NilPointer)
           | Some a \<Rightarrow> Some (Inr (s\<lparr>routes := routes s @ [RoutesReset a], disPc := (disPc s)(i \<mapsto> DisClose)\<rparr>)))
      | Some DisClose \<Rightarrow>
          (case CSess (Sess w) of
             None \<Rightarrow> Some (Inl NilPointer)
           | Some a \<Rightarrow> Some (closeIn a (s\<lparr>disPc := (disPc s)(i := None)\<rparr>))))"

subsection \<open>All interleavings\<close>

datatype label = Opened | Setup bool nat | InTun bool nat | OutTun out_event nat | DisStart nat | Dis nat | Lost nat

text \<open>The process whose turn it is, and what it does; \<open>None\<close> if it cannot move.\<close>

fun turn :: "label \<Rightarrow> ends \<Rightarrow> (session_panic + ends) option" where
  "turn (Setup ok a) s = setupStep ok a s"
| "turn (InTun failed a) s = inStep failed a s"
| "turn (OutTun ev a) s = outStep ev a s"
| "turn (DisStart i) s = (if disPc s i = None then Some (Inr (s\<lparr>disPc := (disPc s)(i \<mapsto> DisMark)\<rparr>)) else None)"
| "turn (Dis i) s = disStep i s"
| "turn (Lost a) s = (if conns (heap s) a = None then None else Some (closeIn a s))"
| "turn Opened s = None"

inductive ends_step :: "label \<Rightarrow> ends \<Rightarrow> ends \<Rightarrow> bool" where
  opened: "NewConnSession cfg ifc unmarshal now h (heap s) = (a, w) \<Longrightarrow>
     ends_step Opened s (s\<lparr>heap := w, setupPc := (setupPc s)(a \<mapsto> SetupTun)\<rparr>)"
| moved: "turn l s = Some (Inr s') \<Longrightarrow> ends_step l s s'"

text \<open>
  Runs of a labelled system whose every step satisfies a guard on the label and the state, and the
  rule for invariants of what such runs reach.
\<close>

definition runs_within :: "('l \<Rightarrow> 's \<Rightarrow> bool) \<Rightarrow> ('l \<Rightarrow> 's \<Rightarrow> 's \<Rightarrow> bool) \<Rightarrow> 's \<Rightarrow> 's \<Rightarrow> bool" where
  "runs_within guard step = (\<lambda>s s'. \<exists>l. guard l s \<and> step l s s')\<^sup>*\<^sup>*"

lemma runs_within_refl: "runs_within guard step s s"
  by (simp add: runs_within_def)

lemma runs_within_step: "guard l s \<Longrightarrow> step l s s1 \<Longrightarrow> runs_within guard step s1 s' \<Longrightarrow> runs_within guard step s s'"
  unfolding runs_within_def by (rule converse_rtranclp_into_rtranclp [where b = s1]) blast+

locale guarded_invariant =
  fixes step :: "'l \<Rightarrow> 's \<Rightarrow> 's \<Rightarrow> bool" and guard :: "'l \<Rightarrow> 's \<Rightarrow> bool" and start :: 's and inv :: "'s \<Rightarrow> bool"
  assumes inv_start: "inv start"
    and inv_step: "guard l s \<Longrightarrow> step l s s' \<Longrightarrow> inv s \<Longrightarrow> inv s'"
begin

lemma inv_reached: "runs_within guard step start s \<Longrightarrow> inv s"
  unfolding runs_within_def by (induction rule: rtranclp_induct) (use inv_start inv_step in blast)+

end

definition ends_start :: ends where
  "ends_start = \<lparr>heap = fst initial, routes = [], devClosed = (\<lambda>_. False), setupPc = Map.empty, inPc = Map.empty,
     outPc = Map.empty, disPc = Map.empty\<rparr>"

definition ends_reachable :: "ends \<Rightarrow> bool" where
  "ends_reachable s \<longleftrightarrow> runs_within (\<lambda>_ _. True) ends_step ends_start s"

text \<open>A schedule that can be run: the set-up of a new session with fixed answers, and turns.\<close>

fun play :: "(world \<Rightarrow> nat \<times> world) \<Rightarrow> label list \<Rightarrow> ends \<Rightarrow> (session_panic + ends) option" where
  "play new [] s = Some (Inr s)"
| "play new (l # ls) s =
     (case (if l = Opened then (case new (heap s) of (a, w) \<Rightarrow> Some (Inr (s\<lparr>heap := w, setupPc := (setupPc s)(a \<mapsto> SetupTun)\<rparr>)))
            else turn l s) of
        None \<Rightarrow> None
      | Some (Inl p) \<Rightarrow> Some (Inl p)
      | Some (Inr s') \<Rightarrow> play new ls s')"

subsection \<open>What holds in every interleaving\<close>

text \<open>The part of the heap that the ends of a session depend on, and what a \<open>Close\<close> does to it.\<close>

definition shut :: "nat \<Rightarrow> world \<Rightarrow> world \<Rightarrow> bool" where
  "shut a w w' \<longleftrightarrow> closed w' (ConnClose a) \<and> (\<forall>b. closed w (ConnClose b) \<longrightarrow> closed w' (ConnClose b)) \<and>
     (\<forall>b. (conns w' b = None) = (conns w b = None)) \<and>
     CSess (Sess w') = (if CSess (Sess w) = Some a then None else CSess (Sess w)) \<and>
     ActiveClose (Sess w') = ActiveClose (Sess w) \<and> nextAddr w' = nextAddr w"

lemma closed_not_current: "world_ok w \<Longrightarrow> closed w (ConnClose a) \<Longrightarrow> CSess (Sess w) \<noteq> Some a"
proof -
  assume w: "world_ok w" and a: "closed w (ConnClose a)"
  have "conn_ok w a" "current_ok w" using w by (simp_all add: world_ok_def)
  with a show ?thesis by (auto simp: conn_ok_def current_ok_def)
qed

lemma close_shut:
  assumes w: "world_ok w" and "conns w a \<noteq> None"
  shows "\<exists>w'. ConnSession_Close a w = Inr w' \<and> world_ok w' \<and> shut a w w'"
proof -
  from assms(2) obtain cs where cs: "conns w a = Some cs" by auto
  from ConnSession_Close_ok [OF w cs] obtain w' where w':
    "ConnSession_Close a w = Inr w'" "world_ok w'" "if closeOnce cs then w' = w else closes a cs w w'" by blast
  have "shut a w w'"
  proof (cases "closeOnce cs")
    case True
    have "conn_ok w a" using w by (simp add: world_ok_def)
    with cs True have "closed w (ConnClose a)" by (simp add: conn_ok_def)
    with closed_not_current [OF w, of a] True w'(3) show ?thesis by (simp add: shut_def)
  next
    case False
    with w'(3) have c: "closes a cs w w'" by simp
    note d = c [unfolded closes_def, THEN conjunct2]
    from d have cl: "\<forall>ch. closed w' ch = (closed w ch \<or> ch = ConnClose a \<or> ch = DtlsClose a \<and> DtlsConnected cs \<or>
        ch = SessClose a \<and> CSess (Sess w) = Some a)" by (rule conjunct1)
    from d have se: "Sess w' = (if CSess (Sess w) = Some a then (Sess w)\<lparr>CSess := None\<rparr> else Sess w) \<and> nextAddr w' = nextAddr w"
      by (rule conjunct2)
    from c obtain cs' where "conns w' = (conns w)(a \<mapsto> cs'\<lparr>closeOnce := True\<rparr>)" unfolding closes_def by (elim conjE exE) (rule that)
    then have co: "\<forall>b. (conns w' b = None) = (conns w b = None)" using cs by simp
    from cl have "closed w' (ConnClose a)" "\<forall>b. closed w (ConnClose b) \<longrightarrow> closed w' (ConnClose b)" by blast+
    with co show ?thesis by (simp add: shut_def se)
  qed
  with w' show ?thesis by blast
qed

definition ends_ok :: "ends \<Rightarrow> bool" where
  "ends_ok s \<longleftrightarrow> world_ok (heap s) \<and>
     (\<forall>a. setupPc s a \<noteq> None \<or> inPc s a \<noteq> None \<or> outPc s a \<noteq> None \<longrightarrow> conns (heap s) a \<noteq> None) \<and>
     (\<forall>a. inPc s a \<in> {Some InDev, Some InExited} \<longrightarrow> closed (heap s) (ConnClose a)) \<and>
     (\<forall>a. inPc s a = Some InExited \<or> outPc s a = Some OutExited \<longrightarrow> devClosed s a) \<and>
     (\<forall>a. (inPc s a = None) = (outPc s a = None)) \<and>
     (\<forall>a. setupPc s a = Some SetupTun \<longrightarrow> inPc s a = None)"

lemma ends_okD:
  assumes "ends_ok s"
  shows "world_ok (heap s)" "setupPc s a \<noteq> None \<or> inPc s a \<noteq> None \<or> outPc s a \<noteq> None \<Longrightarrow> conns (heap s) a \<noteq> None"
    "inPc s a = Some InDev \<or> inPc s a = Some InExited \<Longrightarrow> closed (heap s) (ConnClose a)"
    "inPc s a = Some InExited \<or> outPc s a = Some OutExited \<Longrightarrow> devClosed s a" "(inPc s a = None) = (outPc s a = None)"
    "setupPc s a = Some SetupTun \<Longrightarrow> inPc s a = None"
  using assms by (auto simp: ends_ok_def)

text \<open>A turn that ends with a \<open>Close\<close> changes the program counters and the heap only.\<close>

lemma closeIn_shut:
  assumes "world_ok (heap s)" and "conns (heap s) a \<noteq> None"
  obtains w where "closeIn a s = Inr (s\<lparr>heap := w\<rparr>)" "world_ok w" "shut a (heap s) w"
  using close_shut [OF assms] by (auto simp: closeIn_def)

lemma ends_ok_pcs:
  assumes "ends_ok s" and "world_ok w" and "\<forall>b. closed (heap s) (ConnClose b) \<longrightarrow> closed w (ConnClose b)"
    and "\<forall>b. (conns w b = None) = (conns (heap s) b = None)"
  shows "ends_ok (s\<lparr>heap := w\<rparr>)"
  using assms by (simp add: ends_ok_def)

lemma shut_frame: "shut a w w' \<Longrightarrow> (\<forall>b. closed w (ConnClose b) \<longrightarrow> closed w' (ConnClose b)) \<and> (\<forall>b. (conns w' b = None) = (conns w b = None))"
  by (simp add: shut_def)

lemma ends_ok_shut: "ends_ok s \<Longrightarrow> world_ok w \<Longrightarrow> shut a (heap s) w \<Longrightarrow> ends_ok (s\<lparr>heap := w\<rparr>)"
  using ends_ok_pcs shut_frame by blast

lemma ends_ok_setup:
  assumes "ends_ok s" and "conns (heap s) a \<noteq> None" and "x \<noteq> SetupTun"
  shows "ends_ok (s\<lparr>setupPc := (setupPc s)(a \<mapsto> x)\<rparr>)"
proof -
  have "\<forall>c. ((setupPc s)(a \<mapsto> x)) c = Some SetupTun \<longrightarrow> inPc s c = None" using ends_okD(6) [OF assms(1)] assms(3) by auto
  with assms(1,2) show ?thesis unfolding ends_ok_def by simp
qed

lemma ends_ok_in:
  assumes "ends_ok s" and "inPc s a \<noteq> None" and "x = InDev \<or> x = InExited \<longrightarrow> closed (heap s) (ConnClose a)"
    and "x = InExited \<longrightarrow> devClosed s a"
  shows "ends_ok (s\<lparr>inPc := (inPc s)(a \<mapsto> x)\<rparr>)"
proof -
  let ?s = "s\<lparr>inPc := (inPc s)(a \<mapsto> x)\<rparr>"
  note d = ends_okD [OF assms(1)]
  show ?thesis unfolding ends_ok_def
  proof (intro conjI allI impI)
    show "world_ok (heap ?s)" using d(1) by simp
  next
    fix c assume "setupPc ?s c \<noteq> None \<or> inPc ?s c \<noteq> None \<or>
      outPc ?s c \<noteq> None"
    then show "conns (heap ?s) c \<noteq> None" using d(2) [of c] assms(2) by (cases "c = a") simp_all
  next
    fix c assume "inPc ?s c \<in> {Some InDev, Some InExited}"
    then show "closed (heap ?s) (ConnClose c)" using d(3) [of c] assms(3) by (cases "c = a") auto
  next
    fix c assume "inPc ?s c = Some InExited \<or> outPc ?s c = Some OutExited"
    then show "devClosed ?s c" using d(4) [of c] assms(4) by (cases "c = a") auto
  next
    fix c show "(inPc ?s c = None) = (outPc ?s c = None)"
      using d(5) [of c] assms(2) by (cases "c = a") simp_all
  next
    fix c assume "setupPc ?s c = Some SetupTun"
    then show "inPc ?s c = None" using d(6) [of c] d(6) [of a] assms(2) by (cases "c = a") auto
  qed
qed

lemma ends_ok_out: "ends_ok s \<Longrightarrow> outPc s a \<noteq> None \<Longrightarrow> x = OutExited \<longrightarrow> devClosed s a \<Longrightarrow> ends_ok (s\<lparr>outPc := (outPc s)(a \<mapsto> x)\<rparr>)"
  by (simp add: ends_ok_def)

lemma ends_ok_same [simp]:
  "ends_ok (s\<lparr>routes := r\<rparr>) = ends_ok s" "ends_ok (s\<lparr>disPc := d\<rparr>) = ends_ok s"
  "ends_ok (s\<lparr>routes := r, setupPc := p\<rparr>) = ends_ok (s\<lparr>setupPc := p\<rparr>)"
  "ends_ok (s\<lparr>routes := r, inPc := q\<rparr>) = ends_ok (s\<lparr>inPc := q\<rparr>)"
  "ends_ok (s\<lparr>inPc := q, heap := w\<rparr>) = ends_ok (s\<lparr>heap := w, inPc := q\<rparr>)"
  by (simp_all add: ends_ok_def)

lemma ends_ok_dev: "ends_ok s \<Longrightarrow> ends_ok (s\<lparr>devClosed := (devClosed s)(a := True)\<rparr>)"
  by (simp add: ends_ok_def)

lemma ends_ok_loops: "ends_ok s \<Longrightarrow> conns (heap s) a \<noteq> None \<Longrightarrow> setupPc s a \<noteq> Some SetupTun \<Longrightarrow> ends_ok (s\<lparr>inPc := (inPc s)(a \<mapsto> InLoop), outPc := (outPc s)(a \<mapsto> OutLoop)\<rparr>)"
  by (simp add: ends_ok_def)

lemma setupStep_ok:
  assumes s: "ends_ok s" and "setupStep ok a s = Some r"
  shows "\<exists>s'. r = Inr s' \<and> ends_ok s'"
proof -
  have c: "setupPc s a = Some x \<Longrightarrow> conns (heap s) a \<noteq> None" for x using ends_okD(2) [OF s] by simp
  show ?thesis
  proof (cases "setupPc s a")
    case (Some x)
    note c = c [OF Some]
    show ?thesis
    proof (cases "x = SetupAbort")
      case True
      have "world_ok (heap (s\<lparr>setupPc := (setupPc s)(a \<mapsto> SetupReturned)\<rparr>))" "conns (heap (s\<lparr>setupPc := (setupPc s)(a \<mapsto> SetupReturned)\<rparr>)) a \<noteq> None"
        using ends_okD(1) [OF s] c by simp_all
      from closeIn_shut [OF this] obtain w where
        "closeIn a (s\<lparr>setupPc := (setupPc s)(a \<mapsto> SetupReturned)\<rparr>) = Inr (s\<lparr>setupPc := (setupPc s)(a \<mapsto> SetupReturned)\<rparr>\<lparr>heap := w\<rparr>)"
        "world_ok w" "shut a (heap (s\<lparr>setupPc := (setupPc s)(a \<mapsto> SetupReturned)\<rparr>)) w" .
      with ends_ok_shut [OF ends_ok_setup [OF s c]] assms(2) Some True show ?thesis by (auto simp: setupStep_def)
    next
      case False
      have c': "conns (heap (s\<lparr>setupPc := (setupPc s)(a \<mapsto> y)\<rparr>)) a \<noteq> None" for y using c by simp
      from False ends_ok_setup [OF s c] ends_ok_loops [OF ends_ok_setup [OF s c] c'] c assms(2) Some show ?thesis
        by (cases x) (auto simp: setupStep_def)
    qed
  qed (use assms(2) in \<open>simp add: setupStep_def\<close>)
qed

lemma inStep_ok:
  assumes s: "ends_ok s" and "inStep failed a s = Some r"
  shows "\<exists>s'. r = Inr s' \<and> ends_ok s'"
proof (cases "inPc s a")
  case (Some x)
  then obtain cs where c: "conns (heap s) a = Some cs" using ends_okD(2) [OF s, of a] by auto
  show ?thesis
  proof (cases x)
    case InClose
    let ?s = "s\<lparr>inPc := (inPc s)(a \<mapsto> InDev)\<rparr>"
    have "world_ok (heap ?s)" "conns (heap ?s) a \<noteq> None" using ends_okD(1) [OF s] c by simp_all
    from closeIn_shut [OF this] obtain w where w: "closeIn a ?s = Inr (?s\<lparr>heap := w\<rparr>)" "world_ok w" "shut a (heap s) w" by auto
    have "ends_ok (s\<lparr>heap := w\<rparr>\<lparr>inPc := (inPc (s\<lparr>heap := w\<rparr>))(a \<mapsto> InDev)\<rparr>)"
      using ends_ok_in [OF ends_ok_shut [OF s w(2,3)], of a InDev] Some w(3) by (simp add: shut_def)
    with assms(2) Some InClose show ?thesis by (simp add: inStep_def w(1) eq_commute [of _ r])
  next
    case InDev
    then have "closed (heap s) (ConnClose a)" using ends_okD(3) [OF s, of a] Some by simp
    with ends_ok_in [OF ends_ok_dev [OF s, of a], of a InExited] Some InDev assms(2) show ?thesis by (auto simp: inStep_def)
  qed (use assms(2) Some c ends_ok_in [OF s, of a] in \<open>auto simp: inStep_def split: if_splits\<close>)
qed (use assms(2) in \<open>simp add: inStep_def\<close>)

lemma outStep_ok:
  assumes s: "ends_ok s" and "outStep ev a s = Some r"
  shows "\<exists>s'. r = Inr s' \<and> ends_ok s'"
proof (cases "outPc s a")
  case (Some x)
  then obtain cs where c: "conns (heap s) a = Some cs" using ends_okD(2) [OF s, of a] by auto
  show ?thesis
  proof (cases x)
    case OutDev
    with ends_ok_out [OF ends_ok_dev [OF s, of a], of a OutExited] Some assms(2) show ?thesis by (auto simp: outStep_def)
  qed (use assms(2) Some c ends_ok_out [OF s, of a OutDev] in \<open>auto simp: outStep_def split: if_splits out_event.splits\<close>)
qed (use assms(2) in \<open>simp add: outStep_def\<close>)

lemma current_conn: "world_ok w \<Longrightarrow> CSess (Sess w) = Some a \<Longrightarrow> conns w a \<noteq> None \<and> \<not> closed w (ConnClose a)"
  using currentD [of w a] closed_not_current [of w a] by (metis option.distinct(1))

lemma disStep_ok:
  assumes s: "ends_ok s" and d: "disStep i s = Some (Inr s')"
  shows "ends_ok s'"
proof -
  note w = ends_okD(1) [OF s]
  have "disPc s i = Some DisClose \<Longrightarrow> CSess (Sess (heap s)) \<noteq> None"
    using d by (cases "CSess (Sess (heap s))") (simp_all add: disStep_def)
  then consider (closing) a where "disPc s i = Some DisClose" "CSess (Sess (heap s)) = Some a"
    | (marking) "disPc s i = Some DisMark" | (rest) "disPc s i \<noteq> Some DisClose" "disPc s i \<noteq> Some DisMark"
    by blast
  then show ?thesis
  proof cases
    case closing
    let ?s = "s\<lparr>disPc := (disPc s)(i := None)\<rparr>"
    have "world_ok (heap ?s)" "conns (heap ?s) a \<noteq> None" using w current_conn [OF w closing(2)] by simp_all
    from closeIn_shut [OF this] obtain v where v: "closeIn a ?s = Inr (?s\<lparr>heap := v\<rparr>)" "world_ok v" "shut a (heap ?s) v" .
    moreover have "ends_ok (?s\<lparr>heap := v\<rparr>)" using ends_ok_shut [of ?s v a] s v(2,3) by simp
    ultimately show ?thesis using d closing by (simp add: disStep_def Let_def)
  next
    case marking
    let ?w = "(heap s)\<lparr>Sess := (Sess (heap s))\<lparr>ActiveClose := True\<rparr>\<rparr>"
    have "ends_ok (s\<lparr>heap := ?w\<rparr>)" using w by (intro ends_ok_pcs [OF s]) (simp_all add: world_ok_Sess)
    then have "ends_ok (s\<lparr>heap := ?w\<rparr>\<lparr>disPc := (disPc s)(i \<mapsto> DisCheck)\<rparr>)" by simp
    then show ?thesis using d marking by (simp add: disStep_def Let_def del: ends_ok_same)
  next
    case rest
    then show ?thesis using s d by (auto simp: disStep_def Let_def ends_ok_def split: option.splits dis_pc.splits)
  qed
qed

lemma opened_ok:
  assumes s: "ends_ok s" and n: "NewConnSession cfg ifc unmarshal now h (heap s) = (a, w)"
  shows "ends_ok (s\<lparr>heap := w, setupPc := (setupPc s)(a \<mapsto> SetupTun)\<rparr>)"
proof -
  note ok = world_ok_NewConnSession [OF ends_okD(1) [OF s] n]
  have f: "conns w = (conns (heap s))(a \<mapsto> connOf cfg ifc unmarshal now h a)" "closed w = closed (heap s)"
    using n by (auto simp: NewConnSession_def Let_def)
  have "inPc s a = None" using ends_okD(2) [OF s, of a] ok(3) by (cases "inPc s a") auto
  with ok f show ?thesis using s unfolding ends_ok_def by auto
qed

lemma turn_ok:
  assumes s: "ends_ok s" and t: "turn l s = Some (Inr s')"
  shows "ends_ok s'"
proof (cases l)
  case (Lost a)
  with t have c: "conns (heap s) a \<noteq> None" "closeIn a s = Inr s'" by (auto split: if_splits)
  from closeIn_shut [OF ends_okD(1) [OF s] c(1)] obtain w where "closeIn a s = Inr (s\<lparr>heap := w\<rparr>)" "world_ok w" "shut a (heap s) w" .
  with ends_ok_shut [OF s] c(2) show ?thesis by (metis sum.inject(2))
next
  case (DisStart i)
  with s t show ?thesis by (auto split: if_splits)
next
  case (Dis i)
  with disStep_ok [OF s, of i s'] t show ?thesis by simp
next
  case (Setup ok a)
  with setupStep_ok [OF s, of ok a "Inr s'"] t show ?thesis by simp
next
  case (InTun failed a)
  with inStep_ok [OF s, of failed a "Inr s'"] t show ?thesis by simp
next
  case (OutTun ev a)
  with outStep_ok [OF s, of ev a "Inr s'"] t show ?thesis by simp
qed (use t in simp)

lemma ends_step_ok: "ends_step l s s' \<Longrightarrow> ends_ok s \<Longrightarrow> ends_ok s'"
  by (induction rule: ends_step.induct) (use opened_ok turn_ok in blast)+

lemma ends_start_ok: "ends_ok ends_start"
  using sys_ok_initial by (simp add: ends_ok_def ends_start_def sys_ok_def)

interpretation any_order: guarded_invariant ends_step "\<lambda>_ _. True" ends_start ends_ok
  by unfold_locales (use ends_start_ok ends_step_ok in blast)+

lemma ends_reachable_ok: "ends_reachable s \<Longrightarrow> ends_ok s"
  unfolding ends_reachable_def by (rule any_order.inv_reached)

subsection \<open>Orderly runs\<close>

text \<open>
  The calls that set and reset routes as a state machine: the session whose routes are in place,
  or \<open>None\<close> if a call comes out of turn.
\<close>

fun track :: "nat option \<Rightarrow> route_call list \<Rightarrow> nat option option" where
  "track p [] = Some p"
| "track None (RoutesSet a # cs) = track (Some a) cs"
| "track (Some a) (RoutesReset b # cs) = (if a = b then track None cs else None)"
| "track _ (_ # _) = None"

lemma track_append: "track p (xs @ ys) = (case track p xs of None \<Rightarrow> None | Some q \<Rightarrow> track q ys)"
  by (induction p xs rule: track.induct) auto

definition quiet :: "ends \<Rightarrow> bool" where
  "quiet s \<longleftrightarrow> disPc s = Map.empty"

definition settled :: "ends \<Rightarrow> bool" where
  "settled s \<longleftrightarrow> (\<forall>a. setupPc s a \<in> {None, Some SetupReturned})"

definition finished :: "nat \<Rightarrow> ends \<Rightarrow> bool" where
  "finished a s \<longleftrightarrow> inPc s a \<in> {None, Some InDev, Some InExited}"

definition alive :: "nat \<Rightarrow> ends \<Rightarrow> bool" where
  "alive a s \<longleftrightarrow> inPc s a = Some InLoop \<and> \<not> closed (heap s) (ConnClose a)"

text \<open>
  An order of the steps in which the ends of a session do not overlap: a session is opened when
  the one before has ended, a request to disconnect is served while the session is up or after
  it has ended, and nobody else moves while it is served or while a set-up is under way.
\<close>

fun orderly :: "label \<Rightarrow> ends \<Rightarrow> bool" where
  "orderly Opened s = (quiet s \<and> settled s \<and> (\<forall>a. finished a s))"
| "orderly (Setup ok a) s = quiet s"
| "orderly (InTun failed a) s = (quiet s \<and> settled s)"
| "orderly (OutTun ev a) s = True"
| "orderly (DisStart i) s = (quiet s \<and> settled s \<and> (\<forall>a. finished a s \<or> alive a s))"
| "orderly (Dis i) s = True"
| "orderly (Lost a) s = (quiet s \<and> settled s)"

definition orderly_reachable :: "ends \<Rightarrow> bool" where
  "orderly_reachable s \<longleftrightarrow> runs_within orderly ends_step ends_start s"

text \<open>
  Where an orderly run can be: \<open>b\<close> is the last session, every other one has ended.
\<close>

definition near :: "nat \<Rightarrow> ends \<Rightarrow> bool" where
  "near b s \<longleftrightarrow> (\<forall>a. a \<noteq> b \<longrightarrow> finished a s \<and> setupPc s a \<in> {None, Some SetupReturned})"

text \<open>The only request to disconnect that is being served is at this point.\<close>

definition serving :: "dis_pc \<Rightarrow> (nat \<Rightarrow> dis_pc option) \<Rightarrow> bool" where
  "serving x d \<longleftrightarrow> (\<exists>i. d = [i \<mapsto> x])"

lemma serving_simps [simp]: "\<not> serving x Map.empty" "serving x [i \<mapsto> y] = (x = y)"
  by (auto simp: serving_def fun_eq_iff split: if_splits)

lemma servingD: "serving x d \<Longrightarrow> d i = Some y \<Longrightarrow> y = x \<and> d = [i \<mapsto> x]"
  by (auto simp: serving_def split: if_splits)

definition idle_dis :: "(nat \<Rightarrow> dis_pc option) \<Rightarrow> bool" where
  "idle_dis d \<longleftrightarrow> d = Map.empty \<or> serving DisMark d \<or> serving DisCheck d"

definition ended :: "nat option \<Rightarrow> nat option option \<Rightarrow> (nat \<Rightarrow> dis_pc option) \<Rightarrow> bool" where
  "ended cur p d \<longleftrightarrow> cur = None \<and> p = Some None \<and> idle_dis d"

definition up_or_lost :: "nat \<Rightarrow> nat option \<Rightarrow> bool \<Rightarrow> nat option option \<Rightarrow> (nat \<Rightarrow> dis_pc option) \<Rightarrow> bool \<Rightarrow> bool" where
  "up_or_lost b cur act p d shut_b \<longleftrightarrow>
     d = Map.empty \<and> cur = Some b \<and> \<not> act \<and> p = Some (Some b) \<or>
     d = Map.empty \<and> cur = None \<and> shut_b \<and> p = Some (if act then None else Some b) \<or>
     cur = Some b \<and> (serving DisMark d \<and> \<not> act \<and> p = Some (Some b) \<or>
        (serving DisCheck d \<or> serving DisReset d) \<and> act \<and> p = Some (Some b) \<or> serving DisClose d \<and> act \<and> p = Some None)"

fun stage :: "nat \<Rightarrow> setup_pc option \<Rightarrow> in_pc option \<Rightarrow> nat option \<Rightarrow> bool \<Rightarrow> nat option option \<Rightarrow> (nat \<Rightarrow> dis_pc option) \<Rightarrow> bool \<Rightarrow> bool" where
  "stage b (Some SetupTun) i cur act p d c = (d = Map.empty \<and> i = None \<and> cur = Some b \<and> \<not> act \<and> p = Some None)"
| "stage b (Some SetupRoutes) i cur act p d c = (d = Map.empty \<and> i = Some InLoop \<and> cur = Some b \<and> \<not> act \<and> p = Some None)"
| "stage b (Some SetupAbort) i cur act p d c =
     (d = Map.empty \<and> cur = Some b \<and> \<not> act \<and> (i = None \<and> p = Some None \<or> i = Some InLoop \<and> p = Some (Some b)))"
| "stage b _ (Some InLoop) cur act p d c = up_or_lost b cur act p d c"
| "stage b _ (Some InCheck) cur act p d c =
     (d = Map.empty \<and> p = Some (if act then None else Some b) \<and> (cur = None \<or> cur = Some b \<and> \<not> act))"
| "stage b _ (Some InReset) cur act p d c = (d = Map.empty \<and> p = Some (Some b) \<and> (cur = None \<or> cur = Some b))"
| "stage b _ (Some InClose) cur act p d c = (d = Map.empty \<and> p = Some None \<and> (cur = None \<or> cur = Some b))"
| "stage b _ _ cur act p d c = ended cur p d"

abbreviation stage_of :: "nat \<Rightarrow> ends \<Rightarrow> bool" where
  "stage_of b s \<equiv> stage b (setupPc s b) (inPc s b) (CSess (Sess (heap s))) (ActiveClose (Sess (heap s))) (track None (routes s)) (disPc s)
     (closed (heap s) (ConnClose b))"

definition ord_inv :: "nat \<Rightarrow> ends \<Rightarrow> bool" where
  "ord_inv b s \<longleftrightarrow> ends_ok s \<and> near b s \<and> stage_of b s"

lemma stage_cur: "stage b x i cur act p d c \<Longrightarrow> cur = None \<or> cur = Some b"
  by (cases "(b, x, i, cur, act, p, d, c)" rule: stage.cases) (auto simp: up_or_lost_def ended_def)

lemma stage_track: "stage b x i cur act p d c \<Longrightarrow> p \<noteq> None"
  by (cases "(b, x, i, cur, act, p, d, c)" rule: stage.cases) (auto simp: up_or_lost_def ended_def)

lemma stage_ended: "x \<in> {None, Some SetupReturned} \<Longrightarrow> i \<in> {None, Some InDev, Some InExited} \<Longrightarrow> stage b x i cur act p d c = ended cur p d"
  by auto

lemma stage_None: "stage b None i cur act p d c = stage b (Some SetupReturned) i cur act p d c"
  by (cases i; simp; rename_tac x; case_tac x; simp)

lemma stage_settled:
  assumes "settled s"
  shows "stage b (setupPc s b) i cur act p d c = stage b (Some SetupReturned) i cur act p d c"
  using assms stage_None by (auto simp: settled_def dest: spec [of _ b])

lemma open_inv:
  assumes o: "ord_inv b s" "orderly Opened s" and n: "NewConnSession cfg ifc unmarshal now h (heap s) = (a, w)"
  shows "ord_inv a (s\<lparr>heap := w, setupPc := (setupPc s)(a \<mapsto> SetupTun)\<rparr>)"
proof -
  from o have ok: "ends_ok s" and q: "disPc s = Map.empty" and st: "settled s" and fin: "finished c s" for c
    by (auto simp: ord_inv_def quiet_def)
  note w = world_ok_NewConnSession [OF ends_okD(1) [OF ok] n]
  have act: "\<not> ActiveClose (Sess w)" using n by (auto simp: NewConnSession_def Let_def)
  have p: "track None (routes s) = Some None"
    using o(1) fin [of b] st by (auto simp: ord_inv_def stage_settled finished_def ended_def)
  have "inPc s a = None" using ends_okD(2) [OF ok, of a] w(3) by (cases "inPc s a") auto
  moreover have "near a (s\<lparr>heap := w, setupPc := (setupPc s)(a \<mapsto> SetupTun)\<rparr>)"
    using fin st by (simp add: near_def settled_def finished_def)
  ultimately show ?thesis using opened_ok [OF ok n] w(6) act p q by (simp add: ord_inv_def)
qed

lemma setup_inv:
  assumes o: "ord_inv b s" and t: "setupStep ok a s = Some (Inr s')"
  shows "near b s' \<and> stage_of b s'"
proof -
  from o have okk: "ends_ok s" and nb: "near b s" and st: "stage_of b s" by (simp_all add: ord_inv_def)
  from t obtain x where x: "setupPc s a = Some x" "x \<noteq> SetupReturned" by (auto simp: setupStep_def split: option.splits setup_pc.splits)
  with nb have ab: "a = b" by (auto simp: near_def)
  show ?thesis
  proof (cases x)
    case SetupAbort
    let ?s = "s\<lparr>setupPc := (setupPc s)(b \<mapsto> SetupReturned)\<rparr>"
    have "world_ok (heap ?s)" "conns (heap ?s) b \<noteq> None" using ends_okD(1) [OF okk] ends_okD(2) [OF okk, of b] x ab by simp_all
    from closeIn_shut [OF this] obtain w where w: "closeIn b ?s = Inr (?s\<lparr>heap := w\<rparr>)" "shut b (heap s) w" by auto
    from w(1) t x SetupAbort ab have "s' = ?s\<lparr>heap := w\<rparr>" by (simp add: setupStep_def)
    with w(2) nb st x SetupAbort ab show ?thesis by (auto simp: near_def finished_def shut_def up_or_lost_def ended_def idle_dis_def)
  qed (use t x nb st ab in \<open>auto simp: setupStep_def near_def finished_def up_or_lost_def ended_def idle_dis_def track_append split: if_splits\<close>)
qed

lemma in_inv:
  assumes o: "ord_inv b s" "settled s" "quiet s" and t: "inStep failed a s = Some (Inr s')"
  shows "near b s' \<and> stage_of b s'"
proof -
  from o have okk: "ends_ok s" and nb: "near b s" and st: "stage b (Some SetupReturned) (inPc s b) (CSess (Sess (heap s)))
      (ActiveClose (Sess (heap s))) (track None (routes s)) (disPc s) (closed (heap s) (ConnClose b))" and q: "disPc s = Map.empty"
    by (simp_all add: ord_inv_def stage_settled quiet_def)
  from t obtain x where x: "inPc s a = Some x" "x \<noteq> InExited" by (auto simp: inStep_def split: option.splits in_pc.splits)
  show ?thesis
  proof (cases "a = b")
    case False
    with nb x have "x = InDev" by (auto simp: near_def finished_def)
    with False x t nb st o(2) show ?thesis by (auto simp: inStep_def near_def finished_def stage_settled split: if_splits)
  next
    case ab: True
    show ?thesis
    proof (cases x)
      case InClose
      let ?s = "s\<lparr>inPc := (inPc s)(b \<mapsto> InDev)\<rparr>"
      have "world_ok (heap ?s)" "conns (heap ?s) b \<noteq> None" using ends_okD(1) [OF okk] ends_okD(2) [OF okk, of b] x ab by simp_all
      from closeIn_shut [OF this] obtain w where w: "closeIn b ?s = Inr (?s\<lparr>heap := w\<rparr>)" "shut b (heap s) w" by auto
      from w(1) t x InClose ab have s': "s' = ?s\<lparr>heap := w\<rparr>" by (simp add: inStep_def)
      with w(2) nb st x InClose ab o(2) show ?thesis by (auto simp: stage_settled near_def finished_def shut_def ended_def idle_dis_def)
    next
      case InLoop
      then have "s' = s\<lparr>inPc := (inPc s)(b \<mapsto> InCheck)\<rparr>" using t x ab by (auto simp: inStep_def split: option.splits if_splits)
      with nb st x InLoop ab o(2) q show ?thesis by (auto simp: stage_settled near_def finished_def up_or_lost_def)
    qed (use t x nb st ab o(2) q in \<open>auto simp: inStep_def stage_settled near_def finished_def ended_def idle_dis_def track_append split: if_splits\<close>)
  qed
qed

lemma disStart_inv:
  assumes o: "ord_inv b s" and d: "orderly (DisStart i) s"
  shows "near b (s\<lparr>disPc := (disPc s)(i \<mapsto> DisMark)\<rparr>) \<and> stage_of b (s\<lparr>disPc := (disPc s)(i \<mapsto> DisMark)\<rparr>)"
proof -
  from o have nb: "near b s" and st: "stage_of b s" by (simp_all add: ord_inv_def)
  from d have q: "disPc s = Map.empty" and se: "settled s" and fa: "finished b s \<or> alive b s" by (auto simp: quiet_def)
  have "settled (s\<lparr>disPc := (disPc s)(i \<mapsto> DisMark)\<rparr>)" using se by (simp add: settled_def)
  with nb st q se fa show ?thesis
    by (auto simp: near_def finished_def alive_def stage_settled up_or_lost_def ended_def idle_dis_def)
qed

text \<open>While a request to disconnect is served, nothing else has changed its session.\<close>

lemma dis_cases:
  assumes "stage b x y cur act p d c" and "d i = Some dp"
  shows "x \<in> {None, Some SetupReturned} \<and> d = [i \<mapsto> dp] \<and>
    (y = Some InLoop \<and> cur = Some b \<and> (dp = DisMark \<and> \<not> act \<and> p = Some (Some b) \<or>
        (dp = DisCheck \<or> dp = DisReset) \<and> act \<and> p = Some (Some b) \<or> dp = DisClose \<and> act \<and> p = Some None) \<or>
     y \<in> {None, Some InDev, Some InExited} \<and> cur = None \<and> p = Some None \<and> (dp = DisMark \<or> dp = DisCheck))"
  using assms by (cases "(b, x, y, cur, act, p, d, c)" rule: stage.cases) (auto simp: up_or_lost_def ended_def idle_dis_def dest: servingD)

lemma dis_inv:
  assumes o: "ord_inv b s" and t: "disStep i s = Some r"
  shows "\<exists>s'. r = Inr s' \<and> near b s' \<and> stage_of b s'"
proof -
  from o have okk: "ends_ok s" and nb: "near b s" and st: "stage_of b s" by (simp_all add: ord_inv_def)
  from t obtain dp where dp: "disPc s i = Some dp" by (auto simp: disStep_def Let_def split: option.splits)
  note c = dis_cases [OF st dp]
  show ?thesis
  proof (cases dp)
    case DisClose
    let ?s = "s\<lparr>disPc := (disPc s)(i := None)\<rparr>"
    from c DisClose have cur: "CSess (Sess (heap s)) = Some b" by auto
    note w = ends_okD(1) [OF okk]
    have "world_ok (heap ?s)" "conns (heap ?s) b \<noteq> None" using w current_conn [OF w cur] by simp_all
    from closeIn_shut [OF this] obtain v where v: "closeIn b ?s = Inr (?s\<lparr>heap := v\<rparr>)" "shut b (heap s) v" by auto
    have "r = Inr (?s\<lparr>heap := v\<rparr>)" using t dp DisClose cur v(1) by (simp add: disStep_def Let_def)
    with v(2) nb c DisClose cur show ?thesis by (auto simp: stage_None near_def finished_def shut_def up_or_lost_def)
  qed (use t dp c nb in \<open>auto simp: disStep_def Let_def stage_None near_def finished_def up_or_lost_def ended_def idle_dis_def track_append\<close>)
qed

lemma stage_lost:
  assumes "stage b (Some SetupReturned) y (Some b) act p Map.empty c"
  shows "stage b (Some SetupReturned) y None act p Map.empty True"
proof (cases y)
  case (Some x)
  with assms show ?thesis by (cases x) (auto simp: up_or_lost_def ended_def)
qed (use assms in \<open>simp add: ended_def\<close>)

lemma stage_more:
  assumes "stage b (Some SetupReturned) y cur act p Map.empty c" and "c \<longrightarrow> c'"
  shows "stage b (Some SetupReturned) y cur act p Map.empty c'"
proof (cases y)
  case (Some x)
  with assms show ?thesis by (cases x) (auto simp: up_or_lost_def)
qed (use assms in simp)

lemma lost_inv:
  assumes o: "ord_inv b s" "orderly (Lost a) s" and t: "closeIn a s = Inr s'"
  shows "near b s' \<and> stage_of b s'"
proof -
  from o have okk: "ends_ok s" and nb: "near b s" and st: "stage_of b s" and q: "disPc s = Map.empty" and se: "settled s"
    by (simp_all add: ord_inv_def quiet_def)
  have "conns (heap s) a \<noteq> None" using t by (cases "conns (heap s) a") (simp_all add: closeIn_def ConnSession_Close_def)
  from closeIn_shut [OF ends_okD(1) [OF okk] this] obtain w where "closeIn a s = Inr (s\<lparr>heap := w\<rparr>)" and w: "shut a (heap s) w" .
  with t have s': "s' = s\<lparr>heap := w\<rparr>" by simp
  with w have sh: "shut a (heap s) (heap s')"
    and f: "setupPc s' = setupPc s" "inPc s' = inPc s" "disPc s' = disPc s" "routes s' = routes s" by simp_all
  have se': "settled s'" using se f by (simp add: settled_def)
  have near: "near b s'" using nb f by (simp add: near_def finished_def)
  have "stage_of b s'"
  proof (cases "CSess (Sess (heap s)) = Some a")
    case True
    with stage_cur [OF st] have "a = b" by simp
    with True sh st q show ?thesis unfolding stage_settled [OF se] stage_settled [OF se'] f
      by (simp add: shut_def stage_lost)
  next
    case False
    then have "CSess (Sess (heap s')) = CSess (Sess (heap s))" "ActiveClose (Sess (heap s')) = ActiveClose (Sess (heap s))"
      "closed (heap s) (ConnClose b) \<longrightarrow> closed (heap s') (ConnClose b)" using sh by (simp_all add: shut_def)
    with st q show ?thesis unfolding stage_settled [OF se] stage_settled [OF se'] f
      using stage_more by simp
  qed
  with near show ?thesis ..
qed

lemma ord_inv_step:
  assumes o: "ord_inv b s" "orderly l s" and e: "ends_step l s s'"
  shows "\<exists>b'. ord_inv b' s'"
proof -
  from o have ok: "ends_ok s" by (simp add: ord_inv_def)
  note ok' = ends_step_ok [OF e ok]
  show ?thesis using e
  proof cases
    case (opened cfg ifc unmarshal now h a w)
    with open_inv [OF o(1)] o(2) show ?thesis by blast
  next
    case moved
    have "near b s' \<and> stage_of b s'"
    proof (cases l)
      case (Setup ok a)
      with setup_inv [OF o(1)] moved show ?thesis by simp
    next
      case (InTun failed a)
      with in_inv [OF o(1)] o(2) moved show ?thesis by simp
    next
      case (OutTun ev a)
      with moved have "outStep ev a s = Some (Inr s')" by simp
      then have "setupPc s' = setupPc s" "inPc s' = inPc s" "heap s' = heap s" "routes s' = routes s" "disPc s' = disPc s"
        by (auto simp: outStep_def split: option.splits out_pc.splits if_splits)
      with o(1) show ?thesis by (simp add: ord_inv_def near_def finished_def)
    next
      case (DisStart i)
      with disStart_inv [OF o(1), of i] o(2) moved show ?thesis by (auto split: if_splits)
    next
      case (Dis i)
      with dis_inv [OF o(1), of i "Inr s'"] moved show ?thesis by simp
    next
      case (Lost a)
      with lost_inv [OF o(1), of a s'] o(2) moved show ?thesis by (simp split: if_splits)
    qed (use moved in simp)
    with ok' show ?thesis by (auto simp: ord_inv_def)
  qed
qed

lemma ord_inv_start: "ord_inv 0 ends_start"
  using ends_start_ok by (simp add: ord_inv_def near_def finished_def ends_start_def initial_def ended_def idle_dis_def)

interpretation in_turn: guarded_invariant ends_step orderly ends_start "\<lambda>s. \<exists>b. ord_inv b s"
  by unfold_locales (use ord_inv_start ord_inv_step in blast)+

lemma orderly_inv: "orderly_reachable s \<Longrightarrow> \<exists>b. ord_inv b s"
  unfolding orderly_reachable_def by (rule in_turn.inv_reached)

lemma track_counts:
  "track p cs = Some q \<Longrightarrow>
     count_list cs (RoutesSet a) + (if p = Some a then 1 else 0) = count_list cs (RoutesReset a) + (if q = Some a then 1 else 0)"
  by (induction p cs rule: track.induct) (auto split: if_splits)

subsection \<open>\<open>DisConnect\<close> by itself\<close>

text \<open>
  Without interference the four steps are \<open>Rpc.DisConnect\<close>, the version that the request handler
  is modelled with.
\<close>

definition resets :: "nat option \<Rightarrow> route_call list" where
  "resets r = (case r of None \<Rightarrow> [] | Some a \<Rightarrow> [RoutesReset a])"

lemma disStep_DisConnect:
  assumes "world_of ag = heap s" and "disPc s i = None" and "DisConnect ag = Inr (r, ag')"
  shows "play new (DisStart i # Dis i # Dis i # (if r = None then [] else [Dis i, Dis i])) s =
    Some (Inr (s\<lparr>heap := world_of ag', routes := routes s @ resets r\<rparr>))"
proof (cases "CSess (Sess (heap s))")
  case None
  have "(disPc s)(i := None) = disPc s" using assms(2) by auto
  then show ?thesis using assms None by (auto simp: DisConnect_def disStep_def Let_def resets_def)
next
  case (Some a)
  let ?w = "(heap s)\<lparr>Sess := (Sess (heap s))\<lparr>ActiveClose := True\<rparr>\<rparr>"
  from assms(1,3) Some obtain w where "ConnSession_Close a ?w = Inr w" "r = Some a" "world_of ag' = w"
    by (cases "ConnSession_Close a ?w") (auto simp: DisConnect_def Let_def)
  moreover have "(disPc s)(i := None) = disPc s" using assms(2) by auto
  ultimately show ?thesis using assms(2) Some by (simp add: disStep_def Let_def closeIn_def resets_def)
qed

subsection \<open>The loops of the device end\<close>

fun in_left :: "in_pc option \<Rightarrow> nat" where
  "in_left (Some InLoop) = 5"
| "in_left (Some InCheck) = 4"
| "in_left (Some InReset) = 3"
| "in_left (Some InClose) = 2"
| "in_left (Some InDev) = 1"
| "in_left _ = 0"

fun out_left :: "out_pc option \<Rightarrow> nat" where
  "out_left (Some OutLoop) = 2"
| "out_left (Some OutDev) = 1"
| "out_left _ = 0"

definition steps_left :: "nat \<Rightarrow> ends \<Rightarrow> nat" where
  "steps_left a s = in_left (inPc s a) + out_left (outPc s a)"

text \<open>
  The points of a loop in the order in which they are passed; a loop that has not been started
  comes before them all.
\<close>

instantiation in_pc :: linorder
begin

definition less_eq_in_pc :: "in_pc \<Rightarrow> in_pc \<Rightarrow> bool" where
  "x \<le> y \<longleftrightarrow> in_left (Some y) \<le> in_left (Some x)"

definition less_in_pc :: "in_pc \<Rightarrow> in_pc \<Rightarrow> bool" where
  "x < y \<longleftrightarrow> in_left (Some y) < in_left (Some x)"

instance
proof
  fix x y :: in_pc
  show "x \<le> y \<Longrightarrow> y \<le> x \<Longrightarrow> x = y" by (cases x; cases y) (simp_all add: less_eq_in_pc_def)
qed (auto simp: less_eq_in_pc_def less_in_pc_def)

end

instantiation out_pc :: linorder
begin

definition less_eq_out_pc :: "out_pc \<Rightarrow> out_pc \<Rightarrow> bool" where
  "x \<le> y \<longleftrightarrow> out_left (Some y) \<le> out_left (Some x)"

definition less_out_pc :: "out_pc \<Rightarrow> out_pc \<Rightarrow> bool" where
  "x < y \<longleftrightarrow> out_left (Some y) < out_left (Some x)"

instance
proof
  fix x y :: out_pc
  show "x \<le> y \<Longrightarrow> y \<le> x \<Longrightarrow> x = y" by (cases x; cases y) (simp_all add: less_eq_out_pc_def)
qed (auto simp: less_eq_out_pc_def less_out_pc_def)

end

lemmas pc_order = less_eq_in_pc_def less_eq_out_pc_def

definition loops_over :: "nat \<Rightarrow> ends \<Rightarrow> bool" where
  "loops_over a s \<longleftrightarrow> inPc s a = Some InExited \<and> outPc s a = Some OutExited \<and> devClosed s a"

text \<open>Nothing that any process does brings a loop back.\<close>

definition going :: "nat \<Rightarrow> ends \<Rightarrow> ends \<Rightarrow> bool" where
  "going a s s' \<longleftrightarrow> (closed (heap s) (ConnClose a) \<longrightarrow> closed (heap s') (ConnClose a)) \<and>
     inPc s a \<le> inPc s' a \<and> outPc s a \<le> outPc s' a"

lemma going_left:
  assumes "going a s s'" and "inPc s a \<noteq> None" and "outPc s a \<noteq> None"
  shows "inPc s' a \<noteq> None \<and> steps_left a s' \<le> steps_left a s"
  using assms by (auto simp: going_def steps_left_def pc_order less_eq_option_def split: option.splits)

lemma going_closeIn:
  assumes "world_ok (heap s)" and "closeIn b s = Inr s'"
  shows "(closed (heap s) (ConnClose a) \<longrightarrow> closed (heap s') (ConnClose a)) \<and> inPc s' = inPc s \<and> outPc s' = outPc s"
proof -
  have "conns (heap s) b \<noteq> None" using assms(2) by (cases "conns (heap s) b") (simp_all add: closeIn_def ConnSession_Close_def)
  from closeIn_shut [OF assms(1) this] obtain w where w: "closeIn b s = Inr (s\<lparr>heap := w\<rparr>)" "shut b (heap s) w" .
  from w(1) assms(2) have "s' = s\<lparr>heap := w\<rparr>" by simp
  with w(2) show ?thesis by (simp add: shut_def)
qed

lemma going_same: "heap s' = heap s \<Longrightarrow> inPc s' = inPc s \<Longrightarrow> outPc s' = outPc s \<Longrightarrow> going a s s'"
  by (simp add: going_def pc_order)

lemma going_setup:
  assumes s: "ends_ok s" and t: "setupStep ok b s = Some (Inr s')"
  shows "going a s s'"
proof -
  from t obtain x where x: "setupPc s b = Some x" by (auto simp: setupStep_def split: option.splits)
  show ?thesis
  proof (cases x)
    case SetupTun
    then show ?thesis using t x ends_okD(5,6) [OF s, of b] by (auto simp: setupStep_def going_def pc_order split: if_splits)
  next
    case SetupRoutes
    then show ?thesis using t x by (intro going_same) (auto simp: setupStep_def)
  next
    case SetupAbort
    then have "closeIn b (s\<lparr>setupPc := (setupPc s)(b \<mapsto> SetupReturned)\<rparr>) = Inr s'" using t x by (simp add: setupStep_def)
    from going_closeIn [OF _ this, of a] ends_okD(1) [OF s] show ?thesis by (simp add: going_def pc_order)
  qed (use t x in \<open>simp add: setupStep_def\<close>)
qed

lemma going_in:
  assumes s: "ends_ok s" and t: "inStep failed b s = Some (Inr s')"
  shows "going a s s'"
proof -
  from t obtain x where x: "inPc s b = Some x" by (auto simp: inStep_def split: option.splits)
  show ?thesis
  proof (cases x)
    case InClose
    then have "closeIn b (s\<lparr>inPc := (inPc s)(b \<mapsto> InDev)\<rparr>) = Inr s'" using t x by (simp add: inStep_def)
    from going_closeIn [OF _ this, of a] ends_okD(1) [OF s] x InClose show ?thesis by (simp add: going_def pc_order)
  qed (use t x in \<open>auto simp: inStep_def going_def pc_order split: option.splits if_splits\<close>)
qed

lemma going_dis:
  assumes s: "ends_ok s" and t: "disStep i s = Some (Inr s')"
  shows "going a s s'"
proof -
  from t obtain dp where dp: "disPc s i = Some dp" by (auto simp: disStep_def Let_def split: option.splits)
  show ?thesis
  proof (cases dp)
    case DisClose
    then obtain b where "closeIn b (s\<lparr>disPc := (disPc s)(i := None)\<rparr>) = Inr s'"
      using t dp by (auto simp: disStep_def Let_def split: option.splits)
    from going_closeIn [OF _ this, of a] ends_okD(1) [OF s] show ?thesis by (simp add: going_def pc_order)
  next
    case DisReset
    then show ?thesis using t dp by (cases "CSess (Sess (heap s))") (auto simp: disStep_def Let_def intro: going_same)
  qed (use t dp in \<open>auto simp: disStep_def Let_def going_def pc_order\<close>)
qed

lemma going_turn:
  assumes s: "ends_ok s" and t: "turn l s = Some (Inr s')"
  shows "going a s s'"
proof (cases l)
  case (OutTun ev b)
  with t show ?thesis by (auto simp: outStep_def going_def pc_order split: option.splits out_pc.splits if_splits)
next
  case (DisStart i)
  with t show ?thesis by (intro going_same) (auto split: if_splits)
next
  case (Lost b)
  with t have "closeIn b s = Inr s'" by (simp split: if_splits)
  from going_closeIn [OF ends_okD(1) [OF s] this, of a] show ?thesis by (simp add: going_def pc_order)
qed (use t going_setup [OF s] going_in [OF s] going_dis [OF s] in auto)

lemma going_step:
  assumes "ends_step l s s'" and s: "ends_ok s"
  shows "going a s s'"
  using assms(1)
proof cases
  case (opened cfg ifc unmarshal now h b w)
  from world_ok_NewConnSession(4) [OF ends_okD(1) [OF s] opened(3)] have "closed w = closed (heap s)" .
  with opened(2) show ?thesis by (simp add: going_def pc_order)
qed (rule going_turn [OF s])

text \<open>A loop of a closed session that has not ended can take its next step.\<close>

lemma loops_go_on:
  assumes s: "ends_ok s" and c: "closed (heap s) (ConnClose a)" and i: "inPc s a \<noteq> None" and n: "\<not> loops_over a s"
  shows "\<exists>l s'. l \<in> {InTun False a, OutTun ReadClosed a} \<and> turn l s = Some (Inr s') \<and> steps_left a s' < steps_left a s"
proof -
  note d = ends_okD [OF s]
  from i obtain x where x: "inPc s a = Some x" by auto
  from d(2) [of a] x obtain cs where cs: "conns (heap s) a = Some cs" by auto
  show ?thesis
  proof (cases "x = InExited")
    case False
    have "\<exists>s'. inStep False a s = Some (Inr s') \<and> in_left (inPc s' a) < in_left (inPc s a) \<and> outPc s' = outPc s"
    proof (cases x)
      case InLoop
      have "CloseChan cs = ConnClose a" using conn_okD [OF d(1) cs] by metis
      with InLoop x cs c show ?thesis by (simp add: inStep_def)
    next
      case InClose
      have "world_ok (heap (s\<lparr>inPc := (inPc s)(a \<mapsto> InDev)\<rparr>))" "conns (heap (s\<lparr>inPc := (inPc s)(a \<mapsto> InDev)\<rparr>)) a \<noteq> None"
        using d(1) cs by simp_all
      from closeIn_shut [OF this] obtain w where
        "closeIn a (s\<lparr>inPc := (inPc s)(a \<mapsto> InDev)\<rparr>) = Inr (s\<lparr>inPc := (inPc s)(a \<mapsto> InDev)\<rparr>\<lparr>heap := w\<rparr>)" by auto
      with InClose x show ?thesis by (simp add: inStep_def)
    qed (use x False in \<open>auto simp: inStep_def\<close>)
    then show ?thesis by (intro exI [of _ "InTun False a"]) (auto simp: steps_left_def)
  next
    case True
    with x d(4,5) [of a] obtain y where y: "outPc s a = Some y" "devClosed s a" by auto
    with n x True have "y \<noteq> OutExited" by (auto simp: loops_over_def)
    with y cs have "\<exists>s'. outStep ReadClosed a s = Some (Inr s') \<and> out_left (outPc s' a) < out_left (outPc s a) \<and> inPc s' = inPc s"
      by (cases y) (auto simp: outStep_def)
    then show ?thesis by (intro exI [of _ "OutTun ReadClosed a"]) (auto simp: steps_left_def)
  qed
qed

subsection \<open>Schedules\<close>

lemma play_append:
  "play new (xs @ ys) s = (case play new xs s of None \<Rightarrow> None | Some (Inl e) \<Rightarrow> Some (Inl e) | Some (Inr s') \<Rightarrow> play new ys s')"
  by (induction xs arbitrary: s) (auto split: option.splits sum.splits prod.splits)

lemma play_steps: "play (NewConnSession cfg ifc unmarshal now h) ls s = Some (Inr s') \<Longrightarrow> runs_within (\<lambda>_ _. True) ends_step s s'"
proof (induction ls arbitrary: s)
  case (Cons l ls)
  then obtain s1 where s1: "(if l = Opened then (case NewConnSession cfg ifc unmarshal now h (heap s) of (a, w) \<Rightarrow>
      Some (Inr (s\<lparr>heap := w, setupPc := (setupPc s)(a \<mapsto> SetupTun)\<rparr>))) else turn l s) = Some (Inr s1)"
      and r: "play (NewConnSession cfg ifc unmarshal now h) ls s1 = Some (Inr s')"
    by (auto split: option.splits sum.splits)
  from s1 have "ends_step l s s1"
    by (cases "NewConnSession cfg ifc unmarshal now h (heap s)") (auto split: if_splits intro: ends_step.intros)
  from runs_within_step [where guard = "\<lambda>_ _. True", OF TrueI this Cons.IH [OF r]] show ?case .
qed (simp add: runs_within_refl)

lemma play_reachable: "play (NewConnSession cfg ifc unmarshal now h) ls ends_start = Some (Inr s) \<Longrightarrow> ends_reachable s"
  unfolding ends_reachable_def by (rule play_steps)

text \<open>A schedule whose every step is orderly.\<close>

fun in_order :: "(world \<Rightarrow> nat \<times> world) \<Rightarrow> label list \<Rightarrow> ends \<Rightarrow> bool" where
  "in_order new [] s = True"
| "in_order new (l # ls) s =
     (orderly l s \<and> (case play new [l] s of Some (Inr s') \<Rightarrow> in_order new ls s' | _ \<Rightarrow> False))"

lemma play_in_order:
  assumes "play (NewConnSession cfg ifc unmarshal now h) ls s = Some (Inr s')" and "in_order (NewConnSession cfg ifc unmarshal now h) ls s"
  shows "runs_within orderly ends_step s s'"
  using assms
proof (induction ls arbitrary: s)
  case (Cons l ls)
  let ?new = "NewConnSession cfg ifc unmarshal now h"
  from Cons.prems(1) play_append [of ?new "[l]" ls s] obtain s1 where
    s1: "play ?new [l] s = Some (Inr s1)" "play ?new ls s1 = Some (Inr s')"
    by (auto split: option.splits sum.splits)
  then have "ends_step l s s1"
    by (cases "?new (heap s)") (auto split: if_splits option.splits sum.splits intro: ends_step.intros)
  moreover from Cons.prems(2) s1(1) have o: "orderly l s" "in_order ?new ls s1" by simp_all
  ultimately show ?case using runs_within_step [where guard = orderly, OF o(1) _ Cons.IH [OF s1(2) o(2)]] by blast
qed (simp add: runs_within_refl)

definition sessionUp :: "nat \<Rightarrow> label list" where
  "sessionUp a = [Opened, Setup True a, Setup True a]"

text \<open>The loops run to their end; the deferred function has one step more if it resets the routes.\<close>

definition loopsEnd :: "bool \<Rightarrow> nat \<Rightarrow> label list" where
  "loopsEnd resetting a = (if resetting then [InTun False a] else []) @
     [InTun False a, InTun False a, InTun False a, InTun False a, OutTun ReadClosed a, OutTun ReadClosed a]"

lemmas play_simps = sessionUp_def loopsEnd_def ends_start_def initial_def setupStep_def inStep_def outStep_def disStep_def
  closeIn_def ConnSession_Close_def close_def updConn_def connOf_identity Let_def

lemma open_simp: "NewConnSession cfg ifc unmarshal now h w =
  (nextAddr w, w\<lparr>Sess := (Sess w)\<lparr>CSess := Some (nextAddr w), ActiveClose := False, SessCloseChan := Some (SessClose (nextAddr w))\<rparr>,
    conns := (conns w)(nextAddr w \<mapsto> connOf cfg ifc unmarshal now h (nextAddr w)),
    dtlss := (dtlss w)(nextAddr w \<mapsto> \<lparr>dtlsOnce = False, DtlsCloseChan = DtlsClose (nextAddr w)\<rparr>), nextAddr := nextAddr w + 1\<rparr>)"
  by (simp add: NewConnSession_def Let_def)

lemma orderly_ended:
  assumes "orderly_reachable s" and "settled s" and "\<forall>c. finished c s"
  shows "CSess (Sess (heap s)) = None \<and> track None (routes s) = Some None"
proof -
  from orderly_inv [OF assms(1)] obtain b where "stage_of b s" by (auto simp: ord_inv_def)
  moreover from assms(3) have "finished b s" by blast
  ultimately show ?thesis using assms(2) by (auto simp: stage_settled finished_def ended_def)
qed

text \<open>
  C9. The routes of a session are set and reset once each, in turn, as long as the ends of sessions
  do not overlap: in every orderly run the calls alternate, the routes of a session that is up
  are in place, \<open>DisConnect\<close> never meets a session that is gone, and when everything has ended
  each session's routes have been reset as often as they were set.
\<close>

theorem orderly_teardown:
  assumes "orderly_reachable s"
  shows "track None (routes s) \<noteq> None \<and> disStep i s \<noteq> Some (Inl p) \<and>
    (settled s \<and> quiet s \<and> inPc s a = Some InLoop \<and> CSess (Sess (heap s)) = Some a \<longrightarrow> track None (routes s) = Some (Some a)) \<and>
    (settled s \<and> quiet s \<and> (\<forall>c. finished c s) \<longrightarrow>
       CSess (Sess (heap s)) = None \<and> count_list (routes s) (RoutesReset a) = count_list (routes s) (RoutesSet a))"
proof -
  from orderly_inv [OF assms] obtain b where o: "ord_inv b s" ..
  then have st: "stage_of b s" by (simp add: ord_inv_def)
  have "track None (routes s) = Some (Some a)"
    if "settled s" "quiet s" "inPc s a = Some InLoop" "CSess (Sess (heap s)) = Some a"
  proof -
    from stage_cur [OF st] that have "a = b" by auto
    with st that show ?thesis by (simp add: stage_settled up_or_lost_def quiet_def)
  qed
  moreover have "disStep i s \<noteq> Some (Inl p)" using dis_inv [OF o, of i "Inl p"] by auto
  ultimately show ?thesis using stage_track [OF st] track_counts [of None "routes s" None a] orderly_ended [OF assms] by auto
qed

text \<open>A session that is disconnected, and one after it that is lost.\<close>

definition sample_run :: "label list" where
  "sample_run = sessionUp 0 @ [DisStart 0, Dis 0, Dis 0, Dis 0, Dis 0] @ loopsEnd False 0 @ sessionUp 1 @ [Lost 1] @ loopsEnd True 1"

abbreviation sample_new :: "world \<Rightarrow> nat \<times> world" where
  "sample_new \<equiv> NewConnSession sample_cfg sample_ifc (\<lambda>_. None) 0 sample_header"

lemma sample_run_play:
  "\<exists>s. play sample_new sample_run ends_start = Some (Inr s) \<and> settled s \<and> quiet s \<and> (\<forall>c. finished c s) \<and>
     routes s = [RoutesSet 0, RoutesReset 0, RoutesSet 1, RoutesReset 1]"
  by (simp add: sample_run_def play_simps open_simp settled_def quiet_def finished_def)

lemma sample_run_order: "in_order sample_new sample_run ends_start"
  by (simp add: sample_run_def play_simps open_simp settled_def quiet_def finished_def alive_def)

theorem orderly_teardown_witness:
  "\<exists>s. play sample_new sample_run ends_start = Some (Inr s) \<and> orderly_reachable s \<and> CSess (Sess (heap s)) = None \<and>
     track None (routes s) \<noteq> None \<and> routes s = [RoutesSet 0, RoutesReset 0, RoutesSet 1, RoutesReset 1]"
proof -
  from sample_run_play obtain s where s: "play sample_new sample_run ends_start = Some (Inr s)" "settled s" "quiet s" "\<forall>c. finished c s"
    "routes s = [RoutesSet 0, RoutesReset 0, RoutesSet 1, RoutesReset 1]" by blast
  from play_in_order [OF s(1) sample_run_order] have r: "orderly_reachable s" by (simp add: orderly_reachable_def)
  from orderly_teardown [OF r, of 0 NilPointer 0] s r show ?thesis by blast
qed



text \<open>Five schedules in which the ends overlap, from the start of the agent.\<close>

definition lostThenDisconnect :: "label list" where
  "lostThenDisconnect = sessionUp 0 @ [Lost 0, DisStart 0, Dis 0, Dis 0] @ loopsEnd False 0"

definition refusedAndDisconnect :: "label list" where
  "refusedAndDisconnect = sessionUp 0 @ [InTun True 0, InTun False 0, DisStart 0, Dis 0, Dis 0, Dis 0, Dis 0, InTun False 0]"

definition disconnectThenConnect :: "label list" where
  "disconnectThenConnect = sessionUp 0 @ [DisStart 0, Dis 0, Dis 0, Dis 0, Dis 0] @ sessionUp 1 @ loopsEnd True 0"

definition partialThenDisconnect :: "label list" where
  "partialThenDisconnect = [Opened, Setup True 0, Setup False 0, Setup False 0, DisStart 0, Dis 0, Dis 0] @ loopsEnd False 0"

definition lostInDisconnect :: "label list" where
  "lostInDisconnect = sessionUp 0 @ [DisStart 0, Dis 0, Dis 0, Lost 0, Dis 0]"

abbreviation runs where
  "runs cfg ifc unmarshal now h ls \<equiv> play (NewConnSession cfg ifc unmarshal now h) ls ends_start"

lemma reset_after_next:
  "\<exists>s. runs cfg ifc unmarshal now h disconnectThenConnect = Some (Inr s) \<and> CSess (Sess (heap s)) = Some 1 \<and> inPc s 1 = Some InLoop \<and>
     routes s = [RoutesSet 0, RoutesReset 0, RoutesSet 1, RoutesReset 0]"
  by (simp add: disconnectThenConnect_def play_simps open_simp)

text \<open>
  C34. Five races of the ends of a session, whatever the server answered.  A connection is lost
  and a request to disconnect comes before the deferred function reads \<open>ActiveClose\<close>: nobody
  resets the routes.  The device refuses a packet and a request to disconnect comes before the
  deferred function closes the session: they are reset twice.  A request to disconnect is
  followed by a connection before the old deferred function reads the flag, which is cleared
  now: the routes of the old session are reset after those of the new one were set, and the
  new session is up.  The routes cannot all be set and the request handler, which disconnects
  then, is faster than the deferred function: those that were set stay.  A connection is lost
  while a request to disconnect is served: nil pointer.
\<close>

theorem teardown_races:
  "(\<exists>s. runs cfg ifc unmarshal now h lostThenDisconnect = Some (Inr s) \<and> loops_over 0 s \<and> quiet s \<and> routes s = [RoutesSet 0]) \<and>
   (\<exists>s. runs cfg ifc unmarshal now h refusedAndDisconnect = Some (Inr s) \<and> routes s = [RoutesSet 0, RoutesReset 0, RoutesReset 0]) \<and>
   (\<exists>s. runs cfg ifc unmarshal now h disconnectThenConnect = Some (Inr s) \<and> CSess (Sess (heap s)) = Some 1 \<and> inPc s 1 = Some InLoop \<and>
     routes s = [RoutesSet 0, RoutesReset 0, RoutesSet 1, RoutesReset 0]) \<and>
   (\<exists>s. runs cfg ifc unmarshal now h partialThenDisconnect = Some (Inr s) \<and> loops_over 0 s \<and> quiet s \<and> routes s = [RoutesSet 0]) \<and>
   runs cfg ifc unmarshal now h lostInDisconnect = Some (Inl NilPointer)"
  using reset_after_next by (simp add: lostThenDisconnect_def refusedAndDisconnect_def partialThenDisconnect_def lostInDisconnect_def
      play_simps open_simp loops_over_def quiet_def)

end
