(* ===== verification/Files.thy ===== *)
theory Files
  imports Go_Std
begin

text \<open>
  File helpers: \<open>CopyFile\<close> of \<open>src/utils/utils.go\<close> and \<open>src/utils/record.go\<close>.  The file system is a map
  from names to contents with the permissions that matter and a limit on how much can be
  written to a name; a write that fails leaves what was written so far.
\<close>

subsection \<open>The file system\<close>

record fs =
  files :: "string \<rightharpoonup> string"
  canRead :: "string \<Rightarrow> bool"
  canWrite :: "string \<Rightarrow> bool"
  room :: "string \<Rightarrow> nat option"

definition ReadFile :: "string \<Rightarrow> fs \<Rightarrow> string + string" where
  "ReadFile p f =
     (case files f p of
        None \<Rightarrow> Inl ''no such file''
      | Some s \<Rightarrow> if canRead f p then Inr s else Inl ''permission denied'')"

text \<open>Opening for writing truncates; then the data is written as far as there is room.\<close>

definition WriteFile :: "string \<Rightarrow> string \<Rightarrow> fs \<Rightarrow> string option \<times> fs" where
  "WriteFile p s f =
     (if \<not> canWrite f p then (Some ''permission denied'', f)
      else case room f p of
        None \<Rightarrow> (None, f\<lparr>files := (files f)(p \<mapsto> s)\<rparr>)
      | Some n \<Rightarrow> if length s \<le> n then (None, f\<lparr>files := (files f)(p \<mapsto> s)\<rparr>)
                  else (Some ''no space left'', f\<lparr>files := (files f)(p \<mapsto> take n s)\<rparr>))"

subsection \<open>The helpers\<close>

definition CopyFile :: "string \<Rightarrow> string \<Rightarrow> fs \<Rightarrow> string option \<times> fs" where
  "CopyFile dstName srcName f =
     (case ReadFile srcName f of
        Inl e \<Rightarrow> (Some e, f)
      | Inr input \<Rightarrow> WriteFile dstName input f)"

record Record =
  Filename :: string
  Contents :: "string list"

definition NewRecord :: "string \<Rightarrow> Record" where
  "NewRecord filename = \<lparr>Filename = filename, Contents = []\<rparr>"

text \<open>
  \<open>bufio.Scanner\<close> with lines as tokens: a carriage return at the end of a line is dropped, an empty
  last line is no token, and the scan stops, silently, at a line that does not fit its buffer
  of 64 KiB.
\<close>

definition dropCR :: "string \<Rightarrow> string" where
  "dropCR l = (if l \<noteq> [] \<and> last l = CHR 13 then butlast l else l)"

definition scanLines :: "string \<Rightarrow> string list" where
  "scanLines s =
     (let ls = Split (CHR 10) s;
          ls = (if last ls = [] then butlast ls else ls)
      in map dropCR (takeWhile (\<lambda>l. length l < 65536) ls))"

definition readLines :: "fs \<Rightarrow> Record \<Rightarrow> string option \<times> Record" where
  "readLines f r =
     (case files f (Filename r) of
        None \<Rightarrow> (None, r)
      | Some s \<Rightarrow>
          if \<not> canRead f (Filename r) then (Some ''permission denied'', r)
          else (None, r\<lparr>Contents := Contents r @ filter (\<lambda>tmp. length tmp \<noteq> 0) (scanLines s)\<rparr>))"

definition Record_Write :: "string \<Rightarrow> bool \<Rightarrow> fs \<Rightarrow> Record \<Rightarrow> string option \<times> fs \<times> Record" where
  "Record_Write content prepend f r =
     (case (if prepend then readLines f r else (None, r)) of
        (Some e, r) \<Rightarrow> (Some e, f, r)
      | (None, r) \<Rightarrow>
          (let text = content @ [CHR 10] @ (if prepend then concat (map (\<lambda>line. line @ [CHR 10]) (Contents r)) else []);
               (e, f) = WriteFile (Filename r) text f
           in (e, f, r)))"

subsection \<open>Lemmas\<close>

lemma WriteFile_ok:
  assumes "canWrite f p" and "\<forall>n. room f p = Some n \<longrightarrow> length s \<le> n"
  shows "WriteFile p s f = (None, f\<lparr>files := (files f)(p \<mapsto> s)\<rparr>)"
  using assms by (auto simp: WriteFile_def split: option.splits)

lemma CopyFile_ok:
  assumes "files f src = Some s" and "canRead f src" and "canWrite f dst" and "\<forall>n. room f dst = Some n \<longrightarrow> length s \<le> n"
  shows "CopyFile dst src f = (None, f\<lparr>files := (files f)(dst \<mapsto> s)\<rparr>)"
  using assms WriteFile_ok by (simp add: CopyFile_def ReadFile_def)

text \<open>Lines that were written one by one are read back.\<close>

lemma concat_lines: "ls \<noteq> [] \<Longrightarrow> concat (map (\<lambda>l. l @ [c]) ls) = join c (ls @ [[]])"
proof (induction ls)
  case (Cons l ls)
  then show ?case by (cases ls) auto
qed simp

lemma scanLines_lines:
  assumes "\<forall>l\<in>set ls. CHR 10 \<notin> set l \<and> length l < 65536 \<and> (l = [] \<or> last l \<noteq> CHR 13)"
  shows "scanLines (concat (map (\<lambda>l. l @ [CHR 10]) ls)) = ls"
proof (cases "ls = []")
  case True
  then show ?thesis by (simp add: scanLines_def Split_def)
next
  case False
  have "Split (CHR 10) (join (CHR 10) (ls @ [[]])) = ls @ [[]]" using assms by (intro Split_join) auto
  moreover have "takeWhile (\<lambda>l. length l < 65536) ls = ls" using assms by (simp add: takeWhile_eq_all_conv)
  moreover have "map dropCR ls = ls" using assms by (intro map_idI) (auto simp: dropCR_def)
  ultimately show ?thesis using False by (simp add: scanLines_def concat_lines takeWhile_eq_all_conv [THEN iffD2])
qed

end
