(* ===== verification/Routes_Linux.thy ===== *)
theory Routes_Linux
  imports Session Files "HOL-Library.Multiset"
begin

text \<open>
  Interface, routes and DNS on Linux (\<open>src/utils/vpnc/vpnc_linux.go\<close>).  The kernel's network
  configuration is reached through the netlink library, which is a parameter: a record of the
  calls, over an arbitrary kernel state.  \<open>None\<close> as the result of an operation is a run-time
  panic (a nil link, a split entry without a mask) or a deletion loop that does not end.
\<close>

subsection \<open>The netlink library\<close>

record link =
  Index :: nat
  LinkName :: string
  HardwareAddr :: "byte list"

record 'n route =
  LinkIndex :: nat
  Dst :: "'n option"
  Gw :: "byte list option"
  Priority :: nat

record got_route =
  gotLink :: nat
  gotSrc :: "byte list option"
  gotGw :: "byte list option"

record ('k, 'n) netlink =
  LinkByName :: "string \<Rightarrow> 'k \<Rightarrow> string + link"
  LinkByIndex :: "nat \<Rightarrow> 'k \<Rightarrow> string + link"
  LinkSetUp :: "link \<Rightarrow> 'k \<Rightarrow> 'k"
  LinkSetMulticastOff :: "link \<Rightarrow> 'k \<Rightarrow> 'k"
  ParseAddr :: "string \<Rightarrow> 'n option"
  AddrAdd :: "link \<Rightarrow> 'n option \<Rightarrow> 'k \<Rightarrow> string option \<times> 'k"
  ParseIPNet :: "string \<Rightarrow> 'n option"
  netString :: "'n option \<Rightarrow> string"
  RouteAdd :: "'n route \<Rightarrow> 'k \<Rightarrow> string option \<times> 'k"
  RouteDel :: "'n route \<Rightarrow> 'k \<Rightarrow> string option \<times> 'k"
  RouteGet :: "byte list option \<Rightarrow> 'k \<Rightarrow> string option \<times> got_route list"
  parse6 :: "string \<Rightarrow> byte list option"

text \<open>The package's variables, the interface of the configuration, and the kernel.\<close>

record 'k vpnc =
  localInterface :: "link option"
  iface :: "link option"
  LocalIfc :: Interface
  kernel :: 'k

text \<open>\<open>net.ParseIP\<close>: 16 bytes, or nil.\<close>

definition ParseIP :: "(string \<Rightarrow> byte list option) \<Rightarrow> string \<Rightarrow> byte list option" where
  "ParseIP p6 s =
     (case dropWhile (\<lambda>c. c \<notin> set ''.:%'') s of
        c # _ \<Rightarrow> if c = CHR ''.'' then map_option (\<lambda>bs. replicate 10 0 @ [0xFF, 0xFF] @ bs) (parseIPv4 s)
                 else if c = CHR '':'' then p6 s else None
      | [] \<Rightarrow> None)"

definition gatewayOf :: "('k, 'n) netlink \<Rightarrow> 'k vpnc \<Rightarrow> byte list option" where
  "gatewayOf K v = ParseIP (parse6 K) (Gateway (LocalIfc v))"

definition route_query :: "nat \<Rightarrow> 'n option \<Rightarrow> 'n route" where
  "route_query i d = \<lparr>LinkIndex = i, Dst = d, Gw = None, Priority = 0\<rparr>"

subsection \<open>Interfaces\<close>

definition ConfigInterface :: "('k, 'n) netlink \<Rightarrow> ConnSession \<Rightarrow> 'k vpnc \<Rightarrow> string option \<times> 'k vpnc" where
  "ConfigInterface K cs v =
     (case LinkByName K (TunName cs) (kernel v) of
        Inl e \<Rightarrow> (Some e, v\<lparr>iface := None\<rparr>)
      | Inr l \<Rightarrow>
          (let k = LinkSetMulticastOff K l (LinkSetUp K l (kernel v));
               addr = ParseAddr K (IpMask2CIDR (\<lambda>s. parse6 K s) (VPNAddress cs) (VPNMask cs));
               (err, k) = AddrAdd K l addr k
           in (err, v\<lparr>iface := Some l, kernel := k\<rparr>)))"

definition ipString :: "byte list option \<Rightarrow> string" where
  "ipString ip = (case ip of None \<Rightarrow> ''<nil>'' | Some bs \<Rightarrow> showIP bs)"

definition macString :: "byte list \<Rightarrow> string" where
  "macString a = join (CHR '':'') (map (\<lambda>b. EncodeToString [b]) a)"

definition GetLocalInterface :: "('k, 'n) netlink \<Rightarrow> 'k vpnc \<Rightarrow> string option \<times> 'k vpnc" where
  "GetLocalInterface K v =
     (case RouteGet K (ParseIP (parse6 K) ''8.8.8.8'') (kernel v) of
        (err, []) \<Rightarrow> (err, v)
      | (err, route # _) \<Rightarrow>
          (case LinkByIndex K (gotLink route) (kernel v) of
             Inl e \<Rightarrow> (Some e, v\<lparr>localInterface := None\<rparr>)
           | Inr l \<Rightarrow>
               (None, v\<lparr>localInterface := Some l,
                        LocalIfc := (LocalIfc v)\<lparr>IfName := LinkName l, Ip4 := ipString (gotSrc route), Gateway := ipString (gotGw route),
                          Mac := macString (HardwareAddr l)\<rparr>\<rparr>)))"

subsection \<open>Routes\<close>

definition routingError :: "('k, 'n) netlink \<Rightarrow> 'n option \<Rightarrow> string \<Rightarrow> string" where
  "routingError K d err = ''routing error: '' @ netString K d @ '' '' @ err"

text \<open>A route that exists already is as good as one that was added.\<close>

definition addRoute :: "('k, 'n) netlink \<Rightarrow> 'n route \<Rightarrow> 'k \<Rightarrow> string option \<times> 'k" where
  "addRoute K r k =
     (case RouteAdd K r k of
        (None, k) \<Rightarrow> (None, k)
      | (Some e, k) \<Rightarrow> (if HasSuffix e ''exists'' then (None, k) else (Some (routingError K (Dst r) e), k)))"

text \<open>Both loops over split entries: \<open>mk\<close> makes the route to a destination.\<close>

fun addSplit :: "('k, 'n) netlink \<Rightarrow> ('n option \<Rightarrow> 'n route) \<Rightarrow> string list \<Rightarrow> 'k \<Rightarrow> (string option \<times> 'k) option" where
  "addSplit K mk [] k = Some (None, k)"
| "addSplit K mk (ipMask # ms) k =
     (case IpMaskToCIDR (\<lambda>s. parse6 K s) ipMask of
        None \<Rightarrow> None
      | Some cidr \<Rightarrow>
          (case addRoute K (mk (ParseIPNet K cidr)) k of
             (Some e, k) \<Rightarrow> Some (Some e, k)
           | (None, k) \<Rightarrow> addSplit K mk ms k))"

partial_function (option) delAllRoute :: "('k, 'n) netlink \<Rightarrow> 'n route \<Rightarrow> 'k \<Rightarrow> 'k option" where
  "delAllRoute K r k =
     (case RouteDel K r k of
        (Some e, k) \<Rightarrow> Some k
      | (None, k) \<Rightarrow> delAllRoute K r k)"

definition DynamicAddIncludeRoutes :: "('k, 'n) netlink \<Rightarrow> string list \<Rightarrow> 'k vpnc \<Rightarrow> 'k vpnc option" where
  "DynamicAddIncludeRoutes K ips v =
     (case iface v of
        None \<Rightarrow> None
      | Some l \<Rightarrow>
          Some (v\<lparr>kernel := fold (\<lambda>ip k. snd (RouteAdd K \<lparr>LinkIndex = Index l, Dst = ParseIPNet K (ip @ ''/32''), Gw = None, Priority = 6\<rparr> k))
                     ips (kernel v)\<rparr>))"

definition DynamicAddExcludeRoutes :: "('k, 'n) netlink \<Rightarrow> string list \<Rightarrow> 'k vpnc \<Rightarrow> 'k vpnc option" where
  "DynamicAddExcludeRoutes K ips v =
     (case localInterface v of
        None \<Rightarrow> None
      | Some l \<Rightarrow>
          Some (v\<lparr>kernel := fold (\<lambda>ip k. snd (RouteAdd K
                       \<lparr>LinkIndex = Index l, Dst = ParseIPNet K (ip @ ''/32''), Gw = gatewayOf K v, Priority = 5\<rparr> k))
                     ips (kernel v)\<rparr>))"

text \<open>\<open>setDNS\<close>: the routes now, the file later; \<open>True\<close> says that the goroutine was started.\<close>

definition setDNS :: "('k, 'n) netlink \<Rightarrow> ConnSession \<Rightarrow> 'k vpnc \<Rightarrow> (bool \<times> 'k vpnc) option" where
  "setDNS K cs v =
     (if length (DNS cs) > 0 then
        map_option (Pair True)
          (if length (DynamicSplitIncludeDomains cs) > 0 then DynamicAddIncludeRoutes K (DNS cs) v else Some v)
      else Some (False, v))"

definition globalRoute :: string where
  "globalRoute = ''0.0.0.0/0.0.0.0''"

text \<open>Without split entries everything goes through the tunnel, and the default route is made a worse one.\<close>

definition globalStart :: "('k, 'n) netlink \<Rightarrow> nat \<Rightarrow> byte list option \<Rightarrow> ConnSession \<Rightarrow> 'k \<Rightarrow> (ConnSession \<times> 'k) option" where
  "globalStart K i gateway cs k =
     (if length (SplitInclude cs) = 0 then
        (let zero = ParseIPNet K ''0.0.0.0/0'' in
         map_option (\<lambda>k. (cs\<lparr>SplitInclude := [globalRoute]\<rparr>,
             snd (RouteAdd K \<lparr>LinkIndex = i, Dst = zero, Gw = gateway, Priority = 10\<rparr> k)))
           (delAllRoute K (route_query i zero) k))
      else Some (cs, k))"

text \<open>The whole of \<open>SetRoutes\<close>: the error, whether the DNS goroutine was started, the session and the state.\<close>

definition SetRoutes :: "('k, 'n) netlink \<Rightarrow> ConnSession \<Rightarrow> 'k vpnc \<Rightarrow> (string option \<times> bool \<times> ConnSession \<times> 'k vpnc) option" where
  "SetRoutes K cs v =
     (let dst = ParseIPNet K (ServerAddress cs @ ''/32''); gateway = gatewayOf K v in
      case (iface v, localInterface v) of
        (Some tun, Some loc) \<Rightarrow>
          (case addRoute K \<lparr>LinkIndex = Index loc, Dst = dst, Gw = gateway, Priority = 0\<rparr> (kernel v) of
             (Some e, k) \<Rightarrow> Some (Some e, False, cs, v\<lparr>kernel := k\<rparr>)
           | (None, k) \<Rightarrow>
               (case globalStart K (Index loc) gateway cs k of
                  None \<Rightarrow> None
                | Some (cs, k) \<Rightarrow>
                    (case addSplit K (\<lambda>d. \<lparr>LinkIndex = Index tun, Dst = d, Gw = None, Priority = 6\<rparr>) (SplitInclude cs) k of
                       None \<Rightarrow> None
                     | Some (Some e, k) \<Rightarrow> Some (Some e, False, cs, v\<lparr>kernel := k\<rparr>)
                     | Some (None, k) \<Rightarrow>
                         (case addSplit K (\<lambda>d. \<lparr>LinkIndex = Index loc, Dst = d, Gw = gateway, Priority = 5\<rparr>) (SplitExclude cs) k of
                            None \<Rightarrow> None
                          | Some (Some e, k) \<Rightarrow> Some (Some e, False, cs, v\<lparr>kernel := k\<rparr>)
                          | Some (None, k) \<Rightarrow> map_option (\<lambda>(b, v). (None, b, cs, v)) (setDNS K cs (v\<lparr>kernel := k\<rparr>))))))
      | _ \<Rightarrow> None)"

fun delSplit :: "('k, 'n) netlink \<Rightarrow> nat \<Rightarrow> string list \<Rightarrow> 'k \<Rightarrow> 'k option" where
  "delSplit K i [] k = Some k"
| "delSplit K i (ipMask # ms) k =
     (case IpMaskToCIDR (\<lambda>s. parse6 K s) ipMask of
        None \<Rightarrow> None
      | Some cidr \<Rightarrow> delSplit K i ms (snd (RouteDel K (route_query i (ParseIPNet K cidr)) k)))"

definition delHosts :: "('k, 'n) netlink \<Rightarrow> nat \<Rightarrow> string list \<Rightarrow> 'k \<Rightarrow> 'k" where
  "delHosts K i ips k = fold (\<lambda>ip k. snd (RouteDel K (route_query i (ParseIPNet K (ip @ ''/32''))) k)) ips k"

definition resetGlobal :: "('k, 'n) netlink \<Rightarrow> nat \<Rightarrow> byte list option \<Rightarrow> ConnSession \<Rightarrow> 'k \<Rightarrow> 'k" where
  "resetGlobal K i gateway cs k =
     (if globalRoute \<in> set (SplitInclude cs) then
        (let zero = ParseIPNet K ''0.0.0.0/0'' in
         snd (RouteAdd K \<lparr>LinkIndex = i, Dst = zero, Gw = gateway, Priority = 0\<rparr> (snd (RouteDel K (route_query i zero) k))))
      else k)"

text \<open>
  \<open>ResetRoutes\<close>; \<open>keys\<close> is the order in which the resolved names are visited, and the flag says
  whether \<open>restoreDNS\<close> is called.
\<close>

definition ResetRoutes :: "('k, 'n) netlink \<Rightarrow> string list \<Rightarrow> ConnSession \<Rightarrow> 'k vpnc \<Rightarrow> (bool \<times> 'k vpnc) option" where
  "ResetRoutes K keys cs v =
     (case localInterface v of
        None \<Rightarrow> None
      | Some loc \<Rightarrow>
          (let i = Index loc;
               k = resetGlobal K i (gatewayOf K v) cs (kernel v);
               k = snd (RouteDel K (route_query i (ParseIPNet K (ServerAddress cs @ ''/32''))) k)
           in case delSplit K i (SplitExclude cs) k of
                None \<Rightarrow> None
              | Some k \<Rightarrow>
                  (let k = (if length (DynamicSplitExcludeDomains cs) > 0
                            then fold (\<lambda>key k. case DynamicSplitExcludeResolved cs key of None \<Rightarrow> k | Some ips \<Rightarrow> delHosts K i ips k) keys k
                            else k)
                   in Some (length (DNS cs) > 0, v\<lparr>kernel := k\<rparr>))))"

subsection \<open>DNS\<close>

text \<open>The goroutine of \<open>setDNS\<close>: a copy of the file, two seconds, the new file.\<close>

definition dnsBackup :: "fs \<Rightarrow> fs" where
  "dnsBackup f = snd (CopyFile ''/tmp/resolv.conf.bak'' ''/etc/resolv.conf'' f)"

definition dnsString :: "ConnSession \<Rightarrow> string" where
  "dnsString cs = concat (map (\<lambda>dns. ''nameserver '' @ dns @ [CHR 10]) (DNS cs))"

definition dnsWrite :: "ConnSession \<Rightarrow> fs \<Rightarrow> fs" where
  "dnsWrite cs f = (case Record_Write (dnsString cs) False f (NewRecord ''/etc/resolv.conf'') of (e, f, r) \<Rightarrow> f)"

definition restoreDNS :: "ConnSession \<Rightarrow> fs \<Rightarrow> fs" where
  "restoreDNS cs f = (if length (DNS cs) > 0 then snd (CopyFile ''/etc/resolv.conf'' ''/tmp/resolv.conf.bak'' f) else f)"

text \<open>\<open>run cmd\<close> is the shell: what it printed and how it failed, if it did.\<close>

fun execCmd :: "(string \<Rightarrow> 's \<Rightarrow> string option \<times> string \<times> 's) \<Rightarrow> (string \<Rightarrow> string) \<Rightarrow> string list \<Rightarrow> 's \<Rightarrow> string option \<times> 's" where
  "execCmd run cmdString [] s = (None, s)"
| "execCmd run cmdString (c # cs) s =
     (case run c s of
        (Some err, out, s) \<Rightarrow> (Some (err @ '' '' @ cmdString c @ '' '' @ out), s)
      | (None, _, s) \<Rightarrow> execCmd run cmdString cs s)"

subsection \<open>Counting routes\<close>

text \<open>
  What is used of the kernel: \<open>cnt k i d\<close> is the number of routes to \<open>d\<close> over the interface \<open>i\<close>.  An
  addition gives at most the route asked for; a deletion by interface and destination removes one
  such route if there is any and fails otherwise; neither touches other routes.
\<close>

definition counts :: "('k, 'n) netlink \<Rightarrow> ('k \<Rightarrow> nat \<Rightarrow> 'n option \<Rightarrow> nat) \<Rightarrow> bool" where
  "counts K cnt \<longleftrightarrow>
     (\<forall>r k i d. cnt (snd (RouteAdd K r k)) i d \<le> cnt k i d + (if i = LinkIndex r \<and> d = Dst r then 1 else 0)) \<and>
     (\<forall>i d k. (fst (RouteDel K (route_query i d) k) = None \<longleftrightarrow> cnt k i d > 0) \<and>
        (\<forall>i' d'. cnt (snd (RouteDel K (route_query i d) k)) i' d' = cnt k i' d' - (if i' = i \<and> d' = d then 1 else 0)))"

lemma counts_add: "counts K cnt \<Longrightarrow> cnt (snd (RouteAdd K r k)) i d \<le> cnt k i d + (if i = LinkIndex r \<and> d = Dst r then 1 else 0)"
  unfolding counts_def by blast

lemma counts_del: "counts K cnt \<Longrightarrow> cnt (snd (RouteDel K (route_query i d) k)) i' d' = cnt k i' d' - (if i' = i \<and> d' = d then 1 else 0)"
  unfolding counts_def by blast

text \<open>Deleting all routes to a destination ends, because every deletion that succeeds removes one.\<close>

lemma delAllRoute_ends:
  assumes c: "counts K cnt"
  shows "\<exists>k'. delAllRoute K (route_query i d) k = Some k' \<and> (\<forall>i' d'. cnt k' i' d' = (if i' = i \<and> d' = d then 0 else cnt k i' d'))"
proof (induction "cnt k i d" arbitrary: k)
  case 0
  obtain e k' where r: "RouteDel K (route_query i d) k = (e, k')" by fastforce
  with c 0 have "e \<noteq> None" unfolding counts_def by (metis fst_conv less_numeral_extra(3))
  then have "delAllRoute K (route_query i d) k = Some k'" using r by (subst delAllRoute.simps) auto
  then show ?case using counts_del [OF c, of i d k] r 0 by (auto intro!: exI [of _ k'])
next
  case (Suc n)
  obtain e k1 where r: "RouteDel K (route_query i d) k = (e, k1)" by fastforce
  with c Suc(2) have e: "e = None" unfolding counts_def by (metis fst_conv zero_less_Suc)
  have k1: "cnt k1 i' d' = cnt k i' d' - (if i' = i \<and> d' = d then 1 else 0)" for i' d' using counts_del [OF c, of i d k] r by simp
  then have "n = cnt k1 i d" using Suc(2) by (metis (full_types) diff_Suc_1)
  from Suc(1) [OF this] obtain k' where "delAllRoute K (route_query i d) k1 = Some k'"
    "\<forall>i' d'. cnt k' i' d' = (if i' = i \<and> d' = d then 0 else cnt k1 i' d')" by blast
  moreover from this(1) have "delAllRoute K (route_query i d) k = Some k'" using r e by (subst delAllRoute.simps) simp
  ultimately show ?case using k1 by auto
qed

text \<open>
  Over one interface: \<open>grows\<close> bounds what additions to \<open>ds\<close> give, \<open>shrinks\<close> says exactly what deletions of \<open>ds\<close>
  leave, both apart from the default route \<open>z\<close>.
\<close>

definition grows :: "('k \<Rightarrow> nat \<Rightarrow> 'n option \<Rightarrow> nat) \<Rightarrow> nat \<Rightarrow> 'n option \<Rightarrow> 'n option list \<Rightarrow> 'k \<Rightarrow> 'k \<Rightarrow> bool" where
  "grows cnt i z ds k k' \<longleftrightarrow> (\<forall>d. d \<noteq> z \<longrightarrow> cnt k' i d \<le> cnt k i d + count_list ds d)"

definition shrinks :: "('k \<Rightarrow> nat \<Rightarrow> 'n option \<Rightarrow> nat) \<Rightarrow> nat \<Rightarrow> 'n option \<Rightarrow> 'n option list \<Rightarrow> 'k \<Rightarrow> 'k \<Rightarrow> bool" where
  "shrinks cnt i z ds k k' \<longleftrightarrow> (\<forall>d. d \<noteq> z \<longrightarrow> cnt k' i d \<le> cnt k i d - count_list ds d)"

lemma grows_refl: "grows cnt i z ds k k"
  by (simp add: grows_def)

lemma grows_trans:
  assumes "grows cnt i z ds k k1" and "grows cnt i z ds' k1 k2"
  shows "grows cnt i z (ds @ ds') k k2"
  unfolding grows_def
proof (intro allI impI)
  fix d assume "d \<noteq> z"
  with assms have "cnt k1 i d \<le> cnt k i d + count_list ds d" "cnt k2 i d \<le> cnt k1 i d + count_list ds' d" by (simp_all add: grows_def)
  then show "cnt k2 i d \<le> cnt k i d + count_list (ds @ ds') d" by simp
qed

lemma grows_more: "grows cnt i z ds k k' \<Longrightarrow> grows cnt i z (ds @ ds') k k'"
  by (auto simp: grows_def intro: trans_le_add1)

lemma grows_add:
  assumes "counts K cnt"
  shows "grows cnt (LinkIndex r) z [Dst r] k (snd (RouteAdd K r k))"
  unfolding grows_def
proof (intro allI impI)
  fix d
  show "cnt (snd (RouteAdd K r k)) (LinkIndex r) d \<le> cnt k (LinkIndex r) d + count_list [Dst r] d"
    using counts_add [OF assms, of r k "LinkIndex r" d] by (cases "d = Dst r") simp_all
qed

lemma grows_add_other:
  assumes "counts K cnt" and "i \<noteq> LinkIndex r \<or> Dst r = z"
  shows "grows cnt i z [] k (snd (RouteAdd K r k))"
  unfolding grows_def
proof (intro allI impI)
  fix d assume "d \<noteq> z"
  then show "cnt (snd (RouteAdd K r k)) i d \<le> cnt k i d + count_list [] d"
    using counts_add [OF assms(1), of r k i d] assms(2) by (cases "i = LinkIndex r \<and> d = Dst r") auto
qed

lemma shrinks_trans:
  assumes "shrinks cnt i z ds k k1" and "shrinks cnt i z ds' k1 k2"
  shows "shrinks cnt i z (ds @ ds') k k2"
  unfolding shrinks_def
proof (intro allI impI)
  fix d assume "d \<noteq> z"
  with assms have "cnt k1 i d \<le> cnt k i d - count_list ds d" "cnt k2 i d \<le> cnt k1 i d - count_list ds' d" by (simp_all add: shrinks_def)
  then show "cnt k2 i d \<le> cnt k i d - count_list (ds @ ds') d" by simp
qed

lemma shrinks_del:
  assumes "counts K cnt"
  shows "shrinks cnt i z [d] k (snd (RouteDel K (route_query i d) k))"
  unfolding shrinks_def
proof (intro allI impI)
  fix d'
  show "cnt (snd (RouteDel K (route_query i d) k)) i d' \<le> cnt k i d' - count_list [d] d'"
    using counts_del [OF assms, of i d k i d'] by (cases "d' = d") simp_all
qed

lemma grows_shrinks:
  assumes "grows cnt i z ds k k1" and "shrinks cnt i z ds' k1 k2" and "mset ds = mset ds'" and "d \<noteq> z"
  shows "cnt k2 i d \<le> cnt k i d"
proof -
  have "count_list ds d = count_list ds' d" using assms(3) by (metis count_mset)
  moreover have "cnt k1 i d \<le> cnt k i d + count_list ds d" "cnt k2 i d \<le> cnt k1 i d - count_list ds' d"
    using assms by (simp_all add: grows_def shrinks_def)
  ultimately show ?thesis by simp
qed

lemma addRoute_grows:
  assumes c: "counts K cnt"
  shows "grows cnt (LinkIndex r) z [Dst r] k (snd (addRoute K r k))"
    and "i \<noteq> LinkIndex r \<Longrightarrow> grows cnt i z [] k (snd (addRoute K r k))"
proof -
  have "snd (addRoute K r k) = snd (RouteAdd K r k)" by (auto simp: addRoute_def split: prod.splits option.splits)
  then show "grows cnt (LinkIndex r) z [Dst r] k (snd (addRoute K r k))" "i \<noteq> LinkIndex r \<Longrightarrow> grows cnt i z [] k (snd (addRoute K r k))"
    using grows_add [OF c] grows_add_other [OF c] by auto
qed

text \<open>The destinations of a list of split entries.\<close>

definition targets :: "('k, 'n) netlink \<Rightarrow> string list \<Rightarrow> 'n option list" where
  "targets K ms = map (\<lambda>m. ParseIPNet K (the (IpMaskToCIDR (\<lambda>s. parse6 K s) m))) ms"

lemma addSplit_Cons:
  assumes "addSplit K mk (m # ms) k = Some (e, k')"
  obtains (stop) cidr where "IpMaskToCIDR (\<lambda>s. parse6 K s) m = Some cidr" "k' = snd (addRoute K (mk (ParseIPNet K cidr)) k)"
  | (more) cidr where "IpMaskToCIDR (\<lambda>s. parse6 K s) m = Some cidr" "addSplit K mk ms (snd (addRoute K (mk (ParseIPNet K cidr)) k)) = Some (e, k')"
  using assms by (auto split: option.splits prod.splits)

lemma addSplit_grows:
  assumes c: "counts K cnt" and mk: "\<And>d. LinkIndex (mk d) = i \<and> Dst (mk d) = d"
  shows "addSplit K mk ms k = Some (e, k') \<Longrightarrow> grows cnt i z (targets K ms) k k'"
proof (induction ms arbitrary: k)
  case (Cons m ms)
  have s1: "grows cnt i z [ParseIPNet K cidr] k (snd (addRoute K (mk (ParseIPNet K cidr)) k))" for cidr
    using addRoute_grows(1) [OF c, of "mk (ParseIPNet K cidr)" z k] mk by simp
  from Cons.prems show ?case
  proof (cases rule: addSplit_Cons)
    case (stop cidr)
    with grows_more [OF s1 [of cidr], of "targets K ms"] show ?thesis by (simp add: targets_def)
  next
    case (more cidr)
    from grows_trans [OF s1 [of cidr] Cons.IH [OF more(2)]] more(1) show ?thesis by (simp add: targets_def)
  qed
qed (simp add: grows_refl)

lemma addSplit_grows_other:
  assumes c: "counts K cnt" and mk: "\<And>d. LinkIndex (mk d) \<noteq> i"
  shows "addSplit K mk ms k = Some (e, k') \<Longrightarrow> grows cnt i z [] k k'"
proof (induction ms arbitrary: k)
  case (Cons m ms)
  have s1: "grows cnt i z [] k (snd (addRoute K (mk (ParseIPNet K cidr)) k))" for cidr
    using addRoute_grows(2) [OF c, of i "mk (ParseIPNet K cidr)" z k] mk [of "ParseIPNet K cidr"] by simp
  from Cons.prems show ?case
  proof (cases rule: addSplit_Cons)
    case (stop cidr)
    with s1 [of cidr] show ?thesis by simp
  next
    case (more cidr)
    from grows_trans [OF s1 [of cidr] Cons.IH [OF more(2)]] show ?thesis by simp
  qed
qed (simp add: grows_refl)

lemma delSplit_shrinks: "counts K cnt \<Longrightarrow> delSplit K i ms k = Some k' \<Longrightarrow> shrinks cnt i z (targets K ms) k k'"
proof (induction ms arbitrary: k)
  case Nil
  then show ?case by (simp add: shrinks_def targets_def)
next
  case (Cons m ms)
  obtain cidr where m: "IpMaskToCIDR (\<lambda>s. parse6 K s) m = Some cidr"
    using Cons.prems by (cases "IpMaskToCIDR (\<lambda>s. parse6 K s) m") auto
  have t: "targets K (m # ms) = [ParseIPNet K cidr] @ targets K ms" by (simp add: targets_def m)
  from Cons.prems(2) m have "delSplit K i ms (snd (RouteDel K (route_query i (ParseIPNet K cidr)) k)) = Some k'" by simp
  from shrinks_trans [OF shrinks_del [OF Cons.prems(1)] Cons.IH [OF Cons.prems(1) this]] show ?case unfolding t .
qed

lemma fold_grows:
  assumes "counts K cnt" and "\<And>x. LinkIndex (mk x) = i"
  shows "grows cnt i z (map (\<lambda>x. Dst (mk x)) xs) k (fold (\<lambda>x k. snd (RouteAdd K (mk x) k)) xs k)"
proof (induction xs arbitrary: k)
  case (Cons x xs)
  have "grows cnt i z [Dst (mk x)] k (snd (RouteAdd K (mk x) k))" using grows_add [OF assms(1), of "mk x"] assms(2) by simp
  from grows_trans [OF this Cons.IH] show ?case by simp
qed (simp add: grows_refl)

lemma fold_grows_other:
  assumes "counts K cnt" and "\<And>x. LinkIndex (mk x) \<noteq> i"
  shows "grows cnt i z [] k (fold (\<lambda>x k. snd (RouteAdd K (mk x) k)) xs k)"
proof (induction xs arbitrary: k)
  case (Cons x xs)
  have "grows cnt i z [] k (snd (RouteAdd K (mk x) k))" using assms(2) [of x] by (intro grows_add_other [OF assms(1)]) auto
  from grows_trans [OF this Cons.IH] show ?case by simp
qed (simp add: grows_refl)

definition hosts :: "('k, 'n) netlink \<Rightarrow> string list \<Rightarrow> 'n option list" where
  "hosts K ips = map (\<lambda>ip. ParseIPNet K (ip @ ''/32'')) ips"

lemma delHosts_shrinks:
  assumes "counts K cnt"
  shows "shrinks cnt i z (hosts K ips) k (delHosts K i ips k)"
proof (induction ips arbitrary: k)
  case Nil
  then show ?case by (simp add: shrinks_def hosts_def delHosts_def)
next
  case (Cons ip ips)
  from shrinks_trans [OF shrinks_del [OF assms, of i z "ParseIPNet K (ip @ ''/32'')" k] Cons.IH] show ?case
    by (simp add: hosts_def delHosts_def)
qed

text \<open>The exclusions that domain splitting adds later, one list of addresses per name.\<close>

fun excludeAll :: "('k, 'n) netlink \<Rightarrow> string list list \<Rightarrow> 'k vpnc \<Rightarrow> 'k vpnc option" where
  "excludeAll K [] v = Some v"
| "excludeAll K (ips # rest) v = (case DynamicAddExcludeRoutes K ips v of None \<Rightarrow> None | Some v \<Rightarrow> excludeAll K rest v)"

definition same_links :: "'k vpnc \<Rightarrow> 'k vpnc \<Rightarrow> bool" where
  "same_links v v' \<longleftrightarrow> iface v' = iface v \<and> localInterface v' = localInterface v \<and> LocalIfc v' = LocalIfc v"

lemma excludeAll_grows:
  assumes c: "counts K cnt" and l: "localInterface v = Some loc" and e: "excludeAll K answers v = Some v'"
  shows "grows cnt (Index loc) z (concat (map (hosts K) answers)) (kernel v) (kernel v') \<and> same_links v v'"
  using l e
proof (induction answers arbitrary: v)
  case (Cons ips rest)
  then obtain v1 where v1: "DynamicAddExcludeRoutes K ips v = Some v1" "excludeAll K rest v1 = Some v'" by (auto split: option.splits)
  have g: "grows cnt (Index loc) z (hosts K ips) (kernel v) (kernel v1)" "same_links v v1"
    using v1(1) Cons.prems(1) fold_grows [OF c, where i = "Index loc" and xs = ips and k = "kernel v" and z = z and
      mk = "\<lambda>ip. \<lparr>LinkIndex = Index loc, Dst = ParseIPNet K (ip @ ''/32''), Gw = gatewayOf K v, Priority = 5\<rparr>"]
    by (auto simp: DynamicAddExcludeRoutes_def hosts_def same_links_def)
  from Cons.IH [of v1] g(2) Cons.prems(1) v1(2) grows_trans [OF g(1)] g(2) show ?case by (auto simp: same_links_def)
qed (simp add: grows_refl same_links_def)

lemma setDNS_grows:
  assumes c: "counts K cnt" and l: "iface v = Some tun" and i: "i \<noteq> Index tun" and e: "setDNS K cs v = Some (b, v')"
  shows "grows cnt i z [] (kernel v) (kernel v') \<and> same_links v v'"
  using e l fold_grows_other [OF c, where i = i and xs = "DNS cs" and k = "kernel v" and z = z and
      mk = "\<lambda>ip. \<lparr>LinkIndex = Index tun, Dst = ParseIPNet K (ip @ ''/32''), Gw = None, Priority = 6\<rparr>"] i
  by (auto simp: setDNS_def DynamicAddIncludeRoutes_def same_links_def grows_refl split: if_splits)

lemma SplitInclude_self [simp]: "\<exists>s. cs = cs\<lparr>SplitInclude := s\<rparr>"
  by (rule exI [of _ "SplitInclude cs"]) simp

lemma globalStart_grows:
  assumes c: "counts K cnt" and e: "globalStart K i gw cs k = Some (cs', k')"
  shows "grows cnt i (ParseIPNet K ''0.0.0.0/0'') [] k k' \<and> (\<exists>s. cs' = cs\<lparr>SplitInclude := s\<rparr>)"
proof (cases "length (SplitInclude cs) = 0")
  case True
  let ?z = "ParseIPNet K ''0.0.0.0/0''"
  from delAllRoute_ends [OF c, of i ?z k] obtain k1 where k1: "delAllRoute K (route_query i ?z) k = Some k1"
    "\<forall>i' d'. cnt k1 i' d' = (if i' = i \<and> d' = ?z then 0 else cnt k i' d')" by blast
  have "grows cnt i ?z [] k k1" using k1(2) by (simp add: grows_def)
  moreover have "grows cnt i ?z [] k1 (snd (RouteAdd K \<lparr>LinkIndex = i, Dst = ?z, Gw = gw, Priority = 10\<rparr> k1))"
    by (rule grows_add_other [OF c]) simp
  ultimately have "grows cnt i ?z ([] @ []) k (snd (RouteAdd K \<lparr>LinkIndex = i, Dst = ?z, Gw = gw, Priority = 10\<rparr> k1))" by (rule grows_trans)
  with e True k1(1) show ?thesis by (auto simp: globalStart_def)
next
  case False
  with e show ?thesis by (auto simp: globalStart_def grows_refl)
qed

lemma addRoute_grows':
  assumes "counts K cnt" and "addRoute K r k = (e, k')"
  shows "grows cnt (LinkIndex r) z [Dst r] k k'"
  using addRoute_grows(1) [OF assms(1), of r z k] assms(2) by simp

text \<open>How far \<open>SetRoutes\<close> got when it returned.\<close>

lemma SetRoutes_cases:
  assumes "SetRoutes K cs v = Some (r, b, cs', v')" and "iface v = Some tun" and "localInterface v = Some loc"
  obtains (server) e k where "addRoute K \<lparr>LinkIndex = Index loc, Dst = ParseIPNet K (ServerAddress cs @ ''/32''), Gw = gatewayOf K v, Priority = 0\<rparr> (kernel v) = (e, k)"
      "v' = v\<lparr>kernel := k\<rparr>" "cs' = cs"
  | (inc) e1 k1 k2 e3 k3 where
      "addRoute K \<lparr>LinkIndex = Index loc, Dst = ParseIPNet K (ServerAddress cs @ ''/32''), Gw = gatewayOf K v, Priority = 0\<rparr> (kernel v) = (e1, k1)"
      "globalStart K (Index loc) (gatewayOf K v) cs k1 = Some (cs', k2)"
      "addSplit K (\<lambda>d. \<lparr>LinkIndex = Index tun, Dst = d, Gw = None, Priority = 6\<rparr>) (SplitInclude cs') k2 = Some (e3, k3)"
      "v' = v\<lparr>kernel := k3\<rparr>"
  | (exc) e1 k1 k2 e3 k3 e4 k4 where
      "addRoute K \<lparr>LinkIndex = Index loc, Dst = ParseIPNet K (ServerAddress cs @ ''/32''), Gw = gatewayOf K v, Priority = 0\<rparr> (kernel v) = (e1, k1)"
      "globalStart K (Index loc) (gatewayOf K v) cs k1 = Some (cs', k2)"
      "addSplit K (\<lambda>d. \<lparr>LinkIndex = Index tun, Dst = d, Gw = None, Priority = 6\<rparr>) (SplitInclude cs') k2 = Some (e3, k3)"
      "addSplit K (\<lambda>d. \<lparr>LinkIndex = Index loc, Dst = d, Gw = gatewayOf K v, Priority = 5\<rparr>) (SplitExclude cs') k3 = Some (e4, k4)"
      "v' = v\<lparr>kernel := k4\<rparr> \<or> setDNS K cs' (v\<lparr>kernel := k4\<rparr>) = Some (b, v')"
  using assms by (auto simp: SetRoutes_def Let_def split: option.splits prod.splits)

lemma SetRoutes_grows:
  assumes c: "counts K cnt" and l: "iface v = Some tun" "localInterface v = Some loc" and i: "Index loc \<noteq> Index tun"
    and e: "SetRoutes K cs v = Some (r, b, cs', v')"
  shows "grows cnt (Index loc) (ParseIPNet K ''0.0.0.0/0'') (ParseIPNet K (ServerAddress cs @ ''/32'') # targets K (SplitExclude cs)) (kernel v) (kernel v') \<and>
    same_links v v' \<and> (\<exists>s. cs' = cs\<lparr>SplitInclude := s\<rparr>)"
proof -
  let ?z = "ParseIPNet K ''0.0.0.0/0''" and ?d = "ParseIPNet K (ServerAddress cs @ ''/32'')"
  let ?g = "grows cnt (Index loc) ?z"
  have up: "?g [?d] (kernel v) k3 \<and> (\<exists>s. cs' = cs\<lparr>SplitInclude := s\<rparr>)"
    if "addRoute K \<lparr>LinkIndex = Index loc, Dst = ?d, Gw = gatewayOf K v, Priority = 0\<rparr> (kernel v) = (e1, k1)"
      "globalStart K (Index loc) (gatewayOf K v) cs k1 = Some (cs', k2)"
      "addSplit K (\<lambda>d. \<lparr>LinkIndex = Index tun, Dst = d, Gw = None, Priority = 6\<rparr>) (SplitInclude cs') k2 = Some (e3, k3)" for e1 k1 k2 e3 k3
  proof -
    have g1: "?g [?d] (kernel v) k1" using addRoute_grows' [OF c that(1), of ?z] by simp
    have g3: "?g [] k2 k3" by (rule addSplit_grows_other [OF c _ that(3)]) (use i in simp)
    from grows_trans [OF grows_trans [OF g1 conjunct1 [OF globalStart_grows [OF c that(2)]]] g3] globalStart_grows [OF c that(2)]
    show ?thesis by simp
  qed
  from e l show ?thesis
  proof (cases rule: SetRoutes_cases)
    case (server e k)
    have "?g [?d] (kernel v) k" using addRoute_grows' [OF c server(1), of ?z] by simp
    then show ?thesis using server(2,3) grows_more [of cnt _ ?z "[?d]"] by (auto simp: same_links_def)
  next
    case (inc e1 k1 k2 e3 k3)
    from up [OF inc(1-3)] grows_more [of cnt _ ?z "[?d]"] inc(4) show ?thesis by (auto simp: same_links_def)
  next
    case (exc e1 k1 k2 e3 k3 e4 k4)
    from up [OF exc(1-3)] have u: "?g [?d] (kernel v) k3" "\<exists>s. cs' = cs\<lparr>SplitInclude := s\<rparr>" by auto
    then have ex: "SplitExclude cs' = SplitExclude cs" by auto
    have "?g (targets K (SplitExclude cs)) k3 k4" by (rule addSplit_grows [OF c _ exc(4) [unfolded ex]]) simp
    from grows_trans [OF u(1) this] have g4: "?g (?d # targets K (SplitExclude cs)) (kernel v) k4" by simp
    from exc(5) have "?g [] k4 (kernel v') \<and> same_links v v'"
    proof
      assume "setDNS K cs' (v\<lparr>kernel := k4\<rparr>) = Some (b, v')"
      from setDNS_grows [OF c _ i this, of ?z] l show ?thesis by (simp add: same_links_def)
    qed (simp add: grows_refl same_links_def)
    with grows_trans [OF g4, of "[]" "kernel v'"] u(2) show ?thesis by auto
  qed
qed

lemma grows_Nil_shrinks: "grows cnt i z [] k k' \<Longrightarrow> shrinks cnt i z [] k k'"
  by (simp add: grows_def shrinks_def)

lemma fold_delHosts_shrinks:
  assumes "counts K cnt" and "\<forall>key\<in>set keys. res key \<noteq> None"
  shows "shrinks cnt i z (concat (map (\<lambda>key. hosts K (the (res key))) keys)) k
    (fold (\<lambda>key k. case res key of None \<Rightarrow> k | Some ips \<Rightarrow> delHosts K i ips k) keys k)"
  using assms(2)
proof (induction keys arbitrary: k)
  case Nil
  then show ?case by (simp add: shrinks_def)
next
  case (Cons key keys)
  then obtain ips where ips: "res key = Some ips" by auto
  from Cons shrinks_trans [OF delHosts_shrinks [OF assms(1), of i z ips k] Cons.IH] show ?case by (simp add: ips)
qed

lemma resetGlobal_shrinks:
  assumes c: "counts K cnt"
  shows "shrinks cnt i (ParseIPNet K ''0.0.0.0/0'') [] k (resetGlobal K i gw cs k)"
proof (cases "globalRoute \<in> set (SplitInclude cs)")
  case True
  let ?z = "ParseIPNet K ''0.0.0.0/0''"
  let ?k = "snd (RouteDel K (route_query i ?z) k)"
  have "grows cnt i ?z [] k ?k" using counts_del [OF c, of i ?z k] by (simp add: grows_def)
  moreover have "grows cnt i ?z [] ?k (snd (RouteAdd K \<lparr>LinkIndex = i, Dst = ?z, Gw = gw, Priority = 0\<rparr> ?k))"
    by (rule grows_add_other [OF c]) simp
  ultimately show ?thesis using True grows_trans [of cnt i ?z "[]" k ?k "[]"] by (simp add: resetGlobal_def Let_def grows_Nil_shrinks)
qed (simp add: resetGlobal_def grows_Nil_shrinks grows_refl)

lemma ResetRoutes_shrinks:
  assumes c: "counts K cnt" and l: "localInterface v = Some loc" and e: "ResetRoutes K keys cs v = Some (b, v')"
    and keys: "\<forall>key\<in>set keys. DynamicSplitExcludeResolved cs key \<noteq> None" "keys = [] \<or> DynamicSplitExcludeDomains cs \<noteq> []"
  shows "shrinks cnt (Index loc) (ParseIPNet K ''0.0.0.0/0'')
    (ParseIPNet K (ServerAddress cs @ ''/32'') # targets K (SplitExclude cs) @
      concat (map (\<lambda>key. hosts K (the (DynamicSplitExcludeResolved cs key))) keys)) (kernel v) (kernel v')"
proof -
  let ?i = "Index loc" and ?z = "ParseIPNet K ''0.0.0.0/0''" and ?d = "ParseIPNet K (ServerAddress cs @ ''/32'')"
  let ?s = "shrinks cnt ?i ?z"
  let ?k1 = "resetGlobal K ?i (gatewayOf K v) cs (kernel v)"
  let ?fold = "fold (\<lambda>key k. case DynamicSplitExcludeResolved cs key of None \<Rightarrow> k | Some ips \<Rightarrow> delHosts K ?i ips k) keys"
  from e l obtain k3 where k3: "delSplit K ?i (SplitExclude cs) (snd (RouteDel K (route_query ?i ?d) ?k1)) = Some k3"
    and v': "kernel v' = (if length (DynamicSplitExcludeDomains cs) > 0 then ?fold k3 else k3)"
    by (auto simp: ResetRoutes_def Let_def split: option.splits)
  from shrinks_trans [OF shrinks_trans [OF resetGlobal_shrinks [OF c, of ?i "kernel v" "gatewayOf K v" cs] shrinks_del [OF c, of ?i ?z ?d]]
    delSplit_shrinks [OF c k3]]
  have s3: "?s (?d # targets K (SplitExclude cs)) (kernel v) k3" by simp
  have "?s (concat (map (\<lambda>key. hosts K (the (DynamicSplitExcludeResolved cs key))) keys)) k3 (kernel v')"
  proof (cases "DynamicSplitExcludeDomains cs = []")
    case True
    with keys(2) v' show ?thesis by (simp add: shrinks_def)
  next
    case False
    with fold_delHosts_shrinks [OF c keys(1), of ?i ?z k3] v' show ?thesis by simp
  qed
  from shrinks_trans [OF s3 this] show ?thesis by simp
qed

lemma split1_Nil: "snd (split1 c s) = [] \<longleftrightarrow> c \<notin> set s"
  by (induction s) (auto split: prod.splits)

lemma IpMaskToCIDR_defined: "IpMaskToCIDR p m \<noteq> None \<longleftrightarrow> CHR ''/'' \<in> set m"
proof -
  obtain w ws where w: "split1 (CHR ''/'') m = (w, ws)" by fastforce
  with split1_Nil [of "CHR ''/''" m] show ?thesis
    by (cases ws) (auto simp: IpMaskToCIDR_def Split_def go_index_def)
qed

lemma addSplit_defined: "\<forall>m\<in>set ms. CHR ''/'' \<in> set m \<Longrightarrow> addSplit K mk ms k \<noteq> None"
proof (induction ms arbitrary: k)
  case (Cons m ms)
  then obtain cidr where "IpMaskToCIDR (\<lambda>s. parse6 K s) m = Some cidr" using IpMaskToCIDR_defined [of "\<lambda>s. parse6 K s" m] by auto
  moreover have "addSplit K mk ms k' \<noteq> None" for k' using Cons by simp
  ultimately show ?case by (auto split: prod.splits option.splits)
qed simp

lemma SetRoutes_defined:
  assumes c: "counts K cnt" and l: "iface v = Some tun" "localInterface v = Some loc"
    and a: "\<forall>m\<in>set (SplitInclude cs @ SplitExclude cs). CHR ''/'' \<in> set m"
  shows "\<exists>res. SetRoutes K cs v = Some res"
proof -
  have dns: "setDNS K cs' (v\<lparr>kernel := k\<rparr>) \<noteq> None" for cs' k using l by (auto simp: setDNS_def DynamicAddIncludeRoutes_def)
  have start: "\<exists>cs' k'. globalStart K (Index loc) (gatewayOf K v) cs k = Some (cs', k') \<and>
      (\<forall>m\<in>set (SplitInclude cs'). CHR ''/'' \<in> set m) \<and> SplitExclude cs' = SplitExclude cs" for k
    using delAllRoute_ends [OF c, of "Index loc" "ParseIPNet K ''0.0.0.0/0''" k] a by (auto simp: globalStart_def globalRoute_def Let_def)
  obtain e k where k: "addRoute K \<lparr>LinkIndex = Index loc, Dst = ParseIPNet K (ServerAddress cs @ ''/32''), Gw = gatewayOf K v, Priority = 0\<rparr> (kernel v) = (e, k)"
    by fastforce
  from start [of k] obtain cs' k' where g: "globalStart K (Index loc) (gatewayOf K v) cs k = Some (cs', k')"
    "\<forall>m\<in>set (SplitInclude cs'). CHR ''/'' \<in> set m" "SplitExclude cs' = SplitExclude cs" by blast
  have add: "addSplit K mk (SplitInclude cs') k1 \<noteq> None" "addSplit K mk (SplitExclude cs') k1 \<noteq> None" for mk k1
    using g a by (simp_all add: addSplit_defined del: not_None_eq)
  obtain e3 k3 where a3: "addSplit K (\<lambda>d. \<lparr>LinkIndex = Index tun, Dst = d, Gw = None, Priority = 6\<rparr>) (SplitInclude cs') k' = Some (e3, k3)"
    using add(1) by fastforce
  obtain e4 k4 where a4: "addSplit K (\<lambda>d. \<lparr>LinkIndex = Index loc, Dst = d, Gw = gatewayOf K v, Priority = 5\<rparr>) (SplitExclude cs') k3 = Some (e4, k4)"
    using add(2) by fastforce
  obtain b v' where d: "setDNS K cs' (v\<lparr>kernel := k4\<rparr>) = Some (b, v')" using dns by fastforce
  show "\<exists>res. SetRoutes K cs v = Some res"
    using l k g(1) a3 a4 d by (cases e; cases e3; cases e4) (auto simp: SetRoutes_def Let_def)
qed

lemma excludeAll_defined: "localInterface v \<noteq> None \<Longrightarrow> \<exists>v'. excludeAll K answers v = Some v'"
proof (induction answers arbitrary: v)
  case (Cons ips rest)
  then obtain v1 where "DynamicAddExcludeRoutes K ips v = Some v1" "localInterface v1 \<noteq> None" by (auto simp: DynamicAddExcludeRoutes_def)
  with Cons.IH show ?case by simp
qed simp

lemma delSplit_defined: "\<forall>m\<in>set ms. CHR ''/'' \<in> set m \<Longrightarrow> \<exists>k'. delSplit K i ms k = Some k'"
proof (induction ms arbitrary: k)
  case (Cons m ms)
  then show ?case using IpMaskToCIDR_defined [of "\<lambda>s. parse6 K s" m] by auto
qed simp

lemma ResetRoutes_defined:
  assumes "localInterface v \<noteq> None" and "\<forall>m\<in>set (SplitExclude cs). CHR ''/'' \<in> set m"
  shows "\<exists>b v'. ResetRoutes K keys cs v = Some (b, v')"
proof -
  from assms(1) obtain loc where "localInterface v = Some loc" by blast
  moreover have "\<exists>k'. delSplit K (Index loc) (SplitExclude cs)
      (snd (RouteDel K (route_query (Index loc) (ParseIPNet K (ServerAddress cs @ ''/32''))) (resetGlobal K (Index loc) (gatewayOf K v) cs (kernel v)))) = Some k'"
    by (rule delSplit_defined [OF assms(2)])
  ultimately show ?thesis unfolding ResetRoutes_def Let_def by auto
qed

lemma mset_concat_map: "mset (concat (map f xs)) = sum_mset (image_mset (\<lambda>x. mset (f x)) (mset xs))"
  by (induction xs) simp_all

subsection \<open>A kernel to try it on\<close>

text \<open>The table is a list; an addition fails if the very route is there, a deletion takes the first match.\<close>

type_synonym table = "string route list"

definition sample_del :: "string route \<Rightarrow> table \<Rightarrow> string option \<times> table" where
  "sample_del r k =
     (case find (\<lambda>q. LinkIndex q = LinkIndex r \<and> Dst q = Dst r) k of
        None \<Rightarrow> (Some ''no such process'', k)
      | Some q \<Rightarrow> (None, remove1 q k))"

definition sample_netlink :: "(table, string) netlink" where
  "sample_netlink = \<lparr>LinkByName = (\<lambda>_ _. Inl []), LinkByIndex = (\<lambda>_ _. Inl []), LinkSetUp = (\<lambda>_ k. k), LinkSetMulticastOff = (\<lambda>_ k. k),
     ParseAddr = Some, AddrAdd = (\<lambda>_ _ k. (None, k)), ParseIPNet = Some, netString = (\<lambda>_. []),
     RouteAdd = (\<lambda>r k. if r \<in> set k then (Some ''file exists'', k) else (None, k @ [r])),
     RouteDel = sample_del, RouteGet = (\<lambda>_ _. (None, [])), parse6 = (\<lambda>_. None)\<rparr>"

definition sample_cnt :: "table \<Rightarrow> nat \<Rightarrow> string option \<Rightarrow> nat" where
  "sample_cnt k i d = length (filter (\<lambda>q. LinkIndex q = i \<and> Dst q = d) k)"

lemma filter_remove1_length:
  "q \<in> set k \<Longrightarrow> length (filter P (remove1 q k)) = length (filter P k) - (if P q then 1 else 0)"
proof (induction k)
  case (Cons x k)
  have "q \<in> set k \<Longrightarrow> P q \<Longrightarrow> filter P k \<noteq> []" by (auto simp: filter_empty_conv)
  with Cons show ?case by (cases "x = q") (auto simp: Suc_diff_Suc)
qed simp

lemma sample_counts: "counts sample_netlink sample_cnt"
proof -
  have add: "sample_cnt (snd (RouteAdd sample_netlink r k)) i d \<le> sample_cnt k i d + (if i = LinkIndex r \<and> d = Dst r then 1 else 0)" for r k i d
    by (simp add: sample_netlink_def sample_cnt_def)
  have del: "(fst (RouteDel sample_netlink (route_query i d) k) = None \<longleftrightarrow> sample_cnt k i d > 0) \<and>
     sample_cnt (snd (RouteDel sample_netlink (route_query i d) k)) i' d' = sample_cnt k i' d' - (if i' = i \<and> d' = d then 1 else 0)" for i d k i' d'
  proof (cases "find (\<lambda>q. LinkIndex q = i \<and> Dst q = d) k")
    case None
    then have "filter (\<lambda>q. LinkIndex q = i \<and> Dst q = d) k = []" by (simp add: find_None_iff filter_empty_conv)
    with None show ?thesis by (auto simp: sample_netlink_def sample_del_def route_query_def sample_cnt_def)
  next
    case (Some q)
    then have q: "q \<in> set k" "LinkIndex q = i" "Dst q = d" by (auto simp: find_Some_iff)
    then have "q \<in> set (filter (\<lambda>q. LinkIndex q = i \<and> Dst q = d) k)" by simp
    then have "0 < length (filter (\<lambda>q. LinkIndex q = i \<and> Dst q = d) k)" by (rule length_pos_if_in_set)
    with Some q filter_remove1_length [OF q(1), of "\<lambda>q. LinkIndex q = i' \<and> Dst q = d'"] show ?thesis
      by (auto simp: sample_netlink_def sample_del_def route_query_def sample_cnt_def)
  qed
  show ?thesis unfolding counts_def using add del by blast
qed

definition sample_split_session :: ConnSession where
  "sample_split_session = (connOf sample_cfg sample_ifc (\<lambda>_. None) 0 (\<lambda>_. []) 0)\<lparr>ServerAddress := ''192.0.2.1'', DNS := [],
     SplitInclude := [''10.0.0.0/255.0.0.0''], SplitExclude := [''10.1.0.0/255.255.0.0''], DynamicSplitExcludeDomains := [''example.com'']\<rparr>"

definition sample_vpnc :: "table vpnc" where
  "sample_vpnc = \<lparr>localInterface = Some \<lparr>Index = 2, LinkName = ''eth0'', HardwareAddr = []\<rparr>, iface = Some \<lparr>Index = 7, LinkName = ''sslcon'', HardwareAddr = []\<rparr>,
     LocalIfc = sample_ifc, kernel = []\<rparr>"

subsection \<open>Properties\<close>

text \<open>
  C37. Routes are given back: after \<open>SetRoutes\<close>, whether it succeeded or failed half-way, any exclusions that
  domain splitting added since, and \<open>ResetRoutes\<close>, there are no more routes over the local interface to any
  destination but the default one than before.
\<close>

theorem routes_given_back:
  assumes "counts K cnt" and "iface v = Some tun" and "localInterface v = Some loc" and "Index loc \<noteq> Index tun"
    and "SetRoutes K cs v = Some (r, b, cs1, v1)"
    and "excludeAll K (map (\<lambda>name. the (res name)) names) v1 = Some v2" and "\<forall>name\<in>set names. res name \<noteq> None"
    and "names = [] \<or> DynamicSplitExcludeDomains cs \<noteq> []"
    and "mset keys = mset names" and "ResetRoutes K keys (cs1\<lparr>DynamicSplitExcludeResolved := res\<rparr>) v2 = Some (b', v3)"
    and "d \<noteq> ParseIPNet K ''0.0.0.0/0''"
  shows "cnt (kernel v3) (Index loc) d \<le> cnt (kernel v) (Index loc) d"
proof -
  let ?z = "ParseIPNet K ''0.0.0.0/0''" and ?s = "ParseIPNet K (ServerAddress cs @ ''/32'') # targets K (SplitExclude cs)"
  let ?h = "\<lambda>keys. concat (map (\<lambda>key. hosts K (the (res key))) keys)"
  from SetRoutes_grows [OF assms(1-5)] obtain s where set1: "grows cnt (Index loc) ?z ?s (kernel v) (kernel v1)" "same_links v v1"
    "cs1 = cs\<lparr>SplitInclude := s\<rparr>" by blast
  then have l1: "localInterface v1 = Some loc" using assms(3) by (simp add: same_links_def)
  from excludeAll_grows [OF assms(1) l1 assms(6), of ?z] have ex: "grows cnt (Index loc) ?z (?h names) (kernel v1) (kernel v2)" "same_links v1 v2"
    by (simp_all add: comp_def)
  then have l2: "localInterface v2 = Some loc" using l1 by (simp add: same_links_def)
  have set: "set keys = set names" and nil: "keys = [] \<longleftrightarrow> names = []" using assms(9) by (metis set_mset_mset, metis mset_zero_iff_right mset_zero_iff)
  let ?cs = "cs1\<lparr>DynamicSplitExcludeResolved := res\<rparr>"
  have cs: "ServerAddress ?cs = ServerAddress cs" "SplitExclude ?cs = SplitExclude cs" "DynamicSplitExcludeResolved ?cs = res"
    "DynamicSplitExcludeDomains ?cs = DynamicSplitExcludeDomains cs" by (simp_all add: set1(3))
  have "\<forall>key\<in>set keys. res key \<noteq> None" "keys = [] \<or> DynamicSplitExcludeDomains cs \<noteq> []" using assms(7,8) set nil by auto
  then have "shrinks cnt (Index loc) ?z (?s @ ?h keys) (kernel v2) (kernel v3)"
    using ResetRoutes_shrinks [OF assms(1) l2 assms(10), unfolded cs] by simp
  moreover have "mset (?s @ ?h names) = mset (?s @ ?h keys)"
    using assms(9) by (simp add: mset_concat_map)
  ultimately show ?thesis using grows_shrinks [OF grows_trans [OF set1(1) ex(1)]] assms(11) by blast
qed

theorem routes_given_back_witness:
  "\<exists>r b cs1 v1 v2 b' v3. SetRoutes sample_netlink sample_split_session sample_vpnc = Some (r, b, cs1, v1) \<and>
     excludeAll sample_netlink [[''198.51.100.7'']] v1 = Some v2 \<and>
     ResetRoutes sample_netlink [''www''] (cs1\<lparr>DynamicSplitExcludeResolved := [''www'' \<mapsto> [''198.51.100.7'']]\<rparr>) v2 = Some (b', v3) \<and>
     sample_cnt (kernel v3) 2 (Some ''192.0.2.1/32'') \<le> 0"
proof -
  let ?res = "[''www'' \<mapsto> [''198.51.100.7'']]" and ?K = sample_netlink and ?cs = sample_split_session and ?v = sample_vpnc
  let ?tun = "\<lparr>Index = 7, LinkName = ''sslcon'', HardwareAddr = []\<rparr> :: link" and ?loc = "\<lparr>Index = 2, LinkName = ''eth0'', HardwareAddr = []\<rparr> :: link"
  have l: "iface ?v = Some ?tun" "localInterface ?v = Some ?loc" "Index ?loc \<noteq> Index ?tun" by (simp_all add: sample_vpnc_def)
  have m: "\<forall>m\<in>set (SplitInclude ?cs @ SplitExclude ?cs). CHR ''/'' \<in> set m" by (simp add: sample_split_session_def)
  from SetRoutes_defined [OF sample_counts l(1,2) m] obtain r b cs1 v1 where s: "SetRoutes ?K ?cs ?v = Some (r, b, cs1, v1)" by auto
  from SetRoutes_grows [OF sample_counts l s] obtain si where g: "same_links ?v v1" "cs1 = ?cs\<lparr>SplitInclude := si\<rparr>" by blast
  then have l1: "localInterface v1 = Some ?loc" using l by (simp add: same_links_def)
  from excludeAll_defined [of v1 ?K "[[''198.51.100.7'']]"] l1 obtain v2 where e: "excludeAll ?K [[''198.51.100.7'']] v1 = Some v2" by auto
  with excludeAll_grows [OF sample_counts l1 e] l1 have "localInterface v2 \<noteq> None" by (simp add: same_links_def)
  moreover have "\<forall>m\<in>set (SplitExclude (cs1\<lparr>DynamicSplitExcludeResolved := ?res\<rparr>)). CHR ''/'' \<in> set m" using m g(2) by simp
  ultimately obtain b' v3 where x: "ResetRoutes ?K [''www''] (cs1\<lparr>DynamicSplitExcludeResolved := ?res\<rparr>) v2 = Some (b', v3)"
    using ResetRoutes_defined by blast
  have "sample_cnt (kernel v3) (Index ?loc) (Some ''192.0.2.1/32'') \<le> sample_cnt (kernel ?v) (Index ?loc) (Some ''192.0.2.1/32'')"
    by (rule routes_given_back [OF sample_counts l s, where res = ?res and names = "[''www'']", OF _ _ _ _ x])
      (use e in \<open>simp_all add: sample_netlink_def sample_split_session_def\<close>)
  with s e x show ?thesis by (auto simp: sample_vpnc_def sample_cnt_def)
qed

text \<open>
  C38. \<open>SetRoutes\<close> returns.  With both interfaces known and a mask in every split entry it comes back, in
  particular the loop that removes default routes ends, because every deletion that succeeds removes a
  route.  Without the local interface it dereferences nil, and so does \<open>ResetRoutes\<close>: that is the case when
  the interface was given by an \<open>INTERFACE\<close> request, which does not set it.
\<close>

theorem SetRoutes_returns:
  assumes "counts K cnt"
  shows "(iface v \<noteq> None \<and> localInterface v \<noteq> None \<and> (\<forall>m\<in>set (SplitInclude cs @ SplitExclude cs). CHR ''/'' \<in> set m) \<longrightarrow>
      (\<exists>res. SetRoutes K cs v = Some res)) \<and>
    (localInterface v = None \<longrightarrow> SetRoutes K cs v = None \<and> ResetRoutes K keys cs v = None)"
  using SetRoutes_defined [OF assms, of v _ _ cs] by (auto simp: SetRoutes_def ResetRoutes_def Let_def split: option.splits)

theorem SetRoutes_returns_witness:
  "(\<exists>res. SetRoutes sample_netlink sample_split_session sample_vpnc = Some res) \<and>
   SetRoutes sample_netlink sample_split_session (sample_vpnc\<lparr>localInterface := None\<rparr>) = None"
proof -
  have "iface sample_vpnc \<noteq> None \<and> localInterface sample_vpnc \<noteq> None \<and>
      (\<forall>m\<in>set (SplitInclude sample_split_session @ SplitExclude sample_split_session). CHR ''/'' \<in> set m)"
    by (simp add: sample_vpnc_def sample_split_session_def)
  then show ?thesis
    using SetRoutes_returns [OF sample_counts, of sample_vpnc sample_split_session]
      SetRoutes_returns [OF sample_counts, of "sample_vpnc\<lparr>localInterface := None\<rparr>" sample_split_session] by simp
qed

text \<open>
  C39. Name servers: if the writing goroutine of \<open>setDNS\<close> finishes before the session is taken down,
  \<open>restoreDNS\<close> brings back the resolver file as it was.  If the session is taken down during the two seconds the
  goroutine sleeps, the file ends up with the name servers of the tunnel that is gone.
\<close>

theorem dns_restored:
  assumes "files f ''/etc/resolv.conf'' = Some orig" and "\<forall>p. canRead f p \<and> canWrite f p \<and> room f p = None" and "DNS cs \<noteq> []"
  shows "files (restoreDNS cs (dnsWrite cs (dnsBackup f))) ''/etc/resolv.conf'' = Some orig \<and>
    files (dnsWrite cs (restoreDNS cs (dnsBackup f))) ''/etc/resolv.conf'' = Some (dnsString cs @ [CHR 10])"
proof -
  have b: "dnsBackup f = f\<lparr>files := (files f)(''/tmp/resolv.conf.bak'' \<mapsto> orig)\<rparr>"
    unfolding dnsBackup_def using assms(1,2) by (subst CopyFile_ok [where s = orig]) simp_all
  have w: "dnsWrite cs g = g\<lparr>files := (files g)(''/etc/resolv.conf'' \<mapsto> dnsString cs @ [CHR 10])\<rparr>" if "\<forall>p. canWrite g p \<and> room g p = None" for g
    using that WriteFile_ok [of g "''/etc/resolv.conf''" "dnsString cs @ [CHR 10]"] by (simp add: dnsWrite_def Record_Write_def NewRecord_def)
  have r: "restoreDNS cs g = g\<lparr>files := (files g)(''/etc/resolv.conf'' \<mapsto> orig)\<rparr>"
    if "\<forall>p. canRead g p \<and> canWrite g p \<and> room g p = None" "files g ''/tmp/resolv.conf.bak'' = Some orig" for g
    unfolding restoreDNS_def using that assms(3) by (subst CopyFile_ok [where s = orig]) simp_all
  show ?thesis using assms(2) by (simp add: b w r)
qed

theorem dns_restored_witness:
  "files (restoreDNS (sample_split_session\<lparr>DNS := [''10.0.0.53'']\<rparr>) (dnsWrite (sample_split_session\<lparr>DNS := [''10.0.0.53'']\<rparr>)
     (dnsBackup \<lparr>files = [''/etc/resolv.conf'' \<mapsto> ''nameserver 9.9.9.9''], canRead = (\<lambda>_. True), canWrite = (\<lambda>_. True), room = (\<lambda>_. None)\<rparr>)))
     ''/etc/resolv.conf'' = Some ''nameserver 9.9.9.9''"
  using dns_restored [of "\<lparr>files = [''/etc/resolv.conf'' \<mapsto> ''nameserver 9.9.9.9''], canRead = (\<lambda>_. True), canWrite = (\<lambda>_. True), room = (\<lambda>_. None)\<rparr>"
      "''nameserver 9.9.9.9''" "sample_split_session\<lparr>DNS := [''10.0.0.53'']\<rparr>"] by simp

end
