(* ===== verification/Teardown_Routes.thy ===== *)
theory Teardown_Routes
  imports Teardown Routes_Linux
begin

text \<open>
  What the order of the calls means for the kernel on Linux: the sequence of calls that the tear-down
  model (\<open>Teardown\<close>) records is run with \<open>SetRoutes\<close> and \<open>ResetRoutes\<close> of
  \<open>src/utils/vpnc/vpnc_linux.go\<close> (\<open>Routes_Linux\<close>).  Sessions are without domain splitting here, so that
  no resolved name is visited; \<open>tun\<close> is the interface that \<open>ConfigInterface\<close> stored for a session
  before its routes were set.
\<close>

fun runCalls :: "('k, 'n) netlink \<Rightarrow> (nat \<Rightarrow> link) \<Rightarrow> route_call list \<Rightarrow> (nat \<Rightarrow> ConnSession) \<times> 'k vpnc \<Rightarrow>
    ((nat \<Rightarrow> ConnSession) \<times> 'k vpnc) option" where
  "runCalls K tun [] (css, v) = Some (css, v)"
| "runCalls K tun (RoutesSet a # calls) (css, v) =
     (case SetRoutes K (css a) (v\<lparr>iface := Some (tun a)\<rparr>) of
        None \<Rightarrow> None
      | Some (r, b, cs, v) \<Rightarrow> runCalls K tun calls (css(a := cs), v))"
| "runCalls K tun (RoutesReset a # calls) (css, v) =
     (case ResetRoutes K [] (css a) v of
        None \<Rightarrow> None
      | Some (b, v) \<Rightarrow> runCalls K tun calls (css, v))"

text \<open>What both calls use of a session over the local interface.\<close>

abbreviation local_targets :: "('k, 'n) netlink \<Rightarrow> ConnSession \<Rightarrow> 'n option list" where
  "local_targets K cs \<equiv> ParseIPNet K (ServerAddress cs @ ''/32'') # targets K (SplitExclude cs)"

lemma runCalls_Set:
  assumes c: "counts K cnt" and l: "localInterface v = Some loc" "Index loc \<noteq> Index (tun a)"
    and r: "runCalls K tun (RoutesSet a # calls) (css, v) = Some res"
  obtains css1 v1 where "runCalls K tun calls (css1, v1) = Some res" "localInterface v1 = Some loc"
    "grows cnt (Index loc) (ParseIPNet K ''0.0.0.0/0'') (local_targets K (css a)) (kernel v) (kernel v1)"
    "\<forall>b. local_targets K (css1 b) = local_targets K (css b)"
proof -
  from r obtain e b cs v1 where s: "SetRoutes K (css a) (v\<lparr>iface := Some (tun a)\<rparr>) = Some (e, b, cs, v1)"
      "runCalls K tun calls (css(a := cs), v1) = Some res"
    by (auto split: option.splits)
  have "iface (v\<lparr>iface := Some (tun a)\<rparr>) = Some (tun a)" "localInterface (v\<lparr>iface := Some (tun a)\<rparr>) = Some loc" using l by simp_all
  from SetRoutes_grows [OF c this l(2) s(1)] obtain si where g:
    "grows cnt (Index loc) (ParseIPNet K ''0.0.0.0/0'') (local_targets K (css a)) (kernel v) (kernel v1)"
    "localInterface v1 = Some loc" "cs = css a\<lparr>SplitInclude := si\<rparr>"
    using l by (auto simp: same_links_def)
  then have "\<forall>b. local_targets K ((css(a := cs)) b) = local_targets K (css b)" by simp
  with that s(2) g show ?thesis by blast
qed

lemma runCalls_Reset:
  assumes c: "counts K cnt" and l: "localInterface v = Some loc"
    and r: "runCalls K tun (RoutesReset a # calls) (css, v) = Some res"
  obtains v1 where "runCalls K tun calls (css, v1) = Some res" "localInterface v1 = Some loc"
    "shrinks cnt (Index loc) (ParseIPNet K ''0.0.0.0/0'') (local_targets K (css a)) (kernel v) (kernel v1)"
proof -
  from r obtain b v1 where s: "ResetRoutes K [] (css a) v = Some (b, v1)" "runCalls K tun calls (css, v1) = Some res"
    by (auto split: option.splits)
  have "localInterface v1 = Some loc" using s(1) l by (auto simp: ResetRoutes_def Let_def split: option.splits)
  with that s ResetRoutes_shrinks [OF c l s(1)] show ?thesis by simp
qed

text \<open>Setting and resetting the routes of one session.\<close>

lemma pair_given_back:
  assumes c: "counts K cnt" and l: "localInterface v = Some loc" "Index loc \<noteq> Index (tun a)"
    and r: "runCalls K tun (RoutesSet a # RoutesReset b # calls) (css, v) = Some res"
    and t: "local_targets K (css b) = local_targets K (css a)"
  obtains css1 v1 where "runCalls K tun calls (css1, v1) = Some res" "localInterface v1 = Some loc"
    "\<forall>d. d \<noteq> ParseIPNet K ''0.0.0.0/0'' \<longrightarrow> cnt (kernel v1) (Index loc) d \<le> cnt (kernel v) (Index loc) d"
    "\<forall>b. local_targets K (css1 b) = local_targets K (css b)"
proof -
  from runCalls_Set [OF c l r] obtain css1 v1 where 1: "runCalls K tun (RoutesReset b # calls) (css1, v1) = Some res"
    "localInterface v1 = Some loc" "grows cnt (Index loc) (ParseIPNet K ''0.0.0.0/0'') (local_targets K (css a)) (kernel v) (kernel v1)"
    "\<forall>b. local_targets K (css1 b) = local_targets K (css b)" .
  from runCalls_Reset [OF c 1(2,1)] obtain v2 where 2: "runCalls K tun calls (css1, v2) = Some res" "localInterface v2 = Some loc"
    "shrinks cnt (Index loc) (ParseIPNet K ''0.0.0.0/0'') (local_targets K (css1 b)) (kernel v1) (kernel v2)" .
  have "mset (local_targets K (css a)) = mset (local_targets K (css1 b))" using 1(4) t by metis
  with grows_shrinks [OF 1(3) 2(3)] that 1(4) 2 show ?thesis by blast
qed

lemma track_pairs:
  assumes "track None (x # xs) = Some None"
  obtains a ys where "x = RoutesSet a" "xs = RoutesReset a # ys" "track None ys = Some None"
  using assms by (cases x; cases xs; (cases "hd xs")?) (auto split: if_splits)

lemma turns_given_back:
  assumes c: "counts K cnt" and tun: "\<forall>a. Index loc \<noteq> Index (tun a)" and d: "d \<noteq> ParseIPNet K ''0.0.0.0/0''"
  shows "track None calls = Some None \<Longrightarrow> localInterface v = Some loc \<Longrightarrow> runCalls K tun calls (css, v) = Some (css', v') \<Longrightarrow>
    cnt (kernel v') (Index loc) d \<le> cnt (kernel v) (Index loc) d"
proof (induction calls arbitrary: css v rule: length_induct)
  case (1 calls)
  show ?case
  proof (cases calls)
    case Nil
    with 1 show ?thesis by simp
  next
    case (Cons x xs)
    with 1(2) obtain a ys where x: "x = RoutesSet a" "xs = RoutesReset a # ys" "track None ys = Some None" using track_pairs by blast
    have "Index loc \<noteq> Index (tun a)" using tun by blast
    from pair_given_back [where tun = tun and a = a and b = a and calls = ys and css = css and res = "(css', v')", OF c 1(3) this] 1(4) Cons x obtain css1 v1 where
      r: "runCalls K tun ys (css1, v1) = Some (css', v')" "localInterface v1 = Some loc"
      "cnt (kernel v1) (Index loc) d \<le> cnt (kernel v) (Index loc) d" using d by metis
    have "cnt (kernel v') (Index loc) d \<le> cnt (kernel v1) (Index loc) d"
      by (rule 1(1) [rule_format, OF _ x(3) r(2,1)]) (simp add: Cons x)
    with r(3) show ?thesis by simp
  qed
qed

text \<open>The calls return if every split entry has a mask.\<close>

definition masked :: "ConnSession \<Rightarrow> bool" where
  "masked cs \<longleftrightarrow> (\<forall>m\<in>set (SplitInclude cs @ SplitExclude cs). CHR ''/'' \<in> set m)"

lemma SetRoutes_include:
  "SetRoutes K cs v = Some (r, b, cs', v') \<Longrightarrow> SplitInclude cs' = SplitInclude cs \<or> SplitInclude cs' = [globalRoute]"
  by (auto simp: SetRoutes_def globalStart_def Let_def split: option.splits prod.splits if_splits)

lemma runCalls_defined:
  assumes c: "counts K cnt" and tun: "\<forall>a. Index loc \<noteq> Index (tun a)"
  shows "localInterface v = Some loc \<Longrightarrow> \<forall>a. masked (css a) \<Longrightarrow> \<exists>res. runCalls K tun calls (css, v) = Some res"
proof (induction calls arbitrary: css v)
  case (Cons x calls)
  show ?case
  proof (cases x)
    case (RoutesSet a)
    let ?v = "v\<lparr>iface := Some (tun a)\<rparr>"
    have v: "iface ?v = Some (tun a)" "localInterface ?v = Some loc" "Index loc \<noteq> Index (tun a)" using Cons.prems(1) tun by simp_all
    have "\<forall>m\<in>set (SplitInclude (css a) @ SplitExclude (css a)). CHR ''/'' \<in> set m" using Cons.prems(2) unfolding masked_def by blast
    from SetRoutes_defined [OF c v(1,2) this] obtain r b cs v1 where s: "SetRoutes K (css a) ?v = Some (r, b, cs, v1)" by (metis prod_cases4)
    from SetRoutes_grows [OF c v s] v(2) obtain si where g: "localInterface v1 = Some loc" "cs = css a\<lparr>SplitInclude := si\<rparr>"
      by (auto simp: same_links_def)
    have "masked cs" using SetRoutes_include [OF s] g(2) Cons.prems(2) by (auto simp: masked_def globalRoute_def)
    then have "\<forall>c. masked ((css(a := cs)) c)" using Cons.prems(2) by simp
    from Cons.IH [OF g(1) this] s RoutesSet show ?thesis by (simp del: fun_upd_apply)
  next
    case (RoutesReset a)
    have "localInterface v \<noteq> None" "\<forall>m\<in>set (SplitExclude (css a)). CHR ''/'' \<in> set m"
      using Cons.prems unfolding masked_def by (auto dest: spec [of _ a])
    from ResetRoutes_defined [OF this] obtain b v1 where s: "ResetRoutes K [] (css a) v = Some (b, v1)" by blast
    have "localInterface v1 = Some loc" using s Cons.prems(1) by (auto simp: ResetRoutes_def Let_def split: option.splits)
    from Cons.IH [OF this Cons.prems(2)] s RoutesReset show ?thesis by simp
  qed
qed simp



end
