(* ===== verification/Darwin_Msg.thy ===== *)
theory Darwin_Msg
  imports Utils
begin

text \<open>
  Routes on macOS, first part (\<open>src/utils/vpnc/vpnc_darwin.go\<close>): parsing of addresses and routes, and the
  messages of the routing socket, byte by byte.  Structures are laid out as on the supported
  machines (little endian, sizes as in the SDK).  The library's parser and printer for addresses in
  IPv6 notation and the quoting of strings in error messages are parameters.
\<close>

subsection \<open>strings.TrimSpace\<close>

text \<open>The space characters, as their bytes.\<close>

definition spaceRunes :: "string list" where
  "spaceRunes =
     map (\<lambda>c. [c]) [CHR 9, CHR 10, CHR 11, CHR 12, CHR 13, CHR 32] @
     [[CHR 0xC2, CHR 0x85], [CHR 0xC2, CHR 0xA0], [CHR 0xE1, CHR 0x9A, CHR 0x80]] @
     map (\<lambda>c. [CHR 0xE2, CHR 0x80, c]) [CHR 0x80, CHR 0x81, CHR 0x82, CHR 0x83, CHR 0x84, CHR 0x85, CHR 0x86, CHR 0x87, CHR 0x88,
        CHR 0x89, CHR 0x8A, CHR 0xA8, CHR 0xA9, CHR 0xAF] @
     [[CHR 0xE2, CHR 0x81, CHR 0x9F], [CHR 0xE3, CHR 0x80, CHR 0x80]]"

function trimFront :: "string list \<Rightarrow> string \<Rightarrow> string" where
  "trimFront rs s =
     (case find (\<lambda>r. r \<noteq> [] \<and> take (length r) s = r) rs of
        None \<Rightarrow> s
      | Some r \<Rightarrow> trimFront rs (drop (length r) s))"
  by pat_completeness auto
termination
proof (relation "measure (\<lambda>(rs, s). length s)")
  fix rs :: "string list" and s r :: string
  assume "find (\<lambda>r. r \<noteq> [] \<and> take (length r) s = r) rs = Some r"
  then have "r \<noteq> []" "take (length r) s = r" by (auto simp: find_Some_iff)
  then have "s \<noteq> []" by auto
  with \<open>r \<noteq> []\<close> show "((rs, drop (length r) s), (rs, s)) \<in> measure (\<lambda>(rs, s). length s)" by simp
qed simp

declare trimFront.simps [simp del]

definition TrimSpace :: "string \<Rightarrow> string" where
  "TrimSpace s = rev (trimFront (map rev spaceRunes) (rev (trimFront spaceRunes s)))"

subsection \<open>Addresses\<close>

record ip_lib =
  lib6 :: "string \<Rightarrow> byte list option"
  show6 :: "byte list \<Rightarrow> string"
  quote :: "string \<Rightarrow> string"

definition v4InV6 :: "byte list" where
  "v4InV6 = replicate 10 0 @ [0xFF, 0xFF]"

definition net_ParseIP :: "ip_lib \<Rightarrow> string \<Rightarrow> byte list option" where
  "net_ParseIP L s =
     (case dropWhile (\<lambda>c. c \<notin> set ''.:%'') s of
        [] \<Rightarrow> None
      | c # _ \<Rightarrow> if c = CHR ''.'' then map_option (\<lambda>bs. v4InV6 @ bs) (parseIPv4 s)
                 else if c = CHR '':'' then lib6 L s else None)"

definition To4 :: "byte list \<Rightarrow> byte list option" where
  "To4 ip =
     (if length ip = 4 then Some ip
      else if length ip = 16 \<and> take 12 ip = v4InV6 then Some (drop 12 ip) else None)"

definition To16 :: "byte list \<Rightarrow> byte list option" where
  "To16 ip = (if length ip = 4 then Some (v4InV6 @ ip) else if length ip = 16 then Some ip else None)"

definition ip_Equal :: "byte list \<Rightarrow> byte list \<Rightarrow> bool" where
  "ip_Equal a b =
     (if length a = length b then a = b
      else if length a = 4 \<and> length b = 16 then take 12 b = v4InV6 \<and> a = drop 12 b
      else if length a = 16 \<and> length b = 4 then take 12 a = v4InV6 \<and> drop 12 a = b
      else False)"

text \<open>\<open>parseRouteAddress\<close>: four bytes or sixteen; \<open>cloneIP\<close> copies, which is invisible here.\<close>

definition parseRouteAddress :: "ip_lib \<Rightarrow> string \<Rightarrow> string + byte list" where
  "parseRouteAddress L value =
     (case net_ParseIP L (TrimSpace value) of
        None \<Rightarrow> Inl (''invalid IP address '' @ quote L value)
      | Some address \<Rightarrow>
          (case To4 address of
             Some ipv4 \<Rightarrow> Inr ipv4
           | None \<Rightarrow> Inr (case To16 address of Some a \<Rightarrow> a | None \<Rightarrow> [])))"

subsection \<open>Masks and routes\<close>

definition IPMask_Size :: "byte list \<Rightarrow> nat \<times> nat" where
  "IPMask_Size m = (case leadingOnes (stream_bits m) of Some n \<Rightarrow> (n, 8 * length m) | None \<Rightarrow> (0, 0))"

definition CIDRMask :: "nat \<Rightarrow> nat \<Rightarrow> byte list" where
  "CIDRMask ones bits = map (\<lambda>i. bits_word (map (\<lambda>j. 8 * i + j < ones) [0..<8])) [0..<bits div 8]"

text \<open>\<open>IP.Mask\<close> for an address and a mask of the same length.\<close>

definition ip_Mask :: "byte list \<Rightarrow> byte list \<Rightarrow> byte list" where
  "ip_Mask ip m = (if length ip = length m then map2 (AND) ip m else [])"

definition SplitN2 :: "char \<Rightarrow> string \<Rightarrow> string list" where
  "SplitN2 c s = (if c \<in> set s then [takeWhile (\<lambda>d. d \<noteq> c) s, tl (dropWhile (\<lambda>d. d \<noteq> c) s)] else [s])"

definition parseRoute :: "ip_lib \<Rightarrow> string \<Rightarrow> string + byte list \<times> byte list" where
  "parseRoute L value =
     (case SplitN2 (CHR ''/'') (TrimSpace value) of
        [addr, m] \<Rightarrow>
          res_bind (parseRouteAddress L addr) (\<lambda>address.
            let maskText = TrimSpace m in
            if CHR ''.'' \<in> set maskText then
              (case To4 address of
                 None \<Rightarrow> Inl (''IPv4 mask on non-IPv4 route '' @ quote L value)
               | Some a4 \<Rightarrow>
                   (case Option.bind (net_ParseIP L maskText) To4 of
                      None \<Rightarrow> Inl (''invalid IPv4 mask '' @ quote L maskText)
                    | Some mk \<Rightarrow>
                        if snd (IPMask_Size mk) \<noteq> 32 then Inl (''non-contiguous IPv4 mask '' @ quote L maskText)
                        else Inr (ip_Mask a4 mk, mk)))
            else
              (case Atoi maskText of
                 (prefix, False) \<Rightarrow> Inl (''invalid prefix '' @ quote L maskText)
               | (prefix, True) \<Rightarrow>
                   (let (bits, address) = (case To4 address of Some a4 \<Rightarrow> (32, a4) | None \<Rightarrow> (128, address)) in
                    if prefix < 0 \<or> prefix > int bits
                    then Inl (''prefix '' @ (if prefix < 0 then CHR ''-'' # showNat (nat (- prefix)) else showNat (nat prefix)) @
                              '' is outside [0,'' @ showNat bits @ '']'')
                    else let mk = CIDRMask (nat prefix) bits in Inr (ip_Mask address mk, mk))))
      | _ \<Rightarrow> Inl (''route '' @ quote L value @ '' has no mask''))"

subsection \<open>Routing socket messages\<close>

type_synonym u32 = "32 word"

definition le16 :: "u16 \<Rightarrow> byte list" where
  "le16 w = [ucast w, ucast (drop_bit 8 w)]"

definition le32 :: "u32 \<Rightarrow> byte list" where
  "le32 w = [ucast w, ucast (drop_bit 8 w), ucast (drop_bit 16 w), ucast (drop_bit 24 w)]"

fun get16 :: "byte list \<Rightarrow> u16" where
  "get16 (a # b # _) = ucast a OR push_bit 8 (ucast b)"
| "get16 _ = 0"

fun get32 :: "byte list \<Rightarrow> u32" where
  "get32 (a # b # c # d # _) = ucast a OR push_bit 8 (ucast b) OR push_bit 16 (ucast c) OR push_bit 24 (ucast d)"
| "get32 _ = 0"

record rtMetrics =
  Locks :: u32
  Mtu :: u32
  Hopcount :: u32
  Expire :: u32
  Recvpipe :: u32
  Sendpipe :: u32
  Ssthresh :: u32
  Rtt :: u32
  Rttvar :: u32
  Pksent :: u32
  MState :: u32
  Filler :: "u32 \<times> u32 \<times> u32"

record rtMsghdr =
  Msglen :: u16
  MsgVersion :: byte
  MsgType :: byte
  MsgIndex :: u16
  MsgFlags :: u32
  MsgAddrs :: u32
  MsgPid :: u32
  MsgSeq :: u32
  MsgErrno :: u32
  MsgUse :: u32
  MsgInits :: u32
  MsgRmx :: rtMetrics

definition zeroMetrics :: rtMetrics where
  "zeroMetrics = \<lparr>Locks = 0, Mtu = 0, Hopcount = 0, Expire = 0, Recvpipe = 0, Sendpipe = 0, Ssthresh = 0, Rtt = 0, Rttvar = 0,
     Pksent = 0, MState = 0, Filler = (0, 0, 0)\<rparr>"

definition metricsBytes :: "rtMetrics \<Rightarrow> byte list" where
  "metricsBytes m =
     (case Filler m of (x, y, z) \<Rightarrow>
      le32 (Locks m) @ le32 (Mtu m) @ le32 (Hopcount m) @ le32 (Expire m) @ le32 (Recvpipe m) @ le32 (Sendpipe m) @
      le32 (Ssthresh m) @ le32 (Rtt m) @ le32 (Rttvar m) @ le32 (Pksent m) @ le32 (MState m) @ le32 x @ le32 y @ le32 z)"

text \<open>The memory of a header: \<open>unsafe.Slice\<close> over the structure.\<close>

definition hdrBytes :: "rtMsghdr \<Rightarrow> byte list" where
  "hdrBytes h =
     le16 (Msglen h) @ [MsgVersion h, MsgType h] @ le16 (MsgIndex h) @ [0, 0] @ le32 (MsgFlags h) @ le32 (MsgAddrs h) @ le32 (MsgPid h) @
     le32 (MsgSeq h) @ le32 (MsgErrno h) @ le32 (MsgUse h) @ le32 (MsgInits h) @ metricsBytes (MsgRmx h)"

definition routeHeaderSize :: nat where
  "routeHeaderSize = 92"

definition metricsOf :: "byte list \<Rightarrow> rtMetrics" where
  "metricsOf d = \<lparr>Locks = get32 d, Mtu = get32 (drop 4 d), Hopcount = get32 (drop 8 d), Expire = get32 (drop 12 d),
     Recvpipe = get32 (drop 16 d), Sendpipe = get32 (drop 20 d), Ssthresh = get32 (drop 24 d), Rtt = get32 (drop 28 d),
     Rttvar = get32 (drop 32 d), Pksent = get32 (drop 36 d), MState = get32 (drop 40 d),
     Filler = (get32 (drop 44 d), get32 (drop 48 d), get32 (drop 52 d))\<rparr>"

definition decodeRtMsg :: "byte list \<Rightarrow> rtMsghdr option" where
  "decodeRtMsg data =
     (if length data < routeHeaderSize then None
      else Some \<lparr>Msglen = get16 data, MsgVersion = data ! 2, MsgType = data ! 3, MsgIndex = get16 (drop 4 data),
        MsgFlags = get32 (drop 8 data), MsgAddrs = get32 (drop 12 data), MsgPid = get32 (drop 16 data), MsgSeq = get32 (drop 20 data),
        MsgErrno = get32 (drop 24 data), MsgUse = get32 (drop 28 data), MsgInits = get32 (drop 32 data),
        MsgRmx = metricsOf (take 56 (drop 36 data))\<rparr>)"

definition RTM_ADD :: byte where "RTM_ADD = 1"
definition RTM_DELETE :: byte where "RTM_DELETE = 2"
definition AF_INET :: nat where "AF_INET = 2"
definition AF_INET6 :: nat where "AF_INET6 = 30"

definition routeSockaddrSize :: "nat \<Rightarrow> nat" where
  "routeSockaddrSize n = (n + 3) div 4 * 4"

text \<open>\<open>sockaddr_in\<close> and \<open>sockaddr_in6\<close> with the given address.\<close>

definition sockaddr4 :: "byte list \<Rightarrow> byte list" where
  "sockaddr4 a = [16, of_nat AF_INET, 0, 0] @ go_copy (replicate 4 0) a @ replicate 8 0"

definition sockaddr6 :: "byte list \<Rightarrow> byte list" where
  "sockaddr6 a = [28, of_nat AF_INET6, 0, 0, 0, 0, 0, 0] @ go_copy (replicate 16 0) a @ replicate 4 0"

definition routeSockaddr :: "byte list \<Rightarrow> string + nat \<times> byte list" where
  "routeSockaddr ip =
     (case To4 ip of
        Some a \<Rightarrow> Inr (AF_INET, sockaddr4 a)
      | None \<Rightarrow> (case To16 ip of Some a \<Rightarrow> Inr (AF_INET6, sockaddr6 a) | None \<Rightarrow> Inl ''invalid route address''))"

definition routeNetmask :: "nat \<Rightarrow> byte list \<Rightarrow> string + byte list" where
  "routeNetmask family m =
     (if family = AF_INET then (if length m \<noteq> 4 then Inl ''invalid IPv4 route mask'' else Inr (sockaddr4 m))
      else if family = AF_INET6 then (if length m \<noteq> 16 then Inl ''invalid IPv6 route mask'' else Inr (sockaddr6 m))
      else Inl (''unsupported route address family '' @ showNat family))"

definition appendRouteSockaddr :: "byte list \<Rightarrow> byte list \<Rightarrow> byte list" where
  "appendRouteSockaddr dst sa = dst @ sa @ replicate (routeSockaddrSize (length sa) - length sa) 0"

text \<open>The host flag, or the mask: \<open>None\<close> for a mask of all ones and for none at all.\<close>

definition maskSockaddr :: "nat \<Rightarrow> byte list option \<Rightarrow> string + byte list option" where
  "maskSockaddr family m =
     (case m of
        None \<Rightarrow> Inr None
      | Some mk \<Rightarrow>
          (let (ones, bits) = IPMask_Size mk in
           if bits = 0 \<or> (bits \<noteq> 32 \<and> bits \<noteq> 128) then Inl ''invalid route mask''
           else if ones = bits then Inr None
           else res_bind (routeNetmask family mk) (\<lambda>sa. Inr (Some sa))))"

definition buildRtMsg :: "u32 \<Rightarrow> byte \<Rightarrow> u32 \<Rightarrow> int \<Rightarrow> byte list \<Rightarrow> byte list option \<Rightarrow> byte list \<Rightarrow> string + byte list" where
  "buildRtMsg pid typ seq ifidx dst m gateway =
     (if ifidx \<le> 0 then Inl (''invalid interface index '' @ (if ifidx < 0 then CHR ''-'' # showNat (nat (- ifidx)) else showNat 0))
      else case routeSockaddr dst of
        Inl e \<Rightarrow> Inl (''destination: '' @ e)
      | Inr (dstFamily, dstSockaddr) \<Rightarrow>
          (case routeSockaddr gateway of
             Inl e \<Rightarrow> Inl (''gateway: '' @ e)
           | Inr (gatewayFamily, gatewaySockaddr) \<Rightarrow>
               if dstFamily \<noteq> gatewayFamily
               then Inl (''destination family '' @ showNat dstFamily @ '' differs from gateway family '' @ showNat gatewayFamily)
               else
                 res_bind (maskSockaddr dstFamily m) (\<lambda>ms.
                   let flags = 0x803 OR (if ms = None then 4 else 0); addrs = 3 OR (if ms = None then 0 else 4);
                       addresses = appendRouteSockaddr (appendRouteSockaddr [] dstSockaddr) gatewaySockaddr;
                       addresses = (case ms of None \<Rightarrow> addresses | Some sa \<Rightarrow> appendRouteSockaddr addresses sa);
                       messageLength = routeHeaderSize + length addresses
                   in if messageLength > 65535 then Inl (''route message is too large: '' @ showNat messageLength)
                      else Inr (hdrBytes \<lparr>Msglen = of_nat messageLength, MsgVersion = 5, MsgType = typ, MsgIndex = word_of_int ifidx,
                             MsgFlags = flags, MsgAddrs = addrs, MsgPid = pid, MsgSeq = seq, MsgErrno = 0, MsgUse = 0, MsgInits = 0,
                             MsgRmx = zeroMetrics\<rparr> @ addresses))))"

subsection \<open>Lemmas\<close>

lemma length_le [simp]: "length (le16 w) = 2" "length (le32 v) = 4"
  by (simp_all add: le16_def le32_def)

lemma get16_le16 [simp]: "get16 (le16 w @ r) = w"
proof -
  have "ucast (ucast w :: byte) OR push_bit 8 (ucast (ucast (drop_bit 8 w) :: byte)) = w"
    by (rule bit_word_eqI) (auto simp: bit_simps)
  then show ?thesis by (simp add: le16_def)
qed

lemma get32_le32 [simp]: "get32 (le32 w @ r) = w"
proof -
  have "ucast (ucast w :: byte) OR push_bit 8 (ucast (ucast (drop_bit 8 w) :: byte)) OR push_bit 16 (ucast (ucast (drop_bit 16 w) :: byte)) OR
      push_bit 24 (ucast (ucast (drop_bit 24 w) :: byte)) = w" (is "?l = w")
  proof (rule bit_word_eqI)
    fix n assume n: "n < LENGTH(32)"
    consider "n < 8" | "8 \<le> n" "n < 16" | "16 \<le> n" "n < 24" | "24 \<le> n" by linarith
    then show "bit ?l n = bit w n" by cases (use n in \<open>auto simp: bit_simps\<close>)
  qed
  then show ?thesis by (simp add: le32_def)
qed

lemma get32_le32' [simp]: "get32 (le32 w) = w"
  using get32_le32 [of w "[]"] by simp

lemma length_metricsBytes [simp]: "length (metricsBytes m) = 56"
  by (simp add: metricsBytes_def split: prod.split)

lemma length_hdrBytes [simp]: "length (hdrBytes h) = 92"
  by (simp add: hdrBytes_def)

lemma metricsOf_bytes: "metricsOf (metricsBytes m) = m"
proof -
  obtain x y z where f: "Filler m = (x, y, z)" by (cases "Filler m")
  show ?thesis by (simp add: metricsOf_def metricsBytes_def f)
qed

lemma decodeRtMsg_hdrBytes: "decodeRtMsg (hdrBytes h @ r) = Some h"
  by (simp add: decodeRtMsg_def routeHeaderSize_def hdrBytes_def metricsOf_bytes nth_append)

text \<open>Addresses and masks as they are printed have nothing to trim.\<close>

definition routeChar :: "char \<Rightarrow> bool" where
  "routeChar c \<longleftrightarrow> digitVal c \<noteq> None \<or> c = CHR ''.'' \<or> c = CHR ''/''"

lemma routeChar_slash [simp]: "routeChar (CHR ''/'')"
  by (simp add: routeChar_def)

lemma trimFront_id:
  assumes "s = [] \<or> hd s \<notin> set (map hd rs)"
  shows "trimFront rs s = s"
proof -
  have "\<not> (r \<noteq> [] \<and> take (length r) s = r)" if "r \<in> set rs" for r
  proof
    assume r: "r \<noteq> [] \<and> take (length r) s = r"
    then have ne: "s \<noteq> []" by auto
    with r have "hd s = hd r" by (cases r; cases s) auto
    with assms that ne show False by auto
  qed
  then have "find (\<lambda>r. r \<noteq> [] \<and> take (length r) s = r) rs = None" unfolding find_None_iff by blast
  then show ?thesis by (simp add: trimFront.simps)
qed

lemma routeChar_no_space: "routeChar c \<Longrightarrow> c \<notin> set (map hd spaceRunes) \<and> c \<notin> set (map hd (map rev spaceRunes))"
  by (auto simp: routeChar_def spaceRunes_def digitVal_def code_def)

lemma TrimSpace_id: "\<forall>c\<in>set s. routeChar c \<Longrightarrow> TrimSpace s = s"
proof -
  assume a: "\<forall>c\<in>set s. routeChar c"
  have "trimFront spaceRunes s = s"
    using a routeChar_no_space by (intro trimFront_id) (metis hd_in_set)
  moreover have "trimFront (map rev spaceRunes) (rev s) = rev s"
    using a routeChar_no_space by (intro trimFront_id) (metis hd_in_set set_rev)
  ultimately show ?thesis by (simp add: TrimSpace_def)
qed

lemma showNat_chars: "c \<in> set (showNat n) \<Longrightarrow> routeChar c"
  using showNat_digits by (simp add: routeChar_def)

lemma showIP_four: "showIP [a, b, c, d] =
    showNat (unat a) @ CHR ''.'' # showNat (unat b) @ CHR ''.'' # showNat (unat c) @ CHR ''.'' # showNat (unat d)"
  by (simp add: showIP_def)

lemma showIP_chars: "x \<in> set (showIP [a, b, c, d]) \<Longrightarrow> routeChar x" "CHR ''/'' \<notin> set (showIP [a, b, c, d])" "CHR ''.'' \<in> set (showIP [a, b, c, d])"
  using showNat_chars by (auto simp: showIP_four showNat_no_dot routeChar_def)

lemma net_ParseIP_showIP: "net_ParseIP L (showIP [a, b, c, d]) = Some (v4InV6 @ [a, b, c, d])"
proof -
  have "dropWhile (\<lambda>c. c \<notin> set ''.:%'') (showIP [a, b, c, d]) =
      CHR ''.'' # showNat (unat b) @ CHR ''.'' # showNat (unat c) @ CHR ''.'' # showNat (unat d)"
    using dropWhile_digits [of "unat a"] by (simp only: showIP_four)
  then show ?thesis using parseIPv4_showIP [of a b c d] by (simp add: net_ParseIP_def)
qed

lemma To4_four [simp]: "To4 [a, b, c, d] = Some [a, b, c, d]"
  by (simp add: To4_def)

lemma To4_mapped [simp]: "To4 (v4InV6 @ [a, b, c, d]) = Some [a, b, c, d]"
  by (simp add: To4_def v4InV6_def)

lemma parseRouteAddress_showIP: "parseRouteAddress L (showIP [a, b, c, d]) = Inr [a, b, c, d]"
  using TrimSpace_id [of "showIP [a, b, c, d]"] showIP_chars(1) by (simp add: parseRouteAddress_def net_ParseIP_showIP)

lemma SplitN2_slash: "CHR ''/'' \<notin> set u \<Longrightarrow> SplitN2 (CHR ''/'') (u @ CHR ''/'' # v) = [u, v]"
proof -
  assume a: "CHR ''/'' \<notin> set u"
  then have "takeWhile (\<lambda>d. d \<noteq> CHR ''/'') (u @ CHR ''/'' # v) = u" "dropWhile (\<lambda>d. d \<noteq> CHR ''/'') (u @ CHR ''/'' # v) = CHR ''/'' # v"
    by (simp_all add: takeWhile_append2 dropWhile_append2 takeWhile_append dropWhile_append)
  then show ?thesis by (simp add: SplitN2_def)
qed

lemma IPMask_Size_cidrMask: "n \<le> 32 \<Longrightarrow> IPMask_Size (cidrMask n) = (n, 32)"
proof -
  assume "n \<le> 32"
  moreover have "\<forall>n\<in>set [0..<33]. IPMask_Size (cidrMask n) = (n, 32)" by code_simp
  ultimately show ?thesis by simp
qed

lemma CIDRMask_32: "CIDRMask n 32 = cidrMask n"
  by (simp add: CIDRMask_def cidrMask_def)

lemma parseRoute_dotted:
  assumes "n \<le> 32"
  shows "parseRoute L (showIP [a, b, c, d] @ ''/'' @ showIP (cidrMask n)) = Inr (map2 (AND) [a, b, c, d] (cidrMask n), cidrMask n)"
proof -
  obtain p q r s where m: "cidrMask n = [p, q, r, s]" using cidrMask_four by blast
  have "TrimSpace (showIP [a, b, c, d] @ ''/'' @ showIP [p, q, r, s]) = showIP [a, b, c, d] @ ''/'' @ showIP [p, q, r, s]"
    using showIP_chars(1) by (intro TrimSpace_id) auto
  then have sp: "SplitN2 (CHR ''/'') (TrimSpace (showIP [a, b, c, d] @ ''/'' @ showIP [p, q, r, s])) = [showIP [a, b, c, d], showIP [p, q, r, s]]"
    using SplitN2_slash [OF showIP_chars(2)] by simp
  have t: "TrimSpace (showIP [p, q, r, s]) = showIP [p, q, r, s]" using showIP_chars(1) by (intro TrimSpace_id) auto
  have sz: "snd (IPMask_Size [p, q, r, s]) = 32" using IPMask_Size_cidrMask [OF assms] m by simp
  show ?thesis unfolding m parseRoute_def sp
    using showIP_chars(3) [of p q r s] by (simp add: parseRouteAddress_showIP t net_ParseIP_showIP sz ip_Mask_def)
qed

lemma parseRoute_prefix:
  assumes "n \<le> 32"
  shows "parseRoute L (showIP [a, b, c, d] @ ''/'' @ showNat n) = Inr (map2 (AND) [a, b, c, d] (cidrMask n), cidrMask n)"
proof -
  have "TrimSpace (showIP [a, b, c, d] @ ''/'' @ showNat n) = showIP [a, b, c, d] @ ''/'' @ showNat n"
    using showIP_chars(1) showNat_chars by (intro TrimSpace_id) auto
  then have sp: "SplitN2 (CHR ''/'') (TrimSpace (showIP [a, b, c, d] @ ''/'' @ showNat n)) = [showIP [a, b, c, d], showNat n]"
    using SplitN2_slash [OF showIP_chars(2)] by simp
  have t: "TrimSpace (showNat n) = showNat n" using showNat_chars by (intro TrimSpace_id) auto
  have at: "Atoi (showNat n) = (int n, True)" using assms by (intro Atoi_showNat) simp
  have len: "length (cidrMask n) = 4" using cidrMask_four [of n] by auto
  show ?thesis unfolding parseRoute_def sp
    using showNat_no_dot(1) [of n] assms by (simp add: parseRouteAddress_showIP t at To4_def CIDRMask_32 ip_Mask_def len Let_def)
qed

lemma routeSockaddr_length:
  assumes "routeSockaddr ip = Inr (fam, sa)"
  shows "fam = AF_INET \<and> length sa = 16 \<or> fam = AF_INET6 \<and> length sa = 28"
  using assms by (auto simp: routeSockaddr_def sockaddr4_def sockaddr6_def length_go_copy split: option.splits)

lemma maskSockaddr_length: "maskSockaddr fam m = Inr (Some sa) \<Longrightarrow> length sa = 16 \<or> length sa = 28"
  by (auto simp: maskSockaddr_def routeNetmask_def sockaddr4_def sockaddr6_def length_go_copy Let_def split: option.splits if_splits prod.splits)

lemma appendRouteSockaddr_whole: "length sa = 16 \<or> length sa = 28 \<Longrightarrow> appendRouteSockaddr d sa = d @ sa"
  by (auto simp: appendRouteSockaddr_def routeSockaddrSize_def)

subsection \<open>Properties\<close>

text \<open>
  C5. A route with a dotted mask and the same route with a prefix length are read as the same
  destination and mask, the destination being the address with the host bits cleared.
\<close>

theorem parseRoute_forms:
  assumes "n \<le> 32"
  shows "parseRoute L (showIP [a, b, c, d] @ ''/'' @ showIP (cidrMask n)) = Inr (map2 (AND) [a, b, c, d] (cidrMask n), cidrMask n) \<and>
    parseRoute L (showIP [a, b, c, d] @ ''/'' @ showNat n) = parseRoute L (showIP [a, b, c, d] @ ''/'' @ showIP (cidrMask n))"
  using parseRoute_dotted [OF assms] parseRoute_prefix [OF assms] by simp

theorem parseRoute_forms_witness:
  "parseRoute \<lparr>lib6 = \<lambda>_. None, show6 = \<lambda>_. [], quote = \<lambda>s. s\<rparr> (showIP [10, 1, 2, 3] @ ''/'' @ showNat 8) =
     Inr (map2 (AND) [10, 1, 2, 3] (cidrMask 8), cidrMask 8)"
  using parseRoute_forms [of 8 "\<lparr>lib6 = \<lambda>_. None, show6 = \<lambda>_. [], quote = \<lambda>s. s\<rparr>" 10 1 2 3] by simp

text \<open>
  C13. A routing message reads back: the header decodes to the values it was made from, its length
  field is the length of the message, the addresses follow without gaps in the order the
  kernel expects, and the flags and the address set say which of them are there: a host route has no mask.
\<close>

theorem rt_message_layout:
  assumes "buildRtMsg pid typ seq ifidx dst m gw = Inr msg"
  shows "\<exists>h fam sd sg sm. decodeRtMsg msg = Some h \<and> unat (Msglen h) = length msg \<and> MsgVersion h = 5 \<and> MsgType h = typ \<and> MsgSeq h = seq \<and>
    MsgPid h = pid \<and> MsgIndex h = word_of_int ifidx \<and> MsgErrno h = 0 \<and>
    routeSockaddr dst = Inr (fam, sd) \<and> routeSockaddr gw = Inr (fam, sg) \<and> maskSockaddr fam m = Inr sm \<and>
    drop 92 msg = sd @ sg @ (case sm of None \<Rightarrow> [] | Some sa \<Rightarrow> sa) \<and>
    (bit (MsgAddrs h) 2 \<longleftrightarrow> sm \<noteq> None) \<and> (bit (MsgFlags h) 2 \<longleftrightarrow> sm = None)"
proof -
  from assms obtain fam sd sg sm where f: "routeSockaddr dst = Inr (fam, sd)" "routeSockaddr gw = Inr (fam, sg)" "maskSockaddr fam m = Inr sm"
    by (auto simp: buildRtMsg_def Let_def res_bind_Inr_iff split: if_splits sum.splits)
  let ?body = "sd @ sg @ (case sm of None \<Rightarrow> [] | Some sa \<Rightarrow> sa)"
  let ?h = "\<lparr>Msglen = of_nat (92 + length ?body), MsgVersion = 5, MsgType = typ, MsgIndex = word_of_int ifidx,
      MsgFlags = 0x803 OR (if sm = None then 4 else 0), MsgAddrs = 3 OR (if sm = None then 0 else 4), MsgPid = pid, MsgSeq = seq,
      MsgErrno = 0, MsgUse = 0, MsgInits = 0, MsgRmx = zeroMetrics\<rparr>"
  have l: "length sd = 16 \<or> length sd = 28" "length sg = 16 \<or> length sg = 28" using routeSockaddr_length f(1,2) by blast+
  have lm: "\<And>sa. sm = Some sa \<Longrightarrow> length sa = 16 \<or> length sa = 28" using maskSockaddr_length f(3) by blast
  have msg: "msg = hdrBytes ?h @ ?body"
    using assms f l lm by (cases sm) (auto simp: buildRtMsg_def Let_def appendRouteSockaddr_whole routeHeaderSize_def split: if_splits)
  have b: "length ?body \<le> 84" using l lm by (cases sm) auto
  have "unat (of_nat k :: u16) = k" if "k < 65536" for k using that by (simp add: unsigned_of_nat take_bit_nat_eq_self)
  from this [of "92 + length ?body"] b have "unat (of_nat (92 + length ?body) :: u16) = 92 + length ?body" by linarith
  then have "unat (Msglen ?h) = length msg" by (simp only: rtMsghdr.simps msg length_append length_hdrBytes)
  moreover have "decodeRtMsg msg = Some ?h" by (simp add: msg decodeRtMsg_hdrBytes)
  moreover have "drop 92 msg = ?body" by (simp add: msg)
  moreover have "bit (MsgAddrs ?h) 2 \<longleftrightarrow> sm \<noteq> None" "bit (MsgFlags ?h) 2 \<longleftrightarrow> sm = None" by (simp_all add: bit_simps)
  ultimately show ?thesis using f by (intro exI [of _ ?h] exI [of _ fam] exI [of _ sd] exI [of _ sg] exI [of _ sm]) simp
qed

theorem rt_message_layout_witness:
  "\<exists>msg h. buildRtMsg 77 RTM_ADD 1 4 [10, 0, 0, 0] (Some (cidrMask 8)) [192, 168, 1, 1] = Inr msg \<and> decodeRtMsg msg = Some h \<and>
     unat (Msglen h) = length msg \<and> MsgSeq h = 1"
proof -
  have "\<exists>msg. buildRtMsg 77 RTM_ADD 1 4 [10, 0, 0, 0] (Some (cidrMask 8)) [192, 168, 1, 1] = Inr msg"
    using cidrMask_four [of 8] by (auto simp: buildRtMsg_def routeSockaddr_def maskSockaddr_def IPMask_Size_cidrMask routeNetmask_def Let_def
      appendRouteSockaddr_whole sockaddr4_def length_go_copy routeHeaderSize_def)
  then obtain msg where "buildRtMsg 77 RTM_ADD 1 4 [10, 0, 0, 0] (Some (cidrMask 8)) [192, 168, 1, 1] = Inr msg" by blast
  with rt_message_layout [OF this] show ?thesis by blast
qed

end
