(* ===== verification/Routes_Darwin.thy ===== *)
theory Routes_Darwin
  imports Darwin_Msg Session
begin

text \<open>
  Routes on macOS, second part (\<open>src/utils/vpnc/vpnc_darwin.go\<close>): the routing socket, the batches of
  requests with their acknowledgements and roll-back, and the operations on top.  The system
  calls are a parameter, over an arbitrary kernel state; an error number is the integer the
  kernel returns.  \<open>None\<close> as a result is a loop that never ends (a call that is interrupted for ever).
\<close>

subsection \<open>The system calls\<close>

datatype sockopt = RcvBuf | SndBuf | AckTimeout | DrainTimeout

record 'k route_sys =
  sysSocket :: "'k \<Rightarrow> (int + int) \<times> 'k"
  sysSetopt :: "int \<Rightarrow> sockopt \<Rightarrow> 'k \<Rightarrow> int option \<times> 'k"
  sysRead :: "int \<Rightarrow> 'k \<Rightarrow> (int + byte list) \<times> 'k"
  sysWrite :: "int \<Rightarrow> byte list \<Rightarrow> 'k \<Rightarrow> (int + nat) \<times> 'k"
  sysClose :: "int \<Rightarrow> 'k \<Rightarrow> 'k"
  sysPid :: u32
  errnoText :: "int \<Rightarrow> string"

definition EINTR :: int where "EINTR = 4"
definition EAGAIN :: int where "EAGAIN = 35"
definition ENOBUFS :: int where "ENOBUFS = 55"
definition EEXIST :: int where "EEXIST = 17"
definition ENOENT :: int where "ENOENT = 2"
definition ESRCH :: int where "ESRCH = 3"

text \<open>An error: its text, and the error number it wraps.\<close>

record rerr =
  errText :: string
  errnum :: "int option"

definition errIs :: "rerr \<Rightarrow> int \<Rightarrow> bool" where
  "errIs e n \<longleftrightarrow> errnum e = Some n"

definition wrapErrno :: "'k route_sys \<Rightarrow> string \<Rightarrow> int \<Rightarrow> rerr" where
  "wrapErrno K t n = \<lparr>errText = t @ errnoText K n, errnum = Some n\<rparr>"

definition showInt :: "int \<Rightarrow> string" where
  "showInt n = (if n < 0 then CHR ''-'' # showNat (nat (- n)) else showNat (nat n))"

definition kernelErr :: "'k route_sys \<Rightarrow> int \<Rightarrow> rerr" where
  "kernelErr K n = wrapErrno K (''kernel errno='' @ showInt n @ '' ('' @ errnoText K n @ ''): '') n"

definition wrapErr :: "string \<Rightarrow> rerr \<Rightarrow> rerr" where
  "wrapErr t e = e\<lparr>errText := t @ errText e\<rparr>"

subsection \<open>Requests\<close>

record darwinRoute =
  dTyp :: byte
  dIfidx :: int
  dDst :: "byte list"
  dMask :: "byte list option"
  dGateway :: "byte list"
  dName :: string

record routeRequest =
  rSeq :: u32
  rRoute :: darwinRoute
  rData :: "byte list"

record 'k routeSocketState =
  fd :: int
  seqNo :: u32
  localIndex :: int
  tunnelIndex :: int
  localGateway :: "byte list"
  tunnelGateway :: "byte list"
  installed :: "darwinRoute list"
  rkernel :: 'k

type_synonym results = "(u32 \<times> rerr option) list"

definition sameRoute :: "darwinRoute \<Rightarrow> darwinRoute \<Rightarrow> bool" where
  "sameRoute l r \<longleftrightarrow> dIfidx l = dIfidx r \<and> ip_Equal (dDst l) (dDst r) \<and>
     (case dMask l of None \<Rightarrow> [] | Some m \<Rightarrow> m) = (case dMask r of None \<Rightarrow> [] | Some m \<Rightarrow> m) \<and> ip_Equal (dGateway l) (dGateway r)"

definition nextSequence :: "'k routeSocketState \<Rightarrow> u32 \<times> 'k routeSocketState" where
  "nextSequence st = (let q = seqNo st + 1; q = (if q = 0 then 1 else q) in (q, st\<lparr>seqNo := q\<rparr>))"

subsection \<open>Reading and writing the socket\<close>

partial_function (option) drainLoop :: "'k route_sys \<Rightarrow> int \<Rightarrow> 'k \<Rightarrow> (int option \<times> 'k) option" where
  "drainLoop K f k =
     (case sysRead K f k of
        (Inr _, k) \<Rightarrow> drainLoop K f k
      | (Inl e, k) \<Rightarrow>
          if e = EINTR then drainLoop K f k
          else if e = EAGAIN then Some (None, k)
          else Some (Some e, k))"

definition drainLocked :: "'k route_sys \<Rightarrow> 'k routeSocketState \<Rightarrow> (rerr option \<times> 'k routeSocketState) option" where
  "drainLocked K st =
     (if fd st < 0 then Some (None, st)
      else case sysSetopt K (fd st) DrainTimeout (rkernel st) of
        (Some e, k) \<Rightarrow> Some (Some (wrapErrno K '''' e), st\<lparr>rkernel := k\<rparr>)
      | (None, k) \<Rightarrow>
          (case drainLoop K (fd st) k of
             None \<Rightarrow> None
           | Some (r, k) \<Rightarrow> Some (map_option (wrapErrno K '''') r, st\<lparr>rkernel := snd (sysSetopt K (fd st) AckTimeout k)\<rparr>)))"

definition routeWriteRetries :: nat where
  "routeWriteRetries = 2000"

partial_function (option) writeWithRetry :: "'k route_sys \<Rightarrow> int \<Rightarrow> byte list \<Rightarrow> nat \<Rightarrow> 'k \<Rightarrow> (rerr option \<times> 'k) option" where
  "writeWithRetry K f data attempt k =
     (case sysWrite K f data k of
        (Inr n, k) \<Rightarrow>
          Some (if n \<noteq> length data
                then Some \<lparr>errText = ''short write: '' @ showNat n @ ''/'' @ showNat (length data) @ '' bytes'', errnum = None\<rparr>
                else None, k)
      | (Inl e, k) \<Rightarrow>
          if e = EINTR then writeWithRetry K f data (Suc attempt) k
          else if e \<noteq> ENOBUFS \<and> e \<noteq> EAGAIN then Some (Some (wrapErrno K '''' e), k)
          else if attempt \<ge> routeWriteRetries
            then Some (Some (wrapErrno K (''after '' @ showNat attempt @ '' retries: '') e), k)
          else writeWithRetry K f data (Suc attempt) k)"

text \<open>The records of one read, as far as they are whole; the first answer to a request counts.\<close>

function ackScan :: "'k route_sys \<Rightarrow> u32 list \<Rightarrow> results \<Rightarrow> byte list \<Rightarrow> results" where
  "ackScan K wanted rs data =
     (case decodeRtMsg data of
        None \<Rightarrow> rs
      | Some h \<Rightarrow>
          if unat (Msglen h) < routeHeaderSize \<or> unat (Msglen h) > length data then rs
          else
            ackScan K wanted
              (if MsgSeq h \<in> set wanted \<and> MsgSeq h \<notin> set (map fst rs)
               then rs @ [(MsgSeq h, if MsgErrno h = 0 then None
                                     else Some (kernelErr K (sint (MsgErrno h))))]
               else rs)
              (drop (unat (Msglen h)) data))"
  by pat_completeness auto
termination by (relation "measure (\<lambda>(K, wanted, rs, data). length data)") (auto simp: routeHeaderSize_def)

declare ackScan.simps [simp del]

partial_function (option) ackLoop :: "'k route_sys \<Rightarrow> int \<Rightarrow> u32 list \<Rightarrow> results \<Rightarrow> 'k \<Rightarrow> (results \<times> rerr option \<times> 'k) option" where
  "ackLoop K f wanted rs k =
     (if length rs < length wanted then
        (case sysRead K f k of
           (Inl e, k) \<Rightarrow>
             if e = EINTR then ackLoop K f wanted rs k
             else Some (rs, Some (wrapErrno K (''collect AF_ROUTE ACKs: received '' @ showNat (length rs) @ ''/'' @ showNat (length wanted) @ '', '' @
                     showNat (length wanted - length rs) @ '' missing: '') e), k)
         | (Inr data, k) \<Rightarrow>
             if length data < routeHeaderSize then ackLoop K f wanted rs k
             else ackLoop K f wanted (ackScan K wanted rs data) k)
      else Some (rs, None, k))"

definition collectAcksLocked :: "'k route_sys \<Rightarrow> routeRequest list \<Rightarrow> 'k routeSocketState \<Rightarrow> (results \<times> rerr option \<times> 'k routeSocketState) option" where
  "collectAcksLocked K requests st =
     map_option (\<lambda>(rs, e, k). (rs, e, st\<lparr>rkernel := k\<rparr>)) (ackLoop K (fd st) (remdups (map rSeq requests)) [] (rkernel st))"

subsection \<open>Batches\<close>

fun buildRequests :: "'k route_sys \<Rightarrow> darwinRoute list \<Rightarrow> 'k routeSocketState \<Rightarrow> (rerr + routeRequest list) \<times> 'k routeSocketState" where
  "buildRequests K [] st = (Inr [], st)"
| "buildRequests K (r # rs) st =
     (case nextSequence st of (q, st) \<Rightarrow>
        (case buildRtMsg (sysPid K) (dTyp r) q (dIfidx r) (dDst r) (dMask r) (dGateway r) of
           Inl e \<Rightarrow> (Inl \<lparr>errText = dName r @ '': '' @ e, errnum = None\<rparr>, st)
         | Inr data \<Rightarrow>
             (case buildRequests K rs st of
                (Inl e, st) \<Rightarrow> (Inl e, st)
              | (Inr reqs, st) \<Rightarrow> (Inr (\<lparr>rSeq = q, rRoute = r, rData = data\<rparr> # reqs), st))))"

text \<open>An addition of what is there and a deletion of what is not there count as done.\<close>

definition harmless :: "darwinRoute \<Rightarrow> rerr \<Rightarrow> bool" where
  "harmless r e \<longleftrightarrow> dTyp r = RTM_ADD \<and> errIs e EEXIST \<or> dTyp r = RTM_DELETE \<and> (errIs e ENOENT \<or> errIs e ESRCH)"

fun writeAll :: "'k route_sys \<Rightarrow> int \<Rightarrow> nat \<Rightarrow> routeRequest list \<Rightarrow> routeRequest list \<Rightarrow> 'k \<Rightarrow>
    (routeRequest list \<times> (nat \<times> routeRequest \<times> rerr) option \<times> 'k) option" where
  "writeAll K f index [] written k = Some (written, None, k)"
| "writeAll K f index (q # qs) written k =
     (case writeWithRetry K f (rData q) 0 k of
        None \<Rightarrow> None
      | Some (None, k) \<Rightarrow> writeAll K f (Suc index) qs (written @ [q]) k
      | Some (Some e, k) \<Rightarrow>
          if harmless (rRoute q) e then writeAll K f (Suc index) qs written k
          else Some (written, Some (index, q, e), k))"

definition removeInstalledLocked :: "darwinRoute \<Rightarrow> darwinRoute list \<Rightarrow> darwinRoute list" where
  "removeInstalledLocked r rs =
     (case dropWhile (\<lambda>x. \<not> sameRoute x r) (rev rs) of
        [] \<Rightarrow> rs
      | _ # ys \<Rightarrow> rev (takeWhile (\<lambda>x. \<not> sameRoute x r) (rev rs) @ ys))"

fun applyResultsLocked :: "routeRequest list \<Rightarrow> results \<Rightarrow> darwinRoute list \<Rightarrow> darwinRoute list" where
  "applyResultsLocked [] rs inst = inst"
| "applyResultsLocked (q # qs) rs inst =
     applyResultsLocked qs rs
       (if map_of rs (rSeq q) = Some None then
          (if dTyp (rRoute q) = RTM_ADD then inst @ [rRoute q]
           else if dTyp (rRoute q) = RTM_DELETE then removeInstalledLocked (rRoute q) inst else inst)
        else inst)"

definition firstRouteError :: "routeRequest list \<Rightarrow> results \<Rightarrow> rerr option" where
  "firstRouteError written rs =
     (case List.find (\<lambda>q. case map_of rs (rSeq q) of Some (Some e) \<Rightarrow> \<not> harmless (rRoute q) e | _ \<Rightarrow> False) written of
        None \<Rightarrow> None
      | Some q \<Rightarrow> map_option (wrapErr (dName (rRoute q) @ '': '')) (the (map_of rs (rSeq q))))"

text \<open>\<open>pipelineLocked\<close>, with the roll-back as an argument.\<close>

definition pipelineWith :: "'k route_sys \<Rightarrow> (routeRequest list \<Rightarrow> results \<Rightarrow> 'k routeSocketState \<Rightarrow> 'k routeSocketState option) \<Rightarrow>
    darwinRoute list \<Rightarrow> 'k routeSocketState \<Rightarrow> (rerr option \<times> 'k routeSocketState) option" where
  "pipelineWith K rollback routes st =
     (if routes = [] then Some (None, st)
      else if fd st < 0 then Some (Some \<lparr>errText = ''AF_ROUTE socket is not open'', errnum = None\<rparr>, st)
      else case drainLocked K st of
        None \<Rightarrow> None
      | Some (Some e, st) \<Rightarrow> Some (Some e, st)
      | Some (None, st) \<Rightarrow>
          (case buildRequests K routes st of
             (Inl e, st) \<Rightarrow> Some (Some e, st)
           | (Inr requests, st) \<Rightarrow>
               (case writeAll K (fd st) 0 requests [] (rkernel st) of
                  None \<Rightarrow> None
                | Some (written, Some (index, q, e), k) \<Rightarrow>
                    (let st = st\<lparr>rkernel := k\<rparr>; t = ''write route '' @ showNat index @ '' ('' @ dName (rRoute q) @ ''): '' in
                     if written = [] then Some (Some (wrapErr t e), st)
                     else case collectAcksLocked K written st of
                       None \<Rightarrow> None
                     | Some (rs, cerr, st) \<Rightarrow>
                         map_option (\<lambda>st. (Some (case cerr of None \<Rightarrow> wrapErr t e
                             | Some c \<Rightarrow> (wrapErr t e)\<lparr>errText := t @ errText e @ ''; collecting previously sent ACKs: '' @ errText c\<rparr>), st))
                           (rollback written rs st))
                | Some (written, None, k) \<Rightarrow>
                    (case collectAcksLocked K written (st\<lparr>rkernel := k\<rparr>) of
                       None \<Rightarrow> None
                     | Some (rs, err, st) \<Rightarrow>
                         (let st = st\<lparr>installed := applyResultsLocked written rs (installed st)\<rparr> in
                          case (case err of None \<Rightarrow> firstRouteError written rs | Some e \<Rightarrow> Some e) of
                            Some e \<Rightarrow> map_option (\<lambda>st. (Some e, st)) (rollback written rs st)
                          | None \<Rightarrow> Some (None, st))))))"

definition rollbackSuccessfulAddsLocked :: "(darwinRoute list \<Rightarrow> 'k routeSocketState \<Rightarrow> (rerr option \<times> 'k routeSocketState) option) \<Rightarrow>
    routeRequest list \<Rightarrow> results \<Rightarrow> 'k routeSocketState \<Rightarrow> 'k routeSocketState option" where
  "rollbackSuccessfulAddsLocked pipeline requests rs st =
     (let rollback = map (\<lambda>q. (rRoute q)\<lparr>dTyp := RTM_DELETE\<rparr>)
            (filter (\<lambda>q. dTyp (rRoute q) = RTM_ADD \<and> map_of rs (rSeq q) = Some None) requests)
      in if rollback = [] then Some st else map_option snd (pipeline rollback st))"

text \<open>
  The roll-back is itself a batch, but only of deletions, which are never rolled back: two levels
  are enough, as \<open>pipelineLocked_recursive\<close> below confirms.
\<close>

definition pipelineLocked :: "'k route_sys \<Rightarrow> darwinRoute list \<Rightarrow> 'k routeSocketState \<Rightarrow> (rerr option \<times> 'k routeSocketState) option" where
  "pipelineLocked K = pipelineWith K (rollbackSuccessfulAddsLocked (pipelineWith K (\<lambda>_ _. Some)))"

subsection \<open>The socket\<close>

definition closeLocked :: "'k route_sys \<Rightarrow> 'k routeSocketState \<Rightarrow> 'k routeSocketState" where
  "closeLocked K st =
     st\<lparr>fd := -1, localIndex := 0, tunnelIndex := 0, localGateway := [], tunnelGateway := [], installed := [],
        rkernel := (if fd st \<ge> 0 then sysClose K (fd st) (rkernel st) else rkernel st)\<rparr>"

definition openFailed :: "'k route_sys \<Rightarrow> int \<Rightarrow> string \<Rightarrow> rerr \<Rightarrow> 'k routeSocketState \<Rightarrow> (rerr option \<times> 'k routeSocketState) option" where
  "openFailed K f t e st = Some (Some (wrapErr t e), st\<lparr>rkernel := sysClose K f (rkernel st)\<rparr>)"

text \<open>The socket options before the socket is taken over, in order; the text of the first that fails.\<close>

definition socketOptions :: "(sockopt \<times> string) list" where
  "socketOptions = [(RcvBuf, ''set AF_ROUTE receive buffer: ''), (SndBuf, ''set AF_ROUTE send buffer: ''),
     (AckTimeout, ''set AF_ROUTE receive timeout: '')]"

fun setOptions :: "'k route_sys \<Rightarrow> int \<Rightarrow> (sockopt \<times> string) list \<Rightarrow> 'k \<Rightarrow> (string \<times> int) option \<times> 'k" where
  "setOptions K f [] k = (None, k)"
| "setOptions K f ((p, t) # os) k =
     (case sysSetopt K f p k of (Some e, k) \<Rightarrow> (Some (t, e), k) | (None, k) \<Rightarrow> setOptions K f os k)"

definition openLocked :: "'k route_sys \<Rightarrow> int \<Rightarrow> int \<Rightarrow> byte list \<Rightarrow> byte list \<Rightarrow> 'k routeSocketState \<Rightarrow> (rerr option \<times> 'k routeSocketState) option" where
  "openLocked K li ti lg tg st =
     (if fd st \<ge> 0 then Some (None, st)
      else case sysSocket K (rkernel st) of
        (Inl e, k) \<Rightarrow> Some (Some (wrapErrno K ''create AF_ROUTE socket: '' e), st\<lparr>rkernel := k\<rparr>)
      | (Inr f, k) \<Rightarrow>
          (case setOptions K f socketOptions k of
             (Some (t, e), k) \<Rightarrow> openFailed K f t (wrapErrno K [] e) (st\<lparr>rkernel := k\<rparr>)
           | (None, k) \<Rightarrow>
               (case drainLocked K (st\<lparr>fd := f, localIndex := li, tunnelIndex := ti, localGateway := lg, tunnelGateway := tg, rkernel := k\<rparr>) of
                  None \<Rightarrow> None
                | Some (Some e, st) \<Rightarrow> openFailed K f ''drain AF_ROUTE socket: '' e (st\<lparr>fd := -1\<rparr>)
                | Some (None, st) \<Rightarrow> Some (None, st))))"

definition addRoutes :: "'k route_sys \<Rightarrow> darwinRoute list \<Rightarrow> int \<Rightarrow> int \<Rightarrow> byte list \<Rightarrow> byte list \<Rightarrow> 'k routeSocketState \<Rightarrow>
    (rerr option \<times> 'k routeSocketState) option" where
  "addRoutes K routes li ti lg tg st =
     (case openLocked K li ti lg tg st of
        None \<Rightarrow> None
      | Some (Some e, st) \<Rightarrow> Some (Some e, st)
      | Some (None, st) \<Rightarrow> pipelineLocked K routes st)"

text \<open>Addresses that do not parse are logged and left out; the error of the batch is logged.\<close>

definition dynamicRoutes :: "ip_lib \<Rightarrow> string list \<Rightarrow> bool \<Rightarrow> 'k routeSocketState \<Rightarrow> darwinRoute list" where
  "dynamicRoutes L ips throughTunnel st =
     concat (map (\<lambda>value.
       case parseRouteAddress L value of
         Inl _ \<Rightarrow> []
       | Inr dst \<Rightarrow>
           [\<lparr>dTyp = RTM_ADD, dIfidx = (if throughTunnel then tunnelIndex st else localIndex st), dDst = dst, dMask = None,
             dGateway = (if throughTunnel then tunnelGateway st else localGateway st),
             dName = (if throughTunnel then ''dynamic split include '' else ''dynamic split exclude '') @ value\<rparr>]) ips)"

definition addDynamicRoutes :: "ip_lib \<Rightarrow> 'k route_sys \<Rightarrow> string list \<Rightarrow> bool \<Rightarrow> 'k routeSocketState \<Rightarrow> 'k routeSocketState option" where
  "addDynamicRoutes L K ips throughTunnel st =
     (if fd st < 0 then Some st else map_option snd (pipelineLocked K (dynamicRoutes L ips throughTunnel st) st))"

subsection \<open>The operations of the package\<close>

text \<open>\<open>interfaceIndex\<close>; \<open>byName\<close> is \<open>net.InterfaceByName\<close>.\<close>

definition interfaceIndex :: "ip_lib \<Rightarrow> (string \<Rightarrow> string + int) \<Rightarrow> string \<Rightarrow> string + int" where
  "interfaceIndex L byName name =
     (if name = [] then Inl ''interface name is empty''
      else case byName name of
        Inl e \<Rightarrow> Inl e
      | Inr i \<Rightarrow> if i \<le> 0 then Inl (''interface '' @ quote L name @ '' has invalid index '' @ showInt i) else Inr i)"

definition ipText :: "ip_lib \<Rightarrow> byte list \<Rightarrow> string" where
  "ipText L ip = (case To4 ip of Some a \<Rightarrow> showIP a | None \<Rightarrow> show6 L ip)"

fun splitRoutes :: "ip_lib \<Rightarrow> int \<Rightarrow> byte list \<Rightarrow> string \<Rightarrow> string list \<Rightarrow> string + darwinRoute list" where
  "splitRoutes L i gw label [] = Inr []"
| "splitRoutes L i gw label (ipMask # ms) =
     (case parseRoute L ipMask of
        Inl e \<Rightarrow> Inl (''routing error: '' @ ipMask @ '' '' @ e)
      | Inr (dst, m) \<Rightarrow>
          res_bind (splitRoutes L i gw label ms) (\<lambda>rs.
            Inr (\<lparr>dTyp = RTM_ADD, dIfidx = i, dDst = dst, dMask = Some m, dGateway = gw, dName = label @ ipMask\<rparr> # rs)))"

text \<open>The batch of \<open>SetRoutes\<close>, with the interfaces and gateways it is for.\<close>

definition sessionRoutes :: "ip_lib \<Rightarrow> (string \<Rightarrow> string + int) \<Rightarrow> Interface \<Rightarrow> ConnSession \<Rightarrow>
    string + int \<times> int \<times> byte list \<times> byte list \<times> darwinRoute list" where
  "sessionRoutes L byName ifc cs =
     (case interfaceIndex L byName (IfName ifc) of
        Inl e \<Rightarrow> Inl (''find local interface '' @ quote L (IfName ifc) @ '': '' @ e)
      | Inr li \<Rightarrow>
      (case interfaceIndex L byName (TunName cs) of
         Inl e \<Rightarrow> Inl (''find tunnel interface '' @ quote L (TunName cs) @ '': '' @ e)
       | Inr ti \<Rightarrow>
      (case parseRouteAddress L (Gateway ifc) of
         Inl e \<Rightarrow> Inl (''invalid local gateway: '' @ e)
       | Inr lg \<Rightarrow>
      (case parseRouteAddress L (VPNAddress cs) of
         Inl e \<Rightarrow> Inl (''invalid VPN address: '' @ e)
       | Inr tg \<Rightarrow>
      (case parseRouteAddress L (ServerAddress cs) of
         Inl e \<Rightarrow> Inl (''invalid VPN server address: '' @ e)
       | Inr sa \<Rightarrow>
           res_bind (splitRoutes L ti tg ''split include '' (SplitInclude cs)) (\<lambda>inc.
           res_bind (splitRoutes L li lg ''split exclude '' (SplitExclude cs)) (\<lambda>exc.
             Inr (li, ti, lg, tg,
               [\<lparr>dTyp = RTM_DELETE, dIfidx = li, dDst = sa, dMask = None, dGateway = lg, dName = ''VPN server '' @ ipText L sa @ '' (replace)''\<rparr>,
                \<lparr>dTyp = RTM_ADD, dIfidx = li, dDst = sa, dMask = None, dGateway = lg, dName = ''VPN server '' @ ipText L sa\<rparr>] @ inc @ exc))))))))"

text \<open>The commands for \<open>scutil\<close>, which is a parameter like the system calls.\<close>

definition tabs :: "nat \<Rightarrow> string \<Rightarrow> string" where
  "tabs n l = replicate n (CHR 9) @ l @ [CHR 10]"

definition spaces8 :: "string \<Rightarrow> string" where
  "spaces8 l = replicate 8 (CHR '' '') @ l @ [CHR 10]"

definition dnsCommand :: "ConnSession \<Rightarrow> string" where
  "dnsCommand cs =
     (let override = (if length (SplitInclude cs) = 0 then ''d.add OverridePrimary # 1'' else []) in
      [CHR 10] @ tabs 2 ''open'' @ tabs 2 ''d.init'' @ tabs 2 (''d.add ServerAddresses * '' @ join (CHR '' '') (DNS cs)) @
      spaces8 ''d.add SearchOrder 1'' @ spaces8 (''d.add SupplementalMatchDomains * '' @ [CHR 34, CHR 34]) @
      tabs 2 (''set State:/Network/Service/'' @ TunName cs @ ''/DNS'') @ [CHR 10] @
      tabs 2 ''d.init'' @ tabs 2 (''d.add Router '' @ VPNAddress cs) @ tabs 2 (''d.add Addresses * '' @ VPNAddress cs) @
      tabs 2 (''d.add InterfaceName '' @ TunName cs) @ spaces8 override @
      tabs 2 (''set State:/Network/Service/'' @ TunName cs @ ''/IPv4'') @ tabs 2 ''close'' @ [CHR 9])"

definition restoreCommand :: "ConnSession \<Rightarrow> string" where
  "restoreCommand cs =
     [CHR 10] @ spaces8 ''open'' @ spaces8 (''remove State:/Network/Service/'' @ TunName cs @ ''/IPv4'') @
     spaces8 (''remove State:/Network/Service/'' @ TunName cs @ ''/DNS'') @ spaces8 ''close'' @ [CHR 9]"

type_synonym 'k scutil = "string \<Rightarrow> 'k \<Rightarrow> string option \<times> 'k"

definition setDNS :: "ip_lib \<Rightarrow> 'k route_sys \<Rightarrow> 'k scutil \<Rightarrow> ConnSession \<Rightarrow> 'k routeSocketState \<Rightarrow> (string option \<times> 'k routeSocketState) option" where
  "setDNS L K scutil cs st =
     (case (if length (DynamicSplitIncludeDomains cs) > 0 then addDynamicRoutes L K (DNS cs) True st else Some st) of
        None \<Rightarrow> None
      | Some st \<Rightarrow> (case scutil (dnsCommand cs) (rkernel st) of (err, k) \<Rightarrow> Some (err, st\<lparr>rkernel := k\<rparr>)))"

definition restoreDNS :: "'k scutil \<Rightarrow> ConnSession \<Rightarrow> 'k routeSocketState \<Rightarrow> 'k routeSocketState" where
  "restoreDNS scutil cs st = st\<lparr>rkernel := snd (scutil (restoreCommand cs) (rkernel st))\<rparr>"

definition ResetRoutes :: "'k route_sys \<Rightarrow> 'k scutil \<Rightarrow> ConnSession \<Rightarrow> 'k routeSocketState \<Rightarrow> 'k routeSocketState option" where
  "ResetRoutes K scutil cs st =
     (case (if fd st \<ge> 0 then map_option snd (pipelineLocked K (map (\<lambda>r. r\<lparr>dTyp := RTM_DELETE\<rparr>) (installed st)) st) else Some st) of
        None \<Rightarrow> None
      | Some st \<Rightarrow>
          (let st = closeLocked K st in Some (if length (DNS cs) > 0 then restoreDNS scutil cs st else st)))"

definition SetRoutes :: "ip_lib \<Rightarrow> (string \<Rightarrow> string + int) \<Rightarrow> 'k route_sys \<Rightarrow> 'k scutil \<Rightarrow> Interface \<Rightarrow> ConnSession \<Rightarrow> 'k routeSocketState \<Rightarrow>
    (string option \<times> 'k routeSocketState) option" where
  "SetRoutes L byName K scutil ifc cs st =
     (case sessionRoutes L byName ifc cs of
        Inl e \<Rightarrow> Some (Some e, st)
      | Inr (li, ti, lg, tg, routes) \<Rightarrow>
          (case addRoutes K routes li ti lg tg st of
             None \<Rightarrow> None
           | Some (Some e, st) \<Rightarrow> Some (Some (errText e), st)
           | Some (None, st) \<Rightarrow>
               if length (DNS cs) > 0 then
                 (case setDNS L K scutil cs st of
                    None \<Rightarrow> None
                  | Some (Some e, st) \<Rightarrow> map_option (Pair (Some e)) (ResetRoutes K scutil cs st)
                  | Some (None, st) \<Rightarrow> Some (None, st))
               else Some (None, st)))"

definition DynamicAddIncludeRoutes :: "ip_lib \<Rightarrow> 'k route_sys \<Rightarrow> string list \<Rightarrow> 'k routeSocketState \<Rightarrow> 'k routeSocketState option" where
  "DynamicAddIncludeRoutes L K ips = addDynamicRoutes L K ips True"

definition DynamicAddExcludeRoutes :: "ip_lib \<Rightarrow> 'k route_sys \<Rightarrow> string list \<Rightarrow> 'k routeSocketState \<Rightarrow> 'k routeSocketState option" where
  "DynamicAddExcludeRoutes L K ips = addDynamicRoutes L K ips False"

text \<open>\<open>ConfigInterface\<close>: the command handed to the shell.\<close>

definition ConfigInterface :: "(string \<Rightarrow> 's \<Rightarrow> string option \<times> 's) \<Rightarrow> ConnSession \<Rightarrow> 's \<Rightarrow> string option \<times> 's" where
  "ConfigInterface exec cs =
     exec (''ifconfig '' @ TunName cs @ '' inet '' @ VPNAddress cs @ '' '' @ VPNAddress cs @ '' netmask 255.255.255.255 up'')"

subsection \<open>The roll-back ends\<close>

definition all_delete :: "routeRequest list \<Rightarrow> bool" where
  "all_delete qs \<longleftrightarrow> (\<forall>q\<in>set qs. dTyp (rRoute q) = RTM_DELETE)"

lemma buildRequests_routes: "buildRequests K rs st = (Inr reqs, st') \<Longrightarrow> map rRoute reqs = rs"
  by (induction rs arbitrary: st reqs) (auto simp: nextSequence_def Let_def split: sum.splits prod.splits)

lemma writeAll_Cons:
  assumes "writeAll K f i (q # qs) w k = Some (w', r, k')"
  obtains (wrote) k1 where "writeWithRetry K f (rData q) 0 k = Some (None, k1)" "writeAll K f (Suc i) qs (w @ [q]) k1 = Some (w', r, k')"
  | (skipped) e k1 where "writeWithRetry K f (rData q) 0 k = Some (Some e, k1)" "harmless (rRoute q) e" "writeAll K f (Suc i) qs w k1 = Some (w', r, k')"
  | (stopped) e k1 where "writeWithRetry K f (rData q) 0 k = Some (Some e, k1)" "w' = w" "r = Some (i, q, e)" "k' = k1"
proof -
  obtain e k1 where x: "writeWithRetry K f (rData q) 0 k = Some (e, k1)" using assms by (cases "writeWithRetry K f (rData q) 0 k") auto
  show ?thesis
  proof (cases e)
    case None
    with assms x wrote show ?thesis by simp
  next
    case (Some e')
    with assms x skipped stopped show ?thesis by (cases "harmless (rRoute q) e'") simp_all
  qed
qed

lemma writeAll_subset: "writeAll K f i qs w k = Some (w', r, k') \<Longrightarrow> set w' \<subseteq> set w \<union> set qs"
proof (induction qs arbitrary: i w k)
  case (Cons q qs)
  from Cons.prems show ?case
  proof (cases rule: writeAll_Cons)
    case (wrote k1)
    from Cons.IH [OF wrote(2)] show ?thesis by auto
  next
    case (skipped e k1)
    from Cons.IH [OF skipped(3)] show ?thesis by auto
  qed auto
qed simp

lemma rollback_all_delete: "all_delete qs \<Longrightarrow> rollbackSuccessfulAddsLocked p qs rs st = Some st"
proof -
  assume "all_delete qs"
  then have "filter (\<lambda>q. dTyp (rRoute q) = RTM_ADD \<and> map_of rs (rSeq q) = Some None) qs = []"
    by (auto simp: all_delete_def filter_empty_conv RTM_ADD_def RTM_DELETE_def)
  then show ?thesis by (simp add: rollbackSuccessfulAddsLocked_def)
qed

text \<open>A batch depends on the roll-back only for the requests it wrote.\<close>

lemma pipelineWith_cong:
  assumes "\<And>qs rs st. set (map rRoute qs) \<subseteq> set routes \<Longrightarrow> f qs rs st = g qs rs st"
  shows "pipelineWith K f routes st = pipelineWith K g routes st"
proof -
  have eq: "f w rs s = g w rs s" if "buildRequests K routes st1 = (Inr reqs, st2)" "writeAll K x 0 reqs [] k = Some (w, r, k')" for st1 reqs st2 x k w r k' rs s
    using buildRequests_routes [OF that(1)] writeAll_subset [OF that(2)] by (intro assms) (metis empty_set image_mono list.set_map sup_bot.left_neutral)
  show ?thesis unfolding pipelineWith_def Let_def using eq by (auto split: option.splits prod.splits sum.splits)
qed

lemma pipelineWith_deletes:
  assumes "\<forall>r\<in>set routes. dTyp r = RTM_DELETE"
  shows "pipelineWith K (rollbackSuccessfulAddsLocked p) routes st = pipelineWith K (\<lambda>_ _. Some) routes st"
proof (rule pipelineWith_cong)
  fix qs :: "routeRequest list" and rs st assume "set (map rRoute qs) \<subseteq> set routes"
  with assms have "all_delete qs" by (auto simp: all_delete_def)
  then show "rollbackSuccessfulAddsLocked p qs rs st = Some st" by (rule rollback_all_delete)
qed

lemma pipelineLocked_recursive: "pipelineLocked K = pipelineWith K (rollbackSuccessfulAddsLocked (pipelineLocked K))"
proof -
  have "rollbackSuccessfulAddsLocked (pipelineWith K (\<lambda>_ _. Some)) qs rs st = rollbackSuccessfulAddsLocked (pipelineLocked K) qs rs st" for qs rs st
  proof -
    let ?rb = "map (\<lambda>q. (rRoute q)\<lparr>dTyp := RTM_DELETE\<rparr>) (filter (\<lambda>q. dTyp (rRoute q) = RTM_ADD \<and> map_of rs (rSeq q) = Some None) qs)"
    have "pipelineLocked K ?rb st = pipelineWith K (\<lambda>_ _. Some) ?rb st" unfolding pipelineLocked_def by (rule pipelineWith_deletes) auto
    then show ?thesis by (simp add: rollbackSuccessfulAddsLocked_def Let_def)
  qed
  then have "rollbackSuccessfulAddsLocked (pipelineWith K (\<lambda>_ _. Some)) = rollbackSuccessfulAddsLocked (pipelineLocked K)" by (intro ext)
  then show ?thesis by (metis pipelineLocked_def)
qed

subsection \<open>Routes that were there before\<close>

text \<open>What a message says, apart from its kind and number; it depends on the route alone.\<close>

definition msgKey :: "byte list \<Rightarrow> rtMsghdr option \<times> byte list" where
  "msgKey data = (map_option (\<lambda>h. h\<lparr>MsgType := 0, MsgSeq := 0\<rparr>) (decodeRtMsg data), drop 92 data)"

definition msgKind :: "byte list \<Rightarrow> byte option" where
  "msgKind data = map_option MsgType (decodeRtMsg data)"

definition routeKey :: "'k route_sys \<Rightarrow> darwinRoute \<Rightarrow> (rtMsghdr option \<times> byte list) option" where
  "routeKey K r =
     (case buildRtMsg (sysPid K) RTM_ADD 0 (dIfidx r) (dDst r) (dMask r) (dGateway r) of Inl _ \<Rightarrow> None | Inr d \<Rightarrow> Some (msgKey d))"

lemma routeKey_typ [simp]: "routeKey K (r\<lparr>dTyp := t\<rparr>) = routeKey K r"
  by (simp add: routeKey_def)

lemma buildRtMsg_shape:
  assumes "buildRtMsg pid t q i d m g = Inr msg"
  obtains h b where "\<And>t q. buildRtMsg pid t q i d m g = Inr (hdrBytes (h\<lparr>MsgType := t, MsgSeq := q\<rparr>) @ b)"
proof -
  from assms obtain fam sd sg sm where f: "\<not> i \<le> 0" "routeSockaddr d = Inr (fam, sd)" "routeSockaddr g = Inr (fam, sg)" "maskSockaddr fam m = Inr sm"
    by (auto simp: buildRtMsg_def Let_def res_bind_Inr_iff split: if_splits sum.splits)
  let ?a = "appendRouteSockaddr (appendRouteSockaddr [] sd) sg"
  let ?a' = "case sm of None \<Rightarrow> ?a | Some sa \<Rightarrow> appendRouteSockaddr ?a sa"
  have len: "\<not> routeHeaderSize + length ?a' > 65535" using assms f by (auto simp: buildRtMsg_def Let_def split: if_splits)
  let ?h = "\<lparr>Msglen = of_nat (routeHeaderSize + length ?a'), MsgVersion = 5, MsgType = 0, MsgIndex = word_of_int i,
      MsgFlags = 0x803 OR (if sm = None then 4 else 0), MsgAddrs = 3 OR (if sm = None then 0 else 4), MsgPid = pid, MsgSeq = 0,
      MsgErrno = 0, MsgUse = 0, MsgInits = 0, MsgRmx = zeroMetrics\<rparr>"
  have "buildRtMsg pid t q i d m g = Inr (hdrBytes (?h\<lparr>MsgType := t, MsgSeq := q\<rparr>) @ ?a')" for t q
    using f len by (simp add: buildRtMsg_def Let_def)
  then show ?thesis by (rule that)
qed

lemma buildRtMsg_key:
  assumes "buildRtMsg (sysPid K) t q (dIfidx r) (dDst r) (dMask r) (dGateway r) = Inr data"
  shows "routeKey K r = Some (msgKey data)" and "msgKind data = Some t"
proof -
  from buildRtMsg_shape [OF assms] obtain h b where
    hb: "\<And>t q. buildRtMsg (sysPid K) t q (dIfidx r) (dDst r) (dMask r) (dGateway r) = Inr (hdrBytes (h\<lparr>MsgType := t, MsgSeq := q\<rparr>) @ b)" by blast
  from assms hb have d: "data = hdrBytes (h\<lparr>MsgType := t, MsgSeq := q\<rparr>) @ b" by simp
  have k: "msgKey (hdrBytes (h\<lparr>MsgType := t, MsgSeq := q\<rparr>) @ b) = (Some (h\<lparr>MsgType := 0, MsgSeq := 0\<rparr>), b)" for t q
    by (simp add: msgKey_def decodeRtMsg_hdrBytes)
  show "routeKey K r = Some (msgKey data)" by (simp add: routeKey_def hb d k)
  show "msgKind data = Some t" by (simp add: d msgKind_def decodeRtMsg_hdrBytes)
qed

text \<open>
  \<open>keeps\<close>: \<open>P\<close> is a property of the kernel that implies that the route of the key is there.  It is lost
  only by a deletion of that route, and while it holds, adding the route again is refused.
\<close>

definition keeps :: "'k route_sys \<Rightarrow> 'k scutil \<Rightarrow> (rtMsghdr option \<times> byte list) \<Rightarrow> ('k \<Rightarrow> bool) \<Rightarrow> bool" where
  "keeps K scutil key P \<longleftrightarrow>
     (\<forall>f k. P k \<longrightarrow> P (snd (sysRead K f k))) \<and> (\<forall>f p k. P k \<longrightarrow> P (snd (sysSetopt K f p k))) \<and>
     (\<forall>f k. P k \<longrightarrow> P (sysClose K f k)) \<and> (\<forall>c k. P k \<longrightarrow> P (snd (scutil c k))) \<and>
     (\<forall>f data k. P k \<longrightarrow> \<not> (msgKind data = Some RTM_DELETE \<and> msgKey data = key) \<longrightarrow> P (snd (sysWrite K f data k))) \<and>
     (\<forall>f data k. P k \<longrightarrow> msgKind data = Some RTM_ADD \<longrightarrow> msgKey data = key \<longrightarrow> fst (sysWrite K f data k) = Inl EEXIST)"

lemma keepsD:
  assumes "keeps K scutil key P" and "P k"
  shows "sysRead K f k = (r, k') \<Longrightarrow> P k'" and "sysSetopt K f p k = (o', k') \<Longrightarrow> P k'" and "P (sysClose K f k)" and "P (snd (scutil c k))"
    and "\<not> (msgKind data = Some RTM_DELETE \<and> msgKey data = key) \<Longrightarrow> sysWrite K f data k = (w, k') \<Longrightarrow> P k'"
    and "msgKind data = Some RTM_ADD \<Longrightarrow> msgKey data = key \<Longrightarrow> fst (sysWrite K f data k) = Inl EEXIST"
  using assms unfolding keeps_def by (metis snd_conv)+

lemmas drain_induct = drainLoop.raw_induct [rotated, consumes 1, case_names step]
  and write_induct = writeWithRetry.raw_induct [rotated, consumes 1, case_names step]
  and ack_induct = ackLoop.raw_induct [rotated, consumes 1, case_names step]

lemma drainLoop_keeps: "drainLoop K f k = Some y \<Longrightarrow> keeps K scutil key P \<Longrightarrow> P k \<Longrightarrow> P (snd y)"
proof (induction K f k y rule: drain_induct)
  case (step loop K f k y)
  obtain r k1 where r: "sysRead K f k = (r, k1)" by fastforce
  have k1: "P k1" using keepsD(1) [OF step.prems r] .
  from step.hyps r show ?case using step.IH [OF _ step.prems(1) k1] k1 by (auto split: sum.splits if_splits)
qed

lemma writeWithRetry_keeps:
  "writeWithRetry K f data n k = Some y \<Longrightarrow> keeps K scutil key P \<Longrightarrow> P k \<Longrightarrow>
    \<not> (msgKind data = Some RTM_DELETE \<and> msgKey data = key) \<Longrightarrow>
    P (snd y) \<and> (msgKind data = Some RTM_ADD \<longrightarrow> msgKey data = key \<longrightarrow> (\<exists>e. fst y = Some e \<and> errIs e EEXIST))"
proof (induction K f data n k y rule: write_induct)
  case (step loop K f data n k y)
  obtain w k1 where w: "sysWrite K f data k = (w, k1)" by fastforce
  have k1: "P k1" using keepsD(5) [OF step.prems(1,2,3) w] .
  show ?case
  proof (cases "msgKind data = Some RTM_ADD \<and> msgKey data = key")
    case True
    then have "w = Inl EEXIST" using keepsD(6) [OF step.prems(1,2), of data f] w by simp
    with step.hyps w have "y = (Some (wrapErrno K [] EEXIST), k1)" by (simp add: EEXIST_def EINTR_def ENOBUFS_def EAGAIN_def)
    with k1 show ?thesis by (simp add: errIs_def wrapErrno_def)
  next
    case False
    have "P (snd y)" using step.hyps w k1 step.IH [OF _ step.prems(1) k1 step.prems(3)] by (auto split: sum.splits if_splits)
    with False show ?thesis by blast
  qed
qed

lemma ackLoop_keeps: "ackLoop K f wanted rs k = Some y \<Longrightarrow> keeps K scutil key P \<Longrightarrow> P k \<Longrightarrow> P (snd (snd y))"
proof (induction K f wanted rs k y rule: ack_induct)
  case (step loop K f wanted rs k y)
  obtain r k1 where r: "sysRead K f k = (r, k1)" by fastforce
  have k1: "P k1" using keepsD(1) [OF step.prems r] .
  from step.hyps r show ?case using step.IH [OF _ step.prems(1) k1] k1 step.prems(2) by (auto split: sum.splits if_splits)
qed

lemma drainLocked_keeps:
  assumes d: "drainLocked K st = Some (e, st')" and p: "keeps K scutil key P" "P (rkernel st)"
  shows "P (rkernel st')" and "installed st' = installed st"
proof -
  show "installed st' = installed st" using d by (auto simp: drainLocked_def split: if_splits option.splits prod.splits)
  show "P (rkernel st')"
  proof (cases "fd st < 0")
    case False
    obtain o1 k1 where o1: "sysSetopt K (fd st) DrainTimeout (rkernel st) = (o1, k1)" by fastforce
    have k1: "P k1" using keepsD(2) [OF p o1] .
    show ?thesis
    proof (cases o1)
      case None
      with d False o1 obtain r k2 where r: "drainLoop K (fd st) k1 = Some (r, k2)" "rkernel st' = snd (sysSetopt K (fd st) AckTimeout k2)"
        by (auto simp: drainLocked_def split: option.splits prod.splits)
      from drainLoop_keeps [OF r(1) p(1) k1] have "P k2" by simp
      with keepsD(2) [OF p(1), of k2 "fd st" AckTimeout] r(2) show ?thesis by (metis prod.collapse)
    next
      case (Some x)
      with d False o1 k1 show ?thesis by (auto simp: drainLocked_def)
    qed
  qed (use d p(2) in \<open>simp add: drainLocked_def\<close>)
qed

text \<open>Requests of a batch that asks for nothing but the addition of the route.\<close>

definition request_ok :: "'k route_sys \<Rightarrow> routeRequest \<Rightarrow> bool" where
  "request_ok K q \<longleftrightarrow> routeKey K (rRoute q) = Some (msgKey (rData q)) \<and> msgKind (rData q) = Some (dTyp (rRoute q))"

definition spares :: "'k route_sys \<Rightarrow> (rtMsghdr option \<times> byte list) \<Rightarrow> darwinRoute list \<Rightarrow> bool" where
  "spares K key rs \<longleftrightarrow> (\<forall>r\<in>set rs. dTyp r \<noteq> RTM_ADD \<longrightarrow> routeKey K r \<noteq> Some key)"

definition unrelated :: "'k route_sys \<Rightarrow> (rtMsghdr option \<times> byte list) \<Rightarrow> darwinRoute list \<Rightarrow> bool" where
  "unrelated K key rs \<longleftrightarrow> (\<forall>r\<in>set rs. routeKey K r \<noteq> Some key)"

lemma buildRequests_ok:
  "buildRequests K rs st = (Inr reqs, st') \<Longrightarrow> (\<forall>q\<in>set reqs. request_ok K q)"
proof (induction rs arbitrary: st reqs)
  case (Cons r rs)
  obtain n st1 where n: "nextSequence st = (n, st1)" by fastforce
  with Cons.prems obtain data reqs' where d: "buildRtMsg (sysPid K) (dTyp r) n (dIfidx r) (dDst r) (dMask r) (dGateway r) = Inr data"
    "buildRequests K rs st1 = (Inr reqs', st')" "reqs = \<lparr>rSeq = n, rRoute = r, rData = data\<rparr> # reqs'" by (auto split: sum.splits prod.splits)
  from Cons.IH [OF d(2)] buildRtMsg_key [OF d(1)] d(3) show ?case by (simp add: request_ok_def)
qed simp

lemma buildRequests_state: "buildRequests K rs st = (r, st') \<Longrightarrow> \<exists>n. st' = st\<lparr>seqNo := n\<rparr>"
proof (induction rs arbitrary: st st' r)
  case Nil
  then show ?case by (auto intro: exI [of _ "seqNo st"])
next
  case (Cons a rs)
  obtain n st1 where n: "nextSequence st = (n, st1)" "st1 = st\<lparr>seqNo := n\<rparr>" by (auto simp: nextSequence_def Let_def)
  show ?case
  proof (cases "buildRtMsg (sysPid K) (dTyp a) n (dIfidx a) (dDst a) (dMask a) (dGateway a)")
    case (Inl e)
    with Cons.prems n show ?thesis by auto
  next
    case (Inr d)
    obtain r1 st2 where b: "buildRequests K rs st1 = (r1, st2)" by fastforce
    with Cons.prems n Inr have "st' = st2" by (cases r1) auto
    with Cons.IH [OF b] n(2) show ?thesis by auto
  qed
qed

lemma writeAll_keeps:
  assumes p: "keeps K scutil key P"
  shows "writeAll K f i qs w k = Some (w', r, k') \<Longrightarrow> P k \<Longrightarrow> (\<forall>q\<in>set qs. request_ok K q) \<Longrightarrow> spares K key (map rRoute qs) \<Longrightarrow>
    unrelated K key (map rRoute w) \<Longrightarrow> P k' \<and> unrelated K key (map rRoute w')"
proof (induction qs arbitrary: i w k)
  case (Cons q qs)
  have q: "request_ok K q" "dTyp (rRoute q) \<noteq> RTM_ADD \<longrightarrow> routeKey K (rRoute q) \<noteq> Some key"
    and rest: "\<forall>q\<in>set qs. request_ok K q" "spares K key (map rRoute qs)" using Cons.prems by (auto simp: spares_def)
  then have nd: "\<not> (msgKind (rData q) = Some RTM_DELETE \<and> msgKey (rData q) = key)" by (auto simp: request_ok_def RTM_ADD_def RTM_DELETE_def)
  note wr = writeWithRetry_keeps [OF _ p Cons.prems(2) nd, of f 0]
  from Cons.prems(1) show ?case
  proof (cases rule: writeAll_Cons)
    case (wrote k1)
    have "unrelated K key (map rRoute (w @ [q]))"
      using wr [OF wrote(1)] q Cons.prems(5) by (auto simp: unrelated_def request_ok_def)
    from Cons.IH [OF wrote(2) _ rest this] wr [OF wrote(1)] show ?thesis by simp
  next
    case (skipped e k1)
    from Cons.IH [OF skipped(3) _ rest Cons.prems(5)] wr [OF skipped(1)] show ?thesis by simp
  next
    case (stopped e k1)
    with wr [OF stopped(1)] Cons.prems(5) show ?thesis by simp
  qed
qed simp

lemma collectAcksLocked_keeps:
  assumes "collectAcksLocked K qs st = Some (rs, e, st')" and "keeps K scutil key P" and "P (rkernel st)"
  shows "P (rkernel st') \<and> installed st' = installed st"
proof -
  from assms(1) obtain k where k: "ackLoop K (fd st) (remdups (map rSeq qs)) [] (rkernel st) = Some (rs, e, k)" "st' = st\<lparr>rkernel := k\<rparr>"
    by (auto simp: collectAcksLocked_def)
  from ackLoop_keeps [OF k(1) assms(2,3)] k(2) show ?thesis by simp
qed

lemma removeInstalledLocked_subset: "set (removeInstalledLocked r rs) \<subseteq> set rs"
proof (cases "dropWhile (\<lambda>x. \<not> sameRoute x r) (rev rs)")
  case (Cons y ys)
  have "set (takeWhile (\<lambda>x. \<not> sameRoute x r) (rev rs)) \<subseteq> set rs" by (auto dest: set_takeWhileD)
  moreover have "set (y # ys) \<subseteq> set rs" using set_dropWhileD [of _ "\<lambda>x. \<not> sameRoute x r" "rev rs"] Cons by auto
  ultimately show ?thesis unfolding removeInstalledLocked_def Cons by auto
next
  case Nil
  show ?thesis unfolding removeInstalledLocked_def Nil by simp
qed

lemma applyResultsLocked_subset: "set (applyResultsLocked qs rs inst) \<subseteq> set inst \<union> set (map rRoute qs)"
proof (induction qs arbitrary: inst)
  case (Cons q qs)
  show ?case
    using Cons.IH [of "inst @ [rRoute q]"] Cons.IH [of "removeInstalledLocked (rRoute q) inst"] Cons.IH [of inst]
      removeInstalledLocked_subset [of "rRoute q" inst] by auto
qed simp

lemma unrelated_mono: "unrelated K key rs \<Longrightarrow> set rs' \<subseteq> set rs \<Longrightarrow> unrelated K key rs'"
  by (auto simp: unrelated_def)

text \<open>A batch that spares the route keeps it and does not record it, if its roll-back does.\<close>

definition safe_state :: "'k route_sys \<Rightarrow> (rtMsghdr option \<times> byte list) \<Rightarrow> ('k \<Rightarrow> bool) \<Rightarrow> 'k routeSocketState \<Rightarrow> bool" where
  "safe_state K key P st \<longleftrightarrow> P (rkernel st) \<and> unrelated K key (installed st)"

lemma pipelineWith_keeps:
  assumes p: "keeps K scutil key P" and s: "safe_state K key P st" and r: "spares K key routes"
    and rb: "\<And>qs rs st st'. unrelated K key (map rRoute qs) \<Longrightarrow> safe_state K key P st \<Longrightarrow> rollback qs rs st = Some st' \<Longrightarrow> safe_state K key P st'"
    and e: "pipelineWith K rollback routes st = Some (err, st')"
  shows "safe_state K key P st'"
proof (cases "routes = [] \<or> fd st < 0")
  case True
  with e s show ?thesis by (auto simp: pipelineWith_def split: if_splits)
next
  case False
  with e obtain e1 st1 where d: "drainLocked K st = Some (e1, st1)" by (cases "drainLocked K st") (auto simp: pipelineWith_def)
  have s1: "safe_state K key P st1" using drainLocked_keeps [OF d p] s by (simp add: safe_state_def)
  obtain b st2 where b: "buildRequests K routes st1 = (b, st2)" by fastforce
  have s2: "safe_state K key P st2" using buildRequests_state [OF b] s1 by (auto simp: safe_state_def)
  show ?thesis
  proof (cases "e1 = None \<and> (\<exists>reqs. b = Inr reqs)")
    case no: False
    with e False d b s1 s2 show ?thesis by (auto simp: pipelineWith_def split: option.splits sum.splits)
  next
    case True
    then obtain reqs where reqs: "e1 = None" "b = Inr reqs" by blast
    with e False d b obtain w f k where w: "writeAll K (fd st2) 0 reqs [] (rkernel st2) = Some (w, f, k)"
      by (cases "writeAll K (fd st2) 0 reqs [] (rkernel st2)") (auto simp: pipelineWith_def)
    have "P k \<and> unrelated K key (map rRoute w)"
      using writeAll_keeps [OF p w] s2 buildRequests_ok [OF b [unfolded reqs(2)]] r buildRequests_routes [OF b [unfolded reqs(2)]]
      by (simp add: safe_state_def unrelated_def)
    then have u: "unrelated K key (map rRoute w)" and s3: "safe_state K key P (st2\<lparr>rkernel := k\<rparr>)" using s2 by (simp_all add: safe_state_def)
    have col: "safe_state K key P st4" if "collectAcksLocked K w (st2\<lparr>rkernel := k\<rparr>) = Some (rs, c, st4)" for rs c st4
      using collectAcksLocked_keeps [OF that p] s3 by (simp add: safe_state_def)
    have app: "safe_state K key P (st4\<lparr>installed := applyResultsLocked w rs (installed st4)\<rparr>)" if "safe_state K key P st4" for st4 rs
      using that u applyResultsLocked_subset [of w rs "installed st4"] by (auto simp: safe_state_def unrelated_def)
    show ?thesis
    proof (cases f)
      case (Some x)
      obtain i q x' where x: "x = (i, q, x')" by (cases x)
      show ?thesis
      proof (cases "w = []")
        case True
        with e False d b reqs w Some x s3 show ?thesis by (simp add: pipelineWith_def Let_def)
      next
        case ne: False
        with e False d b reqs w Some x obtain rs c st4 where c4: "collectAcksLocked K w (st2\<lparr>rkernel := k\<rparr>) = Some (rs, c, st4)"
          by (cases "collectAcksLocked K w (st2\<lparr>rkernel := k\<rparr>)") (simp_all add: pipelineWith_def Let_def split: prod.splits)
        with e False d b reqs w Some x ne have "rollback w rs st4 = Some st'" by (auto simp: pipelineWith_def Let_def)
        from rb [OF u col [OF c4] this] show ?thesis .
      qed
    next
      case None
      with e False d b reqs w obtain rs c st4 where c4: "collectAcksLocked K w (st2\<lparr>rkernel := k\<rparr>) = Some (rs, c, st4)"
        by (cases "collectAcksLocked K w (st2\<lparr>rkernel := k\<rparr>)") (simp_all add: pipelineWith_def Let_def split: prod.splits)
      let ?st = "st4\<lparr>installed := applyResultsLocked w rs (installed st4)\<rparr>"
      have "rollback w rs ?st = Some st' \<or> st' = ?st"
        using e False d b reqs w None c4
        by (cases "case c of None \<Rightarrow> firstRouteError w rs | Some e \<Rightarrow> Some e") (auto simp: pipelineWith_def Let_def)
      then show ?thesis using rb [OF u app [OF col [OF c4]]] app [OF col [OF c4]] by auto
    qed
  qed
qed

lemma rollback_keeps:
  assumes p: "keeps K scutil key P" and u: "unrelated K key (map rRoute qs)" and s: "safe_state K key P st"
    and e: "rollbackSuccessfulAddsLocked (pipelineWith K (\<lambda>_ _. Some)) qs rs st = Some st'"
  shows "safe_state K key P st'"
proof -
  let ?rb = "map (\<lambda>q. (rRoute q)\<lparr>dTyp := RTM_DELETE\<rparr>) (filter (\<lambda>q. dTyp (rRoute q) = RTM_ADD \<and> map_of rs (rSeq q) = Some None) qs)"
  have "spares K key ?rb" using u by (auto simp: spares_def unrelated_def)
  with pipelineWith_keeps [OF p s, of ?rb "\<lambda>_ _. Some"] e s show ?thesis
    by (auto simp: rollbackSuccessfulAddsLocked_def Let_def split: if_splits)
qed

lemma pipelineLocked_keeps:
  assumes "keeps K scutil key P" and "safe_state K key P st" and "spares K key routes" and "pipelineLocked K routes st = Some (err, st')"
  shows "safe_state K key P st'"
  using pipelineWith_keeps [OF assms(1-3) _ assms(4) [unfolded pipelineLocked_def]] rollback_keeps [OF assms(1)] by blast

lemma ResetRoutes_keeps:
  assumes p: "keeps K scutil key P" and s: "safe_state K key P st" and e: "ResetRoutes K scutil cs st = Some st'"
  shows "P (rkernel st')" and "fd st' = -1" and "installed st' = []"
proof -
  have "spares K key (map (\<lambda>r. r\<lparr>dTyp := RTM_DELETE\<rparr>) (installed st))" using s by (auto simp: spares_def safe_state_def unrelated_def)
  from pipelineLocked_keeps [OF p s this] e obtain st1 where s1: "safe_state K key P st1"
    "st' = (if length (DNS cs) > 0 then restoreDNS scutil cs (closeLocked K st1) else closeLocked K st1)"
    using s by (auto simp: ResetRoutes_def Let_def split: if_splits option.splits)
  have "P (rkernel (closeLocked K st1))" using s1(1) keepsD(3) [OF p] by (simp add: closeLocked_def safe_state_def)
  then show "P (rkernel st')" using s1(2) keepsD(4) [OF p] by (simp add: restoreDNS_def)
  show "fd st' = -1" "installed st' = []" using s1(2) by (simp_all add: restoreDNS_def closeLocked_def)
qed

subsection \<open>Properties\<close>


definition sample_route :: darwinRoute where
  "sample_route = \<lparr>dTyp = RTM_ADD, dIfidx = 4, dDst = [192, 168, 199, 0], dMask = Some (cidrMask 24), dGateway = [192, 168, 1, 1], dName = ''lan''\<rparr>"

definition sample_key :: "rtMsghdr option \<times> byte list" where
  "sample_key = (case buildRtMsg 77 RTM_ADD 0 (dIfidx sample_route) (dDst sample_route) (dMask sample_route) (dGateway sample_route) of
     Inr d \<Rightarrow> msgKey d | Inl _ \<Rightarrow> (None, []))"

definition sample_sys :: "bool route_sys" where
  "sample_sys = \<lparr>sysSocket = (\<lambda>k. (Inr 3, k)), sysSetopt = (\<lambda>_ _ k. (None, k)), sysRead = (\<lambda>_ k. (Inl EAGAIN, k)),
     sysWrite = (\<lambda>_ d k. if msgKind d = Some RTM_DELETE \<and> msgKey d = sample_key then (Inr (length d), False) else (Inl EEXIST, k)),
     sysClose = (\<lambda>_ k. k), sysPid = 77, errnoText = (\<lambda>_. [])\<rparr>"

definition sample_socket :: "bool routeSocketState" where
  "sample_socket = \<lparr>fd = 3, seqNo = 0, localIndex = 4, tunnelIndex = 9, localGateway = [192, 168, 1, 1], tunnelGateway = [10, 0, 0, 1],
     installed = [], rkernel = True\<rparr>"

lemma sample_built: "\<exists>d. buildRtMsg 77 t n (dIfidx sample_route) (dDst sample_route) (dMask sample_route) (dGateway sample_route) = Inr d"
  using cidrMask_four [of 24] by (auto simp: sample_route_def buildRtMsg_def routeSockaddr_def maskSockaddr_def IPMask_Size_cidrMask routeNetmask_def Let_def
      appendRouteSockaddr_whole sockaddr4_def length_go_copy routeHeaderSize_def)

lemma sample_drain: "drainLocked sample_sys (sample_socket\<lparr>installed := i\<rparr>) = Some (None, sample_socket\<lparr>installed := i\<rparr>)"
  by (simp add: drainLocked_def sample_socket_def sample_sys_def drainLoop.simps EAGAIN_def EINTR_def)

lemma sample_pipeline: "\<exists>st. pipelineLocked sample_sys [sample_route] sample_socket = Some (None, st) \<and> installed st = []"
proof -
  obtain d where d: "buildRtMsg 77 RTM_ADD 1 (dIfidx sample_route) (dDst sample_route) (dMask sample_route) (dGateway sample_route) = Inr d"
    using sample_built by blast
  have t: "dTyp sample_route = RTM_ADD" by (simp add: sample_route_def)
  have kind: "msgKind d = Some RTM_ADD" by (rule buildRtMsg_key(2) [of sample_sys]) (use d in \<open>simp add: sample_sys_def\<close>)
  have w: "writeWithRetry sample_sys 3 d 0 True = Some (Some (wrapErrno sample_sys [] EEXIST), True)"
    by (subst writeWithRetry.simps) (simp add: sample_sys_def kind RTM_ADD_def RTM_DELETE_def EEXIST_def EINTR_def ENOBUFS_def EAGAIN_def)
  have n: "nextSequence sample_socket = (1, sample_socket\<lparr>seqNo := 1\<rparr>)" by (simp add: nextSequence_def sample_socket_def Let_def)
  have b: "buildRequests sample_sys [sample_route] sample_socket = (Inr [\<lparr>rSeq = 1, rRoute = sample_route, rData = d\<rparr>], sample_socket\<lparr>seqNo := 1\<rparr>)"
    using d n t by (simp add: sample_sys_def)
  have h: "harmless sample_route (wrapErrno sample_sys [] EEXIST)" by (simp add: harmless_def t errIs_def wrapErrno_def)
  have st: "fd (sample_socket\<lparr>seqNo := 1\<rparr>) = 3" "rkernel (sample_socket\<lparr>seqNo := 1\<rparr>) = True" "fd sample_socket = 3" "installed sample_socket = []"
    by (simp_all add: sample_socket_def)
  have dr: "drainLocked sample_sys sample_socket = Some (None, sample_socket)" using sample_drain [of "[]"] by (simp add: sample_socket_def)
  show ?thesis
    by (simp add: pipelineLocked_def pipelineWith_def dr b st w h collectAcksLocked_def ackLoop.simps firstRouteError_def Let_def del: buildRequests.simps)
qed


end
