(* ===== verification/Local_Darwin.thy ===== *)
theory Local_Darwin
  imports Routes_Darwin
begin

text \<open>
  How the agent finds the local interface on macOS, and its shell commands (\<open>GetLocalInterface\<close> and \<open>execCmd\<close> of
  \<open>src/utils/vpnc/vpnc_darwin.go\<close>).  The address and the gateway come from a library, the interfaces from the system.
\<close>

datatype ifaddr = IPNet "byte list" | OtherAddr

record os_interface =
  oiName :: string
  oiMac :: "byte list"
  oiAddrs :: "ifaddr list"

text \<open>The inner loop; an address without a four-byte form is the empty one.\<close>

fun hasAddr :: "byte list \<Rightarrow> ifaddr list \<Rightarrow> bool" where
  "hasAddr ip [] = False"
| "hasAddr ip (OtherAddr # as) = hasAddr ip as"
| "hasAddr ip (IPNet a # as) = (if ip_Equal (case To4 a of None \<Rightarrow> [] | Some b \<Rightarrow> b) ip then True else hasAddr ip as)"

text \<open>The outer loop, which goes on after a match.\<close>

fun pickLocal :: "byte list \<Rightarrow> os_interface list \<Rightarrow> os_interface \<Rightarrow> os_interface" where
  "pickLocal ip [] sel = sel"
| "pickLocal ip (f # fs) sel = pickLocal ip fs (if hasAddr ip (oiAddrs f) then f else sel)"

definition zero_interface :: os_interface where
  "zero_interface = \<lparr>oiName = [], oiMac = [], oiAddrs = []\<rparr>"

definition hwString :: "byte list \<Rightarrow> string" where
  "hwString a = join (CHR '':'') (map (\<lambda>b. EncodeToString [b]) a)"

definition GetLocalInterface_darwin ::
    "(byte list \<Rightarrow> string) \<Rightarrow> string + byte list \<Rightarrow> string + byte list \<Rightarrow> os_interface list \<Rightarrow> Interface \<Rightarrow> string option \<times> Interface" where
  "GetLocalInterface_darwin ipstr discovered gateway ifaces ifc =
     (case discovered of
        Inl e \<Rightarrow> (Some e, ifc)
      | Inr ip \<Rightarrow>
          (case gateway of
             Inl e \<Rightarrow> (Some e, ifc)
           | Inr gw \<Rightarrow>
               let sel = pickLocal ip ifaces zero_interface in
               if oiName sel = [] then (Some (''unable to find interface for local address '' @ ipstr ip), ifc)
               else (None, ifc\<lparr>IfName := oiName sel, Ip4 := ipstr ip, Gateway := ipstr gw, Mac := hwString (oiMac sel)\<rparr>)))"

text \<open>\<open>run cmd\<close> is the shell: how it failed, if it did, and what it printed; \<open>cmdString\<close> is the text of the command.\<close>

fun execCmd_darwin :: "(string \<Rightarrow> 's \<Rightarrow> string option \<times> string \<times> 's) \<Rightarrow> (string \<Rightarrow> string) \<Rightarrow> string list \<Rightarrow> 's \<Rightarrow> string option \<times> 's" where
  "execCmd_darwin run cmdString [] s = (None, s)"
| "execCmd_darwin run cmdString (c # cs) s =
     (case run c s of
        (Some err, out, s) \<Rightarrow> (Some (err @ '' '' @ cmdString c @ '' '' @ out), s)
      | (None, _, s) \<Rightarrow> execCmd_darwin run cmdString cs s)"

subsection \<open>What they do\<close>

lemma pickLocal_cases:
  "(pickLocal ip fs sel = sel \<and> (\<forall>f\<in>set fs. \<not> hasAddr ip (oiAddrs f))) \<or>
   (\<exists>xs f ys. fs = xs @ f # ys \<and> pickLocal ip fs sel = f \<and> hasAddr ip (oiAddrs f) \<and> (\<forall>g\<in>set ys. \<not> hasAddr ip (oiAddrs g)))"
proof (induction fs arbitrary: sel)
  case (Cons f fs)
  from Cons.IH [of "if hasAddr ip (oiAddrs f) then f else sel"] show ?case
  proof (elim disjE exE conjE)
    assume p: "pickLocal ip fs (if hasAddr ip (oiAddrs f) then f else sel) = (if hasAddr ip (oiAddrs f) then f else sel)"
      and n: "\<forall>g\<in>set fs. \<not> hasAddr ip (oiAddrs g)"
    show ?thesis
    proof (cases "hasAddr ip (oiAddrs f)")
      case True
      with p n have "f # fs = [] @ f # fs \<and> pickLocal ip (f # fs) sel = f \<and> hasAddr ip (oiAddrs f) \<and> (\<forall>g\<in>set fs. \<not> hasAddr ip (oiAddrs g))" by simp
      then show ?thesis by blast
    next
      case False
      with p n show ?thesis by simp
    qed
  next
    fix xs g ys
    assume "fs = xs @ g # ys" "pickLocal ip fs (if hasAddr ip (oiAddrs f) then f else sel) = g" "hasAddr ip (oiAddrs g)"
      "\<forall>h\<in>set ys. \<not> hasAddr ip (oiAddrs h)"
    then have "f # fs = (f # xs) @ g # ys \<and> pickLocal ip (f # fs) sel = g \<and> hasAddr ip (oiAddrs g) \<and> (\<forall>h\<in>set ys. \<not> hasAddr ip (oiAddrs h))" by simp
    then show ?thesis by blast
  qed
qed simp

text \<open>
  On success the interface has the local address and is the last one that has; on failure nothing is changed.  It fails when no
  interface has the address.
\<close>

theorem GetLocalInterface_owner:
  assumes "GetLocalInterface_darwin ipstr discovered gateway ifaces ifc = (err, ifc')"
  shows "(err \<noteq> None \<longrightarrow> ifc' = ifc) \<and>
    (err = None \<longrightarrow> (\<exists>ip gw xs f ys. discovered = Inr ip \<and> gateway = Inr gw \<and> ifaces = xs @ f # ys \<and> hasAddr ip (oiAddrs f) \<and>
       (\<forall>g\<in>set ys. \<not> hasAddr ip (oiAddrs g)) \<and> IfName ifc' = oiName f \<and> Mac ifc' = hwString (oiMac f) \<and> Ip4 ifc' = ipstr ip \<and> Gateway ifc' = ipstr gw)) \<and>
    (\<forall>ip. discovered = Inr ip \<longrightarrow> (\<forall>f\<in>set ifaces. \<not> hasAddr ip (oiAddrs f)) \<longrightarrow> err \<noteq> None)"
proof (cases "\<exists>ip gw. discovered = Inr ip \<and> gateway = Inr gw")
  case True
  then obtain ip gw where d: "discovered = Inr ip" "gateway = Inr gw" by blast
  from pickLocal_cases [of ip ifaces zero_interface] show ?thesis
  proof (elim disjE exE conjE)
    assume "pickLocal ip ifaces zero_interface = zero_interface"
    then show ?thesis using assms by (auto simp: d GetLocalInterface_darwin_def zero_interface_def Let_def)
  next
    fix xs f ys
    assume f: "ifaces = xs @ f # ys" "pickLocal ip ifaces zero_interface = f" "hasAddr ip (oiAddrs f)" "\<forall>g\<in>set ys. \<not> hasAddr ip (oiAddrs g)"
    show ?thesis
    proof (cases "oiName f = []")
      case True
      then show ?thesis using assms f(2) by (auto simp: d GetLocalInterface_darwin_def Let_def)
    next
      case False
      then have r: "err = None" "ifc' = ifc\<lparr>IfName := oiName f, Ip4 := ipstr ip, Gateway := ipstr gw, Mac := hwString (oiMac f)\<rparr>"
        using assms f(2) by (simp_all add: d GetLocalInterface_darwin_def Let_def)
      have "\<exists>ip gw xs f ys. discovered = Inr ip \<and> gateway = Inr gw \<and> ifaces = xs @ f # ys \<and> hasAddr ip (oiAddrs f) \<and>
          (\<forall>g\<in>set ys. \<not> hasAddr ip (oiAddrs g)) \<and> IfName ifc' = oiName f \<and> Mac ifc' = hwString (oiMac f) \<and> Ip4 ifc' = ipstr ip \<and> Gateway ifc' = ipstr gw"
        by (rule exI [of _ ip], rule exI [of _ gw], rule exI [of _ xs], rule exI [of _ f], rule exI [of _ ys]) (use f d r in simp)
      moreover have "\<not> (\<forall>f\<in>set ifaces. \<not> hasAddr ip (oiAddrs f))" using f(1,3) by auto
      ultimately show ?thesis using d(1) r(1) by simp
    qed
  qed
next
  case False
  with assms show ?thesis by (cases discovered; cases gateway) (auto simp: GetLocalInterface_darwin_def)
qed

text \<open>The shell commands run in order up to the first that fails.\<close>

lemma execCmd_darwin_append:
  "execCmd_darwin run str (xs @ ys) s =
    (case execCmd_darwin run str xs s of (None, s) \<Rightarrow> execCmd_darwin run str ys s | r \<Rightarrow> r)"
  by (induction xs arbitrary: s) (auto split: prod.splits option.splits)

end
