(* ===== verification/Routes_Windows.thy ===== *)
theory Routes_Windows
  imports Session
begin

text \<open>
  Interface, routes and DNS on Windows (\<open>src/utils/vpnc/vpnc_windows.go\<close>).  The calls of \<open>winipcfg\<close> are a
  parameter: a record of functions over an arbitrary kernel state.  The address types of
  \<open>net/netip\<close> are written out; only the reading and printing of addresses in IPv6 notation is left
  to the parameter.  \<open>None\<close> as a result is a run-time panic (a split entry without a mask, an adapter
  without an address).
\<close>

subsection \<open>net/netip\<close>

datatype addr = NoAddr | Addr4 "byte list" | Addr6 "byte list" string

datatype prefix = NoPrefix | Prefix addr nat

record netip =
  parseAddr6 :: "string \<Rightarrow> (byte list \<times> string) option"
  showAddr6 :: "byte list \<Rightarrow> string"
  to4of6 :: "string \<Rightarrow> byte list option"

definition netip_ParseAddr :: "netip \<Rightarrow> string \<Rightarrow> addr" where
  "netip_ParseAddr N s =
     (case dropWhile (\<lambda>c. c \<notin> set ''.:%'') s of
        [] \<Rightarrow> NoAddr
      | c # _ \<Rightarrow>
          if c = CHR ''.'' then (case parseIPv4 s of None \<Rightarrow> NoAddr | Some b \<Rightarrow> Addr4 b)
          else if c = CHR '':'' then (case parseAddr6 N s of None \<Rightarrow> NoAddr | Some (b, zone) \<Rightarrow> Addr6 b zone)
          else NoAddr)"

text \<open>The part before and the part after the last slash.\<close>

definition cutLast :: "char \<Rightarrow> string \<Rightarrow> (string \<times> string) option" where
  "cutLast c s =
     (if c \<in> set s then Some (rev (tl (dropWhile (\<lambda>d. d \<noteq> c) (rev s))), rev (takeWhile (\<lambda>d. d \<noteq> c) (rev s))) else None)"

fun maxBits :: "addr \<Rightarrow> int" where
  "maxBits (Addr4 _) = 32"
| "maxBits (Addr6 _ zone) = (if zone = [] then 128 else -1)"
| "maxBits NoAddr = -1"

text \<open>\<open>ParsePrefix\<close>: the zero value when it fails; a zone is not allowed, nor a sign or a leading zero in the length.\<close>

definition ParsePrefix :: "netip \<Rightarrow> string \<Rightarrow> prefix" where
  "ParsePrefix N s =
     (case cutLast (CHR ''/'') s of
        None \<Rightarrow> NoPrefix
      | Some (a, b) \<Rightarrow>
          (let ip = netip_ParseAddr N a in
           if length b > 1 \<and> (code (hd b) < 49 \<or> code (hd b) > 57) then NoPrefix
           else case Atoi b of
             (n, ok) \<Rightarrow> if ok \<and> 0 \<le> n \<and> n \<le> maxBits ip then Prefix ip (nat n) else NoPrefix))"

fun prefixString :: "netip \<Rightarrow> prefix \<Rightarrow> string" where
  "prefixString N NoPrefix = ''invalid Prefix''"
| "prefixString N (Prefix ip n) =
     (case ip of NoAddr \<Rightarrow> ''invalid Prefix'' | Addr4 b \<Rightarrow> showIP b @ ''/'' @ showNat n | Addr6 b _ \<Rightarrow> showAddr6 N b @ ''/'' @ showNat n)"

subsection \<open>The library and the state\<close>

type_synonym luid = u64

record adapter =
  AdapterName :: string
  Description :: string
  FriendlyName :: string
  Ipv4Metric :: "32 word"
  IfType :: "32 word"
  FirstUnicastAddress :: "byte list option"
  FirstGatewayAddress :: "byte list option"
  PhysicalAddress :: "byte list"
  AdapterLUID :: luid

record 'k winipcfg =
  RunCmd :: "string \<Rightarrow> 'k \<Rightarrow> string option \<times> string \<times> 'k"
  CmdString :: "string \<Rightarrow> string"
  FlushIPAddresses :: "luid \<Rightarrow> 'k \<Rightarrow> 'k"
  SetIPAddressesForFamily :: "luid \<Rightarrow> prefix list \<Rightarrow> 'k \<Rightarrow> string option \<times> 'k"
  AddRoute :: "luid \<Rightarrow> prefix \<Rightarrow> addr \<Rightarrow> nat \<Rightarrow> 'k \<Rightarrow> string option \<times> 'k"
  DeleteRoute :: "luid \<Rightarrow> prefix \<Rightarrow> addr \<Rightarrow> 'k \<Rightarrow> string option \<times> 'k"
  SetDNS :: "luid \<Rightarrow> addr list \<Rightarrow> string list \<Rightarrow> 'k \<Rightarrow> string option \<times> 'k"
  GetAdaptersAddresses :: "'k \<Rightarrow> string + adapter list"

text \<open>The package's variables, the interface of the configuration, and the kernel.\<close>

record 'k win =
  wLocalInterface :: luid
  wIface :: luid
  nextHopVPN :: addr
  nextHopGateway :: addr
  wLocalIfc :: Interface
  wKernel :: 'k

subsection \<open>Interfaces\<close>

fun execCmd :: "'k winipcfg \<Rightarrow> string list \<Rightarrow> 'k \<Rightarrow> string option \<times> 'k" where
  "execCmd K [] k = (None, k)"
| "execCmd K (c # cs) k =
     (case RunCmd K c k of
        (Some err, out, k) \<Rightarrow> (Some (err @ '' '' @ CmdString K c @ '' '' @ out), k)
      | (None, _, k) \<Rightarrow> execCmd K cs k)"

definition showInt :: "int \<Rightarrow> string" where
  "showInt n = (if n < 0 then CHR ''-'' # showNat (nat (- n)) else showNat (nat n))"

definition SetMTU :: "'k winipcfg \<Rightarrow> string \<Rightarrow> int \<Rightarrow> 'k \<Rightarrow> string option \<times> 'k" where
  "SetMTU K ifname mtu k =
     execCmd K [''netsh interface ipv4 set subinterface '' @ [CHR 34] @ ifname @ [CHR 34] @ '' MTU='' @ showInt mtu] k"

text \<open>\<open>ConfigInterface\<close>; \<open>mtu\<close> and \<open>tunLUID\<close> are those of the tun device.\<close>

definition ConfigInterface :: "netip \<Rightarrow> 'k winipcfg \<Rightarrow> int \<Rightarrow> luid \<Rightarrow> ConnSession \<Rightarrow> 'k win \<Rightarrow> string option \<times> 'k win" where
  "ConfigInterface N K mtu tunLUID cs v =
     (case SetMTU K (TunName cs) mtu (wKernel v) of
        (Some e, k) \<Rightarrow> (Some e, v\<lparr>wKernel := k\<rparr>)
      | (None, k) \<Rightarrow>
          (let k = FlushIPAddresses K tunLUID k;
               prefixVPN = ParsePrefix N (IpMask2CIDR (to4of6 N) (VPNAddress cs) (VPNMask cs));
               (err, k) = SetIPAddressesForFamily K tunLUID [prefixVPN] k
           in (err, v\<lparr>wIface := tunLUID, nextHopVPN := netip_ParseAddr N (VPNAddress cs), wKernel := k\<rparr>)))"

text \<open>The choice of the adapter in \<open>GetLocalInterface\<close>: the loop's two variables.\<close>

fun containsStr :: "string \<Rightarrow> string \<Rightarrow> bool" where
  "containsStr t [] \<longleftrightarrow> t = []"
| "containsStr t (c # s) \<longleftrightarrow> take (length t) (c # s) = t \<or> containsStr t s"

definition usable :: "adapter \<Rightarrow> bool" where
  "usable a \<longleftrightarrow> (IfType a = 6 \<or> IfType a = 71) \<and> FirstGatewayAddress a \<noteq> None"

definition isVirtual :: "adapter \<Rightarrow> bool" where
  "isVirtual a \<longleftrightarrow> containsStr ''Virtual'' (Description a)"

definition considerAdapter :: "adapter \<Rightarrow> adapter option \<times> adapter option \<Rightarrow> adapter option \<times> adapter option" where
  "considerAdapter a pv =
     (case pv of (primary, virt) \<Rightarrow>
        if usable a then
          if (case primary of None \<Rightarrow> True | Some p \<Rightarrow> Ipv4Metric a < Ipv4Metric p) then
            if \<not> isVirtual a then (Some a, virt)
            else if virt = None then (primary, Some a) else (primary, virt)
          else (primary, virt)
        else (primary, virt))"

definition macString :: "byte list \<Rightarrow> string" where
  "macString a = join (CHR '':'') (map (\<lambda>b. EncodeToString [b]) a)"

definition GetLocalInterface :: "'k winipcfg \<Rightarrow> 'k win \<Rightarrow> (string option \<times> 'k win) option" where
  "GetLocalInterface K v =
     (case GetAdaptersAddresses K (wKernel v) of
        Inl e \<Rightarrow> Some (Some e, v)
      | Inr ifcs \<Rightarrow>
          (let (primary, virt) = fold considerAdapter ifcs (None, None) in
           case (if primary = None then virt else primary) of
             None \<Rightarrow> Some (Some ''unable to find a valid network interface'', v)
           | Some a \<Rightarrow>
               (case (FirstUnicastAddress a, FirstGatewayAddress a) of
                  (Some ip, Some gw) \<Rightarrow>
                    Some (None, v\<lparr>wLocalIfc := (wLocalIfc v)\<lparr>IfName := FriendlyName a, Ip4 := showIP ip, Gateway := showIP gw,
                                                 Mac := macString (PhysicalAddress a)\<rparr>,
                                  wLocalInterface := AdapterLUID a\<rparr>)
                | _ \<Rightarrow> None)))"

subsection \<open>Routes\<close>

definition routingError :: "netip \<Rightarrow> prefix \<Rightarrow> string \<Rightarrow> string" where
  "routingError N dst err = ''routing error: '' @ prefixString N dst @ '' '' @ err"

text \<open>
  One \<open>AddRoute\<close> of \<open>SetRoutes\<close>: an error to return at once, or the value the variable \<open>err\<close> is left with, which is the
  tolerated error if the route exists.
\<close>

definition addRoute :: "netip \<Rightarrow> 'k winipcfg \<Rightarrow> luid \<Rightarrow> addr \<Rightarrow> nat \<Rightarrow> prefix \<Rightarrow> 'k \<Rightarrow> (string + string option) \<times> 'k" where
  "addRoute N K l hop metric dst k =
     (case AddRoute K l dst hop metric k of
        (None, k) \<Rightarrow> (Inr None, k)
      | (Some e, k) \<Rightarrow> (if HasSuffix e ''exists.'' then Inr (Some e) else Inl (routingError N dst e), k))"

fun addSplit :: "netip \<Rightarrow> 'k winipcfg \<Rightarrow> luid \<Rightarrow> addr \<Rightarrow> nat \<Rightarrow> string list \<Rightarrow> string option \<Rightarrow> 'k \<Rightarrow> ((string + string option) \<times> 'k) option" where
  "addSplit N K l hop metric [] err k = Some (Inr err, k)"
| "addSplit N K l hop metric (ipMask # ms) err k =
     (case IpMaskToCIDR (to4of6 N) ipMask of
        None \<Rightarrow> None
      | Some cidr \<Rightarrow>
          (case addRoute N K l hop metric (ParsePrefix N cidr) k of
             (Inl e, k) \<Rightarrow> Some (Inl e, k)
           | (Inr err, k) \<Rightarrow> addSplit N K l hop metric ms err k))"

definition hostPrefix :: "netip \<Rightarrow> string \<Rightarrow> prefix" where
  "hostPrefix N ip = ParsePrefix N (ip @ ''/32'')"

definition DynamicAddIncludeRoutes :: "netip \<Rightarrow> 'k winipcfg \<Rightarrow> string list \<Rightarrow> 'k win \<Rightarrow> 'k win" where
  "DynamicAddIncludeRoutes N K ips v =
     v\<lparr>wKernel := fold (\<lambda>ip k. snd (AddRoute K (wIface v) (hostPrefix N ip) (nextHopVPN v) 6 k)) ips (wKernel v)\<rparr>"

definition DynamicAddExcludeRoutes :: "netip \<Rightarrow> 'k winipcfg \<Rightarrow> string list \<Rightarrow> 'k win \<Rightarrow> 'k win" where
  "DynamicAddExcludeRoutes N K ips v =
     v\<lparr>wKernel := fold (\<lambda>ip k. snd (AddRoute K (wLocalInterface v) (hostPrefix N ip) (nextHopGateway v) 5 k)) ips (wKernel v)\<rparr>"

definition setDNS :: "netip \<Rightarrow> 'k winipcfg \<Rightarrow> ConnSession \<Rightarrow> 'k win \<Rightarrow> string option \<times> 'k win" where
  "setDNS N K cs v =
     (let v = (if length (DynamicSplitIncludeDomains cs) > 0 then DynamicAddIncludeRoutes N K (DNS cs) v else v);
          servers = map (netip_ParseAddr N) (DNS cs);
          (err, k) = SetDNS K (wIface v) servers [] (wKernel v)
      in (err, v\<lparr>wKernel := k\<rparr>))"

definition globalRoute :: string where
  "globalRoute = ''0.0.0.0/0.0.0.0''"

definition withGlobal :: "ConnSession \<Rightarrow> ConnSession" where
  "withGlobal cs = (if length (SplitInclude cs) = 0 then cs\<lparr>SplitInclude := [globalRoute]\<rparr> else cs)"

text \<open>\<open>SetRoutes\<close>: the error, the session and the state.\<close>

definition SetRoutes :: "netip \<Rightarrow> 'k winipcfg \<Rightarrow> ConnSession \<Rightarrow> 'k win \<Rightarrow> (string option \<times> ConnSession \<times> 'k win) option" where
  "SetRoutes N K cs v =
     (let gw = netip_ParseAddr N (Gateway (wLocalIfc v)); v = v\<lparr>nextHopGateway := gw\<rparr>; loc = wLocalInterface v in
      case addRoute N K loc gw 5 (hostPrefix N (ServerAddress cs)) (wKernel v) of
        (Inl e, k) \<Rightarrow> Some (Some e, cs, v\<lparr>wKernel := k\<rparr>)
      | (Inr err, k) \<Rightarrow>
          (let cs = withGlobal cs in
           case addSplit N K (wIface v) (nextHopVPN v) 6 (SplitInclude cs) err k of
             None \<Rightarrow> None
           | Some (Inl e, k) \<Rightarrow> Some (Some e, cs, v\<lparr>wKernel := k\<rparr>)
           | Some (Inr err, k) \<Rightarrow>
               (case addSplit N K loc gw 5 (SplitExclude cs) err k of
                  None \<Rightarrow> None
                | Some (Inl e, k) \<Rightarrow> Some (Some e, cs, v\<lparr>wKernel := k\<rparr>)
                | Some (Inr err, k) \<Rightarrow>
                    (let v = v\<lparr>wKernel := k\<rparr> in
                     if length (DNS cs) > 0 then (case setDNS N K cs v of (err, v) \<Rightarrow> Some (err, cs, v))
                     else Some (err, cs, v)))))"

fun delSplit :: "netip \<Rightarrow> 'k winipcfg \<Rightarrow> luid \<Rightarrow> addr \<Rightarrow> string list \<Rightarrow> 'k \<Rightarrow> 'k option" where
  "delSplit N K l hop [] k = Some k"
| "delSplit N K l hop (ipMask # ms) k =
     (case IpMaskToCIDR (to4of6 N) ipMask of
        None \<Rightarrow> None
      | Some cidr \<Rightarrow> delSplit N K l hop ms (snd (DeleteRoute K l (ParsePrefix N cidr) hop k)))"

definition delHosts :: "netip \<Rightarrow> 'k winipcfg \<Rightarrow> luid \<Rightarrow> addr \<Rightarrow> string list \<Rightarrow> 'k \<Rightarrow> 'k" where
  "delHosts N K l hop ips k = fold (\<lambda>ip k. snd (DeleteRoute K l (hostPrefix N ip) hop k)) ips k"

text \<open>\<open>ResetRoutes\<close>; \<open>keys\<close> is the order in which the resolved names are visited.\<close>

definition ResetRoutes :: "netip \<Rightarrow> 'k winipcfg \<Rightarrow> string list \<Rightarrow> ConnSession \<Rightarrow> 'k win \<Rightarrow> 'k win option" where
  "ResetRoutes N K keys cs v =
     (let l = wLocalInterface v; hop = nextHopGateway v;
          k = snd (DeleteRoute K l (hostPrefix N (ServerAddress cs)) hop (wKernel v))
      in case delSplit N K l hop (SplitExclude cs) k of
           None \<Rightarrow> None
         | Some k \<Rightarrow>
             Some (v\<lparr>wKernel :=
               (if length (DynamicSplitExcludeDomains cs) > 0
                then fold (\<lambda>key k. case DynamicSplitExcludeResolved cs key of None \<Rightarrow> k | Some ips \<Rightarrow> delHosts N K l hop ips k) keys k
                else k)\<rparr>))"

subsection \<open>The choice of the local interface\<close>

text \<open>
  What the loop has found after some adapters: the first physical one of least metric, and, as long as there is no
  physical one, the first usable one.
\<close>

definition least :: "adapter list \<Rightarrow> adapter \<Rightarrow> bool" where
  "least as p \<longleftrightarrow> (\<exists>xs ys. as = xs @ p # ys \<and> (\<forall>a\<in>set xs. Ipv4Metric p < Ipv4Metric a) \<and> (\<forall>a\<in>set ys. Ipv4Metric p \<le> Ipv4Metric a))"

definition physical :: "adapter list \<Rightarrow> adapter list" where
  "physical as = filter (\<lambda>a. usable a \<and> \<not> isVirtual a) as"

definition chosen :: "adapter list \<Rightarrow> adapter option \<times> adapter option \<Rightarrow> bool" where
  "chosen as pv \<longleftrightarrow>
     (case pv of
        (None, virt) \<Rightarrow> physical as = [] \<and> virt = (case filter usable as of [] \<Rightarrow> None | a # _ \<Rightarrow> Some a)
      | (Some p, _) \<Rightarrow> least (physical as) p)"

lemma least_snoc_worse: "least as p \<Longrightarrow> Ipv4Metric p \<le> Ipv4Metric a \<Longrightarrow> least (as @ [a]) p"
  unfolding least_def by (elim exE conjE) (rule_tac x = xs in exI, rule_tac x = "ys @ [a]" in exI, auto)

lemma least_le: "least as p \<Longrightarrow> a \<in> set as \<Longrightarrow> Ipv4Metric p \<le> Ipv4Metric a"
  unfolding least_def using order_less_imp_le by fastforce

lemma least_snoc_better:
  assumes "least as p" and "Ipv4Metric a < Ipv4Metric p"
  shows "least (as @ [a]) a"
proof -
  have "\<forall>b\<in>set as. Ipv4Metric a < Ipv4Metric b" using least_le [OF assms(1)] assms(2) less_le_trans by blast
  then show ?thesis unfolding least_def by (intro exI [of _ as] exI [of _ "[]"]) simp
qed

lemma least_singleton: "least [a] a"
  unfolding least_def by (intro exI [of _ "[]"]) simp

lemma chosen_step:
  assumes "chosen as pv"
  shows "chosen (as @ [a]) (considerAdapter a pv)"
proof (cases "usable a")
  case False
  then show ?thesis using assms by (cases pv) (simp add: chosen_def considerAdapter_def physical_def split: option.splits)
next
  case u: True
  obtain p v where pv: "pv = (p, v)" by (cases pv)
  show ?thesis
  proof (cases p)
    case None
    then show ?thesis using assms u pv
      by (auto simp: chosen_def considerAdapter_def physical_def least_singleton split: list.splits)
  next
    case (Some p')
    with assms pv have l: "least (physical as) p'" by (simp add: chosen_def)
    have "physical (as @ [a]) = (if isVirtual a then physical as else physical as @ [a])" using u by (simp add: physical_def)
    then show ?thesis using Some u pv l
      by (auto simp: chosen_def considerAdapter_def not_less least_snoc_worse least_snoc_better)
  qed
qed

lemma chosen_fold: "chosen as (fold considerAdapter as (None, None))"
  by (induction as rule: rev_induct) (simp add: chosen_def physical_def, simp add: chosen_step)

subsection \<open>The routing table\<close>

text \<open>
  What is used of the kernel: the table is a set of routes, identified by interface, destination and next hop; an
  addition adds at most the route asked for, a deletion removes it, and setting DNS servers changes no route.
\<close>

definition win_table :: "'k winipcfg \<Rightarrow> ('k \<Rightarrow> (luid \<times> prefix \<times> addr) set) \<Rightarrow> bool" where
  "win_table K routes \<longleftrightarrow>
     (\<forall>l d h m k. routes (snd (AddRoute K l d h m k)) \<subseteq> insert (l, d, h) (routes k)) \<and>
     (\<forall>l d h k. routes (snd (DeleteRoute K l d h k)) = routes k - {(l, d, h)}) \<and>
     (\<forall>l as ds k. routes (snd (SetDNS K l as ds k)) = routes k)"

lemma table_add: "win_table K routes \<Longrightarrow> routes (snd (AddRoute K l d h m k)) \<subseteq> insert (l, d, h) (routes k)"
  by (simp add: win_table_def)

lemma table_del: "win_table K routes \<Longrightarrow> routes (snd (DeleteRoute K l d h k)) = routes k - {(l, d, h)}"
  by (simp add: win_table_def)

lemma table_dns: "win_table K routes \<Longrightarrow> routes (snd (SetDNS K l as ds k)) = routes k"
  by (simp add: win_table_def)

definition winSplitRoutes :: "netip \<Rightarrow> luid \<Rightarrow> addr \<Rightarrow> string list \<Rightarrow> (luid \<times> prefix \<times> addr) set" where
  "winSplitRoutes N l hop ms = (\<lambda>m. (l, ParsePrefix N (the (IpMaskToCIDR (to4of6 N) m)), hop)) ` set ms"

definition hostRoutes :: "netip \<Rightarrow> luid \<Rightarrow> addr \<Rightarrow> string list \<Rightarrow> (luid \<times> prefix \<times> addr) set" where
  "hostRoutes N l hop ips = (\<lambda>ip. (l, hostPrefix N ip, hop)) ` set ips"

lemma addRoute_table:
  assumes "win_table K routes" and "addRoute N K l hop metric dst k = (r, k')"
  shows "routes k' \<subseteq> insert (l, dst, hop) (routes k)"
proof -
  have "k' = snd (AddRoute K l dst hop metric k)" using assms(2) by (auto simp: addRoute_def split: prod.splits option.splits)
  with table_add [OF assms(1)] show ?thesis by simp
qed

lemma addSplit_table:
  assumes t: "win_table K routes"
  shows "addSplit N K l hop metric ms err k = Some (r, k') \<Longrightarrow> routes k' \<subseteq> routes k \<union> winSplitRoutes N l hop ms"
proof (induction ms arbitrary: err k)
  case (Cons m ms)
  from Cons.prems obtain cidr where c: "IpMaskToCIDR (to4of6 N) m = Some cidr" by (auto split: option.splits)
  obtain r1 k1 where a: "addRoute N K l hop metric (ParsePrefix N cidr) k = (r1, k1)" by fastforce
  from addRoute_table [OF t a] have k1: "routes k1 \<subseteq> insert (l, ParsePrefix N cidr, hop) (routes k)" .
  show ?case
  proof (cases r1)
    case (Inl e)
    with Cons.prems c a have "k' = k1" by simp
    with k1 c show ?thesis by (auto simp: winSplitRoutes_def)
  next
    case (Inr e)
    with Cons.prems c a have "addSplit N K l hop metric ms e k1 = Some (r, k')" by simp
    from Cons.IH [OF this] k1 c show ?thesis by (auto simp: winSplitRoutes_def)
  qed
qed simp

lemma addHosts_table:
  assumes t: "win_table K routes"
  shows "routes (fold (\<lambda>ip k. snd (AddRoute K l (hostPrefix N ip) hop m k)) ips k) \<subseteq> routes k \<union> hostRoutes N l hop ips"
proof (induction ips arbitrary: k)
  case (Cons ip ips)
  show ?case using Cons [of "snd (AddRoute K l (hostPrefix N ip) hop m k)"] table_add [OF t, of l "hostPrefix N ip" hop m k]
    by (auto simp: hostRoutes_def)
qed (simp add: hostRoutes_def)

lemma delSplit_table:
  assumes t: "win_table K routes"
  shows "delSplit N K l hop ms k = Some k' \<Longrightarrow> routes k' = routes k - winSplitRoutes N l hop ms"
proof (induction ms arbitrary: k)
  case (Cons m ms)
  from Cons.prems obtain cidr where c: "IpMaskToCIDR (to4of6 N) m = Some cidr"
    and d: "delSplit N K l hop ms (snd (DeleteRoute K l (ParsePrefix N cidr) hop k)) = Some k'" by (auto split: option.splits)
  show ?case using Cons.IH [OF d] c by (auto simp: winSplitRoutes_def table_del [OF t])
qed (simp add: winSplitRoutes_def)

lemma delHosts_table:
  assumes t: "win_table K routes"
  shows "routes (delHosts N K l hop ips k) = routes k - hostRoutes N l hop ips"
  unfolding delHosts_def by (induction ips arbitrary: k) (auto simp: hostRoutes_def table_del [OF t])

lemma delResolved_table:
  assumes t: "win_table K routes"
  shows "routes (fold (\<lambda>key k. case res key of None \<Rightarrow> k | Some ips \<Rightarrow> delHosts N K l hop ips k) keys k) =
    routes k - (\<Union>key\<in>set keys. case res key of None \<Rightarrow> {} | Some ips \<Rightarrow> hostRoutes N l hop ips)"
  by (induction keys arbitrary: k) (auto simp: delHosts_table [OF t] split: option.splits)

text \<open>What \<open>SetRoutes\<close> can have put on the local interface, whatever it returned.\<close>

lemma setDNS_table:
  assumes "win_table K routes" and "setDNS N K cs v = (e, v')"
  shows "routes (wKernel v') \<subseteq> routes (wKernel v) \<union> hostRoutes N (wIface v) (nextHopVPN v) (DNS cs) \<and>
    wLocalInterface v' = wLocalInterface v \<and> nextHopGateway v' = nextHopGateway v"
  using assms(2) addHosts_table [OF assms(1), of "wIface v" N "nextHopVPN v" 6 "DNS cs" "wKernel v"] table_dns [OF assms(1)]
  by (auto simp: setDNS_def DynamicAddIncludeRoutes_def Let_def split: prod.splits if_splits) (metis (no_types, lifting) snd_conv subsetD Un_iff)+

definition excludedRoutes :: "netip \<Rightarrow> luid \<Rightarrow> addr \<Rightarrow> ConnSession \<Rightarrow> (luid \<times> prefix \<times> addr) set" where
  "excludedRoutes N l hop cs = insert (l, hostPrefix N (ServerAddress cs), hop) (winSplitRoutes N l hop (SplitExclude cs))"

lemma withGlobal_fields [simp]:
  "SplitExclude (withGlobal cs) = SplitExclude cs" "ServerAddress (withGlobal cs) = ServerAddress cs" "DNS (withGlobal cs) = DNS cs"
  "DynamicSplitExcludeDomains (withGlobal cs) = DynamicSplitExcludeDomains cs"
  by (simp_all add: withGlobal_def)

lemma win_SetRoutes_cases:
  assumes "SetRoutes N K cs v = Some (e, cs', v')"
  defines "gw \<equiv> netip_ParseAddr N (Gateway (wLocalIfc v))"
  obtains (server) k where "addRoute N K (wLocalInterface v) gw 5 (hostPrefix N (ServerAddress cs)) (wKernel v) = (Inl (the e), k)"
    "cs' = cs" "v' = v\<lparr>nextHopGateway := gw, wKernel := k\<rparr>"
  | (incl) err k k' where "addRoute N K (wLocalInterface v) gw 5 (hostPrefix N (ServerAddress cs)) (wKernel v) = (Inr err, k)"
    "addSplit N K (wIface v) (nextHopVPN v) 6 (SplitInclude (withGlobal cs)) err k = Some (Inl (the e), k')"
    "cs' = withGlobal cs" "v' = v\<lparr>nextHopGateway := gw, wKernel := k'\<rparr>"
  | (excl) err err' k k' k'' r where "addRoute N K (wLocalInterface v) gw 5 (hostPrefix N (ServerAddress cs)) (wKernel v) = (Inr err, k)"
    "addSplit N K (wIface v) (nextHopVPN v) 6 (SplitInclude (withGlobal cs)) err k = Some (Inr err', k')"
    "addSplit N K (wLocalInterface v) gw 5 (SplitExclude cs) err' k' = Some (r, k'')"
    "cs' = withGlobal cs" "v' = v\<lparr>nextHopGateway := gw, wKernel := k''\<rparr>"
  | (dns) err err' r k k' k'' where "addRoute N K (wLocalInterface v) gw 5 (hostPrefix N (ServerAddress cs)) (wKernel v) = (Inr err, k)"
    "addSplit N K (wIface v) (nextHopVPN v) 6 (SplitInclude (withGlobal cs)) err k = Some (Inr err', k')"
    "addSplit N K (wLocalInterface v) gw 5 (SplitExclude cs) err' k' = Some (r, k'')"
    "cs' = withGlobal cs" "setDNS N K cs' (v\<lparr>nextHopGateway := gw, wKernel := k''\<rparr>) = (e, v')"
proof -
  let ?inc = "addSplit N K (wIface v) (nextHopVPN v) 6 (SplitInclude (withGlobal cs))" and ?exc = "addSplit N K (wLocalInterface v) gw 5 (SplitExclude cs)"
  note S = assms(1) [unfolded SetRoutes_def Let_def, folded gw_def]
  obtain r k where a: "addRoute N K (wLocalInterface v) gw 5 (hostPrefix N (ServerAddress cs)) (wKernel v) = (r, k)" by fastforce
  show thesis
  proof (cases r)
    case (Inl x)
    with S a show thesis by (intro server [of k]) auto
  next
    case r: (Inr err)
    with S a obtain r' k' where b: "?inc err k = Some (r', k')" by (cases "?inc err k") auto
    show thesis
    proof (cases r')
      case (Inl x)
      with S a r b show thesis by (intro incl [of err k k']) auto
    next
      case r': (Inr err')
      with S a r b obtain r'' k'' where c: "?exc err' k' = Some (r'', k'')" by (cases "?exc err' k'") auto
      show thesis
      proof (cases "\<exists>x. r'' = Inr x \<and> length (DNS cs) > 0")
        case True
        with S a r b r' c show thesis by (intro dns [of err k err' k' r'' k'']) (auto split: prod.splits)
      next
        case False
        with S a r b r' c show thesis by (intro excl [of err k err' k' r'' k'']) (cases r''; auto)+
      qed
    qed
  qed
qed

lemma win_SetRoutes_table:
  assumes t: "win_table K routes" and s: "SetRoutes N K cs v = Some (e, cs', v')"
  defines "gw \<equiv> netip_ParseAddr N (Gateway (wLocalIfc v))"
  shows "routes (wKernel v') \<subseteq> routes (wKernel v) \<union> excludedRoutes N (wLocalInterface v) gw cs \<union> {r. fst r = wIface v}"
    and "wLocalInterface v' = wLocalInterface v" and "nextHopGateway v' = gw" and "cs' = cs \<or> cs' = withGlobal cs"
proof -
  have inc: "winSplitRoutes N (wIface v) h ms \<subseteq> {r. fst r = wIface v}" "hostRoutes N (wIface v) h ips \<subseteq> {r. fst r = wIface v}" for h ms ips
    by (auto simp: winSplitRoutes_def hostRoutes_def)
  have "routes (wKernel v') \<subseteq> routes (wKernel v) \<union> excludedRoutes N (wLocalInterface v) gw cs \<union> {r. fst r = wIface v} \<and>
    wLocalInterface v' = wLocalInterface v \<and> nextHopGateway v' = gw \<and> (cs' = cs \<or> cs' = withGlobal cs)"
    using s
  proof (cases rule: win_SetRoutes_cases)
    case (server k)
    then show ?thesis using addRoute_table [OF t server(1)] by (auto simp: excludedRoutes_def gw_def)
  next
    case (incl err k k')
    then show ?thesis using addRoute_table [OF t incl(1)] addSplit_table [OF t incl(2)] inc by (fastforce simp: excludedRoutes_def gw_def)
  next
    case (excl err err' k k' k'' r)
    then show ?thesis using addRoute_table [OF t excl(1)] addSplit_table [OF t excl(2)] addSplit_table [OF t excl(3)] inc
      by (fastforce simp: excludedRoutes_def gw_def)
  next
    case (dns err err' r k k' k'')
    from setDNS_table [OF t dns(5)] have "routes (wKernel v') \<subseteq> routes k'' \<union> {r. fst r = wIface v}"
      "wLocalInterface v' = wLocalInterface v" "nextHopGateway v' = gw" using inc by (fastforce simp: gw_def)+
    then show ?thesis using dns(4) addRoute_table [OF t dns(1)] addSplit_table [OF t dns(2)] addSplit_table [OF t dns(3)] inc
      by (fastforce simp: excludedRoutes_def gw_def)
  qed
  then show "routes (wKernel v') \<subseteq> routes (wKernel v) \<union> excludedRoutes N (wLocalInterface v) gw cs \<union> {r. fst r = wIface v}"
    and "wLocalInterface v' = wLocalInterface v" and "nextHopGateway v' = gw" and "cs' = cs \<or> cs' = withGlobal cs" by simp_all
qed

lemma ResetRoutes_table:
  assumes t: "win_table K routes" and s: "ResetRoutes N K keys cs v = Some v'"
  shows "routes (wKernel v') = routes (wKernel v) - excludedRoutes N (wLocalInterface v) (nextHopGateway v) cs -
    (if DynamicSplitExcludeDomains cs = [] then {} else
     \<Union>key\<in>set keys. case DynamicSplitExcludeResolved cs key of None \<Rightarrow> {} | Some ips \<Rightarrow> hostRoutes N (wLocalInterface v) (nextHopGateway v) ips)"
proof -
  let ?l = "wLocalInterface v" and ?h = "nextHopGateway v"
  from s obtain k where d: "delSplit N K ?l ?h (SplitExclude cs) (snd (DeleteRoute K ?l (hostPrefix N (ServerAddress cs)) ?h (wKernel v))) = Some k"
    and v': "wKernel v' = (if DynamicSplitExcludeDomains cs = [] then k
      else fold (\<lambda>key k. case DynamicSplitExcludeResolved cs key of None \<Rightarrow> k | Some ips \<Rightarrow> delHosts N K ?l ?h ips k) keys k)"
    by (auto simp: ResetRoutes_def Let_def split: option.splits)
  from delSplit_table [OF t d] have "routes k = routes (wKernel v) - excludedRoutes N ?l ?h cs"
    by (auto simp: table_del [OF t] excludedRoutes_def)
  then show ?thesis using v' by (simp add: delResolved_table [OF t])
qed

text \<open>
  Routes are given back: after \<open>SetRoutes\<close>, whether it succeeded or failed half-way, the exclusions that domain
  splitting added since, and \<open>ResetRoutes\<close>, the local interface has no route that it did not have before.
\<close>

lemma excludeAll_table:
  assumes t: "win_table K routes" and v2: "v2 = fold (\<lambda>ips. DynamicAddExcludeRoutes N K ips) hosts v1"
  shows "routes (wKernel v2) \<subseteq> routes (wKernel v1) \<union> (\<Union>ips\<in>set hosts. hostRoutes N (wLocalInterface v1) (nextHopGateway v1) ips) \<and>
    wLocalInterface v2 = wLocalInterface v1 \<and> nextHopGateway v2 = nextHopGateway v1"
  unfolding v2
proof (induction hosts arbitrary: v1)
  case (Cons ips hosts)
  show ?case using Cons [of "DynamicAddExcludeRoutes N K ips v1"]
      addHosts_table [OF t, of "wLocalInterface v1" N "nextHopGateway v1" 5 ips "wKernel v1"]
    by (auto simp: DynamicAddExcludeRoutes_def)
qed simp

theorem win_routes_given_back:
  assumes t: "win_table K routes" and "wIface v \<noteq> wLocalInterface v" and s: "SetRoutes N K cs v = Some (e, cs1, v1)"
    and v2: "v2 = fold (\<lambda>name. DynamicAddExcludeRoutes N K (the (res name))) names v1"
    and res: "\<forall>name\<in>set names. res name \<noteq> None" and "names = [] \<or> DynamicSplitExcludeDomains cs \<noteq> []"
    and keys: "set names \<subseteq> set keys" and r: "ResetRoutes N K keys (cs1\<lparr>DynamicSplitExcludeResolved := res\<rparr>) v2 = Some v3"
    and "(wLocalInterface v, d, h) \<in> routes (wKernel v3)"
  shows "(wLocalInterface v, d, h) \<in> routes (wKernel v)"
proof -
  let ?l = "wLocalInterface v" and ?gw = "netip_ParseAddr N (Gateway (wLocalIfc v))" and ?cs = "cs1\<lparr>DynamicSplitExcludeResolved := res\<rparr>"
  note S = win_SetRoutes_table [OF t s]
  have v2': "v2 = fold (\<lambda>ips. DynamicAddExcludeRoutes N K ips) (map (\<lambda>name. the (res name)) names) v1" using v2 by (simp add: fold_map comp_def)
  note E = excludeAll_table [OF t v2']
  have cs: "excludedRoutes N ?l ?gw ?cs = excludedRoutes N ?l ?gw cs" "DynamicSplitExcludeDomains ?cs = DynamicSplitExcludeDomains cs"
    using S(4) by (auto simp: excludedRoutes_def)
  from ResetRoutes_table [OF t r] assms(9) have in2: "(?l, d, h) \<in> routes (wKernel v2)" and no: "(?l, d, h) \<notin> excludedRoutes N ?l ?gw cs"
    and dyn: "DynamicSplitExcludeDomains cs \<noteq> [] \<Longrightarrow> key \<in> set keys \<Longrightarrow> res key = Some ips \<Longrightarrow> (?l, d, h) \<notin> hostRoutes N ?l ?gw ips" for key ips
    using cs E S(2,3) by (auto split: if_splits)
  have "(?l, d, h) \<notin> hostRoutes N ?l ?gw (the (res name))" if "name \<in> set names" for name
    using dyn [of name "the (res name)"] that res keys assms(6) by auto
  then have "(?l, d, h) \<in> routes (wKernel v1)" using in2 E S(2,3) by auto
  with S(1) no assms(2) show ?thesis by auto
qed

subsection \<open>Properties\<close>

definition sample_adapter :: "string \<Rightarrow> 32 word \<Rightarrow> luid \<Rightarrow> adapter" where
  "sample_adapter desc metric l =
     \<lparr>AdapterName = ''{}'', Description = desc, FriendlyName = ''Ethernet'', Ipv4Metric = metric, IfType = 6,
      FirstUnicastAddress = Some [192, 168, 1, 5], FirstGatewayAddress = Some [192, 168, 1, 1], PhysicalAddress = [2, 0], AdapterLUID = l\<rparr>"

definition sample_winipcfg :: "adapter list winipcfg" where
  "sample_winipcfg =
     \<lparr>RunCmd = (\<lambda>c k. (None, [], k)), CmdString = id, FlushIPAddresses = (\<lambda>_ k. k), SetIPAddressesForFamily = (\<lambda>_ _ k. (None, k)),
      AddRoute = (\<lambda>_ _ _ _ k. (None, k)), DeleteRoute = (\<lambda>_ _ _ k. (None, k)), SetDNS = (\<lambda>_ _ _ k. (None, k)), GetAdaptersAddresses = Inr\<rparr>"

definition sample_win :: "adapter list win" where
  "sample_win =
     \<lparr>wLocalInterface = 0, wIface = 0, nextHopVPN = NoAddr, nextHopGateway = NoAddr, wLocalIfc = \<lparr>IfName = [], Ip4 = [], Mac = [], Gateway = []\<rparr>,
      wKernel = [sample_adapter ''Hyper-V Virtual'' 1 1, sample_adapter ''Wireless'' 50 2, sample_adapter ''Realtek'' 25 3]\<rparr>"

text \<open>
  The local interface on Windows: among the wired and wireless adapters with a gateway, the physical one of
  least metric is taken, the first of them when several are equal; without a physical one the first virtual
  one; without any the call fails and changes nothing.
\<close>

theorem GetLocalInterface_choice:
  assumes "GetAdaptersAddresses K (wKernel v) = Inr ifcs" and "\<forall>a\<in>set ifcs. FirstUnicastAddress a \<noteq> None"
  shows "(filter usable ifcs = [] \<and> GetLocalInterface K v = Some (Some ''unable to find a valid network interface'', v)) \<or>
    (\<exists>a v'. GetLocalInterface K v = Some (None, v') \<and> wLocalInterface v' = AdapterLUID a \<and>
       IfName (wLocalIfc v') = FriendlyName a \<and> Gateway (wLocalIfc v') = showIP (the (FirstGatewayAddress a)) \<and>
       (if physical ifcs = [] then filter usable ifcs \<noteq> [] \<and> a = hd (filter usable ifcs) else least (physical ifcs) a))"
proof -
  obtain p w where f: "fold considerAdapter ifcs (None, None) = (p, w)" by fastforce
  from chosen_fold [of ifcs] have ch: "chosen ifcs (p, w)" by (simp add: f)
  show ?thesis
  proof (cases "filter usable ifcs")
    case Nil
    then have "physical ifcs = []" by (auto simp: physical_def filter_empty_conv)
    then have "p = None \<and> w = None" using ch Nil by (auto simp: chosen_def least_def split: option.splits)
    then show ?thesis using assms(1) f Nil by (simp add: GetLocalInterface_def)
  next
    case (Cons b bs)
    define a where "a = (case p of None \<Rightarrow> b | Some q \<Rightarrow> q)"
    have sel: "(if p = None then w else p) = Some a" using ch Cons by (auto simp: chosen_def a_def split: option.splits)
    have good: "if physical ifcs = [] then filter usable ifcs \<noteq> [] \<and> a = hd (filter usable ifcs) else least (physical ifcs) a"
      using ch Cons by (auto simp: chosen_def a_def least_def split: option.splits)
    moreover have "physical ifcs \<noteq> [] \<Longrightarrow> a \<in> set (physical ifcs)" using good by (auto simp: least_def)
    ultimately have "a \<in> set (filter usable ifcs)" using hd_in_set [of "filter usable ifcs"] by (cases "physical ifcs = []") (simp_all add: physical_def)
    then have "a \<in> set ifcs" "usable a" by auto
    then obtain ip gw where "FirstUnicastAddress a = Some ip" "FirstGatewayAddress a = Some gw" using assms(2) by (auto simp: usable_def)
    then show ?thesis using assms(1) f sel good by (intro disjI2) (auto simp: GetLocalInterface_def split: if_splits)
  qed
qed

theorem GetLocalInterface_choice_witness:
  "\<exists>a v'. GetLocalInterface sample_winipcfg sample_win = Some (None, v') \<and> wLocalInterface v' = AdapterLUID a \<and> least (physical (wKernel sample_win)) a"
proof -
  let ?k = "wKernel sample_win"
  have "GetAdaptersAddresses sample_winipcfg ?k = Inr ?k" by (simp add: sample_winipcfg_def)
  moreover have "\<forall>a\<in>set ?k. FirstUnicastAddress a \<noteq> None" by (simp add: sample_win_def sample_adapter_def)
  moreover have "physical ?k \<noteq> []" by (simp add: physical_def sample_win_def sample_adapter_def usable_def isVirtual_def)
  moreover have "filter usable ?k \<noteq> []" by (simp add: sample_win_def sample_adapter_def usable_def)
  ultimately show ?thesis using GetLocalInterface_choice [of sample_winipcfg sample_win ?k] by auto
qed

end
