(* ===== verification/Tun_Linux.thy ===== *)
theory Tun_Linux
  imports Go_Std
begin

text \<open>
  The tun device on Linux (\<open>src/tun/tun_linux.go\<close>) with the cancellable reader it uses
  (\<open>src/tun/rwcancel/rwcancel.go\<close>).  A device has two goroutines that watch its state, one over a
  netlink socket and one that probes the device every second; both report into the channel
  \<open>events\<close>, which nothing in the program receives from.  They share the device with \<open>Close\<close> and \<open>Read\<close>.
  One round of each is a function of what the kernel answers; \<open>None\<close> is a round that blocks.
\<close>

subsection \<open>Cancellable reads\<close>

datatype errno = EAGAIN | EINTR | EINVAL | EIO | EBADFD | OtherErrno nat

definition RetryAfterError :: "errno \<Rightarrow> bool" where
  "RetryAfterError e \<longleftrightarrow> e = EAGAIN \<or> e = EINTR"

text \<open>What \<open>poll\<close> returns: an error, or which of the two descriptors (the file and the closing pipe) has events.\<close>

datatype poll = PollErr errno | PollOk bool bool

fun ReadyRead :: "poll list \<Rightarrow> (bool \<times> poll list) option" where
  "ReadyRead [] = None"
| "ReadyRead (PollErr e # ps) = (if RetryAfterError e then ReadyRead ps else Some (False, ps))"
| "ReadyRead (PollOk fdEvents closeEvents # ps) = Some (if closeEvents then False else fdEvents, ps)"

text \<open>\<open>ReadyWrite\<close> differs in the events it asks for, which are what the kernel answers to.\<close>

definition ReadyWrite :: "poll list \<Rightarrow> (bool \<times> poll list) option" where
  "ReadyWrite ps = ReadyRead ps"

datatype io_error = ErrClosed | IoError errno

text \<open>
  \<open>RWCancel.Read\<close> and \<open>RWCancel.Write\<close> share their loop: \<open>ios\<close> are the results of the successive system calls, \<open>ready\<close>
  waits.
\<close>

fun rw_loop :: "(poll list \<Rightarrow> (bool \<times> poll list) option) \<Rightarrow> (errno + nat) list \<Rightarrow> poll list \<Rightarrow> (io_error + nat) option" where
  "rw_loop ready [] ps = None"
| "rw_loop ready (Inr n # ios) ps = Some (Inr n)"
| "rw_loop ready (Inl e # ios) ps =
     (if \<not> RetryAfterError e then Some (Inl (IoError e))
      else case ready ps of
        None \<Rightarrow> None
      | Some (b, ps) \<Rightarrow> if \<not> b then Some (Inl ErrClosed) else rw_loop ready ios ps)"

definition RWCancel_Read :: "(errno + nat) list \<Rightarrow> poll list \<Rightarrow> (io_error + nat) option" where
  "RWCancel_Read = rw_loop ReadyRead"

definition RWCancel_Write :: "(errno + nat) list \<Rightarrow> poll list \<Rightarrow> (io_error + nat) option" where
  "RWCancel_Write = rw_loop ReadyWrite"

subsection \<open>The device\<close>

datatype Event = EventUp | EventDown | EventMTUUpdate

datatype tun_error = NetlinkSocketClosed errno | NetlinkReceiveFailed errno

datatype tun_panic = SendOnClosedChannel | CloseOfClosedChannel | UnlockOfUnlockedMutex | IndexOutOfRange | ReadBeyondBuffer

text \<open>How far the function under \<open>closeOnce\<close> has come; the flag is whether \<open>Cancel\<close> failed.\<close>

datatype close_pc = ClNot | ClShut | ClCancelled bool | ClDone bool

record NativeTun =
  tunFileOpen :: bool
  events :: "Event list"
  eventsClosed :: bool
  tunErrors :: "tun_error list"
  hackListenerClosed :: bool
  statusListenersShutdown :: bool
  netlinkSockOpen :: bool
  cancelByte :: bool
  cancelOpen :: bool
  tunClose :: close_pc

text \<open>\<open>tun.events <- e\<close> on the channel of capacity 5.\<close>

definition sendEvent :: "Event \<Rightarrow> NativeTun \<Rightarrow> (tun_panic + NativeTun) option" where
  "sendEvent e t =
     (if eventsClosed t then Some (Inl SendOnClosedChannel)
      else if length (events t) < 5 then Some (Inr (t\<lparr>events := events t @ [e]\<rparr>)) else None)"

subsection \<open>The netlink listener\<close>

definition u16At :: "(nat \<Rightarrow> byte) \<Rightarrow> nat \<Rightarrow> u16" where
  "u16At m i = ucast (m i) OR push_bit 8 (ucast (m (i + 1)))"

definition u32At :: "(nat \<Rightarrow> byte) \<Rightarrow> nat \<Rightarrow> u32" where
  "u32At m i = ucast (m i) OR push_bit 8 (ucast (m (i + 1))) OR push_bit 16 (ucast (m (i + 2))) OR push_bit 24 (ucast (m (i + 3)))"

text \<open>
  One round of the loop over the headers in a received message: \<open>m\<close> is the buffer of 65536 bytes, of which the
  message fills \<open>n\<close>, and \<open>remain\<close> starts at \<open>p\<close>.  \<open>info\<close> is read without regard to the end of the slice.
\<close>

datatype nl_iter = NlBreak | NlNext nat bool "Event list" | NlPanic tun_panic

definition nlIter :: "u32 \<Rightarrow> (nat \<Rightarrow> byte) \<Rightarrow> nat \<Rightarrow> nat \<Rightarrow> bool \<Rightarrow> nl_iter" where
  "nlIter index m n p wasEverUp =
     (if n - p < 16 then NlBreak
      else let len = unat (u32At m p); typ = u16At m (p + 4) in
        if len > n - p then NlBreak
        else if typ = 3 then NlBreak
        else if typ = 16 then
          if n - p \<le> 16 then NlPanic IndexOutOfRange
          else if p + 32 > 65536 then NlPanic ReadBeyondBuffer
          else if u32At m (p + 20) \<noteq> index then NlNext (p + len) wasEverUp []
          else if u32At m (p + 24) AND 0x40 \<noteq> 0 then NlNext (p + len) True [EventUp, EventMTUUpdate]
          else NlNext (p + len) wasEverUp (if wasEverUp then [EventDown, EventMTUUpdate] else [EventMTUUpdate])
        else NlNext (p + len) wasEverUp [])"

datatype nl_pc = NlRecv | NlPoll errno | NlCheck nat | NlParse nat nat bool | NlSend "Event list" nat nat bool
  | NlFail tun_error | NlExit | NlLock | NlCloseEvents | NlDone

record nl_local =
  nlPc :: nl_pc
  nlMsg :: "nat \<Rightarrow> byte"

datatype nl_in = Recv "byte list" | RecvErr errno | Polled "poll list" | NoInput

definition recvInto :: "byte list \<Rightarrow> (nat \<Rightarrow> byte) \<Rightarrow> nat \<Rightarrow> byte" where
  "recvInto bs m i = (if i < length bs then bs ! i else m i)"

definition nlGo :: "nl_pc \<Rightarrow> nl_local \<Rightarrow> NativeTun \<Rightarrow> (tun_panic + nl_local \<times> NativeTun) option" where
  "nlGo pc l t = Some (Inr (l\<lparr>nlPc := pc\<rparr>, t))"

text \<open>\<open>routineNetlinkListener\<close> with its deferred function (\<open>NlExit\<close> and after).\<close>

definition nlStep :: "u32 \<Rightarrow> nl_in \<Rightarrow> nl_local \<times> NativeTun \<Rightarrow> (tun_panic + nl_local \<times> NativeTun) option" where
  "nlStep index inp lt =
     (case lt of (l, t) \<Rightarrow>
      case nlPc l of
        NlRecv \<Rightarrow>
          (case inp of
             Recv bs \<Rightarrow> if length bs \<le> 65536 then nlGo (NlCheck (length bs)) (l\<lparr>nlMsg := recvInto bs (nlMsg l)\<rparr>) t else None
           | RecvErr e \<Rightarrow> nlGo (if RetryAfterError e then NlPoll e else NlFail (NetlinkReceiveFailed e)) l t
           | _ \<Rightarrow> None)
      | NlPoll e \<Rightarrow>
          (case inp of
             Polled ps \<Rightarrow>
               (case ReadyRead ps of
                  None \<Rightarrow> None
                | Some (b, _) \<Rightarrow> nlGo (if b then NlRecv else NlFail (NetlinkSocketClosed e)) l t)
           | _ \<Rightarrow> None)
      | NlCheck n \<Rightarrow> nlGo (if statusListenersShutdown t then NlExit else NlParse n 0 False) l t
      | NlParse n p w \<Rightarrow>
          (case nlIter index (nlMsg l) n p w of
             NlBreak \<Rightarrow> nlGo NlRecv l t
           | NlNext p w es \<Rightarrow> nlGo (NlSend es n p w) l t
           | NlPanic x \<Rightarrow> Some (Inl x))
      | NlSend [] n p w \<Rightarrow> nlGo (NlParse n p w) l t
      | NlSend (e # es) n p w \<Rightarrow>
          (case sendEvent e t of
             None \<Rightarrow> None
           | Some (Inl x) \<Rightarrow> Some (Inl x)
           | Some (Inr t) \<Rightarrow> nlGo (NlSend es n p w) l t)
      | NlFail err \<Rightarrow> if length (tunErrors t) < 5 then nlGo NlExit l (t\<lparr>tunErrors := tunErrors t @ [err]\<rparr>) else None
      | NlExit \<Rightarrow> nlGo NlLock l (t\<lparr>netlinkSockOpen := False\<rparr>)
      | NlLock \<Rightarrow> if hackListenerClosed t then None else nlGo NlCloseEvents l (t\<lparr>hackListenerClosed := True\<rparr>)
      | NlCloseEvents \<Rightarrow> if eventsClosed t then Some (Inl CloseOfClosedChannel) else nlGo NlDone l (t\<lparr>eventsClosed := True, cancelOpen := False\<rparr>)
      | NlDone \<Rightarrow> None)"

subsection \<open>The status probe\<close>

datatype hk_pc = HkProbe | HkSend Event | HkWait | HkUnlock | HkDone

record hk_local =
  hkPc :: hk_pc
  hkLast :: nat

datatype hk_in = Probe "errno option" | Timer | Shutdown

definition hkGo :: "hk_pc \<Rightarrow> nat \<Rightarrow> NativeTun \<Rightarrow> (tun_panic + hk_local \<times> NativeTun) option" where
  "hkGo pc lst t = Some (Inr (\<lparr>hkPc = pc, hkLast = lst\<rparr>, t))"

text \<open>\<open>routineHackListener\<close>: \<open>last\<close> is 0 at first, then 1 for up and 2 for down.\<close>

definition hkStep :: "hk_in \<Rightarrow> hk_local \<times> NativeTun \<Rightarrow> (tun_panic + hk_local \<times> NativeTun) option" where
  "hkStep inp ht =
     (case ht of (h, t) \<Rightarrow>
      case hkPc h of
        HkProbe \<Rightarrow>
          if \<not> tunFileOpen t then hkGo HkUnlock (hkLast h) t
          else (case inp of
             Probe r \<Rightarrow>
               if r = Some EINVAL then hkGo (if hkLast h \<noteq> 1 then HkSend EventUp else HkWait) (hkLast h) t
               else if r = Some EIO then hkGo (if hkLast h \<noteq> 2 then HkSend EventDown else HkWait) (hkLast h) t
               else hkGo HkUnlock (hkLast h) t
           | _ \<Rightarrow> None)
      | HkSend e \<Rightarrow>
          (case sendEvent e t of
             None \<Rightarrow> None
           | Some (Inl x) \<Rightarrow> Some (Inl x)
           | Some (Inr t) \<Rightarrow> hkGo HkWait (if e = EventUp then 1 else 2) t)
      | HkWait \<Rightarrow>
          (case inp of
             Timer \<Rightarrow> hkGo HkProbe (hkLast h) t
           | Shutdown \<Rightarrow> if statusListenersShutdown t then hkGo HkUnlock (hkLast h) t else None
           | _ \<Rightarrow> None)
      | HkUnlock \<Rightarrow> if hackListenerClosed t then hkGo HkDone (hkLast h) (t\<lparr>hackListenerClosed := False\<rparr>) else Some (Inl UnlockOfUnlockedMutex)
      | HkDone \<Rightarrow> None)"

subsection \<open>Close, Read, Write\<close>

text \<open>\<open>Close\<close> of a device with listeners, step by step; the pipe takes the byte of \<open>Cancel\<close> only while it is open.\<close>

definition closeStep :: "NativeTun \<Rightarrow> (tun_panic + NativeTun) option" where
  "closeStep t =
     (case tunClose t of
        ClNot \<Rightarrow> if statusListenersShutdown t then Some (Inl CloseOfClosedChannel)
                  else Some (Inr (t\<lparr>statusListenersShutdown := True, tunClose := ClShut\<rparr>))
      | ClShut \<Rightarrow> Some (Inr (t\<lparr>cancelByte := cancelByte t \<or> cancelOpen t, tunClose := ClCancelled (\<not> cancelOpen t)\<rparr>))
      | ClCancelled e \<Rightarrow> Some (Inr (t\<lparr>tunFileOpen := False, tunClose := ClDone e\<rparr>))
      | ClDone e \<Rightarrow> None)"

text \<open>
  \<open>Read\<close>: a pending error of the listener first; otherwise \<open>(n, err)\<close> is what the file gives.  \<open>nopi\<close> is set by both functions
  that make a device; without it a packet carries four bytes of packet information.
\<close>

definition Read :: "bool \<Rightarrow> nat \<times> errno option \<Rightarrow> NativeTun \<Rightarrow> (nat \<times> (tun_error + io_error) option) \<times> NativeTun" where
  "Read nopi res t =
     (case tunErrors t of
        e # es \<Rightarrow> ((0, Some (Inl e)), t\<lparr>tunErrors := es\<rparr>)
      | [] \<Rightarrow>
          (case res of (n, err) \<Rightarrow>
             if nopi then ((n, map_option (Inr \<circ> IoError) err), t)
             else ((if n < 4 then 0 else n - 4, map_option (\<lambda>e. Inr (if e = EBADFD then ErrClosed else IoError e)) err), t)))"

text \<open>The bytes \<open>Write(buf, offset)\<close> hands to the file (\<open>None\<close> is a slice or index out of range), and the error it returns.\<close>

definition Write_bytes :: "bool \<Rightarrow> byte list \<Rightarrow> nat \<Rightarrow> byte list option" where
  "Write_bytes nopi buf offset =
     (if nopi then (if offset \<le> length buf then Some (drop offset buf) else None)
      else if offset < 4 \<or> offset - 4 > length buf then None
      else let b = drop (offset - 4) buf in
        if length b < 5 then None
        else Some ((if drop_bit 4 (b ! 4) = 6 then [0, 0, 0x86, 0xdd] else [0, 0, 0x08, 0]) @ drop 4 b))"

definition Write_error :: "errno \<Rightarrow> io_error" where
  "Write_error e = (if e = EBADFD then ErrClosed else IoError e)"

subsection \<open>Creation\<close>

text \<open>What the system calls of \<open>CreateTUN\<close> and \<open>CreateTUNFromFile\<close> return, in their order; \<open>None\<close> is success.\<close>

record create_env =
  openErr :: "errno option"
  setiffErr :: "errno option"
  nonblockErr :: "errno option"
  nameErr :: "errno option"
  ifindexErr :: "errno option"
  socketErr :: "errno option"
  bindErr :: "errno option"
  cancelNonblockErr :: "errno option"
  pipeErr :: "errno option"
  mtuErr :: "errno option"

datatype fd = TunFd | NetlinkFd | PipeFds

datatype create_error = NameTooLong | Failed errno

text \<open>\<open>createNetlinkSocket\<close> and \<open>NewRWCancel\<close>: the error and the descriptors left open.\<close>

definition createNetlinkSocket :: "create_env \<Rightarrow> errno option \<times> fd list" where
  "createNetlinkSocket v =
     (case socketErr v of
        Some e \<Rightarrow> (Some e, [])
      | None \<Rightarrow> (bindErr v, [NetlinkFd]))"

definition NewRWCancel :: "create_env \<Rightarrow> errno option \<times> fd list" where
  "NewRWCancel v =
     (case cancelNonblockErr v of
        Some e \<Rightarrow> (Some e, [])
      | None \<Rightarrow> (case pipeErr v of Some e \<Rightarrow> (Some e, []) | None \<Rightarrow> (None, [PipeFds])))"

text \<open>
  \<open>CreateTUNFromFile\<close>: the error, the descriptors that stay open, and whether the listeners run.  The tun
  file itself is never closed here.
\<close>

definition CreateTUNFromFile :: "create_env \<Rightarrow> errno option \<times> fd list \<times> bool" where
  "CreateTUNFromFile v =
     (case nameErr v of
        Some e \<Rightarrow> (Some e, [TunFd], False)
      | None \<Rightarrow>
          (case ifindexErr v of
             Some e \<Rightarrow> (Some e, [TunFd], False)
           | None \<Rightarrow>
               (case createNetlinkSocket v of
                  (Some e, fds) \<Rightarrow> (Some e, TunFd # fds, False)
                | (None, fds) \<Rightarrow>
                    (case NewRWCancel v of
                       (Some e, _) \<Rightarrow> (Some e, [TunFd], False)
                     | (None, pipes) \<Rightarrow>
                         (case mtuErr v of
                            Some e \<Rightarrow> (Some e, TunFd # pipes, True)
                          | None \<Rightarrow> (None, TunFd # fds @ pipes, True))))))"

definition CreateTUN :: "create_env \<Rightarrow> string \<Rightarrow> create_error option \<times> fd list \<times> bool" where
  "CreateTUN v name =
     (case openErr v of
        Some e \<Rightarrow> (Some (Failed e), [], False)
      | None \<Rightarrow>
          if length name \<ge> 16 then (Some NameTooLong, [], False)
          else (case setiffErr v of
             Some e \<Rightarrow> (Some (Failed e), [], False)
           | None \<Rightarrow>
               (case nonblockErr v of
                  Some e \<Rightarrow> (Some (Failed e), [], False)
                | None \<Rightarrow> (case CreateTUNFromFile v of (e, fds, b) \<Rightarrow> (map_option Failed e, fds, b)))))"

subsection \<open>The device and its goroutines together\<close>

type_synonym tun_sys = "nl_local \<times> hk_local \<times> NativeTun"

text \<open>A byte in the closing pipe is an event that every later \<open>poll\<close> reports.\<close>

fun poll_consistent :: "NativeTun \<Rightarrow> nl_in \<Rightarrow> bool" where
  "poll_consistent t (Polled ps) \<longleftrightarrow> cancelByte t \<longrightarrow> (\<forall>p\<in>set ps. case p of PollErr _ \<Rightarrow> True | PollOk _ c \<Rightarrow> c)"
| "poll_consistent t _ \<longleftrightarrow> True"

inductive tun_step :: "u32 \<Rightarrow> tun_sys \<Rightarrow> tun_sys \<Rightarrow> bool" for index :: u32 where
  netlink: "poll_consistent t inp \<Longrightarrow> nlStep index inp (l, t) = Some (Inr (l', t')) \<Longrightarrow> tun_step index (l, h, t) (l', h, t')"
| hack: "hkStep inp (h, t) = Some (Inr (h', t')) \<Longrightarrow> tun_step index (l, h, t) (l, h', t')"
| close: "closeStep t = Some (Inr t') \<Longrightarrow> tun_step index (l, h, t) (l, h, t')"
| read: "Read nopi res t = (r, t') \<Longrightarrow> tun_step index (l, h, t) (l, h, t')"

inductive_cases tun_stepE: "tun_step index s s'"

definition tun_started :: tun_sys where
  "tun_started =
     (\<lparr>nlPc = NlRecv, nlMsg = (\<lambda>_. 0)\<rparr>, \<lparr>hkPc = HkProbe, hkLast = 0\<rparr>,
      \<lparr>tunFileOpen = True, events = [], eventsClosed = False, tunErrors = [], hackListenerClosed = True, statusListenersShutdown = False,
       netlinkSockOpen = True, cancelByte = False, cancelOpen = True, tunClose = ClNot\<rparr>)"

definition tun_reachable :: "u32 \<Rightarrow> tun_sys \<Rightarrow> bool" where
  "tun_reachable index s \<longleftrightarrow> (tun_step index)\<^sup>*\<^sup>* tun_started s"

text \<open>
  The mutex passes from the probe to the listener: the listener closes the channel only after the probe, the
  only other sender, has returned.
\<close>

fun isClDone :: "close_pc \<Rightarrow> bool" where
  "isClDone (ClDone _) = True"
| "isClDone _ = False"

fun tun_ok :: "tun_sys \<Rightarrow> bool" where
  "tun_ok (l, h, t) \<longleftrightarrow>
     (eventsClosed t \<longleftrightarrow> nlPc l = NlDone) \<and>
     (hackListenerClosed t \<longleftrightarrow> hkPc h \<noteq> HkDone \<or> nlPc l \<in> {NlCloseEvents, NlDone}) \<and>
     (nlPc l \<in> {NlCloseEvents, NlDone} \<longrightarrow> hkPc h = HkDone) \<and>
     (netlinkSockOpen t \<longleftrightarrow> nlPc l \<notin> {NlLock, NlCloseEvents, NlDone}) \<and>
     (cancelOpen t \<longleftrightarrow> nlPc l \<noteq> NlDone) \<and>
     (statusListenersShutdown t \<longleftrightarrow> tunClose t \<noteq> ClNot) \<and>
     (tunFileOpen t \<longleftrightarrow> \<not> isClDone (tunClose t)) \<and>
     length (events t) \<le> 5"

lemma sendEvent_cases:
  assumes "sendEvent e t = Some r"
  obtains "eventsClosed t" "r = Inl SendOnClosedChannel"
  | "\<not> eventsClosed t" "length (events t) < 5" "r = Inr (t\<lparr>events := events t @ [e]\<rparr>)"
  using assms by (auto simp: sendEvent_def split: if_splits)

lemma nlStep_ok:
  assumes "tun_ok (l, h, t)" and "nlStep index inp (l, t) = Some (Inr (l', t'))"
  shows "tun_ok (l', h, t')"
proof (cases "nlPc l")
  case (NlSend es n p w)
  then show ?thesis using assms
    by (cases es) (auto simp: nlStep_def nlGo_def sendEvent_def split: option.splits sum.splits if_splits)
qed (use assms in \<open>clarsimp simp: nlStep_def nlGo_def split: nl_in.splits nl_iter.splits option.splits if_splits\<close>)+

lemma hkStep_ok:
  assumes "tun_ok (l, h, t)" and "hkStep inp (h, t) = Some (Inr (h', t'))"
  shows "tun_ok (l, h', t')"
proof (cases "hkPc h")
  case (HkSend e)
  then show ?thesis using assms by (clarsimp simp: hkStep_def hkGo_def sendEvent_def split: if_splits)
next
  case HkUnlock
  then show ?thesis using assms by (clarsimp simp: hkStep_def hkGo_def split: if_splits)
qed (use assms in \<open>clarsimp simp: hkStep_def hkGo_def split: hk_in.splits if_splits\<close>)+

lemma closeStep_ok:
  assumes "tun_ok (l, h, t)" and "closeStep t = Some (Inr t')"
  shows "tun_ok (l, h, t')"
  using assms by (cases "tunClose t") (clarsimp simp: closeStep_def split: if_splits)+

lemma Read_state: "Read nopi res t = (r, t') \<Longrightarrow> \<exists>es. t' = t\<lparr>tunErrors := es\<rparr>"
  by (cases "tunErrors t"; cases res; cases nopi) (auto simp: Read_def intro: exI [of _ "[]"])

lemma Read_ok:
  assumes "tun_ok (l, h, t)" and "Read nopi res t = (r, t')"
  shows "tun_ok (l, h, t')"
  using Read_state [OF assms(2)] assms(1) by (elim exE) simp

lemmas tun_steps_ok = nlStep_ok hkStep_ok closeStep_ok Read_ok

lemma tun_step_ok: "tun_step index s s' \<Longrightarrow> tun_ok s \<Longrightarrow> tun_ok s'"
  by (induction rule: tun_step.induct) (blast intro: tun_steps_ok)+

lemma tun_reachable_ok: "tun_reachable index s \<Longrightarrow> tun_ok s"
  unfolding tun_reachable_def
proof (induction rule: rtranclp_induct)
  case base
  show ?case by (simp add: tun_started_def)
qed (rule tun_step_ok)

text \<open>A listener that waits to send into a full channel waits for ever: nothing receives from the channel.\<close>

fun stuck :: "tun_sys \<Rightarrow> bool" where
  "stuck (l, h, t) \<longleftrightarrow> (\<exists>e es n p w. nlPc l = NlSend (e # es) n p w) \<and> length (events t) = 5"

lemma stuck_step:
  assumes "tun_step index (l, h, t) (l', h', t')" and "tun_ok (l, h, t)" and "stuck (l, h, t)"
  shows "l' = l \<and> stuck (l', h', t')"
  using assms(1)
proof (cases rule: tun_step.cases)
  case (netlink inp)
  then show ?thesis using assms(2,3) by (auto simp: nlStep_def sendEvent_def split: if_splits)
next
  case (hack inp)
  then have "events t' = events t" using assms(2,3)
    by (cases "hkPc h") (auto simp: hkStep_def hkGo_def sendEvent_def split: hk_in.splits if_splits)
  then show ?thesis using hack assms(3) by auto
next
  case close
  then have "events t' = events t" by (cases "tunClose t") (auto simp: closeStep_def split: if_splits)
  then show ?thesis using close assms(3) by auto
next
  case (read nopi res r)
  then have "events t' = events t" using Read_state [of nopi res t r t'] by auto
  then show ?thesis using read assms(3) by auto
qed

lemma stuck_steps:
  assumes "(tun_step index)\<^sup>*\<^sup>* s s'" and "tun_ok s" and "stuck s"
  shows "fst s' = fst s \<and> stuck s' \<and> tun_ok s'"
  using assms
proof (induction rule: rtranclp_induct)
  case (step s' s'')
  obtain l h t l' h' t' where s: "s' = (l, h, t)" "s'' = (l', h', t')" by (metis prod_cases3)
  from step have "tun_ok s'" "stuck s'" "fst s' = fst s" by blast+
  with stuck_step [of index l h t l' h' t'] step.hyps(2) tun_step_ok [OF step.hyps(2)] s show ?case by simp
qed simp

text \<open>A run of the listener alone.\<close>

fun nlRun :: "u32 \<Rightarrow> nl_in list \<Rightarrow> nl_local \<times> NativeTun \<Rightarrow> (nl_local \<times> NativeTun) option" where
  "nlRun index [] lt = Some lt"
| "nlRun index (inp # inps) lt = (case nlStep index inp lt of Some (Inr lt') \<Rightarrow> nlRun index inps lt' | _ \<Rightarrow> None)"

lemma nlRun_steps:
  assumes "nlRun index inps (l, t) = Some (l', t')" and "\<forall>inp\<in>set inps. \<forall>t. poll_consistent t inp"
  shows "(tun_step index)\<^sup>*\<^sup>* (l, h, t) (l', h, t')"
  using assms
proof (induction inps arbitrary: l t)
  case (Cons inp inps)
  from Cons.prems obtain l1 t1 where s: "nlStep index inp (l, t) = Some (Inr (l1, t1))" "nlRun index inps (l1, t1) = Some (l', t')"
    by (auto split: option.splits sum.splits prod.splits)
  from Cons.prems(2) have "tun_step index (l, h, t) (l1, h, t1)" by (intro netlink [OF _ s(1)]) simp
  with Cons.IH [OF s(2)] Cons.prems(2) show ?case by (simp add: converse_rtranclp_into_rtranclp)
qed simp

subsection \<open>Properties\<close>

text \<open>The message that the link with index 7 is up and running, three times in one buffer.\<close>

definition newlink_up :: "byte list" where
  "newlink_up = [32, 0, 0, 0, 16, 0, 0, 0, 0, 0, 0, 0, 0, 0, 0, 0, 0, 0, 0, 0, 7, 0, 0, 0, 0x41, 0, 0, 0, 0, 0, 0, 0]"

definition flap_inputs :: "nl_in list" where
  "flap_inputs = Recv (newlink_up @ newlink_up @ newlink_up) #
     [NoInput, NoInput, NoInput, NoInput, NoInput, NoInput, NoInput, NoInput, NoInput, NoInput, NoInput]"

definition flapped :: "nl_local \<times> NativeTun" where
  "flapped = (case tun_started of (l, h, t) \<Rightarrow>
     (l\<lparr>nlPc := NlSend [EventMTUUpdate] 96 96 True, nlMsg := recvInto (newlink_up @ newlink_up @ newlink_up) (\<lambda>_. 0)\<rparr>,
      t\<lparr>events := [EventUp, EventMTUUpdate, EventUp, EventMTUUpdate, EventUp]\<rparr>))"

lemma flap_iter:
  "nlIter 7 (recvInto (newlink_up @ newlink_up @ newlink_up) m) 96 0 False = NlNext 32 True [EventUp, EventMTUUpdate]"
  "nlIter 7 (recvInto (newlink_up @ newlink_up @ newlink_up) m) 96 32 True = NlNext 64 True [EventUp, EventMTUUpdate]"
  "nlIter 7 (recvInto (newlink_up @ newlink_up @ newlink_up) m) 96 64 True = NlNext 96 True [EventUp, EventMTUUpdate]"
  by (simp_all add: nlIter_def u32At_def u16At_def recvInto_def newlink_up_def)

lemma flap_run: "nlRun 7 flap_inputs (fst tun_started, snd (snd tun_started)) = Some flapped"
proof -
  have "length (newlink_up @ newlink_up @ newlink_up) = 96" by (simp add: newlink_up_def)
  then show ?thesis
    by (simp add: flap_inputs_def flapped_def tun_started_def nlStep_def nlGo_def sendEvent_def flap_iter del: append_assoc)
qed

text \<open>
  C15. The listeners of a tun device do not race: whatever the kernel reports and whenever the device is closed, nobody
  sends on the closed event channel, nothing is closed or unlocked twice, the channel is closed only when both
  goroutines are done with it, and never holds more than five events.  The only panic is on a
  netlink message that breaks off behind its header or at the end of the buffer.
\<close>

theorem tun_listeners_safe:
  assumes "tun_reachable index (l, h, t)"
  shows "(nlStep index inp (l, t) = Some (Inl x) \<longrightarrow> x \<in> {IndexOutOfRange, ReadBeyondBuffer}) \<and>
    hkStep hinp (h, t) \<noteq> Some (Inl y) \<and> closeStep t \<noteq> Some (Inl z) \<and> length (events t) \<le> 5 \<and>
    (eventsClosed t \<longrightarrow> nlPc l = NlDone \<and> hkPc h = HkDone) \<and> (nlPc l = NlDone \<longrightarrow> eventsClosed t \<and> \<not> netlinkSockOpen t \<and> \<not> cancelOpen t)"
proof -
  from tun_reachable_ok [OF assms] have ok: "tun_ok (l, h, t)" .
  have "hkStep hinp (h, t) \<noteq> Some (Inl y)"
  proof (cases "hkPc h")
    case (HkSend e)
    then have "\<not> eventsClosed t" using ok by auto
    with HkSend show ?thesis by (simp add: hkStep_def hkGo_def sendEvent_def)
  next
    case HkUnlock
    then have "hackListenerClosed t" using ok by simp
    with HkUnlock show ?thesis by (simp add: hkStep_def hkGo_def)
  qed (simp_all add: hkStep_def hkGo_def split: hk_in.splits)
  moreover have "x \<in> {IndexOutOfRange, ReadBeyondBuffer}" if "nlStep index inp (l, t) = Some (Inl x)"
  proof (cases "nlPc l")
    case (NlSend es n p w)
    then have "\<not> eventsClosed t" using ok by auto
    then show ?thesis using that NlSend by (cases es) (auto simp: nlStep_def nlGo_def sendEvent_def split: if_splits)
  next
    case (NlParse n p w)
    then show ?thesis using that by (auto simp: nlStep_def nlGo_def nlIter_def Let_def split: if_splits)
  qed (use that ok in \<open>auto simp: nlStep_def nlGo_def split: nl_in.splits option.splits if_splits\<close>)
  moreover have "closeStep t \<noteq> Some (Inl z)" using ok by (cases "tunClose t") (simp_all add: closeStep_def)
  ultimately show ?thesis using ok by auto
qed

theorem tun_listeners_safe_witness:
  "nlStep 7 (RecvErr EAGAIN) (fst tun_started, snd (snd tun_started)) \<noteq> Some (Inl SendOnClosedChannel) \<and> length (events (snd (snd tun_started))) \<le> 5"
proof -
  obtain l h t where s: "tun_started = (l, h, t)" by (metis prod_cases3)
  have "tun_reachable 7 (l, h, t)" by (simp add: tun_reachable_def s)
  from tun_listeners_safe [OF this, of "RecvErr EAGAIN" SendOnClosedChannel] show ?thesis by (auto simp: s)
qed

text \<open>
  The event channel fills up.  Nothing in the program receives from it, so when five events are in it (three
  reports that the link is up are enough) the netlink listener waits for ever at its next send: no step of the
  system, not even the complete \<open>Close\<close> of the device, lets it go on, its socket stays open and the
  channel is never closed.
\<close>

theorem tun_listener_stuck:
  assumes "tun_reachable index (l, h, t)" and "nlPc l = NlSend (e # es) n p w" and "length (events t) = 5"
    and "(tun_step index)\<^sup>*\<^sup>* (l, h, t) (l', h', t')"
  shows "nlPc l' = NlSend (e # es) n p w \<and> netlinkSockOpen t' \<and> \<not> eventsClosed t' \<and> events t' \<noteq> []"
  using stuck_steps [OF assms(4) tun_reachable_ok [OF assms(1)]] assms(2,3) by auto

theorem tun_listener_stuck_witness:
  "\<exists>l h t t'. tun_reachable 7 (l, h, t) \<and> (tun_step 7)\<^sup>*\<^sup>* (l, h, t) (l, h, t') \<and> tunClose t' = ClDone False \<and>
     nlPc l = NlSend [EventMTUUpdate] 96 96 True \<and> netlinkSockOpen t' \<and> \<not> eventsClosed t'"
proof -
  obtain l h t where s: "tun_started = (l, h, t)" by (metis prod_cases3)
  obtain l1 t1 where f: "flapped = (l1, t1)" by fastforce
  have "nlRun 7 flap_inputs (l, t) = Some (l1, t1)" using flap_run by (simp add: s f)
  then have "(tun_step 7)\<^sup>*\<^sup>* (l, h, t) (l1, h, t1)" by (rule nlRun_steps) (auto simp: flap_inputs_def)
  then have r: "tun_reachable 7 (l1, h, t1)" by (simp add: tun_reachable_def s)
  define t2 where "t2 = t1\<lparr>statusListenersShutdown := True, tunClose := ClShut\<rparr>"
  define t3 where "t3 = t2\<lparr>cancelByte := True, tunClose := ClCancelled False\<rparr>"
  define t4 where "t4 = t3\<lparr>tunFileOpen := False, tunClose := ClDone False\<rparr>"
  have t1: "tunClose t1 = ClNot" "\<not> statusListenersShutdown t1" "cancelOpen t1" "length (events t1) = 5" "nlPc l1 = NlSend [EventMTUUpdate] 96 96 True"
    using f by (auto simp: flapped_def tun_started_def)
  have "tun_step 7 (l1, h, t1) (l1, h, t2)" "tun_step 7 (l1, h, t2) (l1, h, t3)" "tun_step 7 (l1, h, t3) (l1, h, t4)"
    using t1 by (auto intro!: tun_step.close simp: closeStep_def t2_def t3_def t4_def)
  then have c: "(tun_step 7)\<^sup>*\<^sup>* (l1, h, t1) (l1, h, t4)" by (meson converse_rtranclp_into_rtranclp r_into_rtranclp)
  from tun_listener_stuck [OF r t1(5,4) c] r c t1(5) show ?thesis
    by (intro exI [of _ l1] exI [of _ h] exI [of _ t1] exI [of _ t4]) (simp add: t4_def)
qed

end
