(* ===== verification/Tun_Ioctl.thy ===== *)
theory Tun_Ioctl
  imports Tun_Linux
begin

text \<open>
  The \<open>ioctl\<close> requests of the tun device on Linux (\<open>src/tun/tun_linux.go\<close>): the structure that carries the name of the interface
  and a number, with what the kernel writes into it as an argument, and the functions around them.  Names are the bytes of the strings.
\<close>

subsection \<open>The request\<close>

definition IFNAMSIZ :: nat where "IFNAMSIZ = 16"
definition ifReqSize :: nat where "ifReqSize = 80"

definition ifreqName :: "byte list \<Rightarrow> byte list" where
  "ifreqName name = go_copy (replicate ifReqSize 0) name"

definition le32 :: "u32 \<Rightarrow> byte list" where
  "le32 w = map (\<lambda>i. ucast (drop_bit (8 * i) w)) [0, 1, 2, 3]"

definition ifreqSet32 :: "byte list \<Rightarrow> u32 \<Rightarrow> byte list" where
  "ifreqSet32 ifr w = take IFNAMSIZ ifr @ le32 w @ drop (IFNAMSIZ + 4) ifr"

definition ifreqSet16 :: "byte list \<Rightarrow> u16 \<Rightarrow> byte list" where
  "ifreqSet16 ifr w = take IFNAMSIZ ifr @ [ucast w, ucast (drop_bit 8 w)] @ drop (IFNAMSIZ + 2) ifr"

definition ifreqGet32 :: "byte list \<Rightarrow> u32" where
  "ifreqGet32 ifr = u32At ((!) ifr) IFNAMSIZ"

text \<open>\<open>unix.ByteSliceToString\<close>.\<close>

definition ByteSliceToString :: "byte list \<Rightarrow> byte list" where
  "ByteSliceToString bs = takeWhile (\<lambda>b. b \<noteq> 0) bs"

text \<open>The system call: an error, or the structure as the kernel leaves it.\<close>

type_synonym ioctl = "byte list \<Rightarrow> errno + byte list"

datatype ioctl_error = NameError errno | SocketError errno | IoctlError errno

text \<open>The request by which \<open>CreateTUN\<close> asks for the device; \<open>None\<close> is a name that is too long.\<close>

definition tunRequest :: "byte list \<Rightarrow> byte list option" where
  "tunRequest name =
     (let flags = 0x0001 OR 0x1000 in if length name \<ge> IFNAMSIZ then None else Some (ifreqSet16 (ifreqName name) flags))"

subsection \<open>The functions\<close>

text \<open>\<open>nameSlow\<close> (\<open>access\<close> is the error of \<open>SyscallConn\<close> or \<open>Control\<close>), and \<open>Name\<close>, which keeps the first result, errors included.\<close>

definition nameSlow :: "errno option \<Rightarrow> ioctl \<Rightarrow> errno + byte list" where
  "nameSlow access getiff =
     (case access of
        Some e \<Rightarrow> Inl e
      | None \<Rightarrow> (case getiff (replicate ifReqSize 0) of Inl e \<Rightarrow> Inl e | Inr ifr \<Rightarrow> Inr (ByteSliceToString ifr)))"

definition Name :: "errno option \<Rightarrow> ioctl \<Rightarrow> (errno + byte list) option \<Rightarrow> (errno + byte list) \<times> (errno + byte list) option" where
  "Name access getiff cache =
     (case cache of
        Some r \<Rightarrow> (r, cache)
      | None \<Rightarrow> (let r = nameSlow access getiff in (r, Some r)))"

definition getIFIndex :: "errno option \<Rightarrow> ioctl \<Rightarrow> byte list \<Rightarrow> ioctl_error + u32" where
  "getIFIndex socket ioctl name =
     (case socket of
        Some e \<Rightarrow> Inl (SocketError e)
      | None \<Rightarrow> (case ioctl (ifreqName name) of Inl e \<Rightarrow> Inl (IoctlError e) | Inr ifr \<Rightarrow> Inr (ifreqGet32 ifr)))"

text \<open>\<open>setMTU\<close> and \<open>MTU\<close> with the result of \<open>Name\<close>; the socket is closed in every case.\<close>

definition mtuRequest :: "byte list \<Rightarrow> int \<Rightarrow> byte list" where
  "mtuRequest name n = ifreqSet32 (ifreqName name) (of_int n)"

definition tun_setMTU :: "errno + byte list \<Rightarrow> errno option \<Rightarrow> ioctl \<Rightarrow> int \<Rightarrow> ioctl_error option" where
  "tun_setMTU name socket ioctl n =
     (case name of
        Inl e \<Rightarrow> Some (NameError e)
      | Inr name \<Rightarrow>
          (case socket of
             Some e \<Rightarrow> Some (SocketError e)
           | None \<Rightarrow> (case ioctl (mtuRequest name n) of Inl e \<Rightarrow> Some (IoctlError e) | Inr _ \<Rightarrow> None)))"

definition tun_MTU :: "errno + byte list \<Rightarrow> errno option \<Rightarrow> ioctl \<Rightarrow> ioctl_error + int" where
  "tun_MTU name socket ioctl =
     (case name of
        Inl e \<Rightarrow> Inl (NameError e)
      | Inr name \<Rightarrow>
          (case socket of
             Some e \<Rightarrow> Inl (SocketError e)
           | None \<Rightarrow> (case ioctl (ifreqName name) of Inl e \<Rightarrow> Inl (IoctlError e) | Inr ifr \<Rightarrow> Inr (sint (ifreqGet32 ifr)))))"

text \<open>\<open>CreateUnmonitoredTUNFromFD\<close>: the name of the device; the listeners are not started.\<close>

definition CreateUnmonitoredTUNFromFD :: "errno option \<Rightarrow> errno option \<Rightarrow> ioctl \<Rightarrow> errno + byte list" where
  "CreateUnmonitoredTUNFromFD nonblock access getiff =
     (case nonblock of Some e \<Rightarrow> Inl e | None \<Rightarrow> fst (Name access getiff None))"

subsection \<open>What they do\<close>

lemma ifreq_length:
  "length (ifreqName name) = ifReqSize" "length (ifreqSet32 (ifreqName name) w) = ifReqSize" "length (ifreqSet16 (ifreqName name) v) = ifReqSize"
  by (simp_all add: ifreqName_def ifreqSet32_def ifreqSet16_def le32_def ifReqSize_def IFNAMSIZ_def)

text \<open>The kernel sees the name of the interface up to its first zero byte, for every name that fits.\<close>

lemma ifreq_name:
  assumes "length name < IFNAMSIZ" and "0 \<notin> set name"
  shows "ByteSliceToString (ifreqName name) = name" and "ByteSliceToString (ifreqSet32 (ifreqName name) w) = name"
    and "tunRequest name = Some ifr \<Longrightarrow> ByteSliceToString ifr = name"
proof -
  have n: "takeWhile (\<lambda>b. b \<noteq> 0) (name @ 0 # rest) = name" for rest using assms(2) by (induction name) auto
  have r: "ifreqName name = name @ replicate (ifReqSize - length name) 0"
    using assms(1) by (simp add: ifreqName_def go_copy_def ifReqSize_def IFNAMSIZ_def)
  have z: "replicate (ifReqSize - length name) (0::byte) = 0 # replicate (ifReqSize - length name - 1) 0"
    using assms(1) by (cases "ifReqSize - length name") (simp_all add: ifReqSize_def IFNAMSIZ_def)
  show "ByteSliceToString (ifreqName name) = name" by (simp only: ByteSliceToString_def r z n)
  have t: "take IFNAMSIZ (ifreqName name) = name @ 0 # replicate (IFNAMSIZ - length name - 1) 0"
    using assms(1) unfolding r by (cases "IFNAMSIZ - length name") (simp_all add: min_def ifReqSize_def IFNAMSIZ_def)
  then show "ByteSliceToString (ifreqSet32 (ifreqName name) w) = name"
    by (simp add: ByteSliceToString_def ifreqSet32_def n del: takeWhile_append)
  show "ByteSliceToString ifr = name" if "tunRequest name = Some ifr"
  proof -
    from that have "ifr = ifreqSet16 (ifreqName name) (0x0001 OR 0x1000)" by (simp add: tunRequest_def Let_def split: if_splits)
    then show ?thesis using t by (simp add: ByteSliceToString_def ifreqSet16_def n del: takeWhile_append)
  qed
qed

lemma le32_join:
  fixes w :: u32
  shows "(ucast (ucast w :: byte) :: u32) OR push_bit 8 (ucast (ucast (drop_bit 8 w) :: byte)) OR
    push_bit 16 (ucast (ucast (drop_bit 16 w) :: byte)) OR push_bit 24 (ucast (ucast (drop_bit 24 w) :: byte)) = w"
    (is "?v = w")
proof (rule bit_word_eqI)
  fix n
  assume "n < LENGTH(32)"
  then show "bit ?v n \<longleftrightarrow> bit w n" by (cases "n < 24"; cases "n < 16") (auto simp: bit_simps)
qed

lemma ifreqGet32_Set32: "ifreqGet32 (ifreqSet32 (ifreqName name) w) = w"
proof -
  have l: "length (take IFNAMSIZ (ifreqName name)) = 16" by (simp add: ifreq_length ifReqSize_def IFNAMSIZ_def)
  have "ifreqSet32 (ifreqName name) w ! (16 + i) = ucast (drop_bit (8 * i) w)" if "i < 4" for i
  proof -
    have "ifreqSet32 (ifreqName name) w ! (16 + i) = (le32 w @ drop (IFNAMSIZ + 4) (ifreqName name)) ! i"
      unfolding ifreqSet32_def using nth_append_length_plus [of "take IFNAMSIZ (ifreqName name)", unfolded l] .
    also from that have "i = 0 \<or> i = 1 \<or> i = 2 \<or> i = 3" by linarith
    then have "(le32 w @ drop (IFNAMSIZ + 4) (ifreqName name)) ! i = ucast (drop_bit (8 * i) w)" by (auto simp: le32_def)
    finally show ?thesis .
  qed
  from this [of 0] this [of 1] this [of 2] this [of 3]
  have "ifreqGet32 (ifreqSet32 (ifreqName name) w) =
      ucast (ucast w :: byte) OR push_bit 8 (ucast (ucast (drop_bit 8 w) :: byte)) OR push_bit 16 (ucast (ucast (drop_bit 16 w) :: byte)) OR
      push_bit 24 (ucast (ucast (drop_bit 24 w) :: byte))"
    by (simp add: ifreqGet32_def u32At_def IFNAMSIZ_def)
  also have "\<dots> = w" by (rule le32_join)
  finally show ?thesis .
qed

text \<open>
  An MTU that was set is the one read back: \<open>K\<close> is the MTU that the kernel has for each name, \<open>ifSetMTU\<close> and \<open>ifGetMTU\<close> what the requests do to it.
\<close>

definition ifSetMTU :: "byte list \<Rightarrow> (byte list \<Rightarrow> u32) \<Rightarrow> byte list \<Rightarrow> u32" where
  "ifSetMTU req K = K(ByteSliceToString req := ifreqGet32 req)"

definition ifGetMTU :: "(byte list \<Rightarrow> u32) \<Rightarrow> ioctl" where
  "ifGetMTU K req = Inr (ifreqSet32 req (K (ByteSliceToString req)))"

theorem mtu_kept:
  assumes "length name < IFNAMSIZ" and "0 \<notin> set name" and "- (2 ^ 31) \<le> n" and "n < 2 ^ 31"
  shows "tun_MTU (Inr name) None (ifGetMTU (ifSetMTU (mtuRequest name n) K)) = Inr n"
proof -
  have "sint (of_int n :: u32) = n" using assms(3,4) by (simp add: signed_of_int signed_take_bit_int_eq_self)
  then show ?thesis
    by (simp add: tun_MTU_def ifGetMTU_def ifSetMTU_def mtuRequest_def ifreq_name [OF assms(1,2)] ifreqGet32_Set32)
qed

text \<open>The name is asked for once: whatever the first answer was, later calls give it again.\<close>

lemma Name_once: "Name access getiff cache = (r, cache') \<Longrightarrow> Name access' getiff' cache' = (r, cache')"
  by (auto simp: Name_def Let_def split: option.splits)

end
