(* ===== verification/Tun_Windows.thy ===== *)
theory Tun_Windows
  imports Tun_Linux
begin

text \<open>
  The tun device on Windows (\<open>src/tun/tun_windows.go\<close>) over the sessions of \<open>src/wintun/session.go\<close>: the estimate of the data rate that
  decides whether a reader spins, reading and writing one packet, and the protocol by which
  \<open>Close\<close> waits for the calls that are in progress before it ends the session.  What the driver answers is an argument.
\<close>

subsection \<open>The data rate\<close>

definition rateMeasurementGranularity :: u64 where "rateMeasurementGranularity = 500000000"
definition spinloopRateThreshold :: u64 where "spinloopRateThreshold = 100000000"
definition spinloopDuration :: u64 where "spinloopDuration = 12500"

text \<open>Times are the bits of an \<open>int64\<close>.\<close>

record rateJuggler =
  rCurrent :: u64
  rNextByteCount :: u64
  rNextStartTime :: u64
  rChanging :: bool

definition rate_update :: "u64 \<Rightarrow> u64 \<Rightarrow> rateJuggler \<Rightarrow> rateJuggler" where
  "rate_update now packetLen r =
     (let total = rNextByteCount r + packetLen;
          r = r\<lparr>rNextByteCount := total\<rparr>;
          period = now - rNextStartTime r in
      if rateMeasurementGranularity \<le> period then
        if rChanging r then r
        else r\<lparr>rNextStartTime := now, rCurrent := total * 1000000000 div period, rNextByteCount := 0, rChanging := False\<rparr>
      else r)"

definition shouldSpin :: "u64 \<Rightarrow> rateJuggler \<Rightarrow> bool" where
  "shouldSpin start r \<longleftrightarrow> spinloopRateThreshold \<le> rCurrent r \<and> start - rNextStartTime r \<le> rateMeasurementGranularity * 2"

subsection \<open>Packets\<close>

datatype win_error = ERROR_NO_MORE_ITEMS | ERROR_HANDLE_EOF | ERROR_INVALID_DATA | ERROR_BUFFER_OVERFLOW | OtherError string

datatype wt_error = WtClosed | WtCorrupt | WtReadFailed string | WtWriteFailed string

fun errText :: "win_error \<Rightarrow> string" where
  "errText ERROR_NO_MORE_ITEMS = ''ERROR_NO_MORE_ITEMS''"
| "errText ERROR_HANDLE_EOF = ''ERROR_HANDLE_EOF''"
| "errText ERROR_INVALID_DATA = ''ERROR_INVALID_DATA''"
| "errText ERROR_BUFFER_OVERFLOW = ''ERROR_BUFFER_OVERFLOW''"
| "errText (OtherError e) = e"

text \<open>
  \<open>ReceivePacket\<close> and \<open>AllocateSendPacket\<close> turn the address 0 into the error of the call.  Giving a packet
  back, or sending it, takes the address of its first byte, which an empty one does not have (\<open>None\<close>).
\<close>

definition Session_packet :: "byte list option \<Rightarrow> win_error \<Rightarrow> win_error + byte list" where
  "Session_packet r0 e1 = (case r0 of None \<Rightarrow> Inl e1 | Some packet \<Rightarrow> Inr packet)"

definition Session_give :: "byte list \<Rightarrow> unit option" where
  "Session_give packet = (if packet = [] then None else Some ())"

text \<open>
  One call of \<open>ReceivePacket\<close> in the loop of \<open>Read\<close>: the outcome with the buffer and the rate, or how the loop goes on.
\<close>

datatype read_round =
    ReadDone "nat \<times> wt_error option" "byte list" rateJuggler
  | ReadSpin
  | ReadWait
  | ReadPanic

definition readRound :: "bool \<Rightarrow> u64 \<Rightarrow> u64 \<Rightarrow> win_error + byte list \<Rightarrow> byte list \<Rightarrow> nat \<Rightarrow> rateJuggler \<Rightarrow> read_round" where
  "readRound spin start now res buff offset r =
     (case res of
        Inr packet \<Rightarrow>
          if length buff < offset then ReadPanic
          else
            let buff = take offset buff @ go_copy (drop offset buff) packet in
            (case Session_give packet of
               None \<Rightarrow> ReadPanic
             | Some _ \<Rightarrow> ReadDone (length packet, None) buff (rate_update now (of_nat (length packet)) r))
      | Inl e \<Rightarrow>
          if e = ERROR_NO_MORE_ITEMS then (if \<not> spin \<or> spinloopDuration \<le> now - start then ReadWait else ReadSpin)
          else if e = ERROR_HANDLE_EOF then ReadDone (0, Some WtClosed) buff r
          else if e = ERROR_INVALID_DATA then ReadDone (0, Some WtCorrupt) buff r
          else ReadDone (0, Some (WtReadFailed (''Read failed: '' @ errText e))) buff r)"

text \<open>
  \<open>Write\<close>, after the device was found open: \<open>alloc\<close> is what the driver gives for a size.  The result is what is returned,
  and what was sent; \<open>None\<close> is a panic.
\<close>

definition Write_packet ::
    "u64 \<Rightarrow> (int \<Rightarrow> win_error + byte list) \<Rightarrow> byte list \<Rightarrow> nat \<Rightarrow> rateJuggler \<Rightarrow> ((int \<times> wt_error option) \<times> byte list option \<times> rateJuggler) option" where
  "Write_packet now alloc buff offset r =
     (let packetSize = int (length buff) - int offset; r = rate_update now (of_int packetSize) r in
      case alloc packetSize of
        Inr packet \<Rightarrow>
          if length buff < offset then None
          else
            let packet = go_copy packet (drop offset buff) in
            (case Session_give packet of None \<Rightarrow> None | Some _ \<Rightarrow> Some ((packetSize, None), Some packet, r))
      | Inl e \<Rightarrow>
          if e = ERROR_HANDLE_EOF then Some ((0, Some WtClosed), None, r)
          else if e = ERROR_BUFFER_OVERFLOW then Some ((0, None), None, r)
          else Some ((0, Some (WtWriteFailed (''Write failed: '' @ errText e))), None, r))"

subsection \<open>Creation and settings\<close>

text \<open>
  \<open>CreateTUNWithRequestedGUID\<close>: \<open>adapter\<close> is what \<open>CreateAdapter\<close> returns for a name and a tunnel type, \<open>session\<close> what \<open>StartSession\<close> returns for
  an adapter and a capacity.  With an error the flag says whether an adapter was made and closed again.
\<close>

record 'a wnew =
  wnAdapter :: 'a
  wnName :: string
  wnMTU :: int
  wnSession :: u64
  wnReadWait :: u64

definition WintunTunnelType :: string where "WintunTunnelType = ''AnyLink Secure''"

definition CreateTUNWithRequestedGUID ::
    "(string \<Rightarrow> string \<Rightarrow> string + 'a) \<Rightarrow> ('a \<Rightarrow> u32 \<Rightarrow> string + u64) \<Rightarrow> (u64 \<Rightarrow> u64) \<Rightarrow> string \<Rightarrow> int \<Rightarrow> string \<times> bool + 'a wnew" where
  "CreateTUNWithRequestedGUID adapter session readWait ifname mtu =
     (case adapter ifname WintunTunnelType of
        Inl e \<Rightarrow> Inl (''Error creating interface: '' @ e, False)
      | Inr wt \<Rightarrow>
          let forcedMTU = (if mtu > 0 then mtu else 1420) in
          (case session wt 0x800000 of
             Inl e \<Rightarrow> Inl (''Error starting session: '' @ e, True)
           | Inr h \<Rightarrow> Inr \<lparr>wnAdapter = wt, wnName = ifname, wnMTU = forcedMTU, wnSession = h, wnReadWait = readWait h\<rparr>))"

text \<open>
  \<open>ForceMTU\<close> on the MTU and the event channel of capacity 10: a change is announced, and waits while the channel is full
  (\<open>None\<close>).
\<close>

definition ForceMTU :: "int \<Rightarrow> int \<Rightarrow> Event list \<Rightarrow> (int \<times> Event list) option" where
  "ForceMTU mtu forcedMTU evs =
     (if forcedMTU \<noteq> mtu then (if length evs < 10 then Some (mtu, evs @ [EventMTUUpdate]) else None)
      else Some (mtu, evs))"

text \<open>\<open>LUID\<close>: 0 when the device is closed.\<close>

definition LUID :: "bool \<Rightarrow> u64 \<Rightarrow> u64" where
  "LUID closing luid = (if closing then 0 else luid)"

subsection \<open>Closing\<close>

text \<open>
  The calls in progress are counted by a \<open>WaitGroup\<close>.  \<open>Wait\<close> returns at once if the count is 0; otherwise the waiter is released by the call
  that makes it 0, and panics when it runs again and the count is no longer 0, as the library has it.
\<close>

datatype wt_panic = UseAfterEnd | AdapterClosed | WaitGroupReused | EventsClosedTwice

datatype wclose_pc = WcNot | WcFlagged | WcSignalled | WcWaiting | WcReleased | WcWaited | WcEnded | WcAdapter | WcDone

text \<open>
  A call of \<open>Read\<close>, \<open>Write\<close> or \<open>LUID\<close>: outside, counted but not past the check of the flag, past it, waiting for the event of the driver (which is reset by the wait it ends), or about to
  leave.  \<open>Read\<close> checks the flag once more before each \<open>ReceivePacket\<close>; the flag is never cleared, so the last
  check is the one that counts.
\<close>

datatype user_pc = UOut | UEntered | UInside | UWaiting | ULeaving

datatype user = Reader | Writer | Query

record wtun =
  wClosing :: bool
  wEventSet :: bool
  wRunning :: nat
  wSessionOpen :: bool
  wAdapterOpen :: bool
  wEventsClosed :: bool
  wClose :: wclose_pc
  wUsers :: "user \<Rightarrow> user_pc"

definition wt_new :: wtun where
  "wt_new = \<lparr>wClosing = False, wEventSet = False, wRunning = 0, wSessionOpen = True, wAdapterOpen = True, wEventsClosed = False,
     wClose = WcNot, wUsers = (\<lambda>_. UOut)\<rparr>"

text \<open>\<open>running.Done()\<close>.\<close>

definition wgDone :: "wtun \<Rightarrow> wtun" where
  "wgDone t = t\<lparr>wRunning := wRunning t - 1, wClose := (if wRunning t = 1 \<and> wClose t = WcWaiting then WcReleased else wClose t)\<rparr>"

definition setUser :: "user \<Rightarrow> user_pc \<Rightarrow> wtun \<Rightarrow> wtun" where
  "setUser u pc t = t\<lparr>wUsers := (wUsers t)(u := pc)\<rparr>"

text \<open>What the driver answers a reader: a result, nothing yet and spin, nothing yet and wait.  The others use the driver once.\<close>

datatype user_in = DriverDone | DriverSpin | DriverWait

definition userStep :: "user \<Rightarrow> user_in \<Rightarrow> wtun \<Rightarrow> (wt_panic + wtun) option" where
  "userStep u inp t =
     (case wUsers t u of
        UOut \<Rightarrow> Some (Inr (setUser u UEntered (t\<lparr>wRunning := wRunning t + 1\<rparr>)))
      | UEntered \<Rightarrow> Some (Inr (setUser u (if wClosing t then ULeaving else UInside) t))
      | UInside \<Rightarrow>
          if u \<noteq> Query \<and> \<not> wSessionOpen t then Some (Inl UseAfterEnd)
          else if u = Query \<and> \<not> wAdapterOpen t then Some (Inl AdapterClosed)
          else (case inp of
             DriverDone \<Rightarrow> Some (Inr (setUser u ULeaving t))
           | DriverSpin \<Rightarrow> if u = Reader then Some (Inr (setUser u UEntered t)) else None
           | DriverWait \<Rightarrow> if u = Reader then Some (Inr (setUser u UWaiting t)) else None)
      | UWaiting \<Rightarrow> if wEventSet t then Some (Inr (setUser u UEntered (t\<lparr>wEventSet := False\<rparr>))) else None
      | ULeaving \<Rightarrow> Some (Inr (setUser u UOut (wgDone t))))"

text \<open>The function under \<open>closeOnce\<close>.\<close>

definition wCloseStep :: "wtun \<Rightarrow> (wt_panic + wtun) option" where
  "wCloseStep t =
     (case wClose t of
        WcNot \<Rightarrow> Some (Inr (t\<lparr>wClosing := True, wClose := WcFlagged\<rparr>))
      | WcFlagged \<Rightarrow> Some (Inr (t\<lparr>wEventSet := True, wClose := WcSignalled\<rparr>))
      | WcSignalled \<Rightarrow> Some (Inr (t\<lparr>wClose := (if wRunning t = 0 then WcWaited else WcWaiting)\<rparr>))
      | WcWaiting \<Rightarrow> None
      | WcReleased \<Rightarrow> if wRunning t \<noteq> 0 then Some (Inl WaitGroupReused) else Some (Inr (t\<lparr>wClose := WcWaited\<rparr>))
      | WcWaited \<Rightarrow> Some (Inr (t\<lparr>wSessionOpen := False, wClose := WcEnded\<rparr>))
      | WcEnded \<Rightarrow> Some (Inr (t\<lparr>wAdapterOpen := False, wClose := WcAdapter\<rparr>))
      | WcAdapter \<Rightarrow> if wEventsClosed t then Some (Inl EventsClosedTwice) else Some (Inr (t\<lparr>wEventsClosed := True, wClose := WcDone\<rparr>))
      | WcDone \<Rightarrow> None)"

inductive wt_step :: "wtun \<Rightarrow> wtun \<Rightarrow> bool" where
  user: "userStep u inp t = Some (Inr t') \<Longrightarrow> wt_step t t'"
| close: "wCloseStep t = Some (Inr t') \<Longrightarrow> wt_step t t'"
| driver: "wt_step t (t\<lparr>wEventSet := True\<rparr>)"

subsection \<open>What holds in every reachable state\<close>

definition inProgress :: "(user \<Rightarrow> user_pc) \<Rightarrow> nat" where
  "inProgress us = of_bool (us Reader \<noteq> UOut) + of_bool (us Writer \<noteq> UOut) + of_bool (us Query \<noteq> UOut)"

definition usesDriver :: "user_pc \<Rightarrow> bool" where
  "usesDriver pc \<longleftrightarrow> pc = UInside \<or> pc = UWaiting"

definition waited :: "wclose_pc \<Rightarrow> bool" where
  "waited pc \<longleftrightarrow> pc = WcWaited \<or> pc = WcEnded \<or> pc = WcAdapter \<or> pc = WcDone"

definition wt_ok :: "wtun \<Rightarrow> bool" where
  "wt_ok t \<longleftrightarrow> wRunning t = inProgress (wUsers t) \<and> (wClosing t \<longleftrightarrow> wClose t \<noteq> WcNot) \<and>
     (waited (wClose t) \<longrightarrow> (\<forall>u. \<not> usesDriver (wUsers t u))) \<and>
     (wSessionOpen t \<longleftrightarrow> wClose t \<notin> {WcEnded, WcAdapter, WcDone}) \<and> (wAdapterOpen t \<longleftrightarrow> wClose t \<notin> {WcAdapter, WcDone}) \<and>
     (wEventsClosed t \<longleftrightarrow> wClose t = WcDone) \<and> (wClose t = WcWaiting \<longrightarrow> inProgress (wUsers t) \<noteq> 0) \<and>
     (\<forall>u. wUsers t u = UWaiting \<longrightarrow> u = Reader) \<and>
     (wClose t \<notin> {WcNot, WcFlagged} \<and> usesDriver (wUsers t Reader) \<longrightarrow> wEventSet t)"

lemma wt_ok_new: "wt_ok wt_new"
  by (simp add: wt_ok_def wt_new_def inProgress_def waited_def usesDriver_def)

lemma inProgress_0: "inProgress us = 0 \<longleftrightarrow> (\<forall>u. us u = UOut)"
proof
  assume z: "inProgress us = 0"
  show "\<forall>u. us u = UOut"
  proof
    fix u
    show "us u = UOut" using z by (cases u) (simp_all add: inProgress_def split: if_splits)
  qed
qed (simp add: inProgress_def)

lemma inProgress_upd:
  "us u = UOut \<Longrightarrow> pc \<noteq> UOut \<Longrightarrow> inProgress (us(u := pc)) = inProgress us + 1"
  "us u \<noteq> UOut \<Longrightarrow> pc \<noteq> UOut \<Longrightarrow> inProgress (us(u := pc)) = inProgress us"
  "us u \<noteq> UOut \<Longrightarrow> inProgress (us(u := UOut)) = inProgress us - 1"
  "us u \<noteq> UOut \<Longrightarrow> 0 < inProgress us"
  by (cases u; simp add: inProgress_def)+

lemma usesDriver_simps [simp]:
  "\<not> usesDriver UOut" "\<not> usesDriver UEntered" "usesDriver UInside" "usesDriver UWaiting" "\<not> usesDriver ULeaving"
  by (simp_all add: usesDriver_def)

lemma waited_simps [simp]:
  "\<not> waited WcNot" "\<not> waited WcFlagged" "\<not> waited WcSignalled" "\<not> waited WcWaiting" "\<not> waited WcReleased"
  "waited WcWaited" "waited WcEnded" "waited WcAdapter" "waited WcDone"
  by (simp_all add: waited_def)

lemma idle_ok:
  assumes "wt_ok t" and "wRunning t = 0"
  shows "\<not> usesDriver (wUsers t u)"
  using assms inProgress_0 [of "wUsers t"] by (simp add: wt_ok_def)

text \<open>Moving a call to a point where it uses the driver is sound when \<open>Close\<close> has not waited, and the event is set or nobody will set it.\<close>

lemma setUser_ok:
  assumes "wt_ok t" and "wUsers t u \<noteq> UOut" and "pc \<noteq> UOut" and "pc = UWaiting \<Longrightarrow> u = Reader"
    and "usesDriver pc \<Longrightarrow> \<not> waited (wClose t) \<and> (u = Reader \<and> wClose t \<notin> {WcNot, WcFlagged} \<longrightarrow> wEventSet t)"
  shows "wt_ok (setUser u pc t)"
proof -
  have "inProgress ((wUsers t)(u := pc)) = inProgress (wUsers t)" using assms(2,3) by (rule inProgress_upd)
  moreover have "\<forall>v. \<not> usesDriver (((wUsers t)(u := pc)) v)" if "waited (wClose t)"
  proof -
    from assms(5) that have "\<not> usesDriver pc" by blast
    with assms(1) that show ?thesis by (simp add: wt_ok_def)
  qed
  moreover have "\<forall>v. ((wUsers t)(u := pc)) v = UWaiting \<longrightarrow> v = Reader" using assms(1,4) by (auto simp: wt_ok_def)
  moreover have "wEventSet t" if "wClose t \<notin> {WcNot, WcFlagged}" "usesDriver (((wUsers t)(u := pc)) Reader)"
    using assms that by (cases "u = Reader") (simp_all add: wt_ok_def)
  ultimately show ?thesis using assms(1) unfolding wt_ok_def setUser_def by simp
qed

lemma userStep_ok:
  assumes ok: "wt_ok t" and st: "userStep u inp t = Some (Inr t')"
  shows "wt_ok t'"
proof (cases "wUsers t u")
  case UOut
  with st have "t' = setUser u UEntered (t\<lparr>wRunning := wRunning t + 1\<rparr>)" by (simp add: userStep_def)
  then show ?thesis using ok UOut by (auto simp: wt_ok_def setUser_def inProgress_upd)
next
  case UEntered
  with st have "t' = setUser u (if wClosing t then ULeaving else UInside) t" by (simp add: userStep_def)
  moreover have "\<not> wClosing t \<Longrightarrow> wClose t = WcNot" using ok by (simp add: wt_ok_def)
  ultimately show ?thesis using ok UEntered by (cases "wClosing t") (simp, rule setUser_ok; simp)+
next
  case UInside
  with ok have "\<not> waited (wClose t)" "u = Reader \<and> wClose t \<notin> {WcNot, WcFlagged} \<longrightarrow> wEventSet t"
    by (simp_all add: wt_ok_def) (metis usesDriver_simps(3))+
  note free = this
  from st UInside consider (leave) "t' = setUser u ULeaving t" | (spin) "t' = setUser u UEntered t" | (wait) "t' = setUser u UWaiting t" "u = Reader"
    by (auto simp: userStep_def split: if_split_asm user_in.splits)
  then show ?thesis
  proof cases
    case wait
    show ?thesis unfolding wait(1) by (rule setUser_ok) (use ok UInside free wait(2) in auto)
  qed (simp_all only:, (rule setUser_ok; use ok UInside in simp)+)
next
  case UWaiting
  with st have t': "t' = setUser u UEntered (t\<lparr>wEventSet := False\<rparr>)" by (simp add: userStep_def split: if_split_asm)
  from ok UWaiting have "u = Reader" by (simp add: wt_ok_def)
  then show ?thesis using ok UWaiting t' by (auto simp: wt_ok_def setUser_def inProgress_upd)
next
  case ULeaving
  from st ULeaving have t': "t' = setUser u UOut (wgDone t)" by (simp add: userStep_def)
  have n: "inProgress ((wUsers t)(u := UOut)) = wRunning t - 1" using ok ULeaving inProgress_upd(3) [of "wUsers t" u] by (simp add: wt_ok_def)
  have d: "usesDriver (((wUsers t)(u := UOut)) v) \<Longrightarrow> usesDriver (wUsers t v)" for v by (simp split: if_splits)
  have w: "\<forall>v. ((wUsers t)(u := UOut)) v = UWaiting \<longrightarrow> v = Reader" using ok by (simp add: wt_ok_def)
  show ?thesis
  proof (cases "wRunning t = 1 \<and> wClose t = WcWaiting")
    case True
    then show ?thesis using ok n d [of Reader] w by (simp add: t' wt_ok_def setUser_def wgDone_def)
  next
    case False
    moreover from this ok ULeaving have "wClose t = WcWaiting \<Longrightarrow> inProgress ((wUsers t)(u := UOut)) \<noteq> 0"
      using n by (simp add: wt_ok_def)
    ultimately show ?thesis using ok n d w by (simp add: t' wt_ok_def setUser_def wgDone_def)
  qed
qed

lemma wCloseStep_ok:
  assumes ok: "wt_ok t" and st: "wCloseStep t = Some (Inr t')"
  shows "wt_ok t'"
proof (cases "wClose t")
  case WcSignalled
  then show ?thesis using ok st idle_ok [OF ok] by (cases "wRunning t = 0") (auto simp: wCloseStep_def wt_ok_def)
next
  case WcReleased
  then show ?thesis using ok st idle_ok [OF ok] by (cases "wRunning t = 0") (auto simp: wCloseStep_def wt_ok_def)
qed (use ok st in \<open>auto simp: wCloseStep_def wt_ok_def split: if_split_asm\<close>)

lemma wt_step_ok: "wt_step t t' \<Longrightarrow> wt_ok t \<Longrightarrow> wt_ok t'"
proof (induction rule: wt_step.induct)
  case (driver t)
  then show ?case by (auto simp: wt_ok_def)
qed (auto intro: userStep_ok wCloseStep_ok)

lemma wt_reachable_ok: "wt_step\<^sup>*\<^sup>* wt_new t \<Longrightarrow> wt_ok t"
  by (induction rule: rtranclp_induct) (auto intro: wt_step_ok wt_ok_new)

text \<open>
  C36. Closing a Windows tun device while it is read from, written to and queried, in any order of steps: nobody uses the session or the
  adapter after they are gone, the event channel is closed once, and the only panic there can be is that of the
  \<open>WaitGroup\<close>.  While \<open>Close\<close> waits there is a call in progress, and every such call can go on whatever the
  driver does: \<open>Close\<close> never waits for a packet.
\<close>

theorem windows_close_safe:
  assumes "wt_step\<^sup>*\<^sup>* wt_new t"
  shows "userStep u inp t \<noteq> Some (Inl p) \<and> (wCloseStep t = Some (Inl p) \<longrightarrow> p = WaitGroupReused) \<and>
    (wClose t = WcWaiting \<longrightarrow> (\<exists>v. wUsers t v \<noteq> UOut) \<and> (\<forall>v. wUsers t v \<noteq> UOut \<longrightarrow> (\<exists>t'. userStep v DriverDone t = Some (Inr t'))))"
proof -
  from wt_reachable_ok [OF assms] have ok: "wt_ok t" .
  have use: "wSessionOpen t \<and> wAdapterOpen t" if "usesDriver (wUsers t v)" for v
    using ok that by (cases "wClose t") (auto simp: wt_ok_def waited_def)
  have "userStep u inp t \<noteq> Some (Inl p)"
  proof (cases "wUsers t u")
    case UInside
    with use [of u] show ?thesis by (cases inp) (simp_all add: userStep_def usesDriver_def)
  qed (simp_all add: userStep_def)
  moreover have "wCloseStep t = Some (Inl p) \<longrightarrow> p = WaitGroupReused"
    using ok by (cases "wClose t") (simp_all add: wCloseStep_def wt_ok_def)
  moreover have "\<exists>v. wUsers t v \<noteq> UOut" if "wClose t = WcWaiting"
  proof -
    from ok that have "inProgress (wUsers t) \<noteq> 0" by (simp add: wt_ok_def)
    then show ?thesis by (simp add: inProgress_0)
  qed
  moreover have "\<exists>t'. userStep v DriverDone t = Some (Inr t')" if "wClose t = WcWaiting" "wUsers t v \<noteq> UOut" for v
  proof (cases "wUsers t v")
    case UInside
    with use [of v] show ?thesis by (simp add: userStep_def usesDriver_def)
  next
    case UWaiting
    with ok have "v = Reader" by (simp add: wt_ok_def)
    with ok that(1) UWaiting have "wEventSet t" by (simp add: wt_ok_def)
    with UWaiting show ?thesis by (simp add: userStep_def)
  qed (use that in \<open>simp_all add: userStep_def\<close>)
  ultimately show ?thesis by blast
qed

text \<open>A run: a reader waits for the driver, \<open>Close\<close> sets the flag and the event and waits.\<close>

definition wt_run :: "(wtun \<Rightarrow> (wt_panic + wtun) option) list \<Rightarrow> wtun \<Rightarrow> wtun option" where
  "wt_run fs t = foldl (\<lambda>t f. case t of None \<Rightarrow> None | Some t \<Rightarrow> (case f t of Some (Inr t') \<Rightarrow> Some t' | _ \<Rightarrow> None)) (Some t) fs"

lemma wt_run_reachable:
  assumes "wt_run fs t = Some t'" and "\<forall>f\<in>set fs. f = wCloseStep \<or> (\<exists>u inp. f = userStep u inp)"
  shows "wt_step\<^sup>*\<^sup>* t t'"
  using assms
proof (induction fs arbitrary: t)
  case (Cons f fs)
  have none: "foldl (\<lambda>t f. case t of None \<Rightarrow> None | Some t \<Rightarrow> (case f t of Some (Inr t') \<Rightarrow> Some t' | _ \<Rightarrow> None)) None gs = None"
    for gs :: "(wtun \<Rightarrow> (wt_panic + wtun) option) list" by (induction gs) simp_all
  from Cons.prems(1) obtain t1 where "f t = Some (Inr t1)" "wt_run fs t1 = Some t'"
    by (auto simp: wt_run_def none split: option.splits sum.splits)
  moreover from this Cons.prems(2) have "wt_step t t1" by (auto intro: wt_step.intros)
  ultimately show ?case using Cons.IH Cons.prems(2) by (meson converse_rtranclp_into_rtranclp list.set_intros(2))
qed (simp add: wt_run_def)

definition waitingRun :: "(wtun \<Rightarrow> (wt_panic + wtun) option) list" where
  "waitingRun = [userStep Reader DriverDone, userStep Reader DriverDone, userStep Reader DriverWait, wCloseStep, wCloseStep, wCloseStep]"

theorem windows_close_safe_witness:
  "\<exists>t. wt_run waitingRun wt_new = Some t \<and> wClose t = WcWaiting \<and> (\<exists>t'. userStep Reader DriverDone t = Some (Inr t'))"
proof -
  obtain t where t: "wt_run waitingRun wt_new = Some t" "wClose t = WcWaiting" "wUsers t Reader = UWaiting"
    by (simp add: wt_run_def waitingRun_def userStep_def wCloseStep_def wt_new_def setUser_def)
  have "wt_step\<^sup>*\<^sup>* wt_new t" using t(1) by (rule wt_run_reachable) (auto simp: waitingRun_def)
  from windows_close_safe [OF this, of Reader DriverDone] t show ?thesis by auto
qed

text \<open>
  C35. The panic of C36 is real: \<open>Close\<close> is waiting for the last call in progress; that call returns, which releases \<open>Close\<close>; before
  \<open>Close\<close> runs again another call begins, as a writer does that has just written a packet and has the next
  one; then \<open>Close\<close> panics, although that call would have found the device closed.
\<close>

theorem waitgroup_race:
  "\<exists>t. wt_step\<^sup>*\<^sup>* wt_new t \<and> wClosing t \<and> wUsers t Writer = UEntered \<and> wCloseStep t = Some (Inl WaitGroupReused)"
proof -
  let ?fs = "[userStep Writer DriverDone, userStep Writer DriverDone, wCloseStep, wCloseStep, wCloseStep, userStep Writer DriverDone,
    userStep Writer DriverDone, userStep Writer DriverDone]"
  obtain t where t: "wt_run ?fs wt_new = Some t" "wClosing t" "wUsers t Writer = UEntered" "wCloseStep t = Some (Inl WaitGroupReused)"
    by (simp add: wt_run_def userStep_def wCloseStep_def wt_new_def setUser_def wgDone_def)
  have "wt_step\<^sup>*\<^sup>* wt_new t" using t(1) by (rule wt_run_reachable) auto
  with t show ?thesis by blast
qed

text \<open>The estimate of the rate, when the counters do not overflow: bytes per second since the last estimate, rounded down.\<close>

lemma rate_update_current:
  assumes "rateMeasurementGranularity \<le> now - rNextStartTime r" and "\<not> rChanging r"
    and "unat (rNextByteCount r) + unat n < 2 ^ 64" and "(unat (rNextByteCount r) + unat n) * 1000000000 < 2 ^ 64"
  shows "unat (rCurrent (rate_update now n r)) = (unat (rNextByteCount r) + unat n) * 1000000000 div unat (now - rNextStartTime r)"
proof -
  have "unat (rNextByteCount r + n) = unat (rNextByteCount r) + unat n" using assms(3) by (simp add: unat_word_ariths)
  then have "unat ((rNextByteCount r + n) * 1000000000) = (unat (rNextByteCount r) + unat n) * 1000000000"
    using assms(4) by (simp only: unat_word_ariths) simp
  then show ?thesis using assms(1,2) by (simp add: rate_update_def Let_def unat_div_distrib)
qed

end
