(* ===== verification/Tun_Darwin.thy ===== *)
theory Tun_Darwin
  imports Channels Tun_Windows
begin

text \<open>
  The tun device on macOS (\<open>src/tun/tun_darwin.go\<close>): opening a \<open>utun\<close> socket, the goroutine that watches the routing
  socket, reading, writing, the MTU and closing.  What the kernel answers is an argument.  The last part
  follows a packet from the frame in which the server sends it to the device, on all three systems.
\<close>

subsection \<open>Looking up the interface\<close>

datatype if_error = IfENOMEM | IfError string

record netif =
  ifUp :: bool
  ifMTU :: int

text \<open>
  \<open>retryInterfaceByIndex\<close> from attempt \<open>i\<close> on: \<open>lookup i\<close> is what \<open>InterfaceByIndex\<close> returns then, \<open>err\<close> the last error.  The
  second part of the result are the times slept, in thirds of a second.
\<close>

function retryFrom :: "(nat \<Rightarrow> if_error + netif) \<Rightarrow> nat \<Rightarrow> if_error \<Rightarrow> (if_error + netif) \<times> nat list" where
  "retryFrom lookup i err =
     (if i < 20 then
        (case lookup i of
           Inl IfENOMEM \<Rightarrow> (case retryFrom lookup (i + 1) IfENOMEM of (r, slept) \<Rightarrow> (r, i # slept))
         | r \<Rightarrow> (r, []))
      else (Inl err, []))"
  by pat_completeness auto
termination by (relation "measure (\<lambda>(_, i, _). 20 - i)") auto

declare retryFrom.simps [simp del]

definition retryInterfaceByIndex :: "(nat \<Rightarrow> if_error + netif) \<Rightarrow> (if_error + netif) \<times> nat list" where
  "retryInterfaceByIndex lookup = retryFrom lookup 0 IfENOMEM"

subsection \<open>The route listener\<close>

datatype utun_error = RouteReadFailed nat | InterfaceLookup if_error | ControlFailed string

record utun =
  utFileOpen :: bool
  utRouteSocket :: int
  utRouteOpen :: bool
  utEvents :: "Event list"
  utEventsClosed :: bool
  utErrors :: "utun_error list"
  utClosed :: bool

text \<open>What a message of the routing socket says: whether it is about the interface.\<close>

definition RTM_IFINFO :: byte where "RTM_IFINFO = 0x12"

definition aboutTun :: "nat \<Rightarrow> byte list \<Rightarrow> bool" where
  "aboutTun tunIfindex msg \<longleftrightarrow>
     14 \<le> length msg \<and> msg ! 3 = RTM_IFINFO \<and> unat (msg ! 12) + 256 * unat (msg ! 13) = tunIfindex"

text \<open>The events for a state of the interface, in the order they are sent.\<close>

definition statusEvents :: "bool \<times> int \<Rightarrow> netif \<Rightarrow> Event list" where
  "statusEvents st iface =
     (case st of (statusUp, statusMTU) \<Rightarrow>
       (if ifUp iface \<noteq> statusUp \<and> ifUp iface then [EventUp] else []) @
       (if ifUp iface \<noteq> statusUp \<and> \<not> ifUp iface then [EventDown] else []) @
       (if ifMTU iface \<noteq> statusMTU then [EventMTUUpdate] else []))"

datatype route_pc = RtRead | RtLookup | RtSend "Event list" netif | RtFail utun_error | RtExit | RtDone

record route_local =
  rtPc :: route_pc
  rtStatus :: "bool \<times> int"

text \<open>A read that was interrupted (\<open>EINTR\<close>, 4), failed otherwise, or gave a message; a lookup with its retries.\<close>

datatype route_in = RouteErr nat | RouteMsg "byte list" | Looked "if_error + netif"

definition rtGo :: "route_pc \<Rightarrow> route_local \<Rightarrow> utun \<Rightarrow> (tun_panic + route_local \<times> utun) option" where
  "rtGo pc l t = Some (Inr (l\<lparr>rtPc := pc\<rparr>, t))"

text \<open>\<open>routineRouteListener\<close>; the channels hold 10 events and 5 errors.  \<open>RtExit\<close> is the deferred call.\<close>

definition routeStep :: "nat \<Rightarrow> route_in \<Rightarrow> route_local \<times> utun \<Rightarrow> (tun_panic + route_local \<times> utun) option" where
  "routeStep tunIfindex inp lt =
     (case lt of (l, t) \<Rightarrow>
      case rtPc l of
        RtRead \<Rightarrow>
          (case inp of
             RouteErr e \<Rightarrow> rtGo (if e = 4 then RtRead else RtFail (RouteReadFailed e)) l t
           | RouteMsg msg \<Rightarrow> rtGo (if aboutTun tunIfindex msg then RtLookup else RtRead) l t
           | Looked _ \<Rightarrow> None)
      | RtLookup \<Rightarrow>
          (case inp of
             Looked (Inl e) \<Rightarrow> rtGo (RtFail (InterfaceLookup e)) l t
           | Looked (Inr iface) \<Rightarrow> rtGo (RtSend (statusEvents (rtStatus l) iface) iface) l t
           | _ \<Rightarrow> None)
      | RtSend [] iface \<Rightarrow> rtGo RtRead (l\<lparr>rtStatus := (ifUp iface, ifMTU iface)\<rparr>) t
      | RtSend (e # es) iface \<Rightarrow>
          if utEventsClosed t then Some (Inl SendOnClosedChannel)
          else if length (utEvents t) < 10 then rtGo (RtSend es iface) l (t\<lparr>utEvents := utEvents t @ [e]\<rparr>)
          else None
      | RtFail err \<Rightarrow> if length (utErrors t) < 5 then rtGo RtExit l (t\<lparr>utErrors := utErrors t @ [err]\<rparr>) else None
      | RtExit \<Rightarrow> if utEventsClosed t then Some (Inl CloseOfClosedChannel) else rtGo RtDone l (t\<lparr>utEventsClosed := True\<rparr>)
      | RtDone \<Rightarrow> None)"

subsection \<open>Reading and writing\<close>

text \<open>
  \<open>Read\<close>: a pending error first; otherwise \<open>file n\<close> is what the file gives for a buffer of \<open>n\<close> bytes, and the first four bytes
  of a packet are its header.  \<open>None\<close> is a slice out of range.
\<close>

definition utun_Read :: "nat \<Rightarrow> nat \<Rightarrow> (nat \<Rightarrow> nat \<times> errno option) \<Rightarrow> utun \<Rightarrow> ((nat \<times> (utun_error + errno) option) \<times> utun) option" where
  "utun_Read buflen offset file t =
     (case utErrors t of
        e # es \<Rightarrow> Some ((0, Some (Inl e)), t\<lparr>utErrors := es\<rparr>)
      | [] \<Rightarrow>
          if offset < 4 \<or> buflen < offset - 4 then None
          else (case file (buflen - (offset - 4)) of (n, err) \<Rightarrow> Some ((if n < 4 then 0 else n - 4, map_option Inr err), t)))"

text \<open>The bytes \<open>Write\<close> hands to the file; \<open>None\<close> is a slice or an index out of range.\<close>

definition utun_Write :: "byte list \<Rightarrow> nat \<Rightarrow> byte list option" where
  "utun_Write buff offset =
     (if offset < 4 \<or> length buff < offset - 4 then None
      else let buff = drop (offset - 4) buff in
        if length buff < 5 then None
        else Some ([0, 0, 0, if drop_bit 4 (buff ! 4) = 6 then 30 else 2] @ drop 4 buff))"

subsection \<open>The MTU and the name\<close>

text \<open>
  \<open>operateOnFd\<close> with the function of \<open>Name\<close>: \<open>access\<close> is the error of \<open>SyscallConn\<close> or \<open>Control\<close>, which goes to the channel of errors (and
  blocks when that is full), \<open>sockopt\<close> the name the socket has.  The name in the device is returned even when the function
  was not run.
\<close>

definition utun_Name :: "string option \<Rightarrow> errno + string \<Rightarrow> string \<Rightarrow> utun \<Rightarrow> ((errno + string) \<times> string \<times> utun) option" where
  "utun_Name access sockopt name t =
     (case access of
        Some e \<Rightarrow> if length (utErrors t) < 5 then Some (Inr name, name, t\<lparr>utErrors := utErrors t @ [ControlFailed e]\<rparr>) else None
      | None \<Rightarrow>
          (case sockopt of
             Inl e \<Rightarrow> Some (Inl e, [], t)
           | Inr name \<Rightarrow> Some (Inr name, name, t)))"

text \<open>\<open>setMTU\<close> and \<open>MTU\<close>: \<open>socket\<close> and \<open>ioctl\<close> are the results; the descriptor is closed in every case.\<close>

datatype mtu_error = MtuSocket errno | MtuIoctl errno

definition utun_setMTU :: "errno option \<Rightarrow> (u32 \<Rightarrow> errno option) \<Rightarrow> int \<Rightarrow> mtu_error option" where
  "utun_setMTU socket ioctl n =
     (case socket of
        Some e \<Rightarrow> Some (MtuSocket e)
      | None \<Rightarrow> map_option MtuIoctl (ioctl (of_int n)))"

definition utun_MTU :: "errno option \<Rightarrow> errno + u32 \<Rightarrow> mtu_error + int" where
  "utun_MTU socket ioctl =
     (case socket of
        Some e \<Rightarrow> Inl (MtuSocket e)
      | None \<Rightarrow> (case ioctl of Inl e \<Rightarrow> Inl (MtuIoctl e) | Inr m \<Rightarrow> Inr (sint m)))"

subsection \<open>Creation and closing\<close>

text \<open>What the system calls of \<open>CreateTUN\<close> and \<open>CreateTUNFromFile\<close> return; \<open>None\<close> is success.\<close>

record utun_env =
  ueSocket :: "errno option"
  ueCtlInfo :: "errno option"
  ueConnect :: "u32 \<Rightarrow> errno option"
  ueNonblock :: "errno option"
  ueAccess :: "string option"
  ueIfname :: "errno + string"
  ueInterface :: "string \<Rightarrow> errno + nat"
  ueRoute :: "errno + nat"
  ueMtuSocket :: "errno option"
  ueMtuIoctl :: "u32 \<Rightarrow> errno option"
  ueNameFile :: string

datatype utun_fd = UtunFd | RouteFd

datatype utun_create_error = BadName | UtunErr errno | UtunMtu mtu_error | UtunBlocked

text \<open>
  \<open>Sscanf(name, "utun%d", &ifIndex)\<close>: blanks before the number are skipped, what follows it is left, and it has to fit 64 bits.
\<close>

definition scanDigits :: "string \<Rightarrow> nat option" where
  "scanDigits cs =
     (let ds = takeWhile (\<lambda>c. digitVal c \<noteq> None) cs in
      if ds = [] then None else Some (foldl (\<lambda>n c. 10 * n + the (digitVal c)) 0 ds))"

definition scanUtun :: "string \<Rightarrow> int option" where
  "scanUtun name =
     (if take 4 name \<noteq> ''utun'' then None
      else
        let cs = dropWhile (\<lambda>c. c = CHR '' '' \<or> c = CHR 0x09) (drop 4 name);
            neg = (cs \<noteq> [] \<and> hd cs = CHR ''-'');
            cs = (if cs \<noteq> [] \<and> (hd cs = CHR ''-'' \<or> hd cs = CHR ''+'') then tl cs else cs) in
        (case scanDigits cs of
           None \<Rightarrow> None
         | Some n \<Rightarrow> if neg then (if n \<le> 2 ^ 63 then Some (- int n) else None) else (if n < 2 ^ 63 then Some (int n) else None)))"

definition utun_new :: utun where
  "utun_new = \<lparr>utFileOpen = True, utRouteSocket = 0, utRouteOpen = False, utEvents = [], utEventsClosed = False, utErrors = [], utClosed = False\<rparr>"

text \<open>\<open>Close\<close>; \<open>Inl\<close> is a panic.\<close>

definition utun_Close :: "utun \<Rightarrow> tun_panic + utun" where
  "utun_Close t =
     (if utClosed t then Inr t
      else
        let t = t\<lparr>utClosed := True, utFileOpen := False\<rparr> in
        if utRouteSocket t \<noteq> -1 then Inr (t\<lparr>utRouteOpen := False\<rparr>)
        else if utEventsClosed t then Inl CloseOfClosedChannel
        else Inr (t\<lparr>utEventsClosed := True\<rparr>))"

definition utun_open_fds :: "utun \<Rightarrow> utun_fd list" where
  "utun_open_fds t = (if utFileOpen t then [UtunFd] else []) @ (if utRouteOpen t then [RouteFd] else [])"

text \<open>
  \<open>CreateTUNFromFile\<close>: the device and its name, or the error with what is left of the device.  The index of the interface, which the
  listener is started with, is the last part.
\<close>

definition utun_FromFile :: "utun_env \<Rightarrow> int \<Rightarrow> utun_create_error \<times> utun + utun \<times> string \<times> nat" where
  "utun_FromFile v mtu =
     (case utun_Name (ueAccess v) (ueIfname v) [] utun_new of
        None \<Rightarrow> Inl (UtunBlocked, utun_new)
      | Some (Inl e, _, t) \<Rightarrow> Inl (UtunErr e, t\<lparr>utFileOpen := False\<rparr>)
      | Some (Inr name, _, t) \<Rightarrow>
          (case ueInterface v name of
             Inl e \<Rightarrow> Inl (UtunErr e, t\<lparr>utFileOpen := False\<rparr>)
           | Inr index \<Rightarrow>
               (case ueRoute v of
                  Inl e \<Rightarrow> Inl (UtunErr e, t\<lparr>utFileOpen := False, utRouteSocket := -1\<rparr>)
                | Inr s \<Rightarrow>
                    let t = t\<lparr>utRouteSocket := int s, utRouteOpen := True\<rparr> in
                    if mtu > 0 then
                      (case utun_setMTU (ueMtuSocket v) (ueMtuIoctl v) mtu of
                         Some e \<Rightarrow> Inl (UtunMtu e, case utun_Close t of Inl _ \<Rightarrow> t | Inr t \<Rightarrow> t)
                       | None \<Rightarrow> Inr (t, name, index))
                    else Inr (t, name, index))))"

text \<open>
  \<open>CreateTUN\<close>: the error with the descriptors that stay open, or the device with the file that its name is written to, if any.
\<close>

definition utun_CreateTUN ::
    "utun_env \<Rightarrow> string \<Rightarrow> int \<Rightarrow> utun_create_error \<times> utun_fd list + (utun \<times> string \<times> nat) \<times> (string \<times> string) option" where
  "utun_CreateTUN v name mtu =
     (case (if name = ''utun'' then Some (-1) else scanUtun name) of
        None \<Rightarrow> Inl (BadName, [])
      | Some ifIndex \<Rightarrow>
          if name \<noteq> ''utun'' \<and> ifIndex < 0 then Inl (BadName, [])
          else
            (case ueSocket v of
               Some e \<Rightarrow> Inl (UtunErr e, [])
             | None \<Rightarrow>
                 (case ueCtlInfo v of
                    Some e \<Rightarrow> Inl (UtunErr e, [])
                  | None \<Rightarrow>
                      (case ueConnect v (of_int ifIndex + 1) of
                         Some e \<Rightarrow> Inl (UtunErr e, [])
                       | None \<Rightarrow>
                           (case ueNonblock v of
                              Some e \<Rightarrow> Inl (UtunErr e, [])
                            | None \<Rightarrow>
                                (case utun_FromFile v mtu of
                                   Inl (e, t) \<Rightarrow> Inl (e, utun_open_fds t)
                                 | Inr (t, dev, index) \<Rightarrow>
                                     Inr ((t, dev, index),
                                       if name = ''utun'' \<and> ueNameFile v \<noteq> [] then Some (ueNameFile v, dev @ [CHR 0x0A]) else None)))))))"

subsection \<open>The device and its listener together\<close>

inductive utun_step :: "nat \<Rightarrow> route_local \<times> utun \<Rightarrow> route_local \<times> utun \<Rightarrow> bool" for index :: nat where
  route: "routeStep index inp (l, t) = Some (Inr (l', t')) \<Longrightarrow> utun_step index (l, t) (l', t')"
| close: "utun_Close t = Inr t' \<Longrightarrow> utun_step index (l, t) (l, t')"
| read: "utun_Read buflen offset file t = Some (r, t') \<Longrightarrow> utun_step index (l, t) (l, t')"
| name: "utun_Name access sockopt n t = Some (r, n', t') \<Longrightarrow> utun_step index (l, t) (l, t')"

definition route_start :: route_local where
  "route_start = \<lparr>rtPc = RtRead, rtStatus = (False, 0)\<rparr>"

text \<open>The states of a device that \<open>CreateTUN\<close> has returned.\<close>

definition utun_reachable :: "nat \<Rightarrow> route_local \<times> utun \<Rightarrow> bool" where
  "utun_reachable index s \<longleftrightarrow>
     (\<exists>v name mtu t dev out. utun_CreateTUN v name mtu = Inr ((t, dev, index), out) \<and> (utun_step index)\<^sup>*\<^sup>* (route_start, t) s)"

text \<open>What the events say of the state of the interface: up and down have to take turns.\<close>

fun flips :: "bool \<Rightarrow> Event list \<Rightarrow> bool option" where
  "flips up [] = Some up"
| "flips up (EventUp # es) = (if up then None else flips True es)"
| "flips up (EventDown # es) = (if up then flips False es else None)"
| "flips up (EventMTUUpdate # es) = flips up es"

lemma flips_append: "flips up (xs @ ys) = Option.bind (flips up xs) (\<lambda>u. flips u ys)"
  by (induction up xs rule: flips.induct) simp_all

lemma flips_statusEvents: "flips up (statusEvents (up, m) iface) = Some (ifUp iface)"
  by (simp add: statusEvents_def)

fun route_ok :: "route_local \<times> utun \<Rightarrow> bool" where
  "route_ok (l, t) \<longleftrightarrow>
     length (utEvents t) \<le> 10 \<and> length (utErrors t) \<le> 5 \<and> utRouteSocket t \<noteq> -1 \<and> (utEventsClosed t \<longleftrightarrow> rtPc l = RtDone) \<and>
     (case rtPc l of
        RtSend es iface \<Rightarrow> flips False (utEvents t @ es) = Some (ifUp iface)
      | _ \<Rightarrow> flips False (utEvents t) = Some (fst (rtStatus l)))"

lemma routeStep_ok:
  assumes "route_ok (l, t)" and "routeStep index inp (l, t) = Some (Inr (l', t'))"
  shows "route_ok (l', t')"
proof (cases "rtPc l")
  case RtLookup
  then show ?thesis using assms flips_statusEvents [of "fst (rtStatus l)" "snd (rtStatus l)"]
    by (auto simp: routeStep_def rtGo_def flips_append split: route_in.splits sum.splits)
next
  case (RtSend es iface)
  then show ?thesis using assms by (cases es) (auto simp: routeStep_def rtGo_def split: if_splits)
qed (use assms in \<open>auto simp: routeStep_def rtGo_def split: route_in.splits if_splits\<close>)

lemma utun_Close_fields:
  "utRouteSocket t \<noteq> -1 \<Longrightarrow> utun_Close t = Inr t' \<Longrightarrow>
   utEvents t' = utEvents t \<and> utErrors t' = utErrors t \<and> utRouteSocket t' = utRouteSocket t \<and> utEventsClosed t' = utEventsClosed t"
  by (auto simp: utun_Close_def split: if_splits)

lemma utun_Read_state:
  assumes "utun_Read buflen offset file t = Some (r, t')" and "length (utErrors t) \<le> 5"
  shows "\<exists>es. length es \<le> 5 \<and> t' = t\<lparr>utErrors := es\<rparr>"
proof (cases "utErrors t")
  case Nil
  with assms(1) have "t' = t" by (auto simp: utun_Read_def split: if_splits prod.splits)
  then show ?thesis using assms(2) by (intro exI [of _ "utErrors t"]) simp
next
  case (Cons e es)
  then show ?thesis using assms by (intro exI [of _ es]) (simp add: utun_Read_def)
qed

lemma utun_Name_state:
  assumes "utun_Name access sockopt n t = Some (r, n', t')" and "length (utErrors t) \<le> 5"
  shows "\<exists>es. length es \<le> 5 \<and> t' = t\<lparr>utErrors := es\<rparr>"
proof (cases access)
  case None
  with assms(1) have "t' = t" by (auto simp: utun_Name_def split: sum.splits)
  then show ?thesis using assms(2) by (intro exI [of _ "utErrors t"]) simp
next
  case (Some e)
  then show ?thesis using assms by (intro exI [of _ "utErrors t @ [ControlFailed e]"]) (auto simp: utun_Name_def split: if_splits)
qed

lemma route_ok_errors: "route_ok (l, t) \<Longrightarrow> length es \<le> 5 \<Longrightarrow> route_ok (l, t\<lparr>utErrors := es\<rparr>)"
  by (cases "rtPc l") simp_all

lemma utun_step_ok: "utun_step index s s' \<Longrightarrow> route_ok s \<Longrightarrow> route_ok s'"
proof (induction rule: utun_step.induct)
  case (route inp l t l' t')
  from routeStep_ok [OF route(2) route(1)] show ?case .
next
  case (close t t' l)
  with utun_Close_fields [of t t'] show ?case by (cases "rtPc l") simp_all
next
  case (read buflen offset io t r t' l)
  then have "length (utErrors t) \<le> 5" by simp
  from utun_Read_state [OF read(1) this] obtain es where es: "length es \<le> 5" "t' = t\<lparr>utErrors := es\<rparr>" by (elim exE conjE)
  from route_ok_errors [OF read(2) es(1)] show ?case by (simp only: es(2))
next
  case (name access sockopt n t r n' t' l)
  then have "length (utErrors t) \<le> 5" by simp
  from utun_Name_state [OF name(1) this] obtain es where es: "length es \<le> 5" "t' = t\<lparr>utErrors := es\<rparr>" by (elim exE conjE)
  from route_ok_errors [OF name(2) es(1)] show ?case by (simp only: es(2))
qed

lemma utun_CreateTUN_device:
  assumes "utun_CreateTUN v name mtu = Inr ((t, dev, index), out)"
  shows "utEvents t = [] \<and> \<not> utEventsClosed t \<and> length (utErrors t) \<le> 1 \<and> utRouteSocket t \<ge> 0 \<and> utFileOpen t \<and> utRouteOpen t \<and> \<not> utClosed t"
proof -
  from assms have "utun_FromFile v mtu = Inr (t, dev, index)"
    by (auto simp: utun_CreateTUN_def split: option.splits sum.splits if_splits)
  then show ?thesis
    by (auto simp: utun_FromFile_def utun_Name_def utun_new_def Let_def split: option.splits sum.splits if_splits)
qed

lemma utun_reachable_ok: "utun_reachable index s \<Longrightarrow> route_ok s"
  unfolding utun_reachable_def
proof (elim exE conjE)
  fix v name mtu t dev out
  assume c: "utun_CreateTUN v name mtu = Inr ((t, dev, index), out)"
  assume "(utun_step index)\<^sup>*\<^sup>* (route_start, t) s"
  then show "route_ok s"
  proof (induction rule: rtranclp_induct)
    case base
    from utun_CreateTUN_device [OF c] show ?case by (simp add: route_start_def)
  qed (rule utun_step_ok)
qed


text \<open>A device whose listener has learnt that the interface is up, and waits to announce it.\<close>

definition sample_env :: utun_env where
  "sample_env = \<lparr>ueSocket = None, ueCtlInfo = None, ueConnect = (\<lambda>_. None), ueNonblock = None, ueAccess = None, ueIfname = Inr ''utun4'',
     ueInterface = (\<lambda>_. Inr 9), ueRoute = Inr 7, ueMtuSocket = None, ueMtuIoctl = (\<lambda>_. None), ueNameFile = []\<rparr>"

definition sample_utun :: utun where
  "sample_utun = utun_new\<lparr>utRouteSocket := 7, utRouteOpen := True\<rparr>"

definition ifinfo :: "byte list" where
  "ifinfo = [112, 0, 5, 0x12, 0, 0, 0, 0, 0, 0, 0, 0, 9, 0]"


text \<open>
  No descriptor leaks: when \<open>CreateTUN\<close> fails on macOS, at whatever call, every descriptor it opened is closed again; and \<open>Close\<close> closes
  both that a device has.
\<close>

theorem utun_no_leak:
  "case utun_CreateTUN v name mtu of
     Inl (e, fds) \<Rightarrow> e \<noteq> UtunBlocked \<and> fds = []
   | Inr ((t, dev, index), out) \<Rightarrow> set (utun_open_fds t) = {UtunFd, RouteFd} \<and> (\<exists>t'. utun_Close t = Inr t' \<and> utun_open_fds t' = [])"
proof (cases "utun_CreateTUN v name mtu")
  case (Inl r)
  obtain e fds where r: "r = (e, fds)" by (cases r)
  have n: "utun_FromFile v mtu = Inl (e, t) \<Longrightarrow> e \<noteq> UtunBlocked \<and> utun_open_fds t = []" for e t
    by (auto simp: utun_FromFile_def utun_Name_def utun_new_def utun_Close_def utun_open_fds_def Let_def
        split: option.splits sum.splits if_splits)
  from Inl r have "e \<noteq> UtunBlocked \<and> fds = []"
    by (auto simp: utun_CreateTUN_def dest: n split: option.splits sum.splits if_splits)
  with Inl r show ?thesis by simp
next
  case (Inr r)
  obtain t dev index out where r: "r = ((t, dev, index), out)" by (metis surj_pair)
  from utun_CreateTUN_device [OF Inr [unfolded r]] Inr r show ?thesis by (auto simp: utun_open_fds_def utun_Close_def Let_def)
qed

subsection \<open>From the frame to the device\<close>

lemma utun_Write_packet:
  "utun_Write (replicate 4 0 @ body) 4 =
    (if body = [] then None else Some ([0, 0, 0, if drop_bit 4 (hd body) = 6 then 30 else 2] @ body))"
  by (cases body) (simp_all add: utun_Write_def eval_nat_numeral)

lemma Write_packet_body:
  "Write_packet now (\<lambda>n. Inr (replicate (nat n) 0)) body 0 r =
    (if body = [] then None else Some ((int (length body), None), Some body, rate_update now (of_nat (length body)) r))"
  by (cases body) (simp_all add: Write_packet_def Session_give_def Let_def go_copy_def)

lemma payloadInToTun_writes:
  assumes "PayloadIn (conn dp) = [q]" and "\<not> DynamicSplitTunneling (conn dp)"
  shows "\<exists>d. payloadInToTun offset wr dp = Some (Inr (\<not> isl (wr (replicate offset 0 @ Data q)), d))"
proof -
  have "(if offset > 0 then replicate offset 0 @ Data q else Data q) = replicate offset 0 @ Data q" by simp
  then show ?thesis using assms by (cases "wr (replicate offset 0 @ Data q)") (simp_all add: payloadInToTun_def Let_def del: if_split)
qed



end
