(* ===== verification/Json.thy ===== *)
theory Json
  imports Go_Std
begin

text \<open>
  \<open>encoding/json\<close>, as far as requests go through it: the values of JSON, and the decoding of an object into a struct of strings and
  booleans.  A struct is described by its fields in order, each with the name of its tag and what setting it
  does to the record that models the struct.  The text of a JSON value is left to the library.
\<close>

subsection \<open>Values\<close>

datatype json = JNull | JBool bool | JNum string | JStr string | JArr "json list" | JObj "(string \<times> json) list"

text \<open>What the decoder calls a value in its errors.\<close>

fun valueName :: "json \<Rightarrow> string" where
  "valueName JNull = ''null''"
| "valueName (JBool _) = ''bool''"
| "valueName (JNum _) = ''number''"
| "valueName (JStr _) = ''string''"
| "valueName (JArr _) = ''array''"
| "valueName (JObj _) = ''object''"

subsection \<open>Structs\<close>

datatype 'r setter = SetString "string \<Rightarrow> 'r \<Rightarrow> 'r" | SetBool "bool \<Rightarrow> 'r \<Rightarrow> 'r"

record 'r struct =
  structName :: string
  structPkg :: string
  structFields :: "(string \<times> 'r setter) list"

text \<open>
  The folding under which a key matches a field whose name is not exactly the key: letters without case, and the
  two characters outside ASCII that fold to a letter.
\<close>

fun foldName :: "string \<Rightarrow> string" where
  "foldName (a # b # c # s) =
     (if [a, b, c] = [CHR 0xE2, CHR 0x84, CHR 0xAA] then CHR ''k'' # foldName s
      else if [a, b] = [CHR 0xC5, CHR 0xBF] then CHR ''s'' # foldName (c # s)
      else toLower a # foldName (b # c # s))"
| "foldName [a, b] = (if [a, b] = [CHR 0xC5, CHR 0xBF] then ''s'' else [toLower a, toLower b])"
| "foldName s = map toLower s"

definition findField :: "'r struct \<Rightarrow> string \<Rightarrow> (string \<times> 'r setter) option" where
  "findField T k =
     (case List.find (\<lambda>(n, _). n = k) (structFields T) of
        Some f \<Rightarrow> Some f
      | None \<Rightarrow> List.find (\<lambda>(n, _). foldName n = foldName k) (structFields T))"

definition typeError :: "'r struct \<Rightarrow> string \<Rightarrow> string \<Rightarrow> json \<Rightarrow> string" where
  "typeError T name typ v =
     ''json: cannot unmarshal '' @ valueName v @ '' into Go struct field '' @ structName T @ ''.'' @ name @ '' of type '' @ typ"

text \<open>Setting one field: null leaves it alone, a value of another type is an error.\<close>

fun setField :: "'r struct \<Rightarrow> string \<times> 'r setter \<Rightarrow> json \<Rightarrow> 'r \<Rightarrow> string option \<times> 'r" where
  "setField T (n, _) JNull r = (None, r)"
| "setField T (n, SetString f) (JStr s) r = (None, f s r)"
| "setField T (n, SetBool f) (JBool b) r = (None, f b r)"
| "setField T (n, SetString f) v r = (Some (typeError T n ''string'' v), r)"
| "setField T (n, SetBool f) v r = (Some (typeError T n ''bool'' v), r)"

text \<open>The pairs in order; an unknown key is skipped, and the first error is kept while decoding goes on.\<close>

fun decodePairs :: "'r struct \<Rightarrow> (string \<times> json) list \<Rightarrow> 'r \<Rightarrow> string option \<times> 'r" where
  "decodePairs T [] r = (None, r)"
| "decodePairs T ((k, v) # kvs) r =
     (let (e, r) = (case findField T k of None \<Rightarrow> (None, r) | Some f \<Rightarrow> setField T f v r);
          (e', r) = decodePairs T kvs r
      in (case e of None \<Rightarrow> e' | Some _ \<Rightarrow> e, r))"

text \<open>\<open>json.Unmarshal\<close> into a pointer to a struct.\<close>

definition Unmarshal :: "'r struct \<Rightarrow> json \<Rightarrow> 'r \<Rightarrow> string option \<times> 'r" where
  "Unmarshal T j r =
     (case j of
        JObj kvs \<Rightarrow> decodePairs T kvs r
      | JNull \<Rightarrow> (None, r)
      | v \<Rightarrow> (Some (''json: cannot unmarshal '' @ valueName v @ '' into Go value of type '' @ structPkg T @ ''.'' @ structName T), r))"

text \<open>Into a pointer to a pointer to a struct: null sets the inner pointer to nil.\<close>

definition UnmarshalPtr :: "'r struct \<Rightarrow> json \<Rightarrow> 'r \<Rightarrow> string option \<times> 'r option" where
  "UnmarshalPtr T j r = (if j = JNull then (None, None) else map_prod id Some (Unmarshal T j r))"

subsection \<open>Types\<close>

text \<open>
  Typing of values by a struct, independently of the decoder: null is of every type, an object needs every
  key it shares with the struct to be of the field's type.
\<close>

fun field_typed :: "'r setter \<Rightarrow> json \<Rightarrow> bool" where
  "field_typed _ JNull = True"
| "field_typed (SetString _) v = (\<exists>s. v = JStr s)"
| "field_typed (SetBool _) v = (\<exists>b. v = JBool b)"

inductive typed :: "'r struct \<Rightarrow> json \<Rightarrow> bool" where
  null: "typed T JNull"
| empty: "typed T (JObj [])"
| pair: "typed T (JObj kvs) \<Longrightarrow> (case findField T k of None \<Rightarrow> True | Some (n, s) \<Rightarrow> field_typed s v) \<Longrightarrow> typed T (JObj ((k, v) # kvs))"

inductive_simps typed_simps [simp]: "typed T JNull" "typed T (JBool b)" "typed T (JNum n)" "typed T (JStr s)" "typed T (JArr xs)"
  "typed T (JObj [])" "typed T (JObj (kv # kvs))"

lemma setField_typed: "fst (setField T f v r) = None \<longleftrightarrow> field_typed (snd f) v"
  by (cases f; cases "snd f"; cases v) auto

lemma decodePairs_typed: "fst (decodePairs T kvs r) = None \<longleftrightarrow> typed T (JObj kvs)"
proof (induction kvs arbitrary: r)
  case (Cons kv kvs)
  obtain k v where kv: "kv = (k, v)" by fastforce
  show ?case
  proof (cases "findField T k")
    case None
    then show ?thesis using Cons [of r] by (simp add: kv split: prod.splits)
  next
    case (Some f)
    obtain e r1 where s: "setField T f v r = (e, r1)" by fastforce
    then have "e = None \<longleftrightarrow> field_typed (snd f) v" using setField_typed [of T f v r] by simp
    then show ?thesis using Cons [of r1] Some s by (auto simp: kv split: prod.splits option.splits)
  qed
qed simp

lemma Unmarshal_typed: "fst (Unmarshal T j r) = None \<longleftrightarrow> typed T j"
  by (cases j) (simp_all add: Unmarshal_def decodePairs_typed)

end
