(* ===== verification/Client.thy ===== *)
theory Client
  imports Json Rpc
begin

text \<open>
  The command line client (\<open>src/cmd\<close>): what its commands print and which requests they send, over an arbitrary agent
  (\<open>call\<close>), and the same commands run against the request handler of \<open>Rpc\<close>, with the parameters decoded into its
  records by \<open>encoding/json\<close>.  The web socket and the framing of JSON-RPC are libraries: a call
  fails to connect, waits for ever, or is answered.
\<close>

subsection \<open>The records of the agent as targets of the decoder\<close>

definition configStruct :: "ClientConfig struct" where
  "configStruct = \<lparr>structName = ''ClientConfig'', structPkg = ''base'', structFields =
     [(''log_level'', SetString (\<lambda>v r. r\<lparr>LogLevel := v\<rparr>)), (''log_path'', SetString (\<lambda>v r. r\<lparr>LogPath := v\<rparr>)),
      (''skip_verify'', SetBool (\<lambda>v r. r\<lparr>InsecureSkipVerify := v\<rparr>)), (''cisco_compat'', SetBool (\<lambda>v r. r\<lparr>CiscoCompat := v\<rparr>)),
      (''no_dtls'', SetBool (\<lambda>v r. r\<lparr>NoDTLS := v\<rparr>)), (''agent_name'', SetString (\<lambda>v r. r\<lparr>AgentName := v\<rparr>)),
      (''agent_version'', SetString (\<lambda>v r. r\<lparr>AgentVersion := v\<rparr>)), (''compression'', SetBool (\<lambda>v r. r\<lparr>CfgCompression := v\<rparr>)),
      (''auto_reconnect'', SetBool (\<lambda>v r. r\<lparr>AutoReconnect := v\<rparr>))]\<rparr>"

definition interfaceStruct :: "Interface struct" where
  "interfaceStruct = \<lparr>structName = ''Interface'', structPkg = ''base'', structFields =
     [(''name'', SetString (\<lambda>v r. r\<lparr>IfName := v\<rparr>)), (''ip4'', SetString (\<lambda>v r. r\<lparr>Ip4 := v\<rparr>)),
      (''mac'', SetString (\<lambda>v r. r\<lparr>Mac := v\<rparr>)), (''gateway'', SetString (\<lambda>v r. r\<lparr>Gateway := v\<rparr>))]\<rparr>"

definition profileStruct :: "Profile struct" where
  "profileStruct = \<lparr>structName = ''Profile'', structPkg = ''auth'', structFields =
     [(''host'', SetString (\<lambda>v r. r\<lparr>Host := v\<rparr>)), (''username'', SetString (\<lambda>v r. r\<lparr>Username := v\<rparr>)),
      (''password'', SetString (\<lambda>v r. r\<lparr>Password := v\<rparr>)), (''group'', SetString (\<lambda>v r. r\<lparr>Group := v\<rparr>)),
      (''secret'', SetString (\<lambda>v r. r\<lparr>SecretKey := v\<rparr>)), (''Initialized'', SetBool (\<lambda>v r. r\<lparr>Initialized := v\<rparr>)),
      (''AppVersion'', SetString (\<lambda>v r. r\<lparr>AppVersion := v\<rparr>)), (''PlatformName'', SetString (\<lambda>v r. r\<lparr>PlatformName := v\<rparr>)),
      (''HostWithPort'', SetString (\<lambda>v r. r\<lparr>HostWithPort := v\<rparr>)), (''Scheme'', SetString (\<lambda>v r. r\<lparr>Scheme := v\<rparr>)),
      (''AuthPath'', SetString (\<lambda>v r. r\<lparr>AuthPath := v\<rparr>)), (''MacAddress'', SetString (\<lambda>v r. r\<lparr>MacAddress := v\<rparr>)),
      (''TunnelGroup'', SetString (\<lambda>v r. r\<lparr>TunnelGroup := v\<rparr>)), (''GroupAlias'', SetString (\<lambda>v r. r\<lparr>GroupAlias := v\<rparr>)),
      (''ConfigHash'', SetString (\<lambda>v r. r\<lparr>ConfigHash := v\<rparr>)), (''ComputerName'', SetString (\<lambda>v r. r\<lparr>ComputerName := v\<rparr>)),
      (''DeviceType'', SetString (\<lambda>v r. r\<lparr>DeviceType := v\<rparr>)), (''PlatformVersion'', SetString (\<lambda>v r. r\<lparr>PlatformVersion := v\<rparr>)),
      (''UniqueId'', SetString (\<lambda>v r. r\<lparr>UniqueId := v\<rparr>))]\<rparr>"

definition params_of :: "json \<Rightarrow> params" where
  "params_of j = \<lparr>pProfile = Unmarshal profileStruct j, pConfig = UnmarshalPtr configStruct j, pInterface = Unmarshal interfaceStruct j\<rparr>"

subsection \<open>The commands\<close>

record flags =
  flServer :: string
  flUser :: string
  flPassword :: string
  flGroup :: string
  flKey :: string
  flLogLevel :: string
  flLogPath :: string
  flNoCompression :: bool
  flNoReconnect :: bool

text \<open>What a command shows: the help text, the prompt for a password, a line, or a result printed as JSON.\<close>

datatype shown = Usage | Prompt | Line string | Result reply

type_synonym 's agent_call = "nat \<Rightarrow> string \<Rightarrow> json \<Rightarrow> 's \<Rightarrow> ((string + reply) \<times> 's) option"

definition codeText :: string where
  "codeText = ''jsonrpc2: code 1 message: ''"

definition CutPrefix :: "string \<Rightarrow> string \<Rightarrow> string" where
  "CutPrefix s p = (if take (length p) s = p then drop (length p) s else s)"

text \<open>The parameters as maps, which are written with their keys in order.\<close>

definition configParams :: "flags \<Rightarrow> json" where
  "configParams f =
     JObj ((if flNoReconnect f then [(''auto_reconnect'', JBool False)] else []) @
           (if flNoCompression f then [(''compression'', JBool False)] else []) @
           [(''log_level'', JStr (flLogLevel f)), (''log_path'', JStr (flLogPath f))])"

definition connectParams :: "flags \<Rightarrow> string \<Rightarrow> json" where
  "connectParams f pw =
     JObj [(''group'', JStr (flGroup f)), (''host'', JStr (flServer f)), (''password'', JStr pw), (''secret'', JStr (flKey f)),
           (''username'', JStr (flUser f))]"

text \<open>The common end of the commands: an error without the text the library puts in front of it, or the result.\<close>

definition show_answer :: "(string + reply) \<Rightarrow> shown" where
  "show_answer r = (case r of Inl e \<Rightarrow> Line (CutPrefix e codeText) | Inr x \<Rightarrow> Result x)"

text \<open>\<open>sslcon connect\<close>; \<open>readPassword\<close> is what the terminal gives.  \<open>None\<close>: the command waits for ever.\<close>

definition connectCmd :: "'s agent_call \<Rightarrow> (string + string) \<Rightarrow> flags \<Rightarrow> 's \<Rightarrow> (shown list \<times> 's) option" where
  "connectCmd call readPassword f s =
     (if flServer f = [] \<or> flUser f = [] then Some ([Usage], s)
      else
        let prompt = (if flPassword f = [] then [Prompt] else []) in
        case (if flPassword f = [] then readPassword else Inr (flPassword f)) of
          Inl e \<Rightarrow> Some (prompt @ [Line (''Error reading password: '' @ e)], s)
        | Inr pw \<Rightarrow>
            if pw = [] then Some (prompt, s)
            else
              (case call 1 ''config'' (configParams f) s of
                 None \<Rightarrow> None
               | Some (Inl e, s) \<Rightarrow> Some (prompt @ [show_answer (Inl e)], s)
               | Some (Inr _, s) \<Rightarrow>
                   (case call 2 ''connect'' (connectParams f pw) s of
                      None \<Rightarrow> None
                    | Some (r, s) \<Rightarrow> Some (prompt @ [show_answer r], s))))"

definition disconnectCmd :: "'s agent_call \<Rightarrow> 's \<Rightarrow> (shown list \<times> 's) option" where
  "disconnectCmd call s = map_option (\<lambda>(r, s). ([show_answer r], s)) (call 3 ''disconnect'' JNull s)"

definition statusCmd :: "'s agent_call \<Rightarrow> 's \<Rightarrow> (shown list \<times> 's) option" where
  "statusCmd call s = map_option (\<lambda>(r, s). ([show_answer r], s)) (call 0 ''status'' JNull s)"

definition versionCmd :: "build \<Rightarrow> 's agent_call \<Rightarrow> 's \<Rightarrow> (shown list \<times> 's) option" where
  "versionCmd b call s =
     (let local = [Line (''sslcon client: '' @ bVersion b)] @ (if bCommit b \<noteq> [] then [Line (''commit: '' @ bCommit b)] else []) @
            [Line (''go: '' @ bGoVersion b)] in
      map_option (\<lambda>(r, s). (local @ (case r of Inl e \<Rightarrow> [Line (''vpnagent: not reachable: '' @ e)]
          | Inr x \<Rightarrow> [Line ''vpnagent running:'', Result x]), s)) (call 8 ''version'' JNull s))"

subsection \<open>Calls to the agent\<close>

text \<open>
  \<open>rpcCall\<close> against the handler: \<open>dial\<close> is the error of the connection, if any.  A handler that panicked sends no reply.  A
  \<open>DISCONNECT\<close> that ends a session is answered by \<open>monitor\<close>, which sends every client a message under the number of
  the method it stands for; the client of this call is the last in the list.
\<close>

definition rpcCall :: "build \<Rightarrow> net \<Rightarrow> string option \<Rightarrow> rpc_state agent_call" where
  "rpcCall b n dial num name j s =
     (case dial of
        Some e \<Rightarrow> Some (Inl e, s)
      | None \<Rightarrow>
          (case Handle b n num name (Some (params_of j)) s of
             Some (Inr (rs, gs, mon, s')) \<Rightarrow>
               (case rs of
                  Error m # _ \<Rightarrow> Some (Inl (codeText @ m), s')
                | r # _ \<Rightarrow> Some (Inr r, s')
                | [] \<Rightarrow>
                    (case last (fst (monitor (addClient 0 s'))) of (c, m, t) \<Rightarrow>
                       if m = method_of num then Some (Inr (Text t), s') else None))
           | _ \<Rightarrow> None))"

subsection \<open>What a connection leaves alone\<close>

text \<open>The configuration, up to the name sent to the server, and the credentials.\<close>

definition settings :: "agent \<Rightarrow> ClientConfig \<times> string \<times> string \<times> string \<times> string \<times> string" where
  "settings ag = ((Cfg ag)\<lparr>AgentName := []\<rparr>, Host (Prof ag), Username (Prof ag), Password (Prof ag), Group (Prof ag), SecretKey (Prof ag))"

lemma settings_simps [simp]:
  "settings (ag\<lparr>ConnOpen := b\<rparr>) = settings ag" "settings (ag\<lparr>world_of := w\<rparr>) = settings ag" "settings (ag\<lparr>sent := rs\<rparr>) = settings ag"
  "settings (ag\<lparr>cookies := cs\<rparr>) = settings ag" "settings (ag\<lparr>WebVpnCookie := t\<rparr>) = settings ag" "settings (ag\<lparr>LocalInterface := i\<rparr>) = settings ag"
  "settings (ag\<lparr>tunHeaders := h\<rparr>) = settings ag"
  by (simp_all add: settings_def)

lemma settings_Cfg: "c\<lparr>AgentName := []\<rparr> = (Cfg ag)\<lparr>AgentName := []\<rparr> \<Longrightarrow> settings (ag\<lparr>Cfg := c\<rparr>) = settings ag"
  by (simp add: settings_def)

lemma SetCommonHeader_cfg: "(fst (SetCommonHeader c h))\<lparr>AgentName := []\<rparr> = c\<lparr>AgentName := []\<rparr>"
  by (simp add: SetCommonHeader_def Let_def)

lemma tplPost_settings:
  assumes "tplPost un init path out ag = (r, ag')"
  shows "settings ag' = settings ag"
proof -
  obtain cfg req where t: "tplRequest init path ag = (cfg, req)" by fastforce
  then have "cfg\<lparr>AgentName := []\<rparr> = (Cfg ag)\<lparr>AgentName := []\<rparr>" using SetCommonHeader_cfg [of "Cfg ag" "\<lambda>_. []"]
    by (simp add: tplRequest_def Let_def split: prod.splits)
  from settings_Cfg [OF this] have "settings (ag\<lparr>Cfg := cfg, sent := x\<rparr>) = settings ag" for x by (simp add: settings_def)
  then show ?thesis using assms t
    by (auto simp: tplPost_def Let_def split: post_outcome.splits prod.splits option.splits if_splits)
qed

lemma InitAuth_settings:
  assumes "InitAuth un d out ag = (r, ag')"
  shows "settings ag' = settings ag"
proof (cases d)
  case None
  let ?ag = "ag\<lparr>WebVpnCookie := [], cookies := [], ConnOpen := True,
      Prof := (Prof ag)\<lparr>AppVersion := AgentVersion (Cfg ag), MacAddress := Mac (LocalInterface ag)\<rparr>\<rparr>"
  obtain x ag1 where t: "tplPost un True [] out ?ag = (x, ag1)" by fastforce
  have "settings ag1 = settings ag" using tplPost_settings [OF t] by (simp add: settings_def)
  then show ?thesis using assms None t by (cases x) (auto simp: InitAuth_def Let_def settings_def split: if_splits)
qed (use assms in \<open>auto simp: InitAuth_def settings_def\<close>)

lemma PasswordAuth_settings:
  assumes "PasswordAuth un f out1 out2 ag = (r, ag')"
  shows "settings ag' = settings ag"
  using assms by (auto simp: PasswordAuth_def Let_def dest!: tplPost_settings split: prod.splits sum.splits if_splits)

lemma abortTunnel_settings: "abortTunnel err gs a ag = Inr (r, gs', ag') \<Longrightarrow> settings ag' = settings ag"
  by (cases "ConnSession_Close a (world_of ag)") (auto simp: abortTunnel_def settings_def)

lemma SetupTunnel_settings:
  assumes "SetupTunnel e ag = Inr (r, gs, ag')"
  shows "settings ag' = settings ag"
proof -
  let ?ag1 = "initTunnel (secret e) ag"
  obtain cfg req where c: "connectRequest ?ag1 = (cfg, req)" by fastforce
  then have "cfg\<lparr>AgentName := []\<rparr> = (Cfg ag)\<lparr>AgentName := []\<rparr>" using SetCommonHeader_cfg [of "Cfg ag" "\<lambda>_. []"]
    by (simp add: connectRequest_def initTunnel_world Let_def split: prod.splits)
  then have s: "settings (?ag1\<lparr>Cfg := cfg, sent := x\<rparr>) = settings ag" for x by (simp add: settings_def initTunnel_world)
  show ?thesis using assms c s
    by (auto simp: SetupTunnel_def Let_def dest!: abortTunnel_settings split: option.splits sum.splits prod.splits if_splits)
qed

lemma GetLocalInterface_settings: "GetLocalInterface n ag = (r, ag') \<Longrightarrow> settings ag' = settings ag"
  by (auto simp: GetLocalInterface_def split: sum.splits)

lemma authAndTunnel_settings:
  assumes "authAndTunnel n rc ag = Inr (r, gs, ag')"
  shows "settings ag' = settings ag"
  using assms
  by (auto simp: authAndTunnel_def rpc_SetupTunnel_def
      dest!: InitAuth_settings PasswordAuth_settings SetupTunnel_settings GetLocalInterface_settings split: prod.splits option.splits if_splits)

lemma Connect_settings:
  assumes "Connect n ag = Inr (r, gs, ag')"
  shows "settings ag' = settings ag"
proof -
  let ?ag = "ag\<lparr>Prof := (Prof ag)\<lparr>HostWithPort := hostWithPort (Host (Prof ag))\<rparr>\<rparr>"
  have "settings ?ag = settings ag" by (simp add: settings_def)
  then show ?thesis using assms
    by (auto simp: Connect_def Let_def dest!: GetLocalInterface_settings authAndTunnel_settings split: prod.splits option.splits if_splits)
qed

lemma DisConnect_settings: "DisConnect ag = Inr (r, ag') \<Longrightarrow> settings ag' = settings ag"
  by (auto simp: DisConnect_def Let_def res_bind_def split: option.splits sum.splits)

lemma setupFailed_settings: "setupFailed e gs ag s = Inr (rs, gs', mon, s') \<Longrightarrow> settings (agent_of s') = settings ag"
  by (auto simp: setupFailed_def res_bind_def dest!: DisConnect_settings split: sum.splits)

text \<open>A connection keeps the settings the request decoded to; the other requests of the client keep them all.\<close>

lemma handleConnect_settings:
  assumes "handleConnect n (Some q) s = Inr (rs, gs, mon, s')"
  shows "settings (agent_of s') = settings (if autoReconnecting s \<or> current s \<noteq> None then agent_of s
    else (agent_of s)\<lparr>Prof := snd (pProfile q (Prof (agent_of s)))\<rparr>)"
  using assms
  by (auto simp: handleConnect_def Let_def res_bind_def setAgent_def dest!: Connect_settings setupFailed_settings
      split: prod.splits option.splits sum.splits if_splits)

lemma Handle_settings:
  assumes "Handle b n num name p s = Some (Inr (rs, gs, mon, s'))" and "method_of num \<notin> {CONNECT, CONFIG}"
  shows "settings (agent_of s') = settings (agent_of s)"
proof (cases "method_of num")
  case RECONNECT
  then show ?thesis using assms(1)
    by (auto simp: Handle_def handleReconnect_def rpc_SetupTunnel_def res_bind_def dest!: SetupTunnel_settings GetLocalInterface_settings
        setupFailed_settings split: option.splits prod.splits sum.splits if_splits)
next
  case DISCONNECT
  then show ?thesis using assms(1)
    by (auto simp: Handle_def handleDisconnect_def res_bind_def dest!: DisConnect_settings split: sum.splits if_splits)
next
  case INTERFACE
  then show ?thesis using assms(1)
    by (auto simp: Handle_def handleInterface_def Let_def settings_def setAgent_def split: option.splits prod.splits)
qed (use assms in \<open>auto simp: Handle_def handleStat_def handleStatus_def statusReply_def split: option.splits if_splits\<close>)

subsection \<open>The messages of the client\<close>

definition with_flags :: "flags \<Rightarrow> ClientConfig \<Rightarrow> ClientConfig" where
  "with_flags f c = c\<lparr>LogLevel := flLogLevel f, LogPath := flLogPath f, CfgCompression := CfgCompression c \<and> \<not> flNoCompression f,
     AutoReconnect := AutoReconnect c \<and> \<not> flNoReconnect f\<rparr>"

lemma configParams_decode: "UnmarshalPtr configStruct (configParams f) c = (None, Some (with_flags f c))"
  by (simp add: UnmarshalPtr_def Unmarshal_def configParams_def configStruct_def findField_def with_flags_def)

lemma connectParams_decode:
  "Unmarshal profileStruct (connectParams f pw) p =
     (None, p\<lparr>Host := flServer f, Username := flUser f, Password := pw, Group := flGroup f, SecretKey := flKey f\<rparr>)"
  by (simp add: Unmarshal_def connectParams_def profileStruct_def findField_def)

lemma CutPrefix_append [simp]: "CutPrefix (p @ s) p = s"
  by (simp add: CutPrefix_def)

lemma rpcCall_config:
  obtains lg where "rpcCall b n None 1 ''config'' (configParams f) s =
    Some (Inr (Text ''ready to connect''), (setAgent ((agent_of s)\<lparr>Cfg := with_flags f (Cfg (agent_of s))\<rparr>) s)\<lparr>log_of := lg\<rparr>)"
proof -
  from InitLog_total [of "logFs n" "with_flags f (Cfg (agent_of s))" "log_of s"] obtain out lg where
    "InitLog (logFs n) (with_flags f (Cfg (agent_of s))) (Some (log_of s)) = Some (out, lg)" by blast
  then have "rpcCall b n None 1 ''config'' (configParams f) s =
      Some (Inr (Text ''ready to connect''), (setAgent ((agent_of s)\<lparr>Cfg := with_flags f (Cfg (agent_of s))\<rparr>) s)\<lparr>log_of := lg\<rparr>)"
    by (simp add: rpcCall_def Handle_def method_of_def handleConfig_def params_of_def configParams_decode)
  then show ?thesis by (rule that)
qed

text \<open>A request to connect that finds no session: what is answered, and whether there is one then.\<close>

lemma handleConnect_cases:
  assumes "world_ok (world_of (agent_of s))" and "current s = None" and "\<not> autoReconnecting s" and "fst (pProfile q (Prof (agent_of s))) = None"
  obtains (opened) gs s' where "handleConnect n (Some q) s = Inr ([Text (''connected to '' @ Host (Prof (agent_of s')))], gs, True, s')"
      "current s' \<noteq> None" "\<not> ActiveClose (sess_of (agent_of s'))"
  | (failed) e gs s' where "handleConnect n (Some q) s = Inr ([Error e], gs, False, s')" "current s' = None" "ActiveClose (sess_of (agent_of s'))"
proof -
  let ?ag = "(agent_of s)\<lparr>Prof := snd (pProfile q (Prof (agent_of s)))\<rparr>"
  let ?s = "\<lambda>ag. s\<lparr>connectedStr := ''connected to '' @ Host (Prof ag), disconnectedStr := ''disconnected from '' @ Host (Prof ag)\<rparr>"
  let ?k = "\<lambda>gs ag. Inr ([Text (connectedStr (?s ag))], gs, True, setAgent ag (?s ag))"
  have h: "handleConnect n (Some q) s =
      res_bind (Connect n ?ag) (\<lambda>(r, gs, ag). case r of Some e \<Rightarrow> setupFailed e gs ag s | None \<Rightarrow> ?k gs ag)"
    unfolding handleConnect_def Let_def using assms by (cases "pProfile q (Prof (agent_of s))") simp
  have w: "world_ok (world_of ?ag)" and c: "CSess (sess_of ?ag) = None" using assms by (simp_all add: current_def)
  from w c show ?thesis
  proof (cases rule: connect.attempt [where ag = ?ag and n = n and s = s and k = ?k])
    case (opened gs ag' a)
    have "handleConnect n (Some q) s = Inr ([Text (connectedStr (?s ag'))], gs, True, setAgent ag' (?s ag'))"
      using h opened(1) by (rule trans)
    with opened(2-) show ?thesis by (intro that(1) [of "setAgent ag' (?s ag')" gs]) simp_all
  next
    case (failed e gs ag')
    have "handleConnect n (Some q) s = Inr ([Error e], gs, False, setAgent ag' s)" using h failed(1) by (rule trans)
    with failed(2-) show ?thesis by (intro that(2) [of e gs "setAgent ag' s"]) simp_all
  qed
qed

text \<open>The command always ends, on a consistent agent.\<close>

lemma connectCmd_answers:
  assumes "world_ok (world_of (agent_of s))"
  shows "\<exists>out s'. connectCmd (rpcCall b n None) rp f s = Some (out, s') \<and> world_ok (world_of (agent_of s'))"
proof -
  have call: "\<exists>r s'. rpcCall b n None 2 ''connect'' (connectParams f pw) s1 = Some (r, s') \<and> world_ok (world_of (agent_of s'))"
    if "world_ok (world_of (agent_of s1))" for s1 pw
  proof -
    from handleConnect_served [OF that, of n "params_of (connectParams f pw)"] obtain rs gs mon s' where
      h: "handleConnect n (Some (params_of (connectParams f pw))) s1 = Inr (rs, gs, mon, s')" "served CONNECT s1 rs mon s'" by blast
    then obtain r where "rs = [r]" by (auto simp: served_def length_Suc_conv)
    moreover have "world_ok (world_of (agent_of s'))" using h(2) by (simp add: served_def)
    ultimately show ?thesis using h(1) by (cases r) (simp_all add: rpcCall_def Handle_def method_of_def)
  qed
  from rpcCall_config [of b n f s] obtain lg where conf: "rpcCall b n None 1 ''config'' (configParams f) s =
    Some (Inr (Text ''ready to connect''), (setAgent ((agent_of s)\<lparr>Cfg := with_flags f (Cfg (agent_of s))\<rparr>) s)\<lparr>log_of := lg\<rparr>)" .
  let ?s = "(setAgent ((agent_of s)\<lparr>Cfg := with_flags f (Cfg (agent_of s))\<rparr>) s)\<lparr>log_of := lg\<rparr>"
  have "world_ok (world_of (agent_of ?s))" using assms by simp
  note c = call [OF this]
  show ?thesis
  proof (cases "flPassword f = []")
    case True
    show ?thesis
    proof (cases rp)
      case (Inr pw)
      with c [of pw] True assms conf show ?thesis by (auto simp: connectCmd_def Let_def)
    qed (use True assms in \<open>auto simp: connectCmd_def Let_def\<close>)
  next
    case False
    with c [of "flPassword f"] assms conf show ?thesis by (auto simp: connectCmd_def Let_def)
  qed
qed

subsection \<open>Whatever the client does\<close>

inductive cli_step :: "build \<Rightarrow> rpc_state \<Rightarrow> rpc_state \<Rightarrow> bool" for b where
  connect: "connectCmd (rpcCall b n dial) readPassword f s = Some (out, s') \<Longrightarrow> cli_step b s s'"
| disconnect: "disconnectCmd (rpcCall b n dial) s = Some (out, s') \<Longrightarrow> cli_step b s s'"
| status: "statusCmd (rpcCall b n dial) s = Some (out, s') \<Longrightarrow> cli_step b s s'"
| version: "versionCmd b (rpcCall b n dial) s = Some (out, s') \<Longrightarrow> cli_step b s s'"

lemma rpcCall_handled:
  assumes "rpcCall b n dial num name j s = Some (r, s')"
  obtains "s' = s" | rs gs mon where "Handle b n num name (Some (params_of j)) s = Some (Inr (rs, gs, mon, s'))"
  using assms by (auto simp: rpcCall_def split: option.splits sum.splits prod.splits list.splits reply.splits if_splits)

lemma no_compression_iff: "CfgCompression (Cfg ag) = CfgCompression (fst (settings ag))"
  by (simp add: settings_def)

lemma rpcCall_no_compression:
  assumes "rpcCall b n dial num name j s = Some (r, s')" and "method_of num = CONFIG \<Longrightarrow> \<exists>f. j = configParams f"
    and "\<not> CfgCompression (Cfg (agent_of s))"
  shows "\<not> CfgCompression (Cfg (agent_of s'))"
  using assms(1)
proof (cases rule: rpcCall_handled)
  case (2 rs gs mon)
  consider "method_of num \<notin> {CONNECT, CONFIG}" | "method_of num = CONNECT" | "method_of num = CONFIG" by blast
  then show ?thesis
  proof cases
    case 1
    from Handle_settings [OF 2 1] assms(3) show ?thesis by (simp add: no_compression_iff)
  next
    case c: 2
    with 2 have "handleConnect n (Some (params_of j)) s = Inr (rs, gs, mon, s')" by (simp add: Handle_def)
    from handleConnect_settings [OF this] have "fst (settings (agent_of s')) = fst (settings (agent_of s))"
      by (simp add: settings_def split: if_splits)
    with assms(3) show ?thesis by (simp add: no_compression_iff)
  next
    case 3
    with assms(2) obtain f where "j = configParams f" by blast
    with 2 3 assms(3) show ?thesis
      by (auto simp: Handle_def handleConfig_def params_of_def configParams_decode with_flags_def setAgent_def split: option.splits)
  qed
qed (use assms(3) in simp)

lemma cli_step_no_compression:
  assumes "cli_step b s s'" and "\<not> CfgCompression (Cfg (agent_of s))"
  shows "\<not> CfgCompression (Cfg (agent_of s'))"
  using assms
proof (induction rule: cli_step.induct)
  case (connect n dial readPassword f s out s')
  then show ?case
    by (auto simp: connectCmd_def Let_def method_of_def dest!: rpcCall_no_compression split: if_splits sum.splits option.splits)
qed (auto simp: disconnectCmd_def statusCmd_def versionCmd_def Let_def method_of_def dest!: rpcCall_no_compression)

subsection \<open>Properties\<close>

text \<open>
  C12. What the client and the agent say to each other is well typed: the parameters the client sends are of the types of the
  agent's records, decoding them sets the fields the flags stand for and no other, and a value fails to
  decode exactly if it is not of the type of the record.
\<close>

theorem messages_typed:
  "typed profileStruct (connectParams f pw) \<and> typed configStruct (configParams f) \<and>
   Unmarshal profileStruct (connectParams f pw) p =
     (None, p\<lparr>Host := flServer f, Username := flUser f, Password := pw, Group := flGroup f, SecretKey := flKey f\<rparr>) \<and>
   UnmarshalPtr configStruct (configParams f) c =
     (None, Some (c\<lparr>LogLevel := flLogLevel f, LogPath := flLogPath f, CfgCompression := CfgCompression c \<and> \<not> flNoCompression f,
        AutoReconnect := AutoReconnect c \<and> \<not> flNoReconnect f\<rparr>)) \<and>
   (fst (Unmarshal profileStruct j p) = None) = typed profileStruct j \<and> (fst (Unmarshal configStruct j c) = None) = typed configStruct j \<and>
   (fst (Unmarshal interfaceStruct j i) = None) = typed interfaceStruct j"
proof (intro conjI)
  have "fst (Unmarshal profileStruct (connectParams f pw) p) = None" by (simp add: connectParams_decode)
  then show "typed profileStruct (connectParams f pw)" by (simp add: Unmarshal_typed)
  have "fst (Unmarshal configStruct (configParams f) c) = None"
    by (simp add: Unmarshal_def configParams_def configStruct_def findField_def)
  then show "typed configStruct (configParams f)" by (simp add: Unmarshal_typed)
qed (simp_all add: connectParams_decode configParams_decode with_flags_def Unmarshal_typed)


definition sample_flags :: flags where
  "sample_flags = \<lparr>flServer = ''vpn.example'', flUser = ''ann'', flPassword = ''pw'', flGroup = [], flKey = [], flLogLevel = ''info'',
     flLogPath = ''/tmp'', flNoCompression = True, flNoReconnect = False\<rparr>"


text \<open>
  C26. A flag of one command outlives it: after \<open>sslcon connect --no-compression\<close> the agent offers no compression in any later
  connection either, whatever the commands of the client in between and even if they are given without the
  flag, since the client only ever sends the value \<open>false\<close> and the agent decodes into the configuration it has.
\<close>

theorem no_compression_sticks:
  assumes "flNoCompression f" and "flServer f \<noteq> []" and "flUser f \<noteq> []" and "flPassword f \<noteq> []"
    and "connectCmd (rpcCall b n None) rp f s = Some (out, s1)" and "(cli_step b)\<^sup>*\<^sup>* s1 s2"
  shows "\<not> CfgCompression (Cfg (agent_of s2)) \<and> tunHeaders (initTunnel key (agent_of s2)) ''X-CSTP-Accept-Encoding'' = None \<and>
    tunHeaders (initTunnel key (agent_of s2)) ''X-DTLS-Accept-Encoding'' = None"
proof -
  from rpcCall_config [of b n f s] obtain lg where conf: "rpcCall b n None 1 ''config'' (configParams f) s =
    Some (Inr (Text ''ready to connect''), (setAgent ((agent_of s)\<lparr>Cfg := with_flags f (Cfg (agent_of s))\<rparr>) s)\<lparr>log_of := lg\<rparr>)" .
  let ?s = "(setAgent ((agent_of s)\<lparr>Cfg := with_flags f (Cfg (agent_of s))\<rparr>) s)\<lparr>log_of := lg\<rparr>"
  obtain r where "rpcCall b n None 2 ''connect'' (connectParams f (flPassword f)) ?s = Some (r, s1)"
    using assms(2-5) conf by (auto simp: connectCmd_def Let_def split: option.splits)
  then have "\<not> CfgCompression (Cfg (agent_of s1))"
    by (rule rpcCall_no_compression) (use assms(1) in \<open>simp_all add: method_of_def with_flags_def\<close>)
  with assms(6) have c: "\<not> CfgCompression (Cfg (agent_of s2))"
    by (induction rule: rtranclp_induct) (auto dest: cli_step_no_compression)
  then show ?thesis by (simp add: initTunnel_def applyCompressionHeaders_def Let_def)
qed

theorem no_compression_sticks_witness:
  "\<exists>out s1 out2 s2. connectCmd (rpcCall sample_build sample_net None) (Inl []) sample_flags (sample_state False) = Some (out, s1) \<and>
     connectCmd (rpcCall sample_build sample_net None) (Inl []) (sample_flags\<lparr>flNoCompression := False\<rparr>) s1 = Some (out2, s2) \<and>
     \<not> CfgCompression (Cfg (agent_of s2))"
proof -
  from connectCmd_answers [OF sample_state_ok(1)] obtain out s1 where c1:
    "connectCmd (rpcCall sample_build sample_net None) (Inl []) sample_flags (sample_state False) = Some (out, s1)" "world_ok (world_of (agent_of s1))"
    by blast
  from connectCmd_answers [OF this(2)] obtain out2 s2 where c2:
    "connectCmd (rpcCall sample_build sample_net None) (Inl []) (sample_flags\<lparr>flNoCompression := False\<rparr>) s1 = Some (out2, s2)" by blast
  from cli_step.connect [OF c2] have "(cli_step sample_build)\<^sup>*\<^sup>* s1 s2" by blast
  from no_compression_sticks [OF _ _ _ _ c1(1) this] c1(1) c2 show ?thesis by (auto simp: sample_flags_def)
qed

end
