(* ===== verification/Loader.thy ===== *)
theory Loader
  imports Sslcon_Prelude
begin

text \<open>
  The machine the module loader of \<open>src/wintun/memmod\<close> works on: the memory of the process, the module that is being loaded, the
  package variables, and a record of the system calls made.  Windows is a parameter
  (\<open>winapi\<close>): what a call returns and does to the memory may depend on everything that happened before.  The
  operations of the loader are sequenced by a monad: they may not return, stop the process by a fault, return an error, or
  return a value.
\<close>

named_theorems keeps_intros "operations that keep a property of the state of the loader"

subsection \<open>State\<close>

datatype fault = AccessViolation u64 | IndexOutOfRange | LenOutOfRange | DivideByZero

text \<open>\<open>None\<close>: there is no memory at the address, or it may not be accessed.\<close>

type_synonym memory = "u64 \<Rightarrow> byte option"

record Module =
  headers :: u64
  codeBase :: u64
  modules :: "u64 list"
  initialized :: bool
  isDLL :: bool
  isRelocated :: bool
  nameExports :: "(string \<rightharpoonup> u16) option"
  entry :: u64
  blockedMemory :: "u64 list"

text \<open>The calls of the system that matter to somebody else; allocation with its arguments and result.\<close>

datatype event =
    EvAlloc u64 u64 u32 u32 "u64 option"
  | EvFree u64 u64 u32
  | EvProtect u64 u64 u32
  | EvLoadLibrary string "u64 option"
  | EvFreeLibrary u64
  | EvAddFunctionTable u64 u32 u64
  | EvCall u64 u64 u64

record loader =
  mem :: memory
  trace :: "event list"
  this :: Module
  loadedAddressRanges :: "(u64 \<times> u64) list"
  hookResult :: "string option option"

record winapi =
  wAlloc :: "loader \<Rightarrow> u64 \<Rightarrow> u64 \<Rightarrow> u32 \<Rightarrow> u32 \<Rightarrow> (string + u64) \<times> memory"
  wFree :: "loader \<Rightarrow> u64 \<Rightarrow> u64 \<Rightarrow> u32 \<Rightarrow> memory"
  wProtect :: "loader \<Rightarrow> u64 \<Rightarrow> u64 \<Rightarrow> u32 \<Rightarrow> (string + u32) \<times> memory"
  wLoadLibrary :: "loader \<Rightarrow> string \<Rightarrow> (string + u64) \<times> memory"
  wFreeLibrary :: "loader \<Rightarrow> u64 \<Rightarrow> memory"
  wProcAddress :: "loader \<Rightarrow> u64 \<Rightarrow> string + u64 \<Rightarrow> string + u64"
  wModuleHandle :: "loader \<Rightarrow> string \<Rightarrow> string + u64"
  wString :: "memory \<Rightarrow> u64 \<Rightarrow> string option"
  wCall :: "loader \<Rightarrow> u64 \<Rightarrow> u64 list \<Rightarrow> u64 \<times> memory"
  wCallback :: "loader \<Rightarrow> u64"

subsection \<open>Sequencing\<close>

type_synonym 'a M = "loader \<Rightarrow> (fault + (string + 'a) \<times> loader) option"

definition retM :: "'a \<Rightarrow> 'a M" where
  "retM x s = Some (Inr (Inr x, s))"

definition failM :: "string \<Rightarrow> 'a M" where
  "failM e s = Some (Inr (Inl e, s))"

definition faultM :: "fault \<Rightarrow> 'a M" where
  "faultM f s = Some (Inl f)"

definition getM :: "(loader \<Rightarrow> 'a) \<Rightarrow> 'a M" where
  "getM f s = Some (Inr (Inr (f s), s))"

definition modM :: "(loader \<Rightarrow> loader) \<Rightarrow> unit M" where
  "modM f s = Some (Inr (Inr (), f s))"

definition bindM :: "'a M \<Rightarrow> ('a \<Rightarrow> 'b M) \<Rightarrow> 'b M" where
  "bindM x f s =
     (case x s of
        None \<Rightarrow> None
      | Some (Inl t) \<Rightarrow> Some (Inl t)
      | Some (Inr (Inl e, s')) \<Rightarrow> Some (Inr (Inl e, s'))
      | Some (Inr (Inr a, s')) \<Rightarrow> f a s')"

definition thenM :: "unit M \<Rightarrow> 'b M \<Rightarrow> 'b M" where
  "thenM x y = bindM x (\<lambda>_. y)"

text \<open>\<open>fmt.Errorf("...: %w", err)\<close> around the error of an operation.\<close>

definition wrapM :: "string \<Rightarrow> 'a M \<Rightarrow> 'a M" where
  "wrapM p x s = (case x s of Some (Inr (Inl e, s')) \<Rightarrow> Some (Inr (Inl (p @ '': '' @ e), s')) | r \<Rightarrow> r)"

text \<open>A call whose error is not looked at.\<close>

definition ignoreM :: "'a M \<Rightarrow> unit M" where
  "ignoreM x s = (case x s of Some (Inr (_, s')) \<Rightarrow> Some (Inr (Inr (), s')) | Some (Inl t) \<Rightarrow> Some (Inl t) | None \<Rightarrow> None)"

text \<open>The error, if any, as a value.\<close>

definition tryM :: "'a M \<Rightarrow> (string + 'a) M" where
  "tryM x s = (case x s of Some (Inr (r, s')) \<Rightarrow> Some (Inr (Inr r, s')) | Some (Inl t) \<Rightarrow> Some (Inl t) | None \<Rightarrow> None)"

text \<open>An operation with a deferred clean-up that runs if it returns an error.\<close>

definition cleanupM :: "unit M \<Rightarrow> 'a M \<Rightarrow> 'a M" where
  "cleanupM f x s =
     (case x s of
        Some (Inr (Inl e, s')) \<Rightarrow>
          (case f s' of None \<Rightarrow> None | Some (Inl t) \<Rightarrow> Some (Inl t) | Some (Inr (_, s'')) \<Rightarrow> Some (Inr (Inl e, s'')))
      | r \<Rightarrow> r)"

text \<open>A loop over a list, with what it carries from one round to the next, and a loop that goes on while a condition holds.\<close>

fun foldM :: "('b \<Rightarrow> 'a \<Rightarrow> 'b M) \<Rightarrow> 'b \<Rightarrow> 'a list \<Rightarrow> 'b M" where
  "foldM f y [] = retM y"
| "foldM f y (x # xs) = bindM (f y x) (\<lambda>y. foldM f y xs)"

definition forM :: "('a \<Rightarrow> unit M) \<Rightarrow> 'a list \<Rightarrow> unit M" where
  "forM f xs = foldM (\<lambda>_. f) () xs"

partial_function (option) whileL :: "('a \<Rightarrow> bool M) \<Rightarrow> ('a \<Rightarrow> 'a M) \<Rightarrow> 'a \<times> loader \<Rightarrow> (fault + (string + 'a) \<times> loader) option" where
  "whileL c b z =
     (case c (fst z) (snd z) of
        None \<Rightarrow> None
      | Some (Inl t) \<Rightarrow> Some (Inl t)
      | Some (Inr (Inl e, s')) \<Rightarrow> Some (Inr (Inl e, s'))
      | Some (Inr (Inr g, s')) \<Rightarrow>
          if g then
            (case b (fst z) s' of
               None \<Rightarrow> None
             | Some (Inl t) \<Rightarrow> Some (Inl t)
             | Some (Inr (Inl e, s'')) \<Rightarrow> Some (Inr (Inl e, s''))
             | Some (Inr (Inr y, s'')) \<Rightarrow> whileL c b (y, s''))
          else Some (Inr (Inr (fst z), s')))"

definition whileM :: "('a \<Rightarrow> bool M) \<Rightarrow> ('a \<Rightarrow> 'a M) \<Rightarrow> 'a \<Rightarrow> 'a M" where
  "whileM c b x s = whileL c b (x, s)"

lemma whileM_unfold: "whileM c b x = bindM (c x) (\<lambda>g. if g then bindM (b x) (whileM c b) else retM x)"
  by (rule ext, unfold whileM_def, subst whileL.simps) (auto simp: bindM_def retM_def whileM_def split: option.splits sum.splits prod.splits)

lemma bindM_simps [simp]:
  "bindM (retM x) f = f x" "bindM (failM e) f1 = failM e" "bindM (faultM t) f2 = faultM t" "bindM (getM g) f3 s = f3 (g s) s"
  "bindM (modM h) f4 s = f4 () (h s)" "thenM (modM h) y s = y (h s)" "thenM (retM ()) y = y"
  by (auto simp: bindM_def retM_def failM_def faultM_def getM_def modM_def thenM_def)

lemma bindM_assoc: "bindM (bindM x f) g = bindM x (\<lambda>a. bindM (f a) g)"
  by (rule ext) (auto simp: bindM_def split: option.splits sum.splits prod.splits)

lemma bindM_run: "x s = Some (Inr (Inr a, s')) \<Longrightarrow> bindM x f s = f a s'" "x s = Some (Inr (Inr u, s')) \<Longrightarrow> thenM x y s = y s'"
  by (simp_all add: bindM_def thenM_def)

subsection \<open>Memory\<close>

definition bytesAt :: "memory \<Rightarrow> u64 \<Rightarrow> nat \<Rightarrow> byte list option" where
  "bytesAt m a n = those (map (\<lambda>i. m (a + of_nat i)) [0..<n])"

definition putBytes :: "memory \<Rightarrow> u64 \<Rightarrow> byte list \<Rightarrow> memory" where
  "putBytes m a bs = (\<lambda>x. if unat (x - a) < length bs then Some (bs ! unat (x - a)) else m x)"

text \<open>Little-endian numbers.\<close>

fun le :: "byte list \<Rightarrow> nat" where
  "le [] = 0"
| "le (b # bs) = unat b + 256 * le bs"

fun leBytes :: "nat \<Rightarrow> nat \<Rightarrow> byte list" where
  "leBytes 0 v = []"
| "leBytes (Suc n) v = of_nat (v mod 256) # leBytes n (v div 256)"

definition loadBytes :: "u64 \<Rightarrow> nat \<Rightarrow> byte list M" where
  "loadBytes a n s = (case bytesAt (mem s) a n of None \<Rightarrow> Some (Inl (AccessViolation a)) | Some bs \<Rightarrow> Some (Inr (Inr bs, s)))"

definition storeBytes :: "u64 \<Rightarrow> byte list \<Rightarrow> unit M" where
  "storeBytes a bs s =
     (case bytesAt (mem s) a (length bs) of
        None \<Rightarrow> Some (Inl (AccessViolation a))
      | Some _ \<Rightarrow> Some (Inr (Inr (), s\<lparr>mem := putBytes (mem s) a bs\<rparr>)))"

definition width :: "'a::len itself \<Rightarrow> nat" where
  "width t = LENGTH('a) div 8"

definition load :: "u64 \<Rightarrow> 'a::len word M" where
  "load a = bindM (loadBytes a (width TYPE('a))) (\<lambda>bs. retM (of_nat (le bs)))"

definition store :: "u64 \<Rightarrow> 'a::len word \<Rightarrow> unit M" where
  "store a v = storeBytes a (leBytes (width TYPE('a)) (unat v))"

abbreviation load16 :: "u64 \<Rightarrow> u16 M" where "load16 \<equiv> load"
abbreviation load32 :: "u64 \<Rightarrow> u32 M" where "load32 \<equiv> load"
abbreviation load64 :: "u64 \<Rightarrow> u64 M" where "load64 \<equiv> load"

lemma width_simps [simp]: "width TYPE(16) = 2" "width TYPE(32) = 4" "width TYPE(64) = 8"
  by (simp_all add: width_def)

text \<open>\<open>memcpy\<close>: \<open>copy\<close> of two slices made from pointers.\<close>

definition memcpy :: "u64 \<Rightarrow> u64 \<Rightarrow> nat \<Rightarrow> unit M" where
  "memcpy dst src n = bindM (loadBytes src n) (storeBytes dst)"

lemma length_leBytes [simp]: "length (leBytes n v) = n"
  by (induction n arbitrary: v) auto

lemma le_leBytes [simp]: "le (leBytes n v) = v mod 256 ^ n"
proof (induction n arbitrary: v)
  case (Suc n)
  have "unat (of_nat (v mod 256) :: byte) = v mod 256" by (simp add: unat_of_nat)
  then show ?case by (simp add: Suc mod_mult2_eq)
qed simp

lemma leBytes_le [simp]: "length bs = n \<Longrightarrow> leBytes n (le bs) = bs"
proof (induction bs arbitrary: n)
  case (Cons b bs)
  have "unat b < 2 ^ LENGTH(8)" by (rule unsigned_less)
  then have "unat b < 256" by simp
  then show ?case using Cons by (auto simp flip: Cons.prems)
qed simp

lemma length_those: "those xs = Some ys \<Longrightarrow> length ys = length xs"
  by (induction xs arbitrary: ys) (auto split: option.splits)

lemma those_nth: "those xs = Some ys \<Longrightarrow> i < length xs \<Longrightarrow> xs ! i = Some (ys ! i)"
  by (induction xs arbitrary: ys i) (auto simp: nth_Cons split: option.splits nat.splits)

lemma those_eq_Some: "those xs = Some ys \<longleftrightarrow> length ys = length xs \<and> (\<forall>i<length xs. xs ! i = Some (ys ! i))"
proof (induction xs arbitrary: ys)
  case (Cons x xs)
  then show ?case by (cases ys; cases x) (auto simp: nth_Cons All_less_Suc2 split: option.splits nat.splits)
qed auto

lemma bytesAt_Some: "bytesAt m a n = Some bs \<longleftrightarrow> length bs = n \<and> (\<forall>i<n. m (a + of_nat i) = Some (bs ! i))"
  by (auto simp: bytesAt_def those_eq_Some)

lemma bytesAt_length: "bytesAt m a n = Some bs \<Longrightarrow> length bs = n"
  by (simp add: bytesAt_Some)

text \<open>The addresses of \<open>n\<close> bytes from \<open>a\<close>, which may wrap around.\<close>

definition cells :: "u64 \<Rightarrow> nat \<Rightarrow> u64 set" where
  "cells a n = {x. unat (x - a) < n}"

lemma unat_diff_of_nat: "i < 2 ^ 64 \<Longrightarrow> unat (a + of_nat i - a :: u64) = i"
  by (simp add: unsigned_of_nat take_bit_nat_eq_self)

lemma cells_iff: "n \<le> 2 ^ 64 \<Longrightarrow> x \<in> cells a n \<longleftrightarrow> (\<exists>i<n. x = a + of_nat i)"
proof
  assume "x \<in> cells a n"
  then show "\<exists>i<n. x = a + of_nat i" by (intro exI [of _ "unat (x - a)"]) (simp add: cells_def)
next
  assume n: "n \<le> 2 ^ 64" and "\<exists>i<n. x = a + of_nat i"
  then show "x \<in> cells a n" using unat_diff_of_nat [of _ a] by (auto simp: cells_def)
qed

lemma putBytes_other: "x \<notin> cells a (length bs) \<Longrightarrow> putBytes m a bs x = m x"
  by (simp add: putBytes_def cells_def)

lemma putBytes_at: "i < length bs \<Longrightarrow> length bs \<le> 2 ^ 64 \<Longrightarrow> putBytes m a bs (a + of_nat i) = Some (bs ! i)"
  using unat_diff_of_nat [of i a] by (simp add: putBytes_def)

lemma bytesAt_putBytes: "length bs \<le> 2 ^ 64 \<Longrightarrow> bytesAt (putBytes m a bs) a (length bs) = Some bs"
  by (simp add: bytesAt_Some putBytes_at)

lemma bytesAt_other:
  assumes "n \<le> 2 ^ 64" and "cells a n \<inter> cells b (length bs) = {}"
  shows "bytesAt (putBytes m b bs) a n = bytesAt m a n"
proof -
  have "putBytes m b bs (a + of_nat i) = m (a + of_nat i)" if "i < n" for i
    using assms that cells_iff [of n "a + of_nat i" a] by (intro putBytes_other) blast
  then have "map (\<lambda>i. putBytes m b bs (a + of_nat i)) [0..<n] = map (\<lambda>i. m (a + of_nat i)) [0..<n]" by simp
  then show ?thesis by (simp only: bytesAt_def)
qed

text \<open>A number at an address, for reasoning: \<open>None\<close> if it cannot be read.\<close>

definition word_at :: "memory \<Rightarrow> u64 \<Rightarrow> 'a::len word option" where
  "word_at m a = map_option (\<lambda>bs. of_nat (le bs)) (bytesAt m a (width TYPE('a)))"

definition put_word :: "memory \<Rightarrow> u64 \<Rightarrow> 'a::len word \<Rightarrow> memory" where
  "put_word m a v = putBytes m a (leBytes (width TYPE('a)) (unat v))"

lemma load_run: "load a s = (case word_at (mem s) a of None \<Rightarrow> Some (Inl (AccessViolation a)) | Some v \<Rightarrow> Some (Inr (Inr v, s)))"
  by (auto simp: load_def word_at_def loadBytes_def bindM_def retM_def split: option.splits)

lemma store_run: "store a (v :: 'a::len word) s =
    (case word_at (mem s) a :: 'a word option of None \<Rightarrow> Some (Inl (AccessViolation a)) | Some _ \<Rightarrow> Some (Inr (Inr (), s\<lparr>mem := put_word (mem s) a v\<rparr>)))"
  by (simp add: store_def storeBytes_def word_at_def put_word_def split: option.splits)

lemma word_at_put_word:
  assumes "8 dvd LENGTH('a)" and "LENGTH('a) \<le> 64"
  shows "word_at (put_word m a v) a = Some (v :: 'a::len word)"
proof -
  from assms(1) have w: "8 * width TYPE('a) = LENGTH('a)" by (simp add: width_def)
  then have "(256 :: nat) ^ width TYPE('a) = 2 ^ LENGTH('a)" by (simp flip: w add: power_mult)
  moreover have "unat v < 2 ^ LENGTH('a)" by (rule unsigned_less)
  moreover have "width TYPE('a) \<le> 2 ^ 64" using assms(2) by (simp add: width_def)
  ultimately show ?thesis using bytesAt_putBytes [of "leBytes (width TYPE('a)) (unat v)" m a] by (simp add: word_at_def put_word_def)
qed

lemma word_at_other:
  assumes "cells a (width TYPE('a)) \<inter> cells b (width TYPE('b)) = {}" and "LENGTH('a) \<le> 64"
  shows "word_at (put_word m b (v :: 'b::len word)) a = (word_at m a :: 'a::len word option)"
proof -
  have "width TYPE('a) \<le> 2 ^ 64" using assms(2) by (simp add: width_def)
  with assms(1) show ?thesis by (simp add: word_at_def put_word_def bytesAt_other)
qed

lemma cells_disjoint:
  assumes "n \<le> unat (b - a)" and "k \<le> unat (a - b)"
  shows "cells a n \<inter> cells b k = {}"
proof -
  have False if "unat (x - a) < n" "unat (x - b) < k" for x
  proof -
    have d: "unat (a - b) + unat (b - a) = (if a = b then 0 else 2 ^ 64)"
    proof (cases "a = b")
      case False
      have "unat (a - b) + unat (b - a) < 2 ^ LENGTH(64) + 2 ^ LENGTH(64)" by (intro add_strict_mono unsigned_less)
      moreover have "(unat (a - b) + unat (b - a)) mod 2 ^ 64 = unat ((a - b) + (b - a))" by (simp only: unat_word_ariths) simp
      moreover have "unat (a - b) \<noteq> 0" using False by (simp add: unat_eq_0)
      ultimately show ?thesis using False by (auto simp: mod_if split: if_splits)
    qed simp
    have "unat (x - b) = (unat (x - a) + unat (a - b)) mod 2 ^ 64" using unat_word_ariths(1) [of "x - a" "a - b"] by simp
    moreover have "unat (x - a) + unat (a - b) < 2 ^ 64" using that assms d by (auto split: if_splits)
    ultimately show False using that assms by simp
  qed
  then show ?thesis by (auto simp: cells_def)
qed

lemma word_at_zero: "word_at (\<lambda>_. Some 0) a = Some 0"
proof -
  have le0: "le (replicate n 0) = 0" for n by (induction n) simp_all
  have "bytesAt (\<lambda>_. Some 0) a (width TYPE('a)) = Some (replicate (width TYPE('a)) 0)" by (simp add: bytesAt_Some)
  then show "word_at (\<lambda>_. Some 0) a = Some (0 :: 'a::len word)" by (simp add: word_at_def le0)
qed

subsection \<open>What an operation keeps\<close>

text \<open>
  \<open>keeps I E x\<close>: from a state with \<open>I\<close>, \<open>x\<close> ends in one with \<open>I\<close>, or with an error and \<open>E\<close>, if it ends.
\<close>

definition keeps :: "(loader \<Rightarrow> bool) \<Rightarrow> (loader \<Rightarrow> bool) \<Rightarrow> 'a M \<Rightarrow> bool" where
  "keeps I E x \<longleftrightarrow> (\<forall>s r s'. I s \<longrightarrow> x s = Some (Inr (r, s')) \<longrightarrow> (case r of Inl _ \<Rightarrow> E s' | Inr _ \<Rightarrow> I s'))"

lemma keepsI: "(\<And>s e s'. I s \<Longrightarrow> x s = Some (Inr (Inl e, s')) \<Longrightarrow> E s') \<Longrightarrow>
    (\<And>s v s'. I s \<Longrightarrow> x s = Some (Inr (Inr v, s')) \<Longrightarrow> I s') \<Longrightarrow> keeps I E x"
  by (auto simp: keeps_def split: sum.splits)

lemma keeps_Inl: "keeps I E x \<Longrightarrow> I s \<Longrightarrow> x s = Some (Inr (Inl e, s')) \<Longrightarrow> E s'"
  unfolding keeps_def by (drule spec, drule spec, drule spec, drule mp, assumption, drule mp, assumption) simp

lemma keeps_Inr: "keeps I E x \<Longrightarrow> I s \<Longrightarrow> x s = Some (Inr (Inr v, s')) \<Longrightarrow> I s'"
  unfolding keeps_def by (drule spec, drule spec, drule spec, drule mp, assumption, drule mp, assumption) simp

lemma keeps_any: "keeps J J x \<Longrightarrow> J s \<Longrightarrow> x s = Some (Inr (r, s')) \<Longrightarrow> J s'"
  by (cases r) (auto dest: keeps_Inl keeps_Inr)

lemma keeps_ret [keeps_intros]: "keeps I E (retM x)" "keeps I E (faultM t)" "keeps I E (getM f)"
  by (simp_all add: keeps_def retM_def faultM_def getM_def)

lemma keeps_fail [keeps_intros]: "(\<And>s. I s \<Longrightarrow> E s) \<Longrightarrow> keeps I E (failM e)"
  by (simp add: keeps_def failM_def)

lemma keeps_mod: "(\<And>s. I s \<Longrightarrow> I (f s)) \<Longrightarrow> keeps I E (modM f)"
  by (simp add: keeps_def modM_def)

lemma keeps_bind [keeps_intros]:
  assumes "keeps I E x" and "\<And>a. keeps I E (f a)"
  shows "keeps I E (bindM x f)"
  by (rule keepsI) (auto simp: bindM_def split: option.splits sum.splits prod.splits
      dest: keeps_Inl [OF assms(1)] keeps_Inr [OF assms(1)] keeps_Inl [OF assms(2)] keeps_Inr [OF assms(2)])

lemma keeps_then [keeps_intros]: "keeps I E x \<Longrightarrow> keeps I E y \<Longrightarrow> keeps I E (thenM x y)"
  by (simp add: thenM_def keeps_bind)

lemma keeps_if [keeps_intros]: "(b \<Longrightarrow> keeps I E x) \<Longrightarrow> (\<not> b \<Longrightarrow> keeps I E y) \<Longrightarrow> keeps I E (if b then x else y)"
  by simp

lemma keeps_wrap [keeps_intros]: "keeps I E x \<Longrightarrow> keeps I E (wrapM p x)"
  by (rule keepsI) (auto simp: wrapM_def split: option.splits sum.splits prod.splits dest: keeps_Inl keeps_Inr)

lemma keeps_ignore [keeps_intros]: "keeps I I x \<Longrightarrow> keeps I E (ignoreM x)"
  by (rule keepsI) (auto simp: ignoreM_def split: option.splits sum.splits prod.splits dest: keeps_any)

lemma keeps_try [keeps_intros]: "keeps I I x \<Longrightarrow> keeps I E (tryM x)"
  by (rule keepsI) (auto simp: tryM_def split: option.splits sum.splits prod.splits dest: keeps_any)

lemma keeps_fold [keeps_intros]: "(\<And>y x. x \<in> set xs \<Longrightarrow> keeps I E (f y x)) \<Longrightarrow> keeps I E (foldM f y xs)"
  by (induction xs arbitrary: y) (auto intro!: keeps_intros)

lemma keeps_for [keeps_intros]: "(\<And>x. x \<in> set xs \<Longrightarrow> keeps I E (f x)) \<Longrightarrow> keeps I E (forM f xs)"
  by (simp add: forM_def keeps_fold)

lemma keeps_sum [keeps_intros]:
  "(\<And>e. r = Inl e \<Longrightarrow> keeps I E (f e)) \<Longrightarrow> (\<And>v. r = Inr v \<Longrightarrow> keeps I E (g v)) \<Longrightarrow> keeps I E (case r of Inl e \<Rightarrow> f e | Inr v \<Rightarrow> g v)"
  by (cases r) simp_all

lemma keeps_option [keeps_intros]:
  "(r = None \<Longrightarrow> keeps I E f) \<Longrightarrow> (\<And>v. r = Some v \<Longrightarrow> keeps I E (g v)) \<Longrightarrow> keeps I E (case r of None \<Rightarrow> f | Some v \<Rightarrow> g v)"
  by (cases r) simp_all

lemma keeps_prod [keeps_intros]: "(\<And>a b. z = (a, b) \<Longrightarrow> keeps I E (f a b)) \<Longrightarrow> keeps I E (case z of (a, b) \<Rightarrow> f a b)"
  by (cases z) simp

text \<open>From one property to another.\<close>

definition leads :: "(loader \<Rightarrow> bool) \<Rightarrow> (loader \<Rightarrow> bool) \<Rightarrow> (loader \<Rightarrow> bool) \<Rightarrow> 'a M \<Rightarrow> bool" where
  "leads I K E x \<longleftrightarrow> (\<forall>s r s'. I s \<longrightarrow> x s = Some (Inr (r, s')) \<longrightarrow> (case r of Inl _ \<Rightarrow> E s' | Inr _ \<Rightarrow> K s'))"

lemma keeps_leads: "keeps I E x = leads I I E x"
  by (simp add: keeps_def leads_def)

lemma leadsI: "(\<And>s r s'. I s \<Longrightarrow> x s = Some (Inr (r, s')) \<Longrightarrow> (case r of Inl _ \<Rightarrow> E s' | Inr _ \<Rightarrow> K s')) \<Longrightarrow> leads I K E x"
  by (simp add: leads_def)

lemma leads_bind:
  assumes "leads I K E x" and "\<And>a. leads K L E (f a)"
  shows "leads I L E (bindM x f)"
proof (rule leadsI)
  fix s r s' assume I: "I s" and b: "bindM x f s = Some (Inr (r, s'))"
  then obtain q t where x: "x s = Some (Inr (q, t))" by (auto simp: bindM_def split: option.splits sum.splits)
  with assms(1) I have q: "case q of Inl _ \<Rightarrow> E t | Inr _ \<Rightarrow> K t" unfolding leads_def by blast
  show "case r of Inl _ \<Rightarrow> E s' | Inr _ \<Rightarrow> L s'"
  proof (cases q)
    case (Inl e)
    with b x q show ?thesis by (auto simp: bindM_def)
  next
    case (Inr a)
    with b x have "f a t = Some (Inr (r, s'))" by (simp add: bindM_def)
    moreover have "K t" using q Inr by simp
    ultimately show ?thesis using assms(2) [of a] unfolding leads_def by blast
  qed
qed

lemma leads_then: "leads I K E x \<Longrightarrow> leads K L E y \<Longrightarrow> leads I L E (thenM x y)"
  by (simp add: thenM_def leads_bind)

lemma leads_Inl: "leads I K E x \<Longrightarrow> I s \<Longrightarrow> x s = Some (Inr (Inl e, s')) \<Longrightarrow> E s'"
  unfolding leads_def by (drule spec, drule spec, drule spec, drule mp, assumption, drule mp, assumption) simp

lemma leads_Inr: "leads I K E x \<Longrightarrow> I s \<Longrightarrow> x s = Some (Inr (Inr v, s')) \<Longrightarrow> K s'"
  unfolding leads_def by (drule spec, drule spec, drule spec, drule mp, assumption, drule mp, assumption) simp

lemma leadsI2: "(\<And>s e s'. I s \<Longrightarrow> x s = Some (Inr (Inl e, s')) \<Longrightarrow> E s') \<Longrightarrow>
    (\<And>s v s'. I s \<Longrightarrow> x s = Some (Inr (Inr v, s')) \<Longrightarrow> K s') \<Longrightarrow> leads I K E x"
  by (auto simp: leads_def split: sum.splits)

lemma leads_wrap: "leads I K E x \<Longrightarrow> leads I K E (wrapM p x)"
  by (rule leadsI2) (auto simp: wrapM_def split: option.splits sum.splits prod.splits dest: leads_Inl leads_Inr)

lemma leads_weaken: "leads I K E x \<Longrightarrow> (\<And>s. I' s \<Longrightarrow> I s) \<Longrightarrow> (\<And>s. K s \<Longrightarrow> K' s) \<Longrightarrow> (\<And>s. E s \<Longrightarrow> E' s) \<Longrightarrow> leads I' K' E' x"
  by (rule leadsI2) (auto dest: leads_Inl leads_Inr)

text \<open>An error that is looked at, and handled.\<close>

lemma leads_try:
  assumes "leads I K E' x" and "\<And>e. leads E' L E (f e)" and "\<And>v. leads K L E (g v)"
  shows "leads I L E (bindM (tryM x) (\<lambda>r. case r of Inl e \<Rightarrow> f e | Inr v \<Rightarrow> g v))"
  by (rule leadsI2) (auto simp: bindM_def tryM_def split: option.splits sum.splits prod.splits
      dest: leads_Inl [OF assms(1)] leads_Inr [OF assms(1)] leads_Inl [OF assms(2)] leads_Inr [OF assms(2)] leads_Inl [OF assms(3)] leads_Inr [OF assms(3)])

lemma leads_mod: "(\<And>s. I s \<Longrightarrow> K (f s)) \<Longrightarrow> leads I K E (modM f)"
  by (simp add: leads_def modM_def)

lemmas whileL_induct = whileL.raw_induct [rotated, consumes 1, case_names step]

lemma keeps_while [keeps_intros]:
  assumes "\<And>x. keeps I E (c x)" and "\<And>x. keeps I E (b x)"
  shows "keeps I E (whileM c b x)"
proof -
  have loop: "(\<forall>x. keeps I E (c x)) \<and> (\<forall>x. keeps I E (b x)) \<longrightarrow> I (snd z) \<longrightarrow> (\<forall>r s'. y = Inr (r, s') \<longrightarrow> (case r of Inl _ \<Rightarrow> E s' | Inr _ \<Rightarrow> I s'))"
    if "whileL c b z = Some y" for y z
    using that
  proof (induction rule: whileL_induct)
    case (step wh c b z y)
    show ?case
    proof (intro impI allI, elim conjE)
      fix r s' assume k: "\<forall>x. keeps I E (c x)" "\<forall>x. keeps I E (b x)" and I: "I (snd z)" and y: "y = Inr (r, s')"
      from step(2) y obtain q t where c: "c (fst z) (snd z) = Some (Inr (q, t))" by (auto split: option.splits sum.splits)
      note kc = spec [OF k(1), of "fst z"] and kb = spec [OF k(2), of "fst z"] and body = step(2) [unfolded c y, simplified]
      show "case r of Inl _ \<Rightarrow> E s' | Inr _ \<Rightarrow> I s'"
      proof (cases "q = Inr True")
        case True
        from keeps_Inr [OF kc I c [unfolded True]] have t: "I t" .
        from body True obtain u t' where b: "b (fst z) t = Some (Inr (u, t'))" by (auto split: option.splits sum.splits)
        show ?thesis
        proof (cases u)
          case (Inl e)
          with body True b keeps_Inl [OF kb t, of e t'] show ?thesis by auto
        next
          case (Inr x)
          with body True b have "wh c b (x, t') = Some (Inr (r, s'))" by simp
          from step(1) [OF this] k keeps_Inr [OF kb t, of x t'] b Inr show ?thesis by auto
        qed
      next
        case False
        with body c keeps_Inl [OF kc I] keeps_Inr [OF kc I] show ?thesis by (auto split: sum.splits)
      qed
    qed
  qed
  show ?thesis using assms loop [of "(x, s)" for s] by (auto simp: keeps_def [of I E "whileM c b x"] whileM_def)
qed

text \<open>When a loop ends without an error, its condition has just failed.\<close>

lemma whileM_exit:
  assumes "whileM c b x s = Some (Inr (Inr y, s'))"
  shows "\<exists>t. c y t = Some (Inr (Inr False, s'))"
proof -
  have "\<forall>y s'. r = Inr (Inr y, s') \<longrightarrow> (\<exists>t. c y t = Some (Inr (Inr False, s')))" if "whileL c b z = Some r" for r z
    using that
  proof (induction rule: whileL_induct)
    case (step wh c b z r)
    show ?case
    proof (intro allI impI)
      fix y s' assume r: "r = Inr (Inr y, s')"
      from step(2) r obtain g t where c: "c (fst z) (snd z) = Some (Inr (Inr g, t))" by (auto split: option.splits sum.splits)
      note body = step(2) [unfolded c r, simplified]
      show "\<exists>t. c y t = Some (Inr (Inr False, s'))"
      proof (cases g)
        case True
        with body obtain x t' where "b (fst z) t = Some (Inr (Inr x, t'))" "wh c b (x, t') = Some (Inr (Inr y, s'))"
          by (auto split: option.splits sum.splits)
        with step(1) show ?thesis by blast
      next
        case False
        with body c show ?thesis by auto
      qed
    qed
  qed
  then show ?thesis using assms by (simp add: whileM_def)
qed

subsection \<open>The calls of the system\<close>

definition logEv :: "event \<Rightarrow> loader \<Rightarrow> loader" where
  "logEv ev s = s\<lparr>trace := trace s @ [ev]\<rparr>"

definition VirtualAlloc :: "winapi \<Rightarrow> u64 \<Rightarrow> u64 \<Rightarrow> u32 \<Rightarrow> u32 \<Rightarrow> u64 M" where
  "VirtualAlloc W a n t p s =
     (case wAlloc W s a n t p of (r, m) \<Rightarrow>
        let s = s\<lparr>mem := m\<rparr> in
        (case r of
           Inl e \<Rightarrow> Some (Inr (Inl e, logEv (EvAlloc a n t p None) s))
         | Inr b \<Rightarrow> Some (Inr (Inr b, logEv (EvAlloc a n t p (Some b)) s))))"

definition VirtualFree :: "winapi \<Rightarrow> u64 \<Rightarrow> u64 \<Rightarrow> u32 \<Rightarrow> unit M" where
  "VirtualFree W a n t = modM (\<lambda>s. logEv (EvFree a n t) (s\<lparr>mem := wFree W s a n t\<rparr>))"

definition VirtualProtect :: "winapi \<Rightarrow> u64 \<Rightarrow> u64 \<Rightarrow> u32 \<Rightarrow> u32 M" where
  "VirtualProtect W a n p s =
     (case wProtect W s a n p of (r, m) \<Rightarrow> Some (Inr (r, logEv (EvProtect a n p) (s\<lparr>mem := m\<rparr>))))"

definition LoadLibraryEx :: "winapi \<Rightarrow> string \<Rightarrow> u64 M" where
  "LoadLibraryEx W name s =
     (case wLoadLibrary W s name of (r, m) \<Rightarrow>
        let s = s\<lparr>mem := m\<rparr> in
        (case r of
           Inl e \<Rightarrow> Some (Inr (Inl e, logEv (EvLoadLibrary name None) s))
         | Inr h \<Rightarrow> Some (Inr (Inr h, logEv (EvLoadLibrary name (Some h)) s))))"

definition FreeLibrary :: "winapi \<Rightarrow> u64 \<Rightarrow> unit M" where
  "FreeLibrary W h = modM (\<lambda>s. logEv (EvFreeLibrary h) (s\<lparr>mem := wFreeLibrary W s h\<rparr>))"

text \<open>An address or the error, both as a value.\<close>

definition GetProcAddress :: "winapi \<Rightarrow> u64 \<Rightarrow> string + u64 \<Rightarrow> (string + u64) M" where
  "GetProcAddress W h name = getM (\<lambda>s. wProcAddress W s h name)"

definition RtlAddFunctionTable :: "u64 \<Rightarrow> u32 \<Rightarrow> u64 \<Rightarrow> unit M" where
  "RtlAddFunctionTable a n b = modM (logEv (EvAddFunctionTable a n b))"

text \<open>A call of the code at an address, of the form of a DLL's entry point.\<close>

definition SyscallN :: "winapi \<Rightarrow> u64 \<Rightarrow> u64 \<Rightarrow> u64 \<Rightarrow> u64 M" where
  "SyscallN W f b reason s =
     (case wCall W s f [b, reason, 0] of (r, m) \<Rightarrow> Some (Inr (Inr r, logEv (EvCall f b reason) (s\<lparr>mem := m\<rparr>))))"

definition BytePtrToString :: "winapi \<Rightarrow> u64 \<Rightarrow> string M" where
  "BytePtrToString W a s = (case wString W (mem s) a of None \<Rightarrow> Some (Inl (AccessViolation a)) | Some n \<Rightarrow> Some (Inr (Inr n, s)))"

definition setThis :: "(Module \<Rightarrow> Module) \<Rightarrow> unit M" where
  "setThis f = modM (\<lambda>s. s\<lparr>this := f (this s)\<rparr>)"

definition codeBaseM :: "u64 M" where
  "codeBaseM = getM (\<lambda>s. codeBase (this s))"

definition headersM :: "u64 M" where
  "headersM = getM (\<lambda>s. headers (this s))"

end
