(* ===== verification/Pe_Format.thy ===== *)
theory Pe_Format
  imports Loader Go_Std
begin

text \<open>
  The layout of Windows images as \<open>src/wintun/memmod/syscall_windows.go\<close> and
  \<open>syscall_windows_64.go\<close> declare it.  A struct is the list of its fields, each with its
  alignment and size; where a field lies follows from Go's layout rules.  The loader reads fields through pointers, one at a time.
\<close>

subsection \<open>Layout\<close>

type_synonym struct_fields = "(string \<times> nat \<times> nat) list"

definition roundUp :: "nat \<Rightarrow> nat \<Rightarrow> nat" where
  "roundUp n a = (n + a - 1) div a * a"

fun offsets :: "nat \<Rightarrow> struct_fields \<Rightarrow> (string \<times> nat) list" where
  "offsets n [] = []"
| "offsets n ((f, a, k) # fs) = (f, roundUp n a) # offsets (roundUp n a + k) fs"

fun endOf :: "nat \<Rightarrow> struct_fields \<Rightarrow> nat" where
  "endOf n [] = n"
| "endOf n ((f, a, k) # fs) = endOf (roundUp n a + k) fs"

definition alignOf :: "struct_fields \<Rightarrow> nat" where
  "alignOf fs = foldr (\<lambda>(_, a, _). max a) fs 1"

definition sizeOf :: "struct_fields \<Rightarrow> nat" where
  "sizeOf fs = roundUp (endOf 0 fs) (alignOf fs)"

definition off :: "struct_fields \<Rightarrow> string \<Rightarrow> u64" where
  "off fs f = of_nat (the (map_of (offsets 0 fs) f))"

definition u8f :: "string \<Rightarrow> string \<times> nat \<times> nat" where "u8f f = (f, 1, 1)"
definition u16f :: "string \<Rightarrow> string \<times> nat \<times> nat" where "u16f f = (f, 2, 2)"
definition u32f :: "string \<Rightarrow> string \<times> nat \<times> nat" where "u32f f = (f, 4, 4)"
definition u64f :: "string \<Rightarrow> string \<times> nat \<times> nat" where "u64f f = (f, 8, 8)"

subsection \<open>The structs\<close>

definition IMAGE_DOS_HEADER :: struct_fields where
  "IMAGE_DOS_HEADER = map u16f [''E_magic'', ''E_cblp'', ''E_cp'', ''E_crlc'', ''E_cparhdr'', ''E_minalloc'', ''E_maxalloc'', ''E_ss'',
     ''E_sp'', ''E_csum'', ''E_ip'', ''E_cs'', ''E_lfarlc'', ''E_ovno''] @ [(''E_res'', 2, 8), u16f ''E_oemid'', u16f ''E_oeminfo'',
     (''E_res2'', 2, 20), u32f ''E_lfanew'']"

definition IMAGE_FILE_HEADER :: struct_fields where
  "IMAGE_FILE_HEADER = [u16f ''Machine'', u16f ''NumberOfSections'', u32f ''TimeDateStamp'', u32f ''PointerToSymbolTable'',
     u32f ''NumberOfSymbols'', u16f ''SizeOfOptionalHeader'', u16f ''Characteristics'']"

definition IMAGE_DATA_DIRECTORY :: struct_fields where
  "IMAGE_DATA_DIRECTORY = [u32f ''VirtualAddress'', u32f ''Size'']"

definition IMAGE_NUMBEROF_DIRECTORY_ENTRIES :: nat where
  "IMAGE_NUMBEROF_DIRECTORY_ENTRIES = 16"

definition IMAGE_OPTIONAL_HEADER :: struct_fields where
  "IMAGE_OPTIONAL_HEADER = [u16f ''Magic'', u8f ''MajorLinkerVersion'', u8f ''MinorLinkerVersion'', u32f ''SizeOfCode'',
     u32f ''SizeOfInitializedData'', u32f ''SizeOfUninitializedData'', u32f ''AddressOfEntryPoint'', u32f ''BaseOfCode'',
     u64f ''ImageBase'', u32f ''SectionAlignment'', u32f ''FileAlignment'', u16f ''MajorOperatingSystemVersion'',
     u16f ''MinorOperatingSystemVersion'', u16f ''MajorImageVersion'', u16f ''MinorImageVersion'', u16f ''MajorSubsystemVersion'',
     u16f ''MinorSubsystemVersion'', u32f ''Win32VersionValue'', u32f ''SizeOfImage'', u32f ''SizeOfHeaders'', u32f ''CheckSum'',
     u16f ''Subsystem'', u16f ''DllCharacteristics'', u64f ''SizeOfStackReserve'', u64f ''SizeOfStackCommit'',
     u64f ''SizeOfHeapReserve'', u64f ''SizeOfHeapCommit'', u32f ''LoaderFlags'', u32f ''NumberOfRvaAndSizes'',
     (''DataDirectory'', alignOf IMAGE_DATA_DIRECTORY, IMAGE_NUMBEROF_DIRECTORY_ENTRIES * sizeOf IMAGE_DATA_DIRECTORY)]"

definition IMAGE_NT_HEADERS :: struct_fields where
  "IMAGE_NT_HEADERS = [u32f ''Signature'', (''FileHeader'', alignOf IMAGE_FILE_HEADER, sizeOf IMAGE_FILE_HEADER),
     (''OptionalHeader'', alignOf IMAGE_OPTIONAL_HEADER, sizeOf IMAGE_OPTIONAL_HEADER)]"

definition IMAGE_SECTION_HEADER :: struct_fields where
  "IMAGE_SECTION_HEADER = [(''Name'', 1, 8), u32f ''physicalAddressOrVirtualSize'', u32f ''VirtualAddress'', u32f ''SizeOfRawData'',
     u32f ''PointerToRawData'', u32f ''PointerToRelocations'', u32f ''PointerToLinenumbers'', u16f ''NumberOfRelocations'',
     u16f ''NumberOfLinenumbers'', u32f ''Characteristics'']"

definition IMAGE_BASE_RELOCATION :: struct_fields where
  "IMAGE_BASE_RELOCATION = [u32f ''VirtualAddress'', u32f ''SizeOfBlock'']"

definition IMAGE_EXPORT_DIRECTORY :: struct_fields where
  "IMAGE_EXPORT_DIRECTORY = [u32f ''Characteristics'', u32f ''TimeDateStamp'', u16f ''MajorVersion'', u16f ''MinorVersion'', u32f ''Name'',
     u32f ''Base'', u32f ''NumberOfFunctions'', u32f ''NumberOfNames'', u32f ''AddressOfFunctions'', u32f ''AddressOfNames'',
     u32f ''AddressOfNameOrdinals'']"

definition IMAGE_IMPORT_BY_NAME :: struct_fields where
  "IMAGE_IMPORT_BY_NAME = [u16f ''Hint'', u8f ''Name'']"

definition IMAGE_TLS_DIRECTORY :: struct_fields where
  "IMAGE_TLS_DIRECTORY = [u64f ''StartAddressOfRawData'', u64f ''EndAddressOfRawData'', u64f ''AddressOfIndex'', u64f ''AddressOfCallbacks'',
     u32f ''SizeOfZeroFill'', u32f ''Characteristics'']"

definition IMAGE_IMPORT_DESCRIPTOR :: struct_fields where
  "IMAGE_IMPORT_DESCRIPTOR = map u32f [''characteristicsOrOriginalFirstThunk'', ''TimeDateStamp'', ''ForwarderChain'', ''Name'', ''FirstThunk'']"

lemmas layout_defs = off_def sizeOf_def alignOf_def roundUp_def u8f_def u16f_def u32f_def u64f_def IMAGE_NUMBEROF_DIRECTORY_ENTRIES_def

lemma sizes [simp]: "sizeOf IMAGE_DOS_HEADER = 64" "sizeOf IMAGE_FILE_HEADER = 20" "sizeOf IMAGE_DATA_DIRECTORY = 8"
  "sizeOf IMAGE_OPTIONAL_HEADER = 240" "sizeOf IMAGE_SECTION_HEADER = 40" "sizeOf IMAGE_BASE_RELOCATION = 8"
  "sizeOf IMAGE_EXPORT_DIRECTORY = 40" "sizeOf IMAGE_IMPORT_DESCRIPTOR = 20" "sizeOf IMAGE_TLS_DIRECTORY = 40"
  by (simp_all add: layout_defs IMAGE_DOS_HEADER_def IMAGE_FILE_HEADER_def IMAGE_DATA_DIRECTORY_def IMAGE_OPTIONAL_HEADER_def
      IMAGE_SECTION_HEADER_def IMAGE_BASE_RELOCATION_def IMAGE_EXPORT_DIRECTORY_def IMAGE_IMPORT_DESCRIPTOR_def IMAGE_TLS_DIRECTORY_def)

lemma aligns [simp]: "alignOf IMAGE_FILE_HEADER = 4" "alignOf IMAGE_OPTIONAL_HEADER = 8"
  by (simp_all add: layout_defs IMAGE_DATA_DIRECTORY_def IMAGE_FILE_HEADER_def IMAGE_OPTIONAL_HEADER_def)

lemma size_NT [simp]: "sizeOf IMAGE_NT_HEADERS = 264"
  by (simp add: IMAGE_NT_HEADERS_def) (simp add: layout_defs)

lemma offs [simp]:
  "off IMAGE_DOS_HEADER ''E_magic'' = 0" "off IMAGE_DOS_HEADER ''E_lfanew'' = 60"
  "off IMAGE_BASE_RELOCATION ''VirtualAddress'' = 0" "off IMAGE_BASE_RELOCATION ''SizeOfBlock'' = 4"
  "off IMAGE_DATA_DIRECTORY ''VirtualAddress'' = 0" "off IMAGE_DATA_DIRECTORY ''Size'' = 4"
  "off IMAGE_SECTION_HEADER ''physicalAddressOrVirtualSize'' = 8" "off IMAGE_SECTION_HEADER ''VirtualAddress'' = 12"
  "off IMAGE_SECTION_HEADER ''SizeOfRawData'' = 16" "off IMAGE_SECTION_HEADER ''PointerToRawData'' = 20"
  "off IMAGE_SECTION_HEADER ''Characteristics'' = 36"
  "off IMAGE_EXPORT_DIRECTORY ''Base'' = 16" "off IMAGE_EXPORT_DIRECTORY ''NumberOfFunctions'' = 20"
  "off IMAGE_EXPORT_DIRECTORY ''NumberOfNames'' = 24" "off IMAGE_EXPORT_DIRECTORY ''AddressOfFunctions'' = 28"
  "off IMAGE_EXPORT_DIRECTORY ''AddressOfNames'' = 32" "off IMAGE_EXPORT_DIRECTORY ''AddressOfNameOrdinals'' = 36"
  by (simp_all add: layout_defs IMAGE_DOS_HEADER_def IMAGE_BASE_RELOCATION_def IMAGE_DATA_DIRECTORY_def IMAGE_SECTION_HEADER_def
      IMAGE_EXPORT_DIRECTORY_def)

lemma offs_NT [simp]: "off IMAGE_NT_HEADERS ''FileHeader'' = 4" "off IMAGE_NT_HEADERS ''OptionalHeader'' = 24"
  by (simp_all add: IMAGE_NT_HEADERS_def) (simp_all add: layout_defs)

lemma offs_file [simp]: "off IMAGE_FILE_HEADER ''Machine'' = 0" "off IMAGE_FILE_HEADER ''NumberOfSections'' = 2"
  "off IMAGE_FILE_HEADER ''SizeOfOptionalHeader'' = 16" "off IMAGE_FILE_HEADER ''Characteristics'' = 18"
  by (simp_all add: layout_defs IMAGE_FILE_HEADER_def)

lemma optional_offsets: "offsets 0 IMAGE_OPTIONAL_HEADER =
   [(''Magic'', 0), (''MajorLinkerVersion'', 2), (''MinorLinkerVersion'', 3), (''SizeOfCode'', 4), (''SizeOfInitializedData'', 8),
    (''SizeOfUninitializedData'', 12), (''AddressOfEntryPoint'', 16), (''BaseOfCode'', 20), (''ImageBase'', 24), (''SectionAlignment'', 32),
    (''FileAlignment'', 36), (''MajorOperatingSystemVersion'', 40), (''MinorOperatingSystemVersion'', 42), (''MajorImageVersion'', 44),
    (''MinorImageVersion'', 46), (''MajorSubsystemVersion'', 48), (''MinorSubsystemVersion'', 50), (''Win32VersionValue'', 52),
    (''SizeOfImage'', 56), (''SizeOfHeaders'', 60), (''CheckSum'', 64), (''Subsystem'', 68), (''DllCharacteristics'', 70),
    (''SizeOfStackReserve'', 72), (''SizeOfStackCommit'', 80), (''SizeOfHeapReserve'', 88), (''SizeOfHeapCommit'', 96), (''LoaderFlags'', 104),
    (''NumberOfRvaAndSizes'', 108), (''DataDirectory'', 112)]"
  by (simp add: layout_defs IMAGE_OPTIONAL_HEADER_def IMAGE_DATA_DIRECTORY_def)

lemma offs_opt [simp]:
  "off IMAGE_OPTIONAL_HEADER ''AddressOfEntryPoint'' = 16" "off IMAGE_OPTIONAL_HEADER ''ImageBase'' = 24"
  "off IMAGE_OPTIONAL_HEADER ''SectionAlignment'' = 32" "off IMAGE_OPTIONAL_HEADER ''SizeOfImage'' = 56"
  "off IMAGE_OPTIONAL_HEADER ''SizeOfHeaders'' = 60" "off IMAGE_OPTIONAL_HEADER ''DataDirectory'' = 112"
  by (simp_all only: off_def optional_offsets) simp_all

subsection \<open>Constants\<close>

definition IMAGE_DOS_SIGNATURE :: u16 where "IMAGE_DOS_SIGNATURE = 0x5A4D"
definition IMAGE_NT_SIGNATURE :: u32 where "IMAGE_NT_SIGNATURE = 0x00004550"
definition IMAGE_FILE_DLL :: u16 where "IMAGE_FILE_DLL = 0x2000"
definition imageFileProcess_amd64 :: u16 where "imageFileProcess_amd64 = 0x8664"
definition imageFileProcess_arm64 :: u16 where "imageFileProcess_arm64 = 0xAA64"
definition IMAGE_SCN_CNT_INITIALIZED_DATA :: u32 where "IMAGE_SCN_CNT_INITIALIZED_DATA = 0x40"
definition IMAGE_SCN_CNT_UNINITIALIZED_DATA :: u32 where "IMAGE_SCN_CNT_UNINITIALIZED_DATA = 0x80"
definition IMAGE_SCN_MEM_DISCARDABLE :: u32 where "IMAGE_SCN_MEM_DISCARDABLE = 0x02000000"
definition IMAGE_SCN_MEM_NOT_CACHED :: u32 where "IMAGE_SCN_MEM_NOT_CACHED = 0x04000000"
definition IMAGE_ORDINAL_FLAG :: u64 where "IMAGE_ORDINAL_FLAG = 0x8000000000000000"

definition MEM_COMMIT :: u32 where "MEM_COMMIT = 0x1000"
definition MEM_RESERVE :: u32 where "MEM_RESERVE = 0x2000"
definition MEM_DECOMMIT :: u32 where "MEM_DECOMMIT = 0x4000"
definition MEM_RELEASE :: u32 where "MEM_RELEASE = 0x8000"
definition PAGE_READWRITE :: u32 where "PAGE_READWRITE = 4"
definition PAGE_NOCACHE :: u32 where "PAGE_NOCACHE = 0x200"

definition DLL_PROCESS_ATTACH :: u64 where "DLL_PROCESS_ATTACH = 1"
definition DLL_PROCESS_DETACH :: u64 where "DLL_PROCESS_DETACH = 0"

definition IMAGE_ORDINAL :: "u64 \<Rightarrow> u64" where
  "IMAGE_ORDINAL o' = o' AND 0xffff"

definition IMAGE_SNAP_BY_ORDINAL :: "u64 \<Rightarrow> bool" where
  "IMAGE_SNAP_BY_ORDINAL o' \<longleftrightarrow> o' AND IMAGE_ORDINAL_FLAG \<noteq> 0"

subsection \<open>Numbers\<close>

fun showHex :: "nat \<Rightarrow> string" where
  "showHex n = (if n < 16 then [hexChar n] else showHex (n div 16) @ [hexChar (n mod 16)])"

declare showHex.simps [simp del]

definition showHex8 :: "u32 \<Rightarrow> string" where
  "showHex8 v = EncodeToString (rev (leBytes 4 (unat v)))"

definition alignDown :: "u64 \<Rightarrow> u64 \<Rightarrow> u64" where
  "alignDown v a = v AND NOT (a - 1)"

definition alignUp :: "u64 \<Rightarrow> u64 \<Rightarrow> u64" where
  "alignUp v a = (v + a - 1) AND NOT (a - 1)"

text \<open>For a power of two, these are the next multiples below and above.\<close>

lemma NOT_mask: "NOT (2 ^ k - 1 :: u64) = NOT (Bit_Operations.mask k)"
  by (simp add: mask_eq_exp_minus_1)

lemma and_not_mask: "v AND NOT (Bit_Operations.mask k) = push_bit k (drop_bit k (v :: u64))"
  by (rule bit_word_eqI) (auto simp: bit_simps)

lemma alignDown_pow: "unat (alignDown v (2 ^ k)) = unat v div 2 ^ k * 2 ^ k"
proof -
  have "unat v < 2 ^ LENGTH(64)" by (rule unsigned_less)
  moreover have "unat v div 2 ^ k * 2 ^ k \<le> unat v" by (rule div_times_less_eq_dividend)
  ultimately have lt: "unat v div 2 ^ k * 2 ^ k < 2 ^ LENGTH(64)" by linarith
  have "unat (drop_bit k v) = unat v div 2 ^ k"
    using take_bit_nat_eq_self [OF \<open>unat v < 2 ^ LENGTH(64)\<close>] drop_bit_eq_div [of k "unat v"]
    by (simp only: unsigned_drop_bit_eq)
  then have "unat (alignDown v (2 ^ k)) = take_bit LENGTH(64) (unat v div 2 ^ k * 2 ^ k)"
    using push_bit_eq_mult [of k "unat v div 2 ^ k"] by (simp only: alignDown_def NOT_mask and_not_mask unsigned_push_bit_eq)
  also have "\<dots> = unat v div 2 ^ k * 2 ^ k" using lt by (rule take_bit_nat_eq_self)
  finally show ?thesis .
qed

lemma alignUp_pow:
  assumes "k < 64" and "unat v + 2 ^ k - 1 < 2 ^ 64"
  shows "unat (alignUp v (2 ^ k)) = roundUp (unat v) (2 ^ k)"
proof -
  have "1 \<le> unat v + 2 ^ k" by (simp add: add_increasing)
  then have "v + 2 ^ k - 1 = of_nat (unat v + 2 ^ k - 1)" by (simp only: of_nat_diff of_nat_add of_nat_power) simp
  then have "unat (v + 2 ^ k - 1) = unat v + 2 ^ k - 1" using assms(2) by (simp add: unsigned_of_nat take_bit_nat_eq_self del: of_nat_add)
  then show ?thesis using alignDown_pow [of "v + 2 ^ k - 1" k] by (simp add: alignUp_def alignDown_def roundUp_def)
qed

end
