(* ===== verification/Memmod.thy ===== *)
theory Memmod
  imports Pe_Format
begin

text \<open>
  The module loader of \<open>src/wintun/memmod/memmod_windows.go\<close> and \<open>memmod_windows_64.go\<close>: it builds an executable image in memory from
  the bytes of a DLL, as the Windows loader would from a file.  Addresses are \<open>u64\<close>
  and wrap around; a pointer that is followed where there is no memory is a fault.
\<close>

subsection \<open>Headers\<close>

definition E_lfanew :: "u64 \<Rightarrow> u64 M" where
  "E_lfanew d = bindM (load32 (d + off IMAGE_DOS_HEADER ''E_lfanew'')) (\<lambda>v. retM (scast v))"

definition fileHdr :: "u64 \<Rightarrow> string \<Rightarrow> u64" where
  "fileHdr h f = h + off IMAGE_NT_HEADERS ''FileHeader'' + off IMAGE_FILE_HEADER f"

definition optHdr :: "u64 \<Rightarrow> string \<Rightarrow> u64" where
  "optHdr h f = h + off IMAGE_NT_HEADERS ''OptionalHeader'' + off IMAGE_OPTIONAL_HEADER f"

definition Sections :: "u64 \<Rightarrow> u64 list M" where
  "Sections h =
     bindM (load16 (fileHdr h ''SizeOfOptionalHeader'')) (\<lambda>k.
     bindM (load16 (fileHdr h ''NumberOfSections'')) (\<lambda>n.
     retM (map (\<lambda>i. h + off IMAGE_NT_HEADERS ''OptionalHeader'' + ucast k + of_nat (i * sizeOf IMAGE_SECTION_HEADER)) [0..<unat n])))"

definition secHdr :: "u64 \<Rightarrow> string \<Rightarrow> u64" where
  "secHdr s f = s + off IMAGE_SECTION_HEADER f"

definition PhysicalAddress :: "u64 \<Rightarrow> u32 M" where
  "PhysicalAddress s = load32 (secHdr s ''physicalAddressOrVirtualSize'')"

definition SetPhysicalAddress :: "u64 \<Rightarrow> u32 \<Rightarrow> unit M" where
  "SetPhysicalAddress s a = store (secHdr s ''physicalAddressOrVirtualSize'') a"

definition SetVirtualSize :: "u64 \<Rightarrow> u32 \<Rightarrow> unit M" where
  "SetVirtualSize s a = store (secHdr s ''physicalAddressOrVirtualSize'') a"

text \<open>A field of an entry of the data directory of the module.\<close>

definition dirField :: "nat \<Rightarrow> string \<Rightarrow> u32 M" where
  "dirField idx f = bindM headersM (\<lambda>h. load32 (optHdr h ''DataDirectory'' + of_nat (idx * sizeOf IMAGE_DATA_DIRECTORY) + off IMAGE_DATA_DIRECTORY f))"

text \<open>What a directory points to: its relative address added to the base of the code.\<close>

definition dirAddress :: "nat \<Rightarrow> u64 M" where
  "dirAddress idx = bindM codeBaseM (\<lambda>cb. bindM (dirField idx ''VirtualAddress'') (\<lambda>va. retM (cb + ucast va)))"

definition imageOffset :: "u64 M" where
  "imageOffset = bindM headersM (\<lambda>h. bindM (load64 (optHdr h ''ImageBase'')) (\<lambda>b. retM (b AND 0xffffffff00000000)))"

subsection \<open>Sections\<close>

definition copySection :: "winapi \<Rightarrow> u64 \<Rightarrow> u64 \<Rightarrow> u64 \<Rightarrow> u64 \<Rightarrow> unit M" where
  "copySection W address len oldHeaders s =
     bindM (load32 (secHdr s ''SizeOfRawData'')) (\<lambda>raw.
     if raw = 0 then
       bindM (load32 (optHdr oldHeaders ''SectionAlignment'')) (\<lambda>sectionSize.
       if sectionSize = 0 then retM ()
       else
         bindM codeBaseM (\<lambda>cb.
         bindM (load32 (secHdr s ''VirtualAddress'')) (\<lambda>va.
         bindM (wrapM ''Error allocating section'' (VirtualAlloc W (cb + ucast va) (ucast sectionSize) MEM_COMMIT PAGE_READWRITE)) (\<lambda>_.
         bindM (load32 (secHdr s ''VirtualAddress'')) (\<lambda>va.
         let dest = cb + ucast va in
         thenM (SetPhysicalAddress s (ucast (dest AND 0xffffffff)))
           (storeBytes dest (replicate (unat sectionSize) 0)))))))
     else
       bindM (load32 (secHdr s ''PointerToRawData'')) (\<lambda>p.
       if len < ucast (p + raw) then failM ''Incomplete section''
       else
         bindM codeBaseM (\<lambda>cb.
         bindM (load32 (secHdr s ''VirtualAddress'')) (\<lambda>va.
         bindM (wrapM ''Error allocating memory block'' (VirtualAlloc W (cb + ucast va) (ucast raw) MEM_COMMIT PAGE_READWRITE)) (\<lambda>dest.
         bindM (load32 (secHdr s ''VirtualAddress'')) (\<lambda>va.
         bindM (load32 (secHdr s ''PointerToRawData'')) (\<lambda>p.
         bindM (load32 (secHdr s ''SizeOfRawData'')) (\<lambda>raw.
         thenM (memcpy (cb + ucast va) (address + ucast p) (unat raw))
           (SetPhysicalAddress s (ucast (dest AND 0xffffffff)))))))))))"

definition copySections :: "winapi \<Rightarrow> u64 \<Rightarrow> u64 \<Rightarrow> u64 \<Rightarrow> unit M" where
  "copySections W address len oldHeaders =
     bindM headersM (\<lambda>h. bindM (Sections h) (forM (copySection W address len oldHeaders)))"

definition realSectionSize :: "u64 \<Rightarrow> u64 M" where
  "realSectionSize s =
     bindM (load32 (secHdr s ''SizeOfRawData'')) (\<lambda>raw.
     if raw \<noteq> 0 then retM (ucast raw)
     else
       bindM (load32 (secHdr s ''Characteristics'')) (\<lambda>c.
       bindM headersM (\<lambda>h.
       if c AND IMAGE_SCN_CNT_INITIALIZED_DATA \<noteq> 0 then bindM (load32 (optHdr h ''SizeOfInitializedData'')) (\<lambda>n. retM (ucast n))
       else if c AND IMAGE_SCN_CNT_UNINITIALIZED_DATA \<noteq> 0 then bindM (load32 (optHdr h ''SizeOfUninitializedData'')) (\<lambda>n. retM (ucast n))
       else retM 0)))"

record sectionFinalizeData =
  address :: u64
  alignedAddress :: u64
  sfdSize :: u64
  characteristics :: u32
  sfdLast :: bool

text \<open>The protection of a page, by whether it may be executed, read, written.\<close>

definition ProtectionFlags :: "u32 list" where
  "ProtectionFlags = [1, 0x10, 2, 0x20, 8, 0x80, 4, 0x40]"

definition protectionOf :: "u32 \<Rightarrow> u32" where
  "protectionOf c = ProtectionFlags ! unat (drop_bit 29 c) OR (if c AND IMAGE_SCN_MEM_NOT_CACHED \<noteq> 0 then PAGE_NOCACHE else 0)"

definition finalizeSection :: "winapi \<Rightarrow> sectionFinalizeData \<Rightarrow> unit M" where
  "finalizeSection W d =
     (if sfdSize d = 0 then retM ()
      else if characteristics d AND IMAGE_SCN_MEM_DISCARDABLE \<noteq> 0 then
        if address d \<noteq> alignedAddress d then retM ()
        else if sfdLast d then VirtualFree W (address d) (sfdSize d) MEM_DECOMMIT
        else
          bindM headersM (\<lambda>h. bindM (load32 (optHdr h ''SectionAlignment'')) (\<lambda>sa.
          if sa = 0 then faultM DivideByZero
          else if sfdSize d mod ucast sa = 0 then VirtualFree W (address d) (sfdSize d) MEM_DECOMMIT
          else retM ()))
      else bindM (wrapM ''Error protecting memory page'' (VirtualProtect W (address d) (sfdSize d) (protectionOf (characteristics d)))) (\<lambda>_. retM ()))"

text \<open>One section of the loop: it is merged with what is pending, or that is finalized first.\<close>

definition mergeable :: "sectionFinalizeData \<Rightarrow> u64 \<Rightarrow> bool" where
  "mergeable d aligned \<longleftrightarrow> alignedAddress d = aligned \<or> aligned < address d + sfdSize d"

definition merge :: "sectionFinalizeData \<Rightarrow> u64 \<Rightarrow> u64 \<Rightarrow> u32 \<Rightarrow> sectionFinalizeData" where
  "merge d a n c =
     d\<lparr>characteristics := (if c AND IMAGE_SCN_MEM_DISCARDABLE = 0 \<or> characteristics d AND IMAGE_SCN_MEM_DISCARDABLE = 0
          then (characteristics d OR c) AND NOT IMAGE_SCN_MEM_DISCARDABLE else characteristics d OR c),
       sfdSize := a + n - address d\<rparr>"

definition sectionAt :: "u64 \<Rightarrow> u64 \<Rightarrow> u64 M" where
  "sectionAt io s = bindM (PhysicalAddress s) (\<lambda>pa. retM (ucast pa OR io))"

definition sectionAlignment :: "u64 M" where
  "sectionAlignment = bindM headersM (\<lambda>h. bindM (load32 (optHdr h ''SectionAlignment'')) (\<lambda>sa. retM (ucast sa)))"

definition nextSection :: "winapi \<Rightarrow> u64 \<Rightarrow> sectionFinalizeData \<Rightarrow> u64 \<Rightarrow> sectionFinalizeData M" where
  "nextSection W io d s =
     bindM (sectionAt io s) (\<lambda>a.
     bindM sectionAlignment (\<lambda>sa.
     bindM (realSectionSize s) (\<lambda>n.
     thenM (SetVirtualSize s (ucast n))
       (bindM (load32 (secHdr s ''Characteristics'')) (\<lambda>c.
        let aligned = alignDown a sa in
        if mergeable d aligned then retM (merge d a n c)
        else
          thenM (wrapM ''Error finalizing section'' (finalizeSection W d))
            (retM (d\<lparr>address := a, alignedAddress := aligned, sfdSize := n, characteristics := c\<rparr>)))))))"

definition firstSection :: "u64 \<Rightarrow> u64 \<Rightarrow> sectionFinalizeData M" where
  "firstSection io s =
     bindM (sectionAt io s) (\<lambda>a.
     bindM sectionAlignment (\<lambda>sa.
     bindM (realSectionSize s) (\<lambda>n.
     thenM (SetVirtualSize s (ucast n))
       (bindM (load32 (secHdr s ''Characteristics'')) (\<lambda>c.
        retM \<lparr>address = a, alignedAddress = alignDown a sa, sfdSize = n, characteristics = c, sfdLast = False\<rparr>)))))"

definition finalizeSections :: "winapi \<Rightarrow> unit M" where
  "finalizeSections W =
     bindM headersM (\<lambda>h.
     bindM (Sections h) (\<lambda>ss.
     bindM imageOffset (\<lambda>io.
     case ss of
       [] \<Rightarrow> faultM IndexOutOfRange
     | s # ss \<Rightarrow>
         bindM (firstSection io s) (\<lambda>d.
         bindM (foldM (nextSection W io) d ss) (\<lambda>d.
         wrapM ''Error finalizing section'' (finalizeSection W (d\<lparr>sfdLast := True\<rparr>)))))))"

subsection \<open>Exception handlers, thread-local storage\<close>

definition sizeofRuntimeFunction :: u64 where
  "sizeofRuntimeFunction = 12"

definition registerExceptionHandlers :: "unit M" where
  "registerExceptionHandlers =
     bindM (dirField 3 ''Size'') (\<lambda>n.
     bindM (dirField 3 ''VirtualAddress'') (\<lambda>va.
     if n = 0 \<or> va = 0 then retM ()
     else
       bindM codeBaseM (\<lambda>cb. RtlAddFunctionTable (cb + ucast va) (ucast (ucast n div sizeofRuntimeFunction)) cb)))"

definition executeTLS :: "winapi \<Rightarrow> unit M" where
  "executeTLS W =
     bindM (dirField 9 ''VirtualAddress'') (\<lambda>va.
     if va = 0 then retM ()
     else
       bindM (dirAddress 9) (\<lambda>tls.
       bindM (load64 (tls + off IMAGE_TLS_DIRECTORY ''AddressOfCallbacks'')) (\<lambda>callback.
       if callback = 0 then retM ()
       else
         bindM (whileM (\<lambda>p. bindM (load64 p) (\<lambda>f. retM (f \<noteq> 0)))
             (\<lambda>p. bindM (load64 p) (\<lambda>f. bindM codeBaseM (\<lambda>cb. bindM (SyscallN W f cb DLL_PROCESS_ATTACH) (\<lambda>_. retM (p + 8)))))
             callback) (\<lambda>_. retM ()))))"

subsection \<open>Relocation\<close>

text \<open>The immediate value of a Thumb instruction, and the instruction with another one.\<close>

definition thumbImm :: "u32 \<Rightarrow> u32" where
  "thumbImm inst = (push_bit 1 inst AND 0x0800) + (push_bit 12 inst AND 0xf000) + (drop_bit 20 inst AND 0x0700) + (drop_bit 16 inst AND 0x00ff)"

definition thumbWith :: "u32 \<Rightarrow> u32 \<Rightarrow> u32" where
  "thumbWith inst imm = (inst AND 0x8f00fbf0) + (drop_bit 1 imm AND 0x0400) + (drop_bit 12 imm AND 0x000f) +
     (push_bit 20 imm AND 0x70000000) + (push_bit 16 imm AND 0xff0000)"

definition relocThumb :: "u64 \<Rightarrow> u64 \<Rightarrow> unit M" where
  "relocThumb a delta =
     bindM (load32 a) (\<lambda>inst.
     if inst AND 0x8000fbf0 \<noteq> 0x0000f240 then failM (''Wrong Thumb2 instruction '' @ showHex8 inst @ '', expected MOVW'')
     else
       let imm = thumbImm inst + (ucast delta AND 0xffff);
           hiDelta = drop_bit 16 (ucast (delta AND 0xffff0000)) + drop_bit 16 (imm AND 0xffff0000) in
       thenM (store a (thumbWith inst imm))
         (if hiDelta = 0 then retM ()
          else
            bindM (load32 (a + 4)) (\<lambda>inst.
            if inst AND 0x8000fbf0 \<noteq> 0x0000f2c0 then failM (''Wrong Thumb2 instruction '' @ showHex8 inst @ '', expected MOVT'')
            else
              let imm = thumbImm inst + hiDelta in
              if 0xffff < imm then failM (''Resulting immediate value won'' @ [CHR 0x27] @ ''t fit: '' @ showHex8 imm)
              else store (a + 4) (thumbWith inst imm))))"

definition addAt :: "u64 \<Rightarrow> 'a::len word \<Rightarrow> unit M" where
  "addAt a d = bindM (load a) (\<lambda>v. store a (v + d))"

definition relocOne :: "u64 \<Rightarrow> u64 \<Rightarrow> u16 \<Rightarrow> unit M" where
  "relocOne dest delta relInfo =
     (let relType = drop_bit 12 relInfo; a = dest + ucast (relInfo AND 0xfff) in
      if relType = 0 then retM ()
      else if relType = 2 then addAt a (ucast (delta AND 0xffff) :: u16)
      else if relType = 1 then addAt a (ucast (drop_bit 16 (ucast delta :: u32)) :: u16)
      else if relType = 3 then addAt a (ucast delta :: u32)
      else if relType = 10 then addAt a delta
      else if relType = 7 then relocThumb a delta
      else failM (''Unsupported relocation: '' @ showNat (unat relType)))"

text \<open>The block at \<open>p\<close>; the slice of its entries panics where its length is negative.\<close>

definition relocBlock :: "u64 \<Rightarrow> u64 \<Rightarrow> u64 M" where
  "relocBlock delta p =
     bindM codeBaseM (\<lambda>cb.
     bindM (load32 (p + off IMAGE_BASE_RELOCATION ''VirtualAddress'')) (\<lambda>va.
     bindM (load32 (p + off IMAGE_BASE_RELOCATION ''SizeOfBlock'')) (\<lambda>n.
     if n < 8 then faultM LenOutOfRange
     else
       thenM (forM (\<lambda>i. bindM (load16 (p + 8 + of_nat (2 * i))) (relocOne (cb + ucast va) delta)) [0..<(unat n - 8) div 2])
         (bindM (load32 (p + off IMAGE_BASE_RELOCATION ''SizeOfBlock'')) (\<lambda>n. retM (p + ucast n))))))"

definition performBaseRelocation :: "u64 \<Rightarrow> bool M" where
  "performBaseRelocation delta =
     bindM (dirField 5 ''Size'') (\<lambda>n.
     if n = 0 then retM (delta = 0)
     else
       bindM (dirAddress 5) (\<lambda>p.
       bindM (whileM (\<lambda>p. bindM (load32 (p + off IMAGE_BASE_RELOCATION ''VirtualAddress'')) (\<lambda>va. retM (0 < va))) (relocBlock delta) p)
         (\<lambda>_. retM True)))"

subsection \<open>Imports\<close>

text \<open>What an entry of the thunk table asks for: an ordinal, or the name after the hint.\<close>

definition thunkSymbol :: "winapi \<Rightarrow> u64 \<Rightarrow> u64 \<Rightarrow> (string + u64) M" where
  "thunkSymbol W cb t =
     (if IMAGE_SNAP_BY_ORDINAL t then retM (Inr (IMAGE_ORDINAL t))
      else bindM (BytePtrToString W (cb + t + 2)) (\<lambda>name. retM (Inl name)))"

definition bindThunk :: "winapi \<Rightarrow> u64 \<Rightarrow> u64 \<times> u64 \<Rightarrow> (u64 \<times> u64) M" where
  "bindThunk W handle refs = (case refs of (thunkRef, funcRef) \<Rightarrow>
     bindM codeBaseM (\<lambda>cb.
     bindM (load64 thunkRef) (\<lambda>t.
     bindM (thunkSymbol W cb t) (\<lambda>sym.
     bindM (GetProcAddress W handle sym) (\<lambda>r.
     case r of
       Inl e \<Rightarrow> thenM (store funcRef (0 :: u64)) (thenM (FreeLibrary W handle) (failM (''Error getting function address: '' @ e)))
     | Inr f \<Rightarrow> thenM (store funcRef f) (retM (thunkRef + 8, funcRef + 8)))))))"

definition importLibrary :: "winapi \<Rightarrow> u64 \<Rightarrow> u64 M" where
  "importLibrary W desc =
     bindM codeBaseM (\<lambda>cb.
     bindM (load32 (desc + off IMAGE_IMPORT_DESCRIPTOR ''Name'')) (\<lambda>nm.
     bindM (BytePtrToString W (cb + ucast nm)) (\<lambda>name.
     bindM (wrapM ''Error loading module'' (LoadLibraryEx W name)) (\<lambda>handle.
     bindM (load32 (desc + off IMAGE_IMPORT_DESCRIPTOR ''characteristicsOrOriginalFirstThunk'')) (\<lambda>oft.
     bindM (load32 (desc + off IMAGE_IMPORT_DESCRIPTOR ''FirstThunk'')) (\<lambda>ft.
     let thunkRef = cb + ucast (if oft \<noteq> 0 then oft else ft); funcRef = cb + ucast ft in
     bindM (whileM (\<lambda>(t, _). bindM (load64 t) (\<lambda>v. retM (v \<noteq> 0))) (bindThunk W handle) (thunkRef, funcRef)) (\<lambda>_.
     thenM (setThis (\<lambda>m. m\<lparr>modules := modules m @ [handle]\<rparr>))
       (retM (desc + of_nat (sizeOf IMAGE_IMPORT_DESCRIPTOR))))))))))"

definition buildImportTable :: "winapi \<Rightarrow> unit M" where
  "buildImportTable W =
     bindM (dirField 1 ''Size'') (\<lambda>n.
     if n = 0 then retM ()
     else
       thenM (setThis (\<lambda>m. m\<lparr>modules := []\<rparr>))
         (bindM (dirAddress 1) (\<lambda>desc.
          bindM (whileM (\<lambda>d. bindM (load32 (d + off IMAGE_IMPORT_DESCRIPTOR ''Name'')) (\<lambda>nm. retM (nm \<noteq> 0))) (importLibrary W) desc)
            (\<lambda>_. retM ()))))"

subsection \<open>Exports\<close>

definition expField :: "u64 \<Rightarrow> string \<Rightarrow> u32 M" where
  "expField e f = load32 (e + off IMAGE_EXPORT_DIRECTORY f)"

text \<open>The \<open>i\<close>th name goes into the map with the \<open>i\<close>th ordinal.\<close>

definition exportName :: "winapi \<Rightarrow> u64 \<Rightarrow> u64 \<Rightarrow> nat \<Rightarrow> unit M" where
  "exportName W names ords i =
     bindM codeBaseM (\<lambda>cb.
     bindM (load32 (names + of_nat (4 * i))) (\<lambda>r.
     bindM (BytePtrToString W (cb + ucast r)) (\<lambda>name.
     bindM (load16 (ords + of_nat (2 * i))) (\<lambda>ord.
     setThis (\<lambda>m. m\<lparr>nameExports := map_option (\<lambda>x. x(name \<mapsto> ord)) (nameExports m)\<rparr>)))))"

definition buildNameExports :: "winapi \<Rightarrow> unit M" where
  "buildNameExports W =
     bindM (dirField 0 ''Size'') (\<lambda>n.
     if n = 0 then failM ''No export table found''
     else
       bindM (dirAddress 0) (\<lambda>e.
       bindM (expField e ''NumberOfNames'') (\<lambda>nn.
       bindM (expField e ''NumberOfFunctions'') (\<lambda>nf.
       if nn = 0 \<or> nf = 0 then failM ''No functions exported''
       else
         bindM codeBaseM (\<lambda>cb.
         bindM (expField e ''AddressOfNames'') (\<lambda>names.
         bindM (expField e ''AddressOfNameOrdinals'') (\<lambda>ords.
         thenM (setThis (\<lambda>m. m\<lparr>nameExports := Some (\<lambda>_. None)\<rparr>))
           (forM (exportName W (cb + ucast names) (cb + ucast ords)) [0..<unat nn]))))))))"

text \<open>The entry of the table of functions: \<open>idx\<close> counts from 0.\<close>

definition functionAt :: "u64 \<Rightarrow> u16 \<Rightarrow> u64 M" where
  "functionAt e idx =
     bindM codeBaseM (\<lambda>cb.
     bindM (expField e ''AddressOfFunctions'') (\<lambda>af.
     bindM (load32 (cb + ucast af + ucast idx * 4)) (\<lambda>r. retM (cb + ucast r))))"

definition ProcAddressByName :: "string \<Rightarrow> u64 M" where
  "ProcAddressByName name =
     bindM (dirField 0 ''Size'') (\<lambda>n.
     if n = 0 then failM ''No export table found''
     else
       bindM (dirAddress 0) (\<lambda>e.
       bindM (getM (\<lambda>s. nameExports (this s))) (\<lambda>x.
       case x of
         None \<Rightarrow> failM ''No functions exported by name''
       | Some t \<Rightarrow>
           (case t name of
              None \<Rightarrow> failM ''Function not found by name''
            | Some idx \<Rightarrow>
                bindM (expField e ''NumberOfFunctions'') (\<lambda>nf.
                if nf < ucast idx then failM ''Ordinal number too high'' else functionAt e idx)))))"

definition ProcAddressByOrdinal :: "u16 \<Rightarrow> u64 M" where
  "ProcAddressByOrdinal ordinal =
     bindM (dirField 0 ''Size'') (\<lambda>n.
     if n = 0 then failM ''No export table found''
     else
       bindM (dirAddress 0) (\<lambda>e.
       bindM (expField e ''Base'') (\<lambda>b.
       if ucast ordinal < b then failM ''Ordinal number too low''
       else
         let idx = ordinal - ucast b in
         bindM (expField e ''NumberOfFunctions'') (\<lambda>nf.
         if nf < ucast idx then failM ''Ordinal number too high'' else functionAt e idx))))"

subsection \<open>The hook\<close>

text \<open>
  \<open>RtlPcToFileHeader\<close> as kernelbase calls it is replaced by a function that pretends to be called from kernelbase itself for addresses in
  a loaded module.
\<close>

definition hookedPc :: "(u64 \<times> u64) list \<Rightarrow> u64 \<Rightarrow> u64 \<Rightarrow> u64" where
  "hookedPc ranges thunk pc = (if list_ex (\<lambda>(a, b). a \<le> pc \<and> pc < b) ranges then thunk else pc)"

definition EqualFold_ntdll :: "string \<Rightarrow> bool" where
  "EqualFold_ntdll s \<longleftrightarrow> map toLower s = ''ntdll.dll''"

text \<open>The conditions of the two search loops.\<close>

definition seekLibrary :: "winapi \<Rightarrow> u64 \<Rightarrow> u64 \<Rightarrow> bool M" where
  "seekLibrary W imageBase d =
     bindM (load32 (d + off IMAGE_IMPORT_DESCRIPTOR ''Name'')) (\<lambda>nm.
     if nm = 0 then retM False
     else bindM (BytePtrToString W (imageBase + ucast nm)) (\<lambda>name. retM (\<not> EqualFold_ntdll name)))"

definition seekFunction :: "winapi \<Rightarrow> u64 \<Rightarrow> u64 \<times> u64 \<Rightarrow> bool M" where
  "seekFunction W imageBase refs =
     bindM (load64 (fst refs)) (\<lambda>t.
     if t = 0 then retM False
     else if IMAGE_SNAP_BY_ORDINAL t then retM True
     else bindM (BytePtrToString W (imageBase + t + 2)) (\<lambda>name. retM (name \<noteq> ''RtlPcToFileHeader'')))"

definition hookRtlPcToFileHeader :: "winapi \<Rightarrow> unit M" where
  "hookRtlPcToFileHeader W =
     bindM (getM (\<lambda>s. wModuleHandle W s ''kernelbase.dll'')) (\<lambda>r.
     case r of
       Inl e \<Rightarrow> failM e
     | Inr imageBase \<Rightarrow>
         bindM (E_lfanew imageBase) (\<lambda>lf.
         bindM (load32 (optHdr (imageBase + lf) ''DataDirectory'' + of_nat (1 * sizeOf IMAGE_DATA_DIRECTORY) + off IMAGE_DATA_DIRECTORY ''VirtualAddress''))
           (\<lambda>va.
         bindM (whileM (seekLibrary W imageBase) (\<lambda>d. retM (d + of_nat (sizeOf IMAGE_IMPORT_DESCRIPTOR))) (imageBase + ucast va)) (\<lambda>d.
         bindM (load32 (d + off IMAGE_IMPORT_DESCRIPTOR ''Name'')) (\<lambda>nm.
         if nm = 0 then failM ''ntdll.dll not found''
         else
           bindM (load32 (d + off IMAGE_IMPORT_DESCRIPTOR ''characteristicsOrOriginalFirstThunk'')) (\<lambda>oft.
           bindM (load32 (d + off IMAGE_IMPORT_DESCRIPTOR ''FirstThunk'')) (\<lambda>ft.
           bindM (whileM (seekFunction W imageBase) (\<lambda>(o', t). retM (o' + 8, t + 8)) (imageBase + ucast oft, imageBase + ucast ft)) (\<lambda>(o', thunk).
           bindM (load64 o') (\<lambda>v.
           if v = 0 then failM ''RtlPcToFileHeader not found''
           else
             bindM (VirtualProtect W thunk 8 PAGE_READWRITE) (\<lambda>oldProtect.
             bindM (load64 thunk) (\<lambda>original.
             bindM (getM (wCallback W)) (\<lambda>callback.
             thenM (store thunk callback)
               (bindM (VirtualProtect W thunk 8 oldProtect) (\<lambda>_. retM ()))))))))))))))"

text \<open>Done once for the process; its result is kept.\<close>

definition hookOnce :: "winapi \<Rightarrow> unit M" where
  "hookOnce W =
     bindM (getM hookResult) (\<lambda>known.
     bindM (case known of
         Some r \<Rightarrow> retM r
       | None \<Rightarrow>
           bindM (tryM (hookRtlPcToFileHeader W)) (\<lambda>r.
           let res = (case r of Inl e \<Rightarrow> Some e | Inr _ \<Rightarrow> None) in
           thenM (modM (\<lambda>s. s\<lparr>hookResult := Some res\<rparr>)) (retM res))) (\<lambda>r.
     case r of Some e \<Rightarrow> failM e | None \<Rightarrow> retM ()))"

subsection \<open>Memory for the image\<close>

text \<open>\<open>module.codeBase, err = VirtualAlloc(...)\<close>: without memory the base is 0.\<close>

definition allocCode :: "winapi \<Rightarrow> u64 \<Rightarrow> u64 \<Rightarrow> unit M" where
  "allocCode W a n =
     bindM (tryM (VirtualAlloc W a n (MEM_RESERVE OR MEM_COMMIT) PAGE_READWRITE)) (\<lambda>r.
     case r of
       Inl e \<Rightarrow> thenM (setThis (\<lambda>m. m\<lparr>codeBase := 0\<rparr>)) (failM e)
     | Inr b \<Rightarrow> setThis (\<lambda>m. m\<lparr>codeBase := b\<rparr>))"

definition crosses4GB :: "u64 \<Rightarrow> u64 \<Rightarrow> bool" where
  "crosses4GB a n \<longleftrightarrow> drop_bit 32 a < drop_bit 32 (a + n)"

definition check4GBBoundaries :: "winapi \<Rightarrow> u64 \<Rightarrow> unit M" where
  "check4GBBoundaries W n =
     whileM (\<lambda>_. bindM codeBaseM (\<lambda>cb. retM (crosses4GB cb n)))
       (\<lambda>_. thenM (setThis (\<lambda>m. m\<lparr>blockedMemory := codeBase m # blockedMemory m\<rparr>)) (wrapM ''Error allocating memory block'' (allocCode W 0 n)))
       ()"

subsection \<open>Loading and freeing\<close>

definition detach :: "winapi \<Rightarrow> unit M" where
  "detach W =
     bindM (getM this) (\<lambda>m.
     if initialized m
     then bindM (SyscallN W (entry m) (codeBase m) DLL_PROCESS_DETACH) (\<lambda>_. setThis (\<lambda>m. m\<lparr>initialized := False\<rparr>))
     else retM ())"

definition freeModules :: "winapi \<Rightarrow> unit M" where
  "freeModules W = bindM (getM this) (\<lambda>m. thenM (forM (FreeLibrary W) (modules m)) (setThis (\<lambda>m. m\<lparr>modules := []\<rparr>)))"

definition freeCode :: "winapi \<Rightarrow> unit M" where
  "freeCode W =
     bindM codeBaseM (\<lambda>cb. if cb \<noteq> 0 then thenM (VirtualFree W cb 0 MEM_RELEASE) (setThis (\<lambda>m. m\<lparr>codeBase := 0\<rparr>)) else retM ())"

definition freeBlocked :: "winapi \<Rightarrow> unit M" where
  "freeBlocked W =
     bindM (getM this) (\<lambda>m. thenM (forM (\<lambda>a. VirtualFree W a 0 MEM_RELEASE) (blockedMemory m)) (setThis (\<lambda>m. m\<lparr>blockedMemory := []\<rparr>)))"

definition Free :: "winapi \<Rightarrow> unit M" where
  "Free W = thenM (detach W) (thenM (freeModules W) (thenM (freeCode W) (freeBlocked W)))"

text \<open>The end of the last section, which the size of the image has to agree with.\<close>

definition sectionEnd :: "u32 \<Rightarrow> u64 \<Rightarrow> u64 \<Rightarrow> u64 M" where
  "sectionEnd optionalSectionSize lastSectionEnd s =
     bindM (load32 (secHdr s ''SizeOfRawData'')) (\<lambda>raw.
     bindM (load32 (secHdr s ''VirtualAddress'')) (\<lambda>va.
     let e = ucast va + ucast (if raw = 0 then optionalSectionSize else raw) in
     retM (if lastSectionEnd < e then e else lastSectionEnd)))"

text \<open>The checks made on the data; the result is where its headers are and how much memory the image needs.\<close>

definition checkImage :: "u16 \<Rightarrow> u64 \<Rightarrow> u64 \<Rightarrow> (u64 \<times> u64) M" where
  "checkImage machine addr len =
     (if len = 0 then faultM IndexOutOfRange
      else if len < of_nat (sizeOf IMAGE_DOS_HEADER) then failM ''Incomplete IMAGE_DOS_HEADER''
      else
        bindM (load16 (addr + off IMAGE_DOS_HEADER ''E_magic'')) (\<lambda>magic.
        if magic \<noteq> IMAGE_DOS_SIGNATURE
        then failM (''Not an MS-DOS binary (provided: '' @ showHex (unat magic) @ '', expected: '' @ showHex (unat IMAGE_DOS_SIGNATURE) @ '')'')
        else
          bindM (E_lfanew addr) (\<lambda>lf.
          if len < lf + of_nat (sizeOf IMAGE_NT_HEADERS) then failM ''Incomplete IMAGE_NT_HEADERS''
          else
            let old = addr + lf in
            bindM (load32 old) (\<lambda>sig.
            if sig \<noteq> IMAGE_NT_SIGNATURE
            then failM (''Not an NT binary (provided: '' @ showHex (unat sig) @ '', expected: '' @ showHex (unat IMAGE_NT_SIGNATURE) @ '')'')
            else
              bindM (load16 (fileHdr old ''Machine'')) (\<lambda>mach.
              if mach \<noteq> machine
              then failM (''Foreign platform (provided: '' @ showHex (unat mach) @ '', expected: '' @ showHex (unat machine) @ '')'')
              else
                bindM (load32 (optHdr old ''SectionAlignment'')) (\<lambda>sa.
                if sa AND 1 \<noteq> 0 then failM ''Unaligned section''
                else
                  bindM (Sections old) (\<lambda>ss.
                  bindM (foldM (sectionEnd sa) 0 ss) (\<lambda>lastEnd.
                  bindM (load32 (optHdr old ''SizeOfImage'')) (\<lambda>soi.
                  let n = alignUp (ucast soi) (ucast sa) in
                  if n \<noteq> alignUp lastEnd (ucast sa) then failM ''Section is not page-aligned''
                  else retM (old, n))))))))))"

definition reserveImage :: "winapi \<Rightarrow> u64 \<Rightarrow> u64 \<Rightarrow> unit M" where
  "reserveImage W old n =
     bindM (load64 (optHdr old ''ImageBase'')) (\<lambda>b.
     thenM (bindM (tryM (allocCode W b n)) (\<lambda>r.
       case r of Inl _ \<Rightarrow> wrapM ''Error allocating code'' (allocCode W 0 n) | Inr _ \<Rightarrow> retM ()))
       (wrapM ''Error reallocating code'' (check4GBBoundaries W n)))"

definition copyHeaders :: "winapi \<Rightarrow> u64 \<Rightarrow> u64 \<Rightarrow> u64 \<Rightarrow> unit M" where
  "copyHeaders W addr len old =
     bindM (load32 (optHdr old ''SizeOfHeaders'')) (\<lambda>soh.
     if len < ucast soh then failM ''Incomplete headers''
     else
       bindM codeBaseM (\<lambda>cb.
       bindM (wrapM ''Error allocating headers'' (VirtualAlloc W cb (ucast soh) MEM_COMMIT PAGE_READWRITE)) (\<lambda>hdrs.
       bindM (load32 (optHdr old ''SizeOfHeaders'')) (\<lambda>soh.
       thenM (memcpy hdrs addr (unat soh))
         (bindM (E_lfanew addr) (\<lambda>lf.
          thenM (setThis (\<lambda>m. m\<lparr>headers := hdrs + lf\<rparr>))
            (bindM headersM (\<lambda>h. bindM codeBaseM (\<lambda>cb. store (optHdr h ''ImageBase'') cb)))))))))"

definition relocateImage :: "u64 \<Rightarrow> unit M" where
  "relocateImage old =
     bindM headersM (\<lambda>h.
     bindM (load64 (optHdr h ''ImageBase'')) (\<lambda>b.
     bindM (load64 (optHdr old ''ImageBase'')) (\<lambda>b0.
     if b - b0 \<noteq> 0
     then bindM (wrapM ''Error relocating module'' (performBaseRelocation (b - b0))) (\<lambda>r. setThis (\<lambda>m. m\<lparr>isRelocated := r\<rparr>))
     else setThis (\<lambda>m. m\<lparr>isRelocated := True\<rparr>))))"

definition registerRange :: "u64 \<Rightarrow> unit M" where
  "registerRange n = modM (\<lambda>s. s\<lparr>loadedAddressRanges := loadedAddressRanges s @ [(codeBase (this s), codeBase (this s) + n)]\<rparr>)"

definition attach :: "winapi \<Rightarrow> unit M" where
  "attach W =
     bindM headersM (\<lambda>h.
     bindM (load32 (optHdr h ''AddressOfEntryPoint'')) (\<lambda>ep.
     if ep = 0 then retM ()
     else
       bindM codeBaseM (\<lambda>cb.
       thenM (setThis (\<lambda>m. m\<lparr>entry := cb + ucast ep\<rparr>))
         (bindM (getM this) (\<lambda>m.
          if isDLL m then
            bindM (SyscallN W (entry m) cb DLL_PROCESS_ATTACH) (\<lambda>r.
            if r = 0 then failM ''ERROR_DLL_INIT_FAILED'' else setThis (\<lambda>m. m\<lparr>initialized := True\<rparr>))
          else retM ())))))"

definition loadImage :: "winapi \<Rightarrow> u64 \<Rightarrow> u64 \<Rightarrow> u64 \<Rightarrow> u64 \<Rightarrow> unit M" where
  "loadImage W addr len old n =
     thenM (reserveImage W old n)
    (thenM (copyHeaders W addr len old)
    (thenM (wrapM ''Error copying sections'' (copySections W addr len old))
    (thenM (relocateImage old)
    (thenM (wrapM ''Error building import table'' (buildImportTable W))
    (thenM (wrapM ''Error finalizing sections'' (finalizeSections W))
    (thenM registerExceptionHandlers
    (thenM (registerRange n)
    (thenM (hookOnce W)
    (thenM (executeTLS W)
    (thenM (attach W)
     (ignoreM (buildNameExports W))))))))))))"

definition newModule :: "bool \<Rightarrow> Module" where
  "newModule dll = \<lparr>headers = 0, codeBase = 0, modules = [], initialized = False, isDLL = dll, isRelocated = False, nameExports = None,
     entry = 0, blockedMemory = []\<rparr>"

definition LoadLibrary :: "winapi \<Rightarrow> u16 \<Rightarrow> u64 \<Rightarrow> u64 \<Rightarrow> unit M" where
  "LoadLibrary W machine addr len =
     bindM (checkImage machine addr len) (\<lambda>(old, n).
     bindM (load16 (fileHdr old ''Characteristics'')) (\<lambda>c.
     thenM (setThis (\<lambda>_. newModule (c AND IMAGE_FILE_DLL \<noteq> 0)))
       (cleanupM (Free W) (loadImage W addr len old n))))"

end
