(* ===== verification/Pe_Tables.thy ===== *)
theory Pe_Tables
  imports Memmod
begin

text \<open>
  The remaining declarations of \<open>syscall_windows.go\<close> and \<open>syscall_windows_64.go\<close>: the tables of named
  constants, without the prefix that all names of a table share, and the structs that the loader does not
  read.  The loader (\<open>Memmod\<close>) writes the constants it uses as numbers; the lemmas say that they are
  the ones named in its source.
\<close>

subsection \<open>Constants\<close>

definition fileCharacteristics :: "(string \<times> u16) list" where
  "fileCharacteristics =
    [(''RELOCS_STRIPPED'', 0x0001), (''EXECUTABLE_IMAGE'', 0x0002), (''LINE_NUMS_STRIPPED'', 0x0004),
     (''LOCAL_SYMS_STRIPPED'', 0x0008), (''AGGRESIVE_WS_TRIM'', 0x0010), (''LARGE_ADDRESS_AWARE'', 0x0020),
     (''BYTES_REVERSED_LO'', 0x0080), (''32BIT_MACHINE'', 0x0100), (''DEBUG_STRIPPED'', 0x0200),
     (''REMOVABLE_RUN_FROM_SWAP'', 0x0400), (''NET_RUN_FROM_SWAP'', 0x0800), (''SYSTEM'', 0x1000), (''DLL'', 0x2000),
     (''UP_SYSTEM_ONLY'', 0x4000), (''BYTES_REVERSED_HI'', 0x8000)]"

definition fileMachine :: "(string \<times> u16) list" where
  "fileMachine =
    [(''UNKNOWN'', 0), (''TARGET_HOST'', 0x0001), (''I386'', 0x014c), (''R3000'', 0x0162), (''R4000'', 0x0166),
     (''R10000'', 0x0168), (''WCEMIPSV2'', 0x0169), (''ALPHA'', 0x0184), (''SH3'', 0x01a2), (''SH3DSP'', 0x01a3),
     (''SH3E'', 0x01a4), (''SH4'', 0x01a6), (''SH5'', 0x01a8), (''ARM'', 0x01c0), (''THUMB'', 0x01c2), (''ARMNT'', 0x01c4),
     (''AM33'', 0x01d3), (''POWERPC'', 0x01F0), (''POWERPCFP'', 0x01f1), (''IA64'', 0x0200), (''MIPS16'', 0x0266),
     (''ALPHA64'', 0x0284), (''MIPSFPU'', 0x0366), (''MIPSFPU16'', 0x0466), (''AXP64'', 0x0284), (''TRICORE'', 0x0520),
     (''CEF'', 0x0CEF), (''EBC'', 0x0EBC), (''AMD64'', 0x8664), (''M32R'', 0x9041), (''ARM64'', 0xAA64), (''CEE'', 0xC0EE)]"

definition directoryEntry :: "(string \<times> nat) list" where
  "directoryEntry =
    [(''EXPORT'', 0), (''IMPORT'', 1), (''RESOURCE'', 2), (''EXCEPTION'', 3), (''SECURITY'', 4), (''BASERELOC'', 5),
     (''DEBUG'', 6), (''COPYRIGHT'', 7), (''ARCHITECTURE'', 7), (''GLOBALPTR'', 8), (''TLS'', 9), (''LOAD_CONFIG'', 10),
     (''BOUND_IMPORT'', 11), (''IAT'', 12), (''DELAY_IMPORT'', 13), (''COM_DESCRIPTOR'', 14)]"

definition dllCharacteristics :: "(string \<times> u16) list" where
  "dllCharacteristics =
    [(''HIGH_ENTROPY_VA'', 0x0020), (''DYNAMIC_BASE'', 0x0040), (''FORCE_INTEGRITY'', 0x0080), (''NX_COMPAT'', 0x0100),
     (''NO_ISOLATION'', 0x0200), (''NO_SEH'', 0x0400), (''NO_BIND'', 0x0800), (''APPCONTAINER'', 0x1000),
     (''WDM_DRIVER'', 0x2000), (''GUARD_CF'', 0x4000), (''TERMINAL_SERVER_AWARE'', 0x8000)]"

definition sectionFlags :: "(string \<times> u32) list" where
  "sectionFlags =
    [(''TYPE_REG'', 0x00000000), (''TYPE_DSECT'', 0x00000001), (''TYPE_NOLOAD'', 0x00000002), (''TYPE_GROUP'', 0x00000004),
     (''TYPE_NO_PAD'', 0x00000008), (''TYPE_COPY'', 0x00000010), (''CNT_CODE'', 0x00000020),
     (''CNT_INITIALIZED_DATA'', 0x00000040), (''CNT_UNINITIALIZED_DATA'', 0x00000080), (''LNK_OTHER'', 0x00000100),
     (''LNK_INFO'', 0x00000200), (''TYPE_OVER'', 0x00000400), (''LNK_REMOVE'', 0x00000800), (''LNK_COMDAT'', 0x00001000),
     (''MEM_PROTECTED'', 0x00004000), (''NO_DEFER_SPEC_EXC'', 0x00004000), (''GPREL'', 0x00008000), (''MEM_FARDATA'', 0x00008000),
     (''MEM_SYSHEAP'', 0x00010000), (''MEM_PURGEABLE'', 0x00020000), (''MEM_16BIT'', 0x00020000), (''MEM_LOCKED'', 0x00040000),
     (''MEM_PRELOAD'', 0x00080000), (''ALIGN_1BYTES'', 0x00100000), (''ALIGN_2BYTES'', 0x00200000),
     (''ALIGN_4BYTES'', 0x00300000), (''ALIGN_8BYTES'', 0x00400000), (''ALIGN_16BYTES'', 0x00500000),
     (''ALIGN_32BYTES'', 0x00600000), (''ALIGN_64BYTES'', 0x00700000), (''ALIGN_128BYTES'', 0x00800000),
     (''ALIGN_256BYTES'', 0x00900000), (''ALIGN_512BYTES'', 0x00A00000), (''ALIGN_1024BYTES'', 0x00B00000),
     (''ALIGN_2048BYTES'', 0x00C00000), (''ALIGN_4096BYTES'', 0x00D00000), (''ALIGN_8192BYTES'', 0x00E00000),
     (''ALIGN_MASK'', 0x00F00000), (''LNK_NRELOC_OVFL'', 0x01000000), (''MEM_DISCARDABLE'', 0x02000000),
     (''MEM_NOT_CACHED'', 0x04000000), (''MEM_NOT_PAGED'', 0x08000000), (''MEM_SHARED'', 0x10000000),
     (''MEM_EXECUTE'', 0x20000000), (''MEM_READ'', 0x40000000), (''MEM_WRITE'', 0x80000000), (''SCALE_INDEX'', 0x00000001)]"

definition relocationKind :: "(string \<times> u16) list" where
  "relocationKind =
    [(''ABSOLUTE'', 0), (''HIGH'', 1), (''LOW'', 2), (''HIGHLOW'', 3), (''HIGHADJ'', 4), (''MACHINE_SPECIFIC_5'', 5),
     (''RESERVED'', 6), (''MACHINE_SPECIFIC_7'', 7), (''MACHINE_SPECIFIC_8'', 8), (''MACHINE_SPECIFIC_9'', 9), (''DIR64'', 10),
     (''IA64_IMM64'', 9), (''MIPS_JMPADDR'', 5), (''MIPS_JMPADDR16'', 9), (''ARM_MOV32'', 5), (''THUMB_MOV32'', 7)]"

definition guardFlags :: "(string \<times> u32) list" where
  "guardFlags =
    [(''CF_INSTRUMENTED'', 0x00000100), (''CFW_INSTRUMENTED'', 0x00000200), (''CF_FUNCTION_TABLE_PRESENT'', 0x00000400),
     (''SECURITY_COOKIE_UNUSED'', 0x00000800), (''PROTECT_DELAYLOAD_IAT'', 0x00001000),
     (''DELAYLOAD_IAT_IN_ITS_OWN_SECTION'', 0x00002000), (''CF_EXPORT_SUPPRESSION_INFO_PRESENT'', 0x00004000),
     (''CF_ENABLE_EXPORT_SUPPRESSION'', 0x00008000), (''CF_LONGJUMP_TABLE_PRESENT'', 0x00010000),
     (''RF_INSTRUMENTED'', 0x00020000), (''RF_ENABLE'', 0x00040000), (''RF_STRICT'', 0x00080000),
     (''RETPOLINE_PRESENT'', 0x00100000), (''EH_CONTINUATION_TABLE_PRESENT'', 0x00400000), (''XFG_ENABLED'', 0x00800000),
     (''CF_FUNCTION_TABLE_SIZE_MASK'', 0xF0000000), (''CF_FUNCTION_TABLE_SIZE_SHIFT'', 28)]"

definition dllReason :: "(string \<times> u64) list" where
  "dllReason =
    [(''PROCESS_ATTACH'', 1), (''THREAD_ATTACH'', 2), (''THREAD_DETACH'', 3), (''PROCESS_DETACH'', 0)]"

subsection \<open>Structs\<close>

definition IMAGE_DELAYLOAD_DESCRIPTOR :: struct_fields where
  "IMAGE_DELAYLOAD_DESCRIPTOR =
    [u32f ''Attributes'', u32f ''DllNameRVA'', u32f ''ModuleHandleRVA'', u32f ''ImportAddressTableRVA'',
     u32f ''ImportNameTableRVA'', u32f ''BoundImportAddressTableRVA'', u32f ''UnloadInformationTableRVA'', u32f ''TimeDateStamp'']"

definition IMAGE_LOAD_CONFIG_CODE_INTEGRITY :: struct_fields where
  "IMAGE_LOAD_CONFIG_CODE_INTEGRITY =
    [u16f ''Flags'', u16f ''Catalog'', u32f ''CatalogOffset'', u32f ''Reserved'']"

definition IMAGE_LOAD_CONFIG_DIRECTORY :: struct_fields where
  "IMAGE_LOAD_CONFIG_DIRECTORY =
    [u32f ''Size'', u32f ''TimeDateStamp'', u16f ''MajorVersion'', u16f ''MinorVersion'', u32f ''GlobalFlagsClear'',
     u32f ''GlobalFlagsSet'', u32f ''CriticalSectionDefaultTimeout'', u64f ''DeCommitFreeBlockThreshold'',
     u64f ''DeCommitTotalFreeThreshold'', u64f ''LockPrefixTable'', u64f ''MaximumAllocationSize'',
     u64f ''VirtualMemoryThreshold'', u64f ''ProcessAffinityMask'', u32f ''ProcessHeapFlags'', u16f ''CSDVersion'',
     u16f ''DependentLoadFlags'', u64f ''EditList'', u64f ''SecurityCookie'', u64f ''SEHandlerTable'', u64f ''SEHandlerCount'',
     u64f ''GuardCFCheckFunctionPointer'', u64f ''GuardCFDispatchFunctionPointer'', u64f ''GuardCFFunctionTable'',
     u64f ''GuardCFFunctionCount'', u32f ''GuardFlags'',
     (''CodeIntegrity'', alignOf IMAGE_LOAD_CONFIG_CODE_INTEGRITY, sizeOf IMAGE_LOAD_CONFIG_CODE_INTEGRITY),
     u64f ''GuardAddressTakenIatEntryTable'', u64f ''GuardAddressTakenIatEntryCount'', u64f ''GuardLongJumpTargetTable'',
     u64f ''GuardLongJumpTargetCount'', u64f ''DynamicValueRelocTable'', u64f ''CHPEMetadataPointer'',
     u64f ''GuardRFFailureRoutine'', u64f ''GuardRFFailureRoutineFunctionPointer'', u32f ''DynamicValueRelocTableOffset'',
     u16f ''DynamicValueRelocTableSection'', u16f ''Reserved2'', u64f ''GuardRFVerifyStackPointerFunctionPointer'',
     u32f ''HotPatchTableOffset'', u32f ''Reserved3'', u64f ''EnclaveConfigurationPointer'', u64f ''VolatileMetadataPointer'',
     u64f ''GuardEHContinuationTable'', u64f ''GuardEHContinuationCount'', u64f ''GuardXFGCheckFunctionPointer'',
     u64f ''GuardXFGDispatchFunctionPointer'', u64f ''GuardXFGTableDispatchFunctionPointer'',
     u64f ''CastGuardOsDeterminedFailureMode'']"

definition SYSTEM_INFO :: struct_fields where
  "SYSTEM_INFO =
    [u16f ''ProcessorArchitecture'', u16f ''Reserved'', u32f ''PageSize'', u64f ''MinimumApplicationAddress'',
     u64f ''MaximumApplicationAddress'', u64f ''ActiveProcessorMask'', u32f ''NumberOfProcessors'', u32f ''ProcessorType'',
     u32f ''AllocationGranularity'', u16f ''ProcessorLevel'', u16f ''ProcessorRevision'']"

text \<open>The layout has no holes in the first three: the sizes are the sums of the sizes of the fields.\<close>

definition packed :: "struct_fields \<Rightarrow> bool" where
  "packed fs \<longleftrightarrow> sizeOf fs = sum_list (map (\<lambda>(_, _, k). k) fs)"

lemma config_sizes: "sizeOf IMAGE_DELAYLOAD_DESCRIPTOR = 32" "sizeOf IMAGE_LOAD_CONFIG_CODE_INTEGRITY = 12"
  "sizeOf SYSTEM_INFO = 48" "alignOf IMAGE_LOAD_CONFIG_CODE_INTEGRITY = 4"
  by (simp_all add: layout_defs IMAGE_DELAYLOAD_DESCRIPTOR_def IMAGE_LOAD_CONFIG_CODE_INTEGRITY_def SYSTEM_INFO_def)

lemma config_packed: "packed IMAGE_LOAD_CONFIG_DIRECTORY" "sizeOf IMAGE_LOAD_CONFIG_DIRECTORY = 312"
  by (simp_all add: packed_def IMAGE_LOAD_CONFIG_DIRECTORY_def config_sizes) (simp_all add: layout_defs)

subsection \<open>What the loader uses\<close>

text \<open>The directories, the relocation kinds and the reasons that \<open>Memmod\<close> has as numbers.\<close>

lemma directories_used:
  "map_of directoryEntry ''EXPORT'' = Some 0" "map_of directoryEntry ''IMPORT'' = Some 1" "map_of directoryEntry ''EXCEPTION'' = Some 3"
  "map_of directoryEntry ''BASERELOC'' = Some 5" "map_of directoryEntry ''TLS'' = Some 9"
  by (simp_all add: directoryEntry_def)

lemma directories_fit: "(n, i) \<in> set directoryEntry \<Longrightarrow> i < IMAGE_NUMBEROF_DIRECTORY_ENTRIES"
  by (auto simp: directoryEntry_def IMAGE_NUMBEROF_DIRECTORY_ENTRIES_def)

lemma constants_used:
  "map_of fileCharacteristics ''DLL'' = Some IMAGE_FILE_DLL" "map_of fileMachine ''AMD64'' = Some imageFileProcess_amd64"
  "map_of fileMachine ''ARM64'' = Some imageFileProcess_arm64"
  "map_of sectionFlags ''CNT_INITIALIZED_DATA'' = Some IMAGE_SCN_CNT_INITIALIZED_DATA"
  "map_of sectionFlags ''CNT_UNINITIALIZED_DATA'' = Some IMAGE_SCN_CNT_UNINITIALIZED_DATA"
  "map_of sectionFlags ''MEM_DISCARDABLE'' = Some IMAGE_SCN_MEM_DISCARDABLE" "map_of sectionFlags ''MEM_NOT_CACHED'' = Some IMAGE_SCN_MEM_NOT_CACHED"
  "map_of dllReason ''PROCESS_ATTACH'' = Some DLL_PROCESS_ATTACH" "map_of dllReason ''PROCESS_DETACH'' = Some DLL_PROCESS_DETACH"
  by (simp_all add: fileCharacteristics_def fileMachine_def sectionFlags_def dllReason_def IMAGE_FILE_DLL_def imageFileProcess_amd64_def
      imageFileProcess_arm64_def IMAGE_SCN_CNT_INITIALIZED_DATA_def IMAGE_SCN_CNT_UNINITIALIZED_DATA_def IMAGE_SCN_MEM_DISCARDABLE_def
      IMAGE_SCN_MEM_NOT_CACHED_def DLL_PROCESS_ATTACH_def DLL_PROCESS_DETACH_def)

text \<open>A kind that is not one of the six names of the switch is an unsupported relocation.\<close>

definition kindsHandled :: "u16 list" where
  "kindsHandled = map (\<lambda>n. the (map_of relocationKind n)) [''ABSOLUTE'', ''LOW'', ''HIGH'', ''HIGHLOW'', ''DIR64'', ''THUMB_MOV32'']"

lemma kindsHandled_eq: "kindsHandled = [0, 2, 1, 3, 10, 7]"
  by (simp add: kindsHandled_def relocationKind_def)

lemma unsupported_kind:
  "drop_bit 12 r \<notin> set kindsHandled \<Longrightarrow>
    relocOne d delta r = failM (''Unsupported relocation: '' @ showNat (unat (drop_bit 12 r :: u16)))"
  unfolding kindsHandled_eq relocOne_def Let_def by simp

text \<open>The protection of a section follows its three flags for execute, read and write.\<close>

lemma protection_by_flags:
  assumes "map_of sectionFlags ''MEM_EXECUTE'' = Some x" and "map_of sectionFlags ''MEM_READ'' = Some r" and "map_of sectionFlags ''MEM_WRITE'' = Some w"
  shows "protectionOf 0 = 1" "protectionOf r = 2" "protectionOf (r OR w) = 4" "protectionOf (x OR r) = 0x20" "protectionOf (x OR r OR w) = 0x40"
  using assms by (simp_all add: sectionFlags_def protectionOf_def ProtectionFlags_def IMAGE_SCN_MEM_NOT_CACHED_def)

end
