(* ===== verification/Memmod_Resources.thy ===== *)
theory Memmod_Resources
  imports Memmod
begin

text \<open>
  What the module loader takes from the system and gives back.  The record of system calls says how often each region was reserved
  but not released, and each library loaded but not freed; a module accounts for them by its base
  address, its blocked regions and its list of libraries.
\<close>

subsection \<open>Counting\<close>

definition evRegion :: "u64 \<Rightarrow> event \<Rightarrow> int" where
  "evRegion a ev = (case ev of
     EvAlloc _ _ t _ (Some b) \<Rightarrow> (if t AND MEM_RESERVE \<noteq> 0 \<and> b = a then 1 else 0)
   | EvFree b _ t \<Rightarrow> (if t = MEM_RELEASE \<and> b = a then -1 else 0)
   | _ \<Rightarrow> 0)"

definition evLibrary :: "u64 \<Rightarrow> event \<Rightarrow> int" where
  "evLibrary h ev = (case ev of
     EvLoadLibrary _ (Some k) \<Rightarrow> (if k = h then 1 else 0)
   | EvFreeLibrary k \<Rightarrow> (if k = h then -1 else 0)
   | _ \<Rightarrow> 0)"

text \<open>How often a region is reserved, and a library loaded, at the end of a record of calls.\<close>

definition reserved :: "event list \<Rightarrow> u64 \<Rightarrow> int" where
  "reserved t a = sum_list (map (evRegion a) t)"

definition loaded :: "event list \<Rightarrow> u64 \<Rightarrow> int" where
  "loaded t h = sum_list (map (evLibrary h) t)"

definition quiet :: "event \<Rightarrow> bool" where
  "quiet ev \<longleftrightarrow> (case ev of
     EvAlloc _ _ t _ r \<Rightarrow> t AND MEM_RESERVE = 0 \<or> r = None
   | EvFree _ _ t \<Rightarrow> t \<noteq> MEM_RELEASE
   | EvLoadLibrary _ r \<Rightarrow> r = None
   | EvFreeLibrary _ \<Rightarrow> False
   | _ \<Rightarrow> True)"

lemma counts_append [simp]:
  "reserved (t @ [ev]) a = reserved t a + evRegion a ev" "loaded (t @ [ev]) h = loaded t h + evLibrary h ev"
  by (simp_all add: reserved_def loaded_def)

lemma quiet_counts [simp]: "quiet ev \<Longrightarrow> evRegion a ev = 0" "quiet ev \<Longrightarrow> evLibrary h ev = 0"
  by (auto simp: quiet_def evRegion_def evLibrary_def split: event.splits option.splits)

text \<open>What a module holds.\<close>

definition held :: "Module \<Rightarrow> u64 list" where
  "held m = codeBase m # blockedMemory m"

subsection \<open>Operations that take nothing\<close>

text \<open>
  A property that does not depend on memory, on calls that neither take nor give back, and on anything in the module but what it
  holds is kept by every operation of the loader but the few that reserve, release, load and free.
\<close>

locale resource_view =
  fixes J :: "loader \<Rightarrow> bool"
  assumes J_mem: "J (s\<lparr>mem := x\<rparr>) = J s"
    and J_quiet: "quiet ev \<Longrightarrow> J (logEv ev s) = J s"
    and J_hook: "J (s\<lparr>hookResult := h\<rparr>) = J s"
    and J_ranges: "J (s\<lparr>loadedAddressRanges := rs\<rparr>) = J s"
    and J_this: "held m = held (this s) \<Longrightarrow> modules m = modules (this s) \<Longrightarrow> J (s\<lparr>this := m\<rparr>) = J s"
begin

lemma J_bytes: "keeps J E (loadBytes a n)" "keeps J E (storeBytes a bs)"
  by (auto simp: keeps_def loadBytes_def storeBytes_def J_mem split: option.splits)

lemma J_load [keeps_intros]: "keeps J E (load a)"
  unfolding load_def by (intro keeps_intros J_bytes)

lemma J_store [keeps_intros]: "keeps J E (store a v)"
  by (simp add: store_def J_bytes)

lemma J_memcpy [keeps_intros]: "keeps J E (memcpy d a n)"
  unfolding memcpy_def by (intro keeps_intros J_bytes)

lemma J_get [keeps_intros]: "keeps J E codeBaseM" "keeps J E headersM"
  by (simp_all add: codeBaseM_def headersM_def keeps_intros)

lemma J_string [keeps_intros]: "keeps J E (BytePtrToString W a)"
  by (auto simp: keeps_def BytePtrToString_def split: option.splits)

lemma J_setThis: "(\<And>m. held (f m) = held m \<and> modules (f m) = modules m) \<Longrightarrow> keeps J E (setThis f)"
  by (simp add: setThis_def keeps_mod J_this)

lemma J_modLog: "quiet ev \<Longrightarrow> J (logEv ev (s\<lparr>mem := m\<rparr>)) = J s"
  by (simp add: J_quiet J_mem)

lemma J_commit [keeps_intros]: "keeps J J (VirtualAlloc W a n MEM_COMMIT p)"
proof -
  have "quiet (EvAlloc a n MEM_COMMIT p r)" for r by (simp add: quiet_def MEM_COMMIT_def MEM_RESERVE_def)
  then show ?thesis by (auto simp: keeps_def VirtualAlloc_def J_modLog Let_def split: prod.splits sum.splits)
qed

lemma J_decommit [keeps_intros]: "keeps J E (VirtualFree W a n MEM_DECOMMIT)"
  unfolding VirtualFree_def by (intro keeps_mod) (simp add: J_modLog quiet_def MEM_DECOMMIT_def MEM_RELEASE_def)

lemma J_protect [keeps_intros]: "keeps J J (VirtualProtect W a n p)"
  by (auto simp: keeps_def VirtualProtect_def J_modLog quiet_def split: prod.splits sum.splits)

lemma J_syscall [keeps_intros]: "keeps J E (SyscallN W f b r)"
  by (auto simp: keeps_def SyscallN_def J_modLog quiet_def split: prod.splits)

lemma J_table [keeps_intros]: "keeps J E (RtlAddFunctionTable a n b)"
  by (simp add: RtlAddFunctionTable_def keeps_mod J_quiet quiet_def)

lemma J_proc [keeps_intros]: "keeps J E (GetProcAddress W h n)"
  by (simp add: GetProcAddress_def keeps_intros)

lemma J_headers [keeps_intros]: "keeps J E (E_lfanew a)" "keeps J E (Sections a)" "keeps J E (PhysicalAddress a)" "keeps J E (SetPhysicalAddress a v)"
  "keeps J E (SetVirtualSize a v)" "keeps J E (dirField i f)" "keeps J E (dirAddress i)" "keeps J E imageOffset" "keeps J E (realSectionSize a)"
  "keeps J E sectionAlignment" "keeps J E (sectionAt io a)" "keeps J E (expField a f)" "keeps J E (functionAt a k)"
  unfolding E_lfanew_def Sections_def PhysicalAddress_def SetPhysicalAddress_def SetVirtualSize_def dirField_def dirAddress_def imageOffset_def
    realSectionSize_def sectionAlignment_def sectionAt_def expField_def functionAt_def
  by (intro keeps_intros)+

lemma J_copySections [keeps_intros]: "keeps J J (copySections W a n old)"
  unfolding copySections_def copySection_def Let_def by (intro keeps_intros J_bytes | assumption)+

lemma J_finalizeSection [keeps_intros]: "keeps J J (finalizeSection W d)"
  unfolding finalizeSection_def by (intro keeps_intros)

lemma J_finalizeSections [keeps_intros]: "keeps J J (finalizeSections W)"
proof -
  have "keeps J J (case ss of [] \<Rightarrow> faultM IndexOutOfRange | s # ss \<Rightarrow> f s ss)" if "\<And>s ss. keeps J J (f s ss)" for ss and f :: "u64 \<Rightarrow> u64 list \<Rightarrow> unit M"
    using that by (cases ss) (simp_all add: keeps_intros)
  note case_list = this
  show ?thesis unfolding finalizeSections_def firstSection_def nextSection_def Let_def by (intro keeps_intros case_list)
qed

lemma J_reloc [keeps_intros]: "keeps J J (performBaseRelocation d)"
  unfolding performBaseRelocation_def relocBlock_def relocOne_def addAt_def relocThumb_def Let_def by (intro keeps_intros | assumption)+

lemma J_relocate [keeps_intros]: "keeps J J (relocateImage old)"
  unfolding relocateImage_def by (intro keeps_intros J_setThis) (simp_all add: held_def)

lemma J_exceptions [keeps_intros]: "keeps J J registerExceptionHandlers"
  unfolding registerExceptionHandlers_def by (intro keeps_intros)

lemma J_tls [keeps_intros]: "keeps J J (executeTLS W)"
  unfolding executeTLS_def by (intro keeps_intros)

lemma J_attach [keeps_intros]: "keeps J J (attach W)"
  unfolding attach_def by (intro keeps_intros J_setThis | assumption | simp add: held_def)+

lemma J_exports [keeps_intros]: "keeps J J (buildNameExports W)"
  unfolding buildNameExports_def exportName_def by (intro keeps_intros J_setThis | assumption | simp add: held_def)+

lemma J_range [keeps_intros]: "keeps J J (registerRange n)"
  by (simp add: registerRange_def keeps_mod J_ranges)

lemma J_hookOnce [keeps_intros]: "keeps J J (hookOnce W)"
  unfolding hookOnce_def hookRtlPcToFileHeader_def seekLibrary_def seekFunction_def Let_def
  by (intro keeps_intros keeps_mod | assumption | simp add: J_hook)+

lemma J_copyHeaders [keeps_intros]: "keeps J J (copyHeaders W a n old)"
  unfolding copyHeaders_def by (intro keeps_intros J_setThis | assumption | simp add: held_def)+

lemma J_check [keeps_intros]: "keeps J J (checkImage k a n)"
  unfolding checkImage_def sectionEnd_def Let_def by (intro keeps_intros | assumption)+

lemma J_thunk [keeps_intros]: "keeps J E (thunkSymbol W cb t)"
  unfolding thunkSymbol_def by (intro keeps_intros)

end

subsection \<open>What a module accounts for\<close>

text \<open>
  Against the counts \<open>R\<close> and \<open>L\<close> from before: the module holds what was reserved and loaded since.  (Address 0 is what the
  code takes for none.)  Without its base: nothing is reserved there.
\<close>

definition accounts :: "(u64 \<Rightarrow> int) \<Rightarrow> (u64 \<Rightarrow> int) \<Rightarrow> loader \<Rightarrow> bool" where
  "accounts R L s \<longleftrightarrow>
     (\<forall>a. a \<noteq> 0 \<longrightarrow> reserved (trace s) a = R a + int (count_list (held (this s)) a)) \<and>
     (\<forall>h. loaded (trace s) h = L h + int (count_list (modules (this s)) h))"

definition baseless :: "(u64 \<Rightarrow> int) \<Rightarrow> (u64 \<Rightarrow> int) \<Rightarrow> loader \<Rightarrow> bool" where
  "baseless R L s \<longleftrightarrow>
     (\<forall>a. a \<noteq> 0 \<longrightarrow> reserved (trace s) a = R a + int (count_list (blockedMemory (this s)) a)) \<and>
     (\<forall>h. loaded (trace s) h = L h + int (count_list (modules (this s)) h))"

interpretation accounts: resource_view "accounts R L" for R L
  by unfold_locales (simp_all add: accounts_def logEv_def)

lemma accounts_base_0: "codeBase (this s) = 0 \<Longrightarrow> accounts R L s = baseless R L s"
  by (auto simp: accounts_def baseless_def held_def)

interpretation idle: resource_view "\<lambda>s. accounts R L s \<and> codeBase (this s) = 0" for R L
  by unfold_locales (auto simp: accounts_def logEv_def held_def)

lemma allocCode_accounts:
  "leads (baseless R L) (accounts R L) (\<lambda>s. accounts R L s \<and> codeBase (this s) = 0) (allocCode W a n)"
proof -
  have t: "(MEM_RESERVE OR MEM_COMMIT) AND MEM_RESERVE \<noteq> 0" "MEM_RESERVE \<noteq> 0" by (simp_all add: MEM_RESERVE_def MEM_COMMIT_def)
  show ?thesis
    by (auto simp: leads_def allocCode_def tryM_def bindM_def VirtualAlloc_def setThis_def modM_def thenM_def failM_def Let_def
        accounts_def baseless_def held_def logEv_def evRegion_def evLibrary_def t split: prod.splits sum.splits if_splits)
qed

lemma check4GB_accounts: "keeps (accounts R L) (accounts R L) (check4GBBoundaries W n)"
proof -
  have "leads (accounts R L) (baseless R L) (accounts R L) (setThis (\<lambda>m. m\<lparr>blockedMemory := codeBase m # blockedMemory m\<rparr>))"
    unfolding setThis_def by (intro leads_mod) (simp add: accounts_def baseless_def held_def)
  moreover have "leads (baseless R L) (accounts R L) (accounts R L) (wrapM p (allocCode W 0 n))" for p
    by (intro leads_wrap, rule leads_weaken [OF allocCode_accounts]) blast+
  ultimately have "keeps (accounts R L) (accounts R L)
      (thenM (setThis (\<lambda>m. m\<lparr>blockedMemory := codeBase m # blockedMemory m\<rparr>)) (wrapM p (allocCode W 0 n)))" for p
    unfolding keeps_leads by (rule leads_then)
  then show ?thesis unfolding check4GBBoundaries_def by (intro keeps_while keeps_bind accounts.J_get keeps_ret)
qed

lemma reserveImage_accounts:
  "leads (\<lambda>s. accounts R L s \<and> codeBase (this s) = 0) (accounts R L) (accounts R L) (reserveImage W old n)"
proof -
  let ?I = "\<lambda>s. accounts R L s \<and> codeBase (this s) = 0"
  have i: "?I s \<Longrightarrow> baseless R L s" for s using accounts_base_0 by blast
  have a: "leads ?I (accounts R L) ?I (allocCode W b n)" for b by (rule leads_weaken [OF allocCode_accounts]) (use i in blast)+
  have "leads ?I (accounts R L) (accounts R L) (bindM (tryM (allocCode W b n)) (\<lambda>r.
       case r of Inl _ \<Rightarrow> wrapM p (allocCode W 0 n) | Inr _ \<Rightarrow> retM ()))" for b p
    by (intro leads_try [OF a] leads_wrap leads_weaken [OF a]) (simp_all add: keeps_ret flip: keeps_leads)
  moreover have "leads (accounts R L) (accounts R L) (accounts R L) (wrapM p (check4GBBoundaries W n))" for p
    using check4GB_accounts by (simp add: keeps_wrap flip: keeps_leads)
  ultimately have "leads ?I (accounts R L) (accounts R L) (thenM (bindM (tryM (allocCode W b n)) (\<lambda>r.
       case r of Inl _ \<Rightarrow> wrapM p (allocCode W 0 n) | Inr _ \<Rightarrow> retM ())) (wrapM q (check4GBBoundaries W n)))" for b p q
    by (rule leads_then)
  moreover have "leads ?I ?I (accounts R L) (load a)" for a by (rule idle.J_load [unfolded keeps_leads])
  ultimately show ?thesis unfolding reserveImage_def by (intro leads_bind)
qed

subsection \<open>Libraries\<close>

text \<open>While a library is loaded that is not yet in the module's list.\<close>

lemma FreeLibrary_accounts:
  "leads (accounts R (L(h := L h + 1))) (accounts R L) E (FreeLibrary W h)"
  unfolding FreeLibrary_def by (rule leads_mod) (simp add: accounts_def logEv_def evRegion_def evLibrary_def)

lemma LoadLibraryEx_accounts:
  assumes "accounts R L s" and "LoadLibraryEx W name s = Some (Inr (r, s'))"
  shows "case r of Inl _ \<Rightarrow> accounts R L s' | Inr h \<Rightarrow> accounts R (L(h := L h + 1)) s'"
  using assms by (auto simp: LoadLibraryEx_def accounts_def logEv_def evRegion_def evLibrary_def Let_def split: prod.splits sum.splits)

lemma bindThunk_accounts: "keeps (accounts R (L(h := L h + 1))) (accounts R L) (bindThunk W h refs)"
proof -
  let ?I = "accounts R (L(h := L h + 1))"
  have "keeps ?I (accounts R L) (thenM (FreeLibrary W h) (failM e))" for e
    unfolding keeps_leads by (rule leads_then [OF FreeLibrary_accounts]) (simp add: leads_def failM_def)
  note free = this
  show ?thesis unfolding bindThunk_def
    by (intro keeps_prod keeps_bind keeps_sum keeps_then [OF accounts.J_store] free accounts.J_get accounts.J_load accounts.J_thunk
        accounts.J_proc keeps_ret)
qed

lemma importLibrary_accounts: "keeps (accounts R L) (accounts R L) (importLibrary W desc)"
proof -
  let ?J = "\<lambda>h. accounts R (L(h := L h + 1))"
  let ?rest = "\<lambda>h cb. bindM (load32 (desc + off IMAGE_IMPORT_DESCRIPTOR ''characteristicsOrOriginalFirstThunk'')) (\<lambda>oft.
     bindM (load32 (desc + off IMAGE_IMPORT_DESCRIPTOR ''FirstThunk'')) (\<lambda>ft.
     let thunkRef = cb + ucast (if oft \<noteq> 0 then oft else ft); funcRef = cb + ucast ft in
     bindM (whileM (\<lambda>(t, _). bindM (load64 t) (\<lambda>v. retM (v \<noteq> 0))) (bindThunk W h) (thunkRef, funcRef)) (\<lambda>_.
     thenM (setThis (\<lambda>m. m\<lparr>modules := modules m @ [h]\<rparr>))
       (retM (desc + of_nat (sizeOf IMAGE_IMPORT_DESCRIPTOR))))))"
  have loop: "leads (?J h) (?J h) (accounts R L)
      (whileM (\<lambda>(t, _). bindM (load64 t) (\<lambda>v. retM (v \<noteq> 0))) (bindThunk W h) x)" for h x
    unfolding keeps_leads [symmetric]
    by (intro keeps_while bindThunk_accounts) (auto intro!: keeps_bind keeps_ret accounts.J_load split: prod.splits)
  have ld: "leads (?J h) (?J h) (accounts R L) (load a)" for h a by (rule accounts.J_load [unfolded keeps_leads])
  have add: "leads (?J h) (accounts R L) (accounts R L) (setThis (\<lambda>m. m\<lparr>modules := modules m @ [h]\<rparr>))" for h
    unfolding setThis_def by (rule leads_mod) (auto simp: accounts_def held_def)
  have rest: "leads (?J h) (accounts R L) (accounts R L) (?rest h cb)" for h cb
    unfolding Let_def
    by (intro leads_bind [OF ld] leads_bind [OF loop] leads_then [OF add]) (simp add: keeps_ret flip: keeps_leads)
  have load_lib: "keeps (accounts R L) (accounts R L) (bindM (wrapM p (LoadLibraryEx W name)) (\<lambda>h. ?rest h cb))" for p name cb
  proof (rule keepsI)
    fix s e s' assume J: "accounts R L s" and b: "bindM (wrapM p (LoadLibraryEx W name)) (\<lambda>h. ?rest h cb) s = Some (Inr (Inl e, s'))"
    then obtain r t where l: "LoadLibraryEx W name s = Some (Inr (r, t))" by (auto simp: bindM_def wrapM_def split: option.splits sum.splits)
    with LoadLibraryEx_accounts [OF J l] b leads_Inl [OF rest] show "accounts R L s'"
      by (cases r) (auto simp: bindM_def wrapM_def simp del: Let_def)
  next
    fix s v s' assume J: "accounts R L s" and b: "bindM (wrapM p (LoadLibraryEx W name)) (\<lambda>h. ?rest h cb) s = Some (Inr (Inr v, s'))"
    then obtain r t where l: "LoadLibraryEx W name s = Some (Inr (r, t))" by (auto simp: bindM_def wrapM_def split: option.splits sum.splits)
    with LoadLibraryEx_accounts [OF J l] b leads_Inr [OF rest] show "accounts R L s'"
      by (cases r) (auto simp: bindM_def wrapM_def)
  qed
  show ?thesis unfolding importLibrary_def
    by (intro keeps_bind [OF accounts.J_get(1)] keeps_bind [OF accounts.J_load] keeps_bind [OF accounts.J_string] load_lib)
qed

subsection \<open>A whole module\<close>

text \<open>Until the imports are resolved there are no libraries.\<close>

interpretation no_libraries: resource_view "\<lambda>s. modules (this s) = []"
  by unfold_locales (simp_all add: logEv_def)

interpretation early: resource_view "\<lambda>s. accounts R L s \<and> modules (this s) = []" for R L
  by unfold_locales (auto simp: accounts_def logEv_def held_def)

lemma setThis_no_libraries:
  "(\<And>m. modules (f m) = modules m) \<Longrightarrow> keeps (\<lambda>s. modules (this s) = []) E (setThis f)"
  by (simp add: setThis_def keeps_mod)

lemma reserveImage_no_libraries: "keeps (\<lambda>s. modules (this s) = []) (\<lambda>_. True) (reserveImage W old n)"
proof -
  let ?I = "\<lambda>s. modules (this s) = []"
  have v: "keeps ?I ?I (VirtualAlloc W a n t p)" for a n t p
    by (auto simp: keeps_def VirtualAlloc_def logEv_def Let_def split: prod.splits sum.splits)
  have a: "keeps ?I ?I (allocCode W a n)" for a
    unfolding allocCode_def by (intro keeps_intros v setThis_no_libraries) simp_all
  have "keeps ?I ?I (reserveImage W old n)"
    unfolding reserveImage_def check4GBBoundaries_def
    by (intro keeps_intros a setThis_no_libraries no_libraries.J_load no_libraries.J_get) simp_all
  then show ?thesis by (auto simp: keeps_leads intro: leads_weaken)
qed

lemma leads_conj: "leads I K E x \<Longrightarrow> leads I' K' E' x \<Longrightarrow> leads (\<lambda>s. I s \<and> I' s) (\<lambda>s. K s \<and> K' s) (\<lambda>s. E s \<and> E' s) x"
  by (rule leadsI2) (auto dest: leads_Inl leads_Inr)

lemma buildImportTable_accounts:
  "leads (\<lambda>s. accounts R L s \<and> modules (this s) = []) (accounts R L) (accounts R L) (buildImportTable W)"
proof -
  let ?I = "\<lambda>s. accounts R L s \<and> modules (this s) = []"
  have "leads ?I (accounts R L) (accounts R L) (setThis (\<lambda>m. m\<lparr>modules := []\<rparr>))"
    unfolding setThis_def by (intro leads_mod) (simp add: accounts_def held_def)
  moreover have "leads (accounts R L) (accounts R L) (accounts R L) (bindM (dirAddress 1) (\<lambda>desc.
       bindM (whileM (\<lambda>d. bindM (load32 (d + k)) (\<lambda>nm. retM (nm \<noteq> 0))) (importLibrary W) desc) (\<lambda>_. retM ())))" for k
    unfolding keeps_leads [symmetric]
    by (intro keeps_bind keeps_while importLibrary_accounts accounts.J_load accounts.J_headers keeps_ret)
  ultimately have "leads ?I (accounts R L) (accounts R L) (thenM (setThis (\<lambda>m. m\<lparr>modules := []\<rparr>)) (bindM (dirAddress 1) (\<lambda>desc.
       bindM (whileM (\<lambda>d. bindM (load32 (d + k)) (\<lambda>nm. retM (nm \<noteq> 0))) (importLibrary W) desc) (\<lambda>_. retM ()))))" for k
    by (rule leads_then)
  moreover have "leads ?I (accounts R L) (accounts R L) (retM u)" for u :: unit by (simp add: leads_def retM_def)
  ultimately have branch: "leads ?I (accounts R L) (accounts R L) (if b then retM () else thenM (setThis (\<lambda>m. m\<lparr>modules := []\<rparr>)) (bindM (dirAddress 1) (\<lambda>desc.
       bindM (whileM (\<lambda>d. bindM (load32 (d + k)) (\<lambda>nm. retM (nm \<noteq> 0))) (importLibrary W) desc) (\<lambda>_. retM ()))))" for b k
    by simp
  have "leads ?I ?I (accounts R L) (dirField 1 f)" for f by (rule early.J_headers(6) [unfolded keeps_leads])
  note size = this
  show ?thesis unfolding buildImportTable_def by (rule leads_bind [OF size branch])
qed

lemma loadImage_accounts:
  "leads (\<lambda>s. (accounts R L s \<and> codeBase (this s) = 0) \<and> modules (this s) = []) (accounts R L) (accounts R L) (loadImage W addr len old n)"
proof -
  let ?A = "accounts R L" and ?I = "\<lambda>s. accounts R L s \<and> modules (this s) = []"
  have 1: "leads (\<lambda>s. (accounts R L s \<and> codeBase (this s) = 0) \<and> modules (this s) = []) ?I ?A (reserveImage W old n)"
    by (rule leads_weaken [OF leads_conj [OF reserveImage_accounts reserveImage_no_libraries [unfolded keeps_leads]]]) simp_all
  have e: "keeps ?I ?I x \<Longrightarrow> leads ?I ?I ?A x" for x :: "unit M" unfolding keeps_leads by (erule leads_weaken) simp_all
  note 2 = e [OF early.J_copyHeaders] and 3 = e [OF keeps_wrap [OF early.J_copySections]] and 4 = e [OF early.J_relocate]
  note 5 = leads_wrap [OF buildImportTable_accounts]
  have 6: "leads ?A ?A ?A (thenM (wrapM p (finalizeSections W)) (thenM registerExceptionHandlers (thenM (registerRange n)
      (thenM (hookOnce W) (thenM (executeTLS W) (thenM (attach W) (ignoreM (buildNameExports W))))))))" for p
    unfolding keeps_leads [symmetric]
    by (intro keeps_then keeps_wrap keeps_ignore accounts.J_finalizeSections accounts.J_exceptions accounts.J_range accounts.J_hookOnce
        accounts.J_tls accounts.J_attach accounts.J_exports)
  show ?thesis unfolding loadImage_def by (rule leads_then [OF 1 leads_then [OF 2 leads_then [OF 3 leads_then [OF 4 leads_then [OF 5 6]]]]])
qed

subsection \<open>Freeing\<close>

lemma FreeLibrary_all:
  "\<exists>s'. foldM (\<lambda>_. FreeLibrary W) () hs s = Some (Inr (Inr (), s')) \<and> this s' = this s \<and> reserved (trace s') = reserved (trace s) \<and>
     (\<forall>h. loaded (trace s') h = loaded (trace s) h - int (count_list hs h)) \<and> loadedAddressRanges s' = loadedAddressRanges s"
proof (induction hs arbitrary: s)
  case (Cons k hs)
  let ?s = "logEv (EvFreeLibrary k) (s\<lparr>mem := wFreeLibrary W s k\<rparr>)"
  from Cons [of ?s] obtain s' where "foldM (\<lambda>_. FreeLibrary W) () hs ?s = Some (Inr (Inr (), s'))" "this s' = this ?s"
    "reserved (trace s') = reserved (trace ?s)" "\<forall>h. loaded (trace s') h = loaded (trace ?s) h - int (count_list hs h)"
    "loadedAddressRanges s' = loadedAddressRanges ?s" by blast
  moreover have "FreeLibrary W k s = Some (Inr (Inr (), ?s))" by (simp add: FreeLibrary_def modM_def)
  ultimately show ?case by (intro exI [of _ s']) (auto simp: bindM_def logEv_def evRegion_def evLibrary_def)
qed (simp add: retM_def)

lemma VirtualFree_all:
  "\<exists>s'. foldM (\<lambda>_ a. VirtualFree W a 0 MEM_RELEASE) () as s = Some (Inr (Inr (), s')) \<and> this s' = this s \<and> loaded (trace s') = loaded (trace s) \<and>
     (\<forall>a. reserved (trace s') a = reserved (trace s) a - int (count_list as a)) \<and> loadedAddressRanges s' = loadedAddressRanges s"
proof (induction as arbitrary: s)
  case (Cons k as)
  let ?s = "logEv (EvFree k 0 MEM_RELEASE) (s\<lparr>mem := wFree W s k 0 MEM_RELEASE\<rparr>)"
  from Cons [of ?s] obtain s' where "foldM (\<lambda>_ a. VirtualFree W a 0 MEM_RELEASE) () as ?s = Some (Inr (Inr (), s'))" "this s' = this ?s"
    "loaded (trace s') = loaded (trace ?s)" "\<forall>a. reserved (trace s') a = reserved (trace ?s) a - int (count_list as a)"
    "loadedAddressRanges s' = loadedAddressRanges ?s" by blast
  moreover have "VirtualFree W k 0 MEM_RELEASE s = Some (Inr (Inr (), ?s))" by (simp add: VirtualFree_def modM_def)
  ultimately show ?case by (intro exI [of _ s']) (auto simp: bindM_def logEv_def evRegion_def evLibrary_def)
qed (simp add: retM_def)

text \<open>\<open>Free\<close> always returns, gives back what the module holds, and leaves it empty.\<close>

definition emptied :: "Module \<Rightarrow> bool" where
  "emptied m \<longleftrightarrow> codeBase m = 0 \<and> modules m = [] \<and> blockedMemory m = [] \<and> \<not> initialized m"

lemma detach_run:
  "\<exists>s'. detach W s = Some (Inr (Inr (), s')) \<and> this s' = (this s)\<lparr>initialized := False\<rparr> \<and> loadedAddressRanges s' = loadedAddressRanges s \<and>
     reserved (trace s') = reserved (trace s) \<and> loaded (trace s') = loaded (trace s)"
proof (cases "initialized (this s)")
  case True
  then show ?thesis
    by (cases "wCall W s (entry (this s)) [codeBase (this s), DLL_PROCESS_DETACH, 0]")
      (auto simp: detach_def bindM_def getM_def SyscallN_def setThis_def modM_def logEv_def evRegion_def evLibrary_def)
qed (auto simp: detach_def retM_def bindM_def getM_def intro!: exI [of _ s])

lemma freeModules_run:
  "\<exists>s'. freeModules W s = Some (Inr (Inr (), s')) \<and> this s' = (this s)\<lparr>modules := []\<rparr> \<and> loadedAddressRanges s' = loadedAddressRanges s \<and>
     reserved (trace s') = reserved (trace s) \<and> (\<forall>h. loaded (trace s') h = loaded (trace s) h - int (count_list (modules (this s)) h))"
  using FreeLibrary_all [of W "modules (this s)" s]
  by (auto simp: freeModules_def bindM_def getM_def thenM_def forM_def setThis_def modM_def)

lemma freeCode_run:
  "\<exists>s'. freeCode W s = Some (Inr (Inr (), s')) \<and> this s' = (this s)\<lparr>codeBase := 0\<rparr> \<and> loadedAddressRanges s' = loadedAddressRanges s \<and>
     loaded (trace s') = loaded (trace s) \<and> (\<forall>a. a \<noteq> 0 \<longrightarrow> reserved (trace s') a = reserved (trace s) a - of_bool (codeBase (this s) = a))"
  by (cases "codeBase (this s) = 0")
    (auto simp: freeCode_def codeBaseM_def bindM_def getM_def thenM_def VirtualFree_def setThis_def modM_def retM_def logEv_def evRegion_def
      evLibrary_def intro!: exI [of _ s])

lemma freeBlocked_run:
  "\<exists>s'. freeBlocked W s = Some (Inr (Inr (), s')) \<and> this s' = (this s)\<lparr>blockedMemory := []\<rparr> \<and> loadedAddressRanges s' = loadedAddressRanges s \<and>
     loaded (trace s') = loaded (trace s) \<and> (\<forall>a. reserved (trace s') a = reserved (trace s) a - int (count_list (blockedMemory (this s)) a))"
  using VirtualFree_all [of W "blockedMemory (this s)" s]
  by (auto simp: freeBlocked_def bindM_def getM_def thenM_def forM_def setThis_def modM_def)

lemma Free_spec:
  obtains s' where "Free W s = Some (Inr (Inr (), s'))" "emptied (this s')" "loadedAddressRanges s' = loadedAddressRanges s"
    "\<And>a. a \<noteq> 0 \<Longrightarrow> reserved (trace s') a = reserved (trace s) a - int (count_list (held (this s)) a)"
    "\<And>h. loaded (trace s') h = loaded (trace s) h - int (count_list (modules (this s)) h)"
proof -
  from detach_run [of W s] obtain s1 where 1: "detach W s = Some (Inr (Inr (), s1))" "this s1 = (this s)\<lparr>initialized := False\<rparr>"
    "loadedAddressRanges s1 = loadedAddressRanges s" "reserved (trace s1) = reserved (trace s)" "loaded (trace s1) = loaded (trace s)" by blast
  from freeModules_run [of W s1] obtain s2 where 2: "freeModules W s1 = Some (Inr (Inr (), s2))" "this s2 = (this s1)\<lparr>modules := []\<rparr>"
    "loadedAddressRanges s2 = loadedAddressRanges s1" "reserved (trace s2) = reserved (trace s1)"
    "\<forall>h. loaded (trace s2) h = loaded (trace s1) h - int (count_list (modules (this s1)) h)" by blast
  from freeCode_run [of W s2] obtain s3 where 3: "freeCode W s2 = Some (Inr (Inr (), s3))" "this s3 = (this s2)\<lparr>codeBase := 0\<rparr>"
    "loadedAddressRanges s3 = loadedAddressRanges s2" "loaded (trace s3) = loaded (trace s2)"
    "\<forall>a. a \<noteq> 0 \<longrightarrow> reserved (trace s3) a = reserved (trace s2) a - of_bool (codeBase (this s2) = a)" by blast
  from freeBlocked_run [of W s3] obtain s4 where 4: "freeBlocked W s3 = Some (Inr (Inr (), s4))" "this s4 = (this s3)\<lparr>blockedMemory := []\<rparr>"
    "loadedAddressRanges s4 = loadedAddressRanges s3" "loaded (trace s4) = loaded (trace s3)"
    "\<forall>a. reserved (trace s4) a = reserved (trace s3) a - int (count_list (blockedMemory (this s3)) a)" by blast
  show ?thesis
  proof (rule that [of s4])
    show "Free W s = Some (Inr (Inr (), s4))" using 1(1) 2(1) 3(1) 4(1) by (simp add: Free_def bindM_def thenM_def)
  qed (use 1 2 3 4 in \<open>simp_all add: emptied_def held_def\<close>)
qed

lemma Free_emptied: "emptied (this s) \<Longrightarrow> Free W s = Some (Inr (Inr (), s))"
  by (simp add: Free_def detach_def freeModules_def freeCode_def freeBlocked_def forM_def emptied_def thenM_def bindM_def getM_def codeBaseM_def
      retM_def setThis_def modM_def)

subsection \<open>Loading as a whole\<close>

lemma checkImage_pure: "checkImage k addr len s = Some (Inr (r, s')) \<Longrightarrow> s' = s"
proof -
  assume c: "checkImage k addr len s = Some (Inr (r, s'))"
  have b: "keeps (\<lambda>t. t = s) (\<lambda>t. t = s) (loadBytes a n)" for a n by (auto simp: keeps_def loadBytes_def split: option.splits sum.splits)
  have l: "keeps (\<lambda>t. t = s) (\<lambda>t. t = s) (load a)" for a unfolding load_def by (intro keeps_intros b)
  have "keeps (\<lambda>t. t = s) (\<lambda>t. t = s) (checkImage k addr len)"
    unfolding checkImage_def sectionEnd_def E_lfanew_def Sections_def Let_def by (intro keeps_intros l | assumption)+
  from keeps_any [OF this _ c] show ?thesis by simp
qed

text \<open>Where a call of \<open>LoadLibrary\<close> ends: before it took anything, after giving everything back, or with a module.\<close>

lemma LoadLibrary_cases:
  assumes "LoadLibrary W k addr len s = Some (Inr (r, s'))"
  obtains (refused) e where "r = Inl e" "s' = s"
  | (failed) e s1 where "r = Inl e" "accounts (reserved (trace s)) (loaded (trace s)) s1" "Free W s1 = Some (Inr (Inr (), s'))"
  | (got) "r = Inr ()" "accounts (reserved (trace s)) (loaded (trace s)) s'"
proof -
  from assms obtain q t where c: "checkImage k addr len s = Some (Inr (q, t))" by (auto simp: LoadLibrary_def bindM_def split: option.splits sum.splits)
  note t = checkImage_pure [OF c]
  show ?thesis
  proof (cases q)
    case (Inl e)
    with assms c t refused show ?thesis by (auto simp: LoadLibrary_def bindM_def)
  next
    case (Inr on)
    obtain old n where on: "on = (old, n)" by fastforce
    from assms c t Inr on obtain ch where "word_at (mem s) (fileHdr old ''Characteristics'') = Some (ch :: u16)"
      by (auto simp: LoadLibrary_def bindM_def load_run split: option.splits)
    then have l: "load16 (fileHdr old ''Characteristics'') s = Some (Inr (Inr ch, s))" by (simp add: load_run)
    let ?s = "s\<lparr>this := newModule (ch AND IMAGE_FILE_DLL \<noteq> 0)\<rparr>"
    have run: "cleanupM (Free W) (loadImage W addr len old n) ?s = Some (Inr (r, s'))"
      using assms c t Inr on l by (simp add: LoadLibrary_def bindM_def setThis_def thenM_def modM_def)
    have start: "(accounts (reserved (trace s)) (loaded (trace s)) ?s \<and> codeBase (this ?s) = 0) \<and> modules (this ?s) = []"
      by (simp add: accounts_def newModule_def held_def)
    from run obtain v s1 where v: "loadImage W addr len old n ?s = Some (Inr (v, s1))" by (auto simp: cleanupM_def split: option.splits sum.splits)
    show ?thesis
    proof (cases v)
      case (Inl e)
      from leads_Inl [OF loadImage_accounts start] v Inl have a: "accounts (reserved (trace s)) (loaded (trace s)) s1" by blast
      obtain s2 where "Free W s1 = Some (Inr (Inr (), s2))" by (rule Free_spec)
      with run v Inl a failed show ?thesis by (auto simp: cleanupM_def)
    next
      case (Inr u)
      from leads_Inr [OF loadImage_accounts start] v Inr have "accounts (reserved (trace s)) (loaded (trace s)) s1" by blast
      with run v Inr got show ?thesis by (auto simp: cleanupM_def)
    qed
  qed
qed

lemma LoadLibrary_failed:
  assumes "LoadLibrary W k addr len s = Some (Inr (Inl e, s'))"
  shows "(\<forall>a. a \<noteq> 0 \<longrightarrow> reserved (trace s') a = reserved (trace s) a) \<and> loaded (trace s') = loaded (trace s)"
  using assms
proof (cases rule: LoadLibrary_cases)
  case (failed e s1)
  obtain s2 where "Free W s1 = Some (Inr (Inr (), s2))"
    "\<And>a. a \<noteq> 0 \<Longrightarrow> reserved (trace s2) a = reserved (trace s1) a - int (count_list (held (this s1)) a)"
    "\<And>h. loaded (trace s2) h = loaded (trace s1) h - int (count_list (modules (this s1)) h)" by (rule Free_spec) blast
  with failed show ?thesis by (auto simp: accounts_def fun_eq_iff)
qed simp_all

text \<open>
  C10. Whatever Windows does, the loader gives back what it takes: if \<open>LoadLibrary\<close> returns an error, at whatever point,
  every region of memory is reserved as often, and every library loaded as often, as before the call; if it
  returns a module, the difference is exactly what the module holds, \<open>Free\<close> gives that back, and a
  second \<open>Free\<close> does nothing.
\<close>

theorem LoadLibrary_releases:
  assumes "LoadLibrary W k addr len s = Some (Inr (r, s'))"
  shows "case r of
      Inl e \<Rightarrow> (\<forall>a. a \<noteq> 0 \<longrightarrow> reserved (trace s') a = reserved (trace s) a) \<and> loaded (trace s') = loaded (trace s)
    | Inr _ \<Rightarrow>
        (\<forall>a. a \<noteq> 0 \<longrightarrow> reserved (trace s') a = reserved (trace s) a + int (count_list (codeBase (this s') # blockedMemory (this s')) a)) \<and>
        (\<forall>h. loaded (trace s') h = loaded (trace s) h + int (count_list (modules (this s')) h)) \<and>
        (\<exists>s''. Free W s' = Some (Inr (Inr (), s'')) \<and> (\<forall>a. a \<noteq> 0 \<longrightarrow> reserved (trace s'') a = reserved (trace s) a) \<and>
           loaded (trace s'') = loaded (trace s) \<and> Free W s'' = Some (Inr (Inr (), s'')))"
  using assms
proof (cases rule: LoadLibrary_cases)
  case (failed e s1)
  with LoadLibrary_failed assms show ?thesis by simp
next
  case got
  obtain s2 where "Free W s' = Some (Inr (Inr (), s2))" "emptied (this s2)"
    "\<And>a. a \<noteq> 0 \<Longrightarrow> reserved (trace s2) a = reserved (trace s') a - int (count_list (held (this s')) a)"
    "\<And>h. loaded (trace s2) h = loaded (trace s') h - int (count_list (modules (this s')) h)" by (rule Free_spec) blast
  then have "\<exists>s''. Free W s' = Some (Inr (Inr (), s'')) \<and> (\<forall>a. a \<noteq> 0 \<longrightarrow> reserved (trace s'') a = reserved (trace s) a) \<and>
      loaded (trace s'') = loaded (trace s) \<and> Free W s'' = Some (Inr (Inr (), s''))"
    using got(2) Free_emptied [of s2] by (intro exI [of _ s2]) (auto simp: accounts_def fun_eq_iff)
  with got show ?thesis by (simp add: accounts_def held_def)
qed simp

text \<open>A Windows that gives out memory only where it likes, and knows no libraries.\<close>

definition sample_api :: winapi where
  "sample_api = \<lparr>wAlloc = (\<lambda>s a n t p. (if a = 0 then Inr 65536 else Inl ''busy'', mem s)), wFree = (\<lambda>s a n t. mem s),
     wProtect = (\<lambda>s a n p. (Inr 4, mem s)), wLoadLibrary = (\<lambda>s n. (Inl ''not found'', mem s)), wFreeLibrary = (\<lambda>s h. mem s),
     wProcAddress = (\<lambda>s h n. Inl ''not found''), wModuleHandle = (\<lambda>s n. Inl ''not found''),
     wString = (\<lambda>m a. Some (if a = 6144 then ''f'' else [])), wCall = (\<lambda>s f as. (1, mem s)), wCallback = (\<lambda>s. 1)\<rparr>"

text \<open>An image of one section whose headers claim to be longer than the data: refused after memory was reserved for it.\<close>

definition short_image :: memory where
  "short_image = put_word (put_word (put_word (put_word (put_word (put_word (put_word (put_word (put_word (put_word (\<lambda>_. Some 0)
     8192 IMAGE_DOS_SIGNATURE) 8252 (64 :: u32)) 8256 IMAGE_NT_SIGNATURE) 8260 imageFileProcess_amd64) 8262 (1 :: u16)) 8276 (240 :: u16))
     8312 (16 :: u32)) 8336 (32 :: u32)) 8340 (0xffff :: u32)) 8532 (16 :: u32)"

lemma short_words:
  "word_at short_image 8192 = Some IMAGE_DOS_SIGNATURE" "word_at short_image 8252 = Some (64 :: u32)"
  "word_at short_image 8256 = Some IMAGE_NT_SIGNATURE" "word_at short_image 8260 = Some imageFileProcess_amd64"
  "word_at short_image 8262 = Some (1 :: u16)" "word_at short_image 8276 = Some (240 :: u16)" "word_at short_image 8312 = Some (16 :: u32)"
  "word_at short_image 8336 = Some (32 :: u32)" "word_at short_image 8340 = Some (0xffff :: u32)" "word_at short_image 8532 = Some (16 :: u32)"
  "word_at short_image 8536 = Some (0 :: u32)" "word_at short_image 8278 = Some (0 :: u16)" "word_at short_image 8304 = Some (0 :: u64)"
  by (simp_all add: short_image_def word_at_put_word word_at_other word_at_zero cells_disjoint)

definition short_loader :: loader where
  "short_loader = \<lparr>mem = short_image, trace = [], this = newModule False, loadedAddressRanges = [], hookResult = None\<rparr>"

lemma short_mem: "mem short_loader = short_image"
  by (simp add: short_loader_def)

lemma short_check: "checkImage imageFileProcess_amd64 8192 368 short_loader = Some (Inr (Inr (8256, 32), short_loader))"
proof -
  have l: "load a short_loader = (case word_at short_image a of None \<Rightarrow> Some (Inl (AccessViolation a)) | Some v \<Rightarrow> Some (Inr (Inr v, short_loader)))" for a
    by (simp add: load_run short_mem)
  have au: "alignUp 32 16 = 32" by (simp add: alignUp_def)
  show ?thesis
    by (simp add: checkImage_def bindM_def l short_words retM_def E_lfanew_def Sections_def fileHdr_def optHdr_def sectionEnd_def secHdr_def
        Let_def au)
qed

text \<open>The state after memory was reserved at 65536, and after it was released.\<close>

definition short_reserved :: loader where
  "short_reserved = short_loader\<lparr>this := (newModule False)\<lparr>codeBase := 65536\<rparr>,
     trace := [EvAlloc 0 32 (MEM_RESERVE OR MEM_COMMIT) PAGE_READWRITE (Some 65536)]\<rparr>"

lemma short_reserve: "reserveImage sample_api 8256 32 (short_loader\<lparr>this := newModule False\<rparr>) = Some (Inr (Inr (), short_reserved))"
  by (simp add: reserveImage_def allocCode_def tryM_def VirtualAlloc_def sample_api_def load_run short_mem short_words optHdr_def bindM_def
      setThis_def modM_def thenM_def retM_def wrapM_def check4GBBoundaries_def whileM_unfold codeBaseM_def getM_def crosses4GB_def Let_def logEv_def
      newModule_def short_reserved_def short_loader_def)

lemma short_headers: "copyHeaders sample_api 8192 368 8256 short_reserved = Some (Inr (Inl ''Incomplete headers'', short_reserved))"
  by (simp add: copyHeaders_def load_run short_reserved_def short_mem short_words optHdr_def bindM_def failM_def)

lemma short_free: "\<exists>s'. Free sample_api short_reserved = Some (Inr (Inr (), s')) \<and>
    trace s' = trace short_reserved @ [EvFree 65536 0 MEM_RELEASE]"
  by (simp add: Free_def detach_def freeModules_def freeCode_def freeBlocked_def short_reserved_def newModule_def bindM_def thenM_def getM_def
      codeBaseM_def retM_def modM_def setThis_def forM_def VirtualFree_def logEv_def)

theorem LoadLibrary_releases_witness:
  "\<exists>s'. LoadLibrary sample_api imageFileProcess_amd64 8192 368 short_loader = Some (Inr (Inl ''Incomplete headers'', s')) \<and>
     EvFree 65536 0 MEM_RELEASE \<in> set (trace s') \<and> reserved (trace s') 65536 = 0"
proof -
  obtain s' where f: "Free sample_api short_reserved = Some (Inr (Inr (), s'))" "trace s' = trace short_reserved @ [EvFree 65536 0 MEM_RELEASE]"
    using short_free by blast
  have "load16 (fileHdr 8256 ''Characteristics'') short_loader = Some (Inr (Inr 0, short_loader))"
    by (simp add: load_run short_mem short_words fileHdr_def)
  then have run: "LoadLibrary sample_api imageFileProcess_amd64 8192 368 short_loader = Some (Inr (Inl ''Incomplete headers'', s'))"
    using f(1) short_reserve short_headers
    by (simp add: LoadLibrary_def bindM_def short_check setThis_def modM_def thenM_def cleanupM_def loadImage_def)
  from LoadLibrary_releases [OF run] f run show ?thesis by (auto simp: short_loader_def reserved_def)
qed

end
