(* ===== verification/Memmod_Reloc.thy ===== *)
theory Memmod_Reloc
  imports Memmod_Resources
begin

text \<open>
  What \<open>performBaseRelocation\<close> does to the image, against a reference that knows the relocation table as a list of
  blocks: the cells the table names are changed by the distance, and nothing else is.
\<close>

subsection \<open>The table\<close>

text \<open>A block: the address its offsets start from, and its entries.\<close>

type_synonym block = "u32 \<times> u16 list"

definition blockSize :: "u16 list \<Rightarrow> nat" where
  "blockSize es = 8 + 2 * length es"

text \<open>The blocks as they lie in memory from \<open>p\<close>, and the addresses they occupy.\<close>

fun table_at :: "memory \<Rightarrow> u64 \<Rightarrow> block list \<Rightarrow> bool" where
  "table_at m p [] \<longleftrightarrow> word_at m p = Some (0 :: u32)"
| "table_at m p ((va, es) # bs) \<longleftrightarrow>
     word_at m p = Some va \<and> va \<noteq> 0 \<and> blockSize es < 2 ^ 32 \<and> word_at m (p + 4) = Some (of_nat (blockSize es) :: u32) \<and>
     (\<forall>i<length es. word_at m (p + 8 + of_nat (2 * i)) = Some (es ! i)) \<and> table_at m (p + of_nat (blockSize es)) bs"

fun table_cells :: "u64 \<Rightarrow> block list \<Rightarrow> u64 set" where
  "table_cells p [] = cells p 4"
| "table_cells p ((va, es) # bs) = cells p (blockSize es) \<union> table_cells (p + of_nat (blockSize es)) bs"

text \<open>The cells to change: of each entry its type and the address.\<close>

definition target :: "u64 \<Rightarrow> u16 \<Rightarrow> u16 \<times> u64" where
  "target dest e = (drop_bit 12 e, dest + ucast (e AND 0xfff))"

definition targets :: "u64 \<Rightarrow> block list \<Rightarrow> (u16 \<times> u64) list" where
  "targets cb bs = concat (map (\<lambda>(va, es). map (target (cb + ucast va)) es) bs)"

definition relWidth :: "u16 \<Rightarrow> nat" where
  "relWidth t = (if t = 10 then 8 else if t = 3 then 4 else if t = 1 \<or> t = 2 then 2 else 0)"

definition cellsOf :: "u16 \<times> u64 \<Rightarrow> u64 set" where
  "cellsOf ta = cells (snd ta) (relWidth (fst ta))"

subsection \<open>The reference\<close>

definition addTo :: "memory \<Rightarrow> u64 \<Rightarrow> 'a::len word \<Rightarrow> memory" where
  "addTo m a d = (case word_at m a of None \<Rightarrow> m | Some v \<Rightarrow> put_word m a (v + d))"

definition relocate :: "u64 \<Rightarrow> u16 \<times> u64 \<Rightarrow> memory \<Rightarrow> memory" where
  "relocate delta ta m =
     (if fst ta = 10 then addTo m (snd ta) delta
      else if fst ta = 3 then addTo m (snd ta) (ucast delta :: u32)
      else if fst ta = 2 then addTo m (snd ta) (ucast delta :: u16)
      else if fst ta = 1 then addTo m (snd ta) (ucast (drop_bit 16 delta) :: u16)
      else m)"

definition supported :: "u16 \<Rightarrow> bool" where
  "supported t \<longleftrightarrow> t = 0 \<or> t = 1 \<or> t = 2 \<or> t = 3 \<or> t = 10"

definition accessible :: "memory \<Rightarrow> u64 set \<Rightarrow> bool" where
  "accessible m A \<longleftrightarrow> (\<forall>x\<in>A. m x \<noteq> None)"

subsection \<open>Memory lemmas\<close>

lemma accessible_word: "width TYPE('a) \<le> 2 ^ 64 \<Longrightarrow> accessible m (cells a (width TYPE('a::len))) \<Longrightarrow> \<exists>v. word_at m a = Some (v :: 'a word)"
proof -
  assume w: "width TYPE('a) \<le> 2 ^ 64" and a: "accessible m (cells a (width TYPE('a)))"
  let ?n = "width TYPE('a)"
  have "m (a + of_nat i) \<noteq> None" if "i < ?n" for i using a that cells_iff [OF w, of "a + of_nat i" a] by (auto simp: accessible_def)
  then have "bytesAt m a ?n = Some (map (\<lambda>i. the (m (a + of_nat i))) [0..<?n])" by (auto simp: bytesAt_Some)
  then show ?thesis by (simp add: word_at_def)
qed

text \<open>What a memory has in common with the one the loop started from: the table, and what may be accessed.\<close>

definition same_on :: "u64 set \<Rightarrow> memory \<Rightarrow> memory \<Rightarrow> bool" where
  "same_on T m m' \<longleftrightarrow> (\<forall>x\<in>T. m' x = m x) \<and> (\<forall>x. m' x = None \<longleftrightarrow> m x = None)"

lemma bytesAt_cong:
  assumes "same_on T m m'" and "cells a n \<subseteq> T" and "n \<le> 2 ^ 64"
  shows "bytesAt m' a n = bytesAt m a n"
proof -
  have "m' (a + of_nat i) = m (a + of_nat i)" if "i < n" for i
    using assms(1,2) that cells_iff [OF assms(3), of "a + of_nat i" a] by (auto simp: same_on_def)
  then have "map (\<lambda>i. m' (a + of_nat i)) [0..<n] = map (\<lambda>i. m (a + of_nat i)) [0..<n]" by simp
  then show ?thesis by (simp only: bytesAt_def)
qed

lemma word_at_cong:
  "same_on T m m' \<Longrightarrow> cells a (width TYPE('a)) \<subseteq> T \<Longrightarrow> width TYPE('a) \<le> 2 ^ 64 \<Longrightarrow> word_at m' a = (word_at m a :: 'a::len word option)"
  by (simp add: word_at_def bytesAt_cong)

lemma same_on_refl [simp]: "same_on T m m"
  by (simp add: same_on_def)

lemma same_on_trans: "same_on T m m' \<Longrightarrow> same_on T m' m'' \<Longrightarrow> same_on T m m''"
  by (simp add: same_on_def)

lemma same_on_put_word:
  assumes "word_at m a = Some (v :: 'a::len word)" and "cells a (width TYPE('a)) \<inter> T = {}" and "width TYPE('a) \<le> 2 ^ 64"
  shows "same_on T m (put_word m a (w :: 'a word))"
proof -
  have other: "x \<notin> cells a (width TYPE('a)) \<Longrightarrow> put_word m a w x = m x" for x by (simp add: put_word_def putBytes_other)
  from assms(1) obtain bs where b: "bytesAt m a (width TYPE('a)) = Some bs" by (auto simp: word_at_def)
  have inside: "put_word m a w x \<noteq> None \<and> m x \<noteq> None" if "x \<in> cells a (width TYPE('a))" for x
  proof -
    from that obtain i where i: "i < width TYPE('a)" "x = a + of_nat i" using cells_iff [OF assms(3)] by blast
    with b have "m x \<noteq> None" by (simp add: bytesAt_Some)
    moreover have "put_word m a w x = Some (leBytes (width TYPE('a)) (unat w) ! i)"
      using i assms(3) by (simp add: put_word_def putBytes_at)
    ultimately show ?thesis by simp
  qed
  show ?thesis unfolding same_on_def
  proof (intro conjI ballI allI)
    show "put_word m a w x = m x" if "x \<in> T" for x using assms(2) that by (intro other) blast
    show "(put_word m a w x = None) = (m x = None)" for x using inside [of x] other [of x] by (cases "x \<in> cells a (width TYPE('a))") auto
  qed
qed

lemma same_on_addTo: "cells a (width TYPE('a)) \<inter> T = {} \<Longrightarrow> width TYPE('a) \<le> 2 ^ 64 \<Longrightarrow> same_on T m (addTo m a (d :: 'a::len word))"
  by (auto simp: addTo_def intro: same_on_put_word split: option.splits)

lemma same_on_relocate: "cellsOf ta \<inter> T = {} \<Longrightarrow> same_on T m (relocate delta ta m)"
  using same_on_addTo [where 'a = 16] same_on_addTo [where 'a = 32] same_on_addTo [where 'a = 64]
  by (simp add: relocate_def cellsOf_def relWidth_def split: if_splits)

lemma same_on_fold: "\<forall>ta\<in>set tas. cellsOf ta \<inter> T = {} \<Longrightarrow> same_on T m (fold (relocate delta) tas m)"
proof (induction tas arbitrary: m)
  case (Cons ta tas)
  then have "cellsOf ta \<inter> T = {}" by simp
  from same_on_relocate [OF this] have "same_on T m (relocate delta ta m)" .
  moreover have "same_on T (relocate delta ta m) (fold (relocate delta) tas (relocate delta ta m))" using Cons by simp
  ultimately show ?case by (auto intro: same_on_trans)
qed simp

lemma accessible_same: "same_on T m m' \<Longrightarrow> accessible m' A = accessible m A"
  by (simp add: accessible_def same_on_def)

subsection \<open>The loops\<close>

lemma ucast_bits: "ucast (delta AND 0xffff) = (ucast delta :: u16)" "ucast (drop_bit 16 (ucast delta :: u32)) = (ucast (drop_bit 16 delta) :: u16)"
  for delta :: u64
proof -
  have m: "(0xffff :: u64) = Bit_Operations.mask 16" by (simp add: mask_eq_exp_minus_1)
  show "ucast (delta AND 0xffff) = (ucast delta :: u16)" unfolding m by (rule bit_word_eqI) (auto simp: bit_simps)
  show "ucast (drop_bit 16 (ucast delta :: u32)) = (ucast (drop_bit 16 delta) :: u16)" by (intro bit_word_eqI) (auto simp: bit_simps)
qed

lemma addAt_run:
  assumes "accessible (mem s) (cells a (width TYPE('a)))" and "width TYPE('a) \<le> 2 ^ 64"
  shows "addAt a (d :: 'a::len word) s = Some (Inr (Inr (), s\<lparr>mem := addTo (mem s) a d\<rparr>))"
proof -
  from accessible_word [OF assms(2,1)] obtain v where "word_at (mem s) a = Some (v :: 'a word)" by blast
  then show ?thesis by (simp add: addAt_def bindM_def load_run store_run addTo_def)
qed

lemma relocOne_run:
  assumes "supported (fst (target dest e))" and "accessible (mem s) (cellsOf (target dest e))"
  shows "relocOne dest delta e s = Some (Inr (Inr (), s\<lparr>mem := relocate delta (target dest e) (mem s)\<rparr>))"
  using assms addAt_run [where 'a = 16, of s] addAt_run [where 'a = 32, of s] addAt_run [where 'a = 64, of s]
  by (auto simp: relocOne_def relocate_def target_def supported_def cellsOf_def relWidth_def retM_def ucast_bits Let_def split: if_splits)

text \<open>The entries of a block from the \<open>k\<close>th on; \<open>m0\<close> is the memory before the first block.\<close>

lemma entries_run:
  assumes T: "cells q (2 * length es) \<subseteq> T" "2 * length es \<le> 2 ^ 64" and e: "\<forall>i<length es. word_at m0 (q + of_nat (2 * i)) = Some (es ! i)"
    and ok: "\<forall>e\<in>set es. supported (fst (target dest e)) \<and> accessible m0 (cellsOf (target dest e)) \<and> cellsOf (target dest e) \<inter> T = {}"
    and s: "same_on T m0 (mem s)" and k: "k \<le> length es"
  shows "foldM (\<lambda>_ i. bindM (load16 (q + of_nat (2 * i))) (relocOne dest delta)) () [k..<length es] s =
    Some (Inr (Inr (), s\<lparr>mem := fold (relocate delta) (map (target dest) (drop k es)) (mem s)\<rparr>))"
  using s k
proof (induction "length es - k" arbitrary: k s)
  case (Suc n)
  then have k: "k < length es" by simp
  let ?t = "target dest (es ! k)" and ?s = "s\<lparr>mem := relocate delta (target dest (es ! k)) (mem s)\<rparr>"
  have okk: "supported (fst ?t)" "accessible m0 (cellsOf ?t)" "cellsOf ?t \<inter> T = {}" using ok k by auto
  have "cells (q + of_nat (2 * k)) 2 \<subseteq> T"
  proof
    fix x assume "x \<in> cells (q + of_nat (2 * k)) 2"
    then obtain i where "i < 2" "x = q + of_nat (2 * k) + of_nat i" using cells_iff [of 2 x] by auto
    then have "x = q + of_nat (2 * k + i)" "2 * k + i < 2 * length es" using k by (simp_all add: algebra_simps)
    then show "x \<in> T" using cells_iff [OF T(2), of x q] T(1) by blast
  qed
  with Suc.prems(1) have "word_at (mem s) (q + of_nat (2 * k)) = (word_at m0 (q + of_nat (2 * k)) :: u16 option)"
    by (intro word_at_cong) simp_all
  with e k have l: "load16 (q + of_nat (2 * k)) s = Some (Inr (Inr (es ! k), s))" by (simp add: load_run)
  have r: "relocOne dest delta (es ! k) s = Some (Inr (Inr (), ?s))"
    using okk Suc.prems(1) by (intro relocOne_run) (simp_all add: accessible_same)
  have "same_on T m0 (mem ?s)" using same_on_trans [OF Suc.prems(1) same_on_relocate [OF okk(3)]] by simp
  from Suc.hyps(1) [OF _ this, of "Suc k"] Suc.hyps(2) k
  have "foldM (\<lambda>_ i. bindM (load16 (q + of_nat (2 * i))) (relocOne dest delta)) () [Suc k..<length es] ?s =
    Some (Inr (Inr (), s\<lparr>mem := fold (relocate delta) (map (target dest) (drop (Suc k) es)) (mem ?s)\<rparr>))" by simp
  moreover have "[k..<length es] = k # [Suc k..<length es]" using k by (simp add: upt_conv_Cons)
  moreover have "drop k es = es ! k # drop (Suc k) es" using k by (simp add: Cons_nth_drop_Suc)
  ultimately show ?case using l r by (simp add: bindM_def)
qed (simp add: retM_def)

lemma cells_sub:
  assumes "i + n \<le> k" and "k \<le> 2 ^ 64"
  shows "cells (p + of_nat i) n \<subseteq> cells p k"
proof
  fix x assume "x \<in> cells (p + of_nat i) n"
  then obtain j where "j < n" "x = p + of_nat i + of_nat j" using cells_iff [of n x] assms by auto
  then have "x = p + of_nat (i + j)" "i + j < k" using assms by simp_all
  then show "x \<in> cells p k" using cells_iff [OF assms(2)] by blast
qed

lemma upt_blockSize: "(blockSize es - 8) div 2 = length es"
  by (simp add: blockSize_def)

text \<open>One block, and the loop over the blocks.\<close>

lemma relocBlock_run:
  assumes m: "word_at m0 p = Some (va :: u32)" "word_at m0 (p + 4) = Some (of_nat (blockSize es) :: u32)" "blockSize es < 2 ^ 32"
      "\<forall>i<length es. word_at m0 (p + 8 + of_nat (2 * i)) = Some (es ! i)"
    and T: "cells p (blockSize es) \<subseteq> T"
    and ok: "\<forall>e\<in>set es. supported (fst (target dest e)) \<and> accessible m0 (cellsOf (target dest e)) \<and> cellsOf (target dest e) \<inter> T = {}"
    and s: "same_on T m0 (mem s)" and d: "dest = codeBase (this s) + ucast va"
  shows "relocBlock delta p s = Some (Inr (Inr (p + of_nat (blockSize es)),
    s\<lparr>mem := fold (relocate delta) (map (target dest) es) (mem s)\<rparr>))"
proof -
  let ?m = "fold (relocate delta) (map (target dest) es) (mem s)" and ?n = "of_nat (blockSize es) :: u32"
  have b: "blockSize es \<le> 2 ^ 64" using m(3) by simp
  have c: "cells p 4 \<subseteq> T" "cells (p + 4) 4 \<subseteq> T" "cells (p + 8) (2 * length es) \<subseteq> T"
    using cells_sub [of 0 4 "blockSize es" p, OF _ b] cells_sub [of 4 4 "blockSize es" p, OF _ b]
      cells_sub [of 8 "2 * length es" "blockSize es" p, OF _ b] T by (simp_all add: blockSize_def)
  have s': "same_on T m0 ?m" using ok by (intro same_on_trans [OF s same_on_fold]) auto
  note w = word_at_cong [OF s, where 'a = 32] word_at_cong [OF s', where 'a = 32]
  have r: "load32 p s = Some (Inr (Inr va, s))" "load32 (p + 4) s = Some (Inr (Inr ?n, s))"
    "load32 (p + 4) (s\<lparr>mem := ?m\<rparr>) = Some (Inr (Inr ?n, s\<lparr>mem := ?m\<rparr>))"
    using m(1,2) w c by (simp_all add: load_run)
  have n: "unat ?n = blockSize es" using m(3) by (simp add: unsigned_of_nat take_bit_nat_eq_self)
  then have "\<not> ?n < 8" by (simp add: word_less_nat_alt blockSize_def)
  moreover have "ucast ?n = (of_nat (unat ?n) :: u64)" by (simp only: of_nat_unat)
  then have "ucast ?n = (of_nat (blockSize es) :: u64)" by (simp only: n)
  moreover have "2 * length es \<le> 2 ^ 64" using b by (simp add: blockSize_def)
  note entries_run [OF c(3) this m(4) ok s, of 0 delta]
  ultimately show ?thesis using r n
    by (simp add: relocBlock_def bindM_def thenM_def forM_def codeBaseM_def getM_def retM_def upt_blockSize d)
qed

lemma table_head: "cells p 4 \<subseteq> table_cells p bs"
proof (cases bs)
  case (Cons b bs)
  obtain va es where b: "b = (va, es)" by fastforce
  have "cells p 4 \<subseteq> cells p (blockSize es)" by (auto simp: cells_def blockSize_def)
  with Cons b show ?thesis by auto
qed simp

lemma blocks_run:
  assumes "table_at m0 p bs" and "table_cells p bs \<subseteq> T"
    and "\<forall>ta\<in>set (targets (codeBase (this s)) bs). supported (fst ta) \<and> accessible m0 (cellsOf ta) \<and> cellsOf ta \<inter> T = {}"
    and "same_on T m0 (mem s)"
  shows "\<exists>p'. whileM (\<lambda>p. bindM (load32 (p + 0)) (\<lambda>va. retM (0 < va))) (relocBlock delta) p s =
    Some (Inr (Inr p', s\<lparr>mem := fold (relocate delta) (targets (codeBase (this s)) bs) (mem s)\<rparr>))"
  using assms
proof (induction bs arbitrary: p s)
  case Nil
  have "cells p 4 \<subseteq> T" using table_head [of p "[]"] Nil.prems(2) by blast
  then have "load32 p s = Some (Inr (Inr 0, s))" using Nil.prems(1) word_at_cong [OF Nil.prems(4), where 'a = 32] by (simp add: load_run)
  then show ?case by (subst whileM_unfold) (simp add: bindM_def retM_def targets_def)
next
  case (Cons b bs)
  obtain va es where b: "b = (va, es)" by fastforce
  let ?dest = "codeBase (this s) + ucast va"
  let ?s = "s\<lparr>mem := fold (relocate delta) (map (target ?dest) es) (mem s)\<rparr>"
  note t = Cons.prems(1) [unfolded b table_at.simps]
  have ok: "\<forall>e\<in>set es. supported (fst (target ?dest e)) \<and> accessible m0 (cellsOf (target ?dest e)) \<and> cellsOf (target ?dest e) \<inter> T = {}"
    and ok': "\<forall>ta\<in>set (targets (codeBase (this ?s)) bs). supported (fst ta) \<and> accessible m0 (cellsOf ta) \<and> cellsOf ta \<inter> T = {}"
    using Cons.prems(3) by (auto simp: b targets_def)
  have c: "cells p (blockSize es) \<subseteq> T" "table_cells (p + of_nat (blockSize es)) bs \<subseteq> T" using Cons.prems(2) by (simp_all add: b)
  have "same_on T m0 (mem ?s)" using ok same_on_trans [OF Cons.prems(4) same_on_fold] by auto
  from Cons.IH [OF _ c(2) ok' this] t obtain p' where w:
    "whileM (\<lambda>p. bindM (load32 (p + 0)) (\<lambda>va. retM (0 < va))) (relocBlock delta) (p + of_nat (blockSize es)) ?s =
    Some (Inr (Inr p', ?s\<lparr>mem := fold (relocate delta) (targets (codeBase (this s)) bs) (mem ?s)\<rparr>))" by auto
  have "cells p 4 \<subseteq> T" using table_head [of p "b # bs"] Cons.prems(2) by blast
  then have l: "load32 p s = Some (Inr (Inr va, s))" using t word_at_cong [OF Cons.prems(4), where 'a = 32] by (simp add: load_run)
  have "relocBlock delta p s = Some (Inr (Inr (p + of_nat (blockSize es)), ?s))"
    using t by (intro relocBlock_run [OF _ _ _ _ c(1) ok Cons.prems(4)]) simp_all
  then show ?case using l t w by (subst whileM_unfold) (simp add: bindM_def retM_def targets_def b word_neq_0_conv)
qed

subsection \<open>What has changed\<close>

definition apart :: "u16 \<times> u64 \<Rightarrow> u16 \<times> u64 \<Rightarrow> bool" where
  "apart x y \<longleftrightarrow> cellsOf x \<inter> cellsOf y = {}"

lemma relocate_other: "x \<notin> cellsOf ta \<Longrightarrow> relocate delta ta m x = m x"
  by (auto simp: relocate_def addTo_def cellsOf_def relWidth_def put_word_def putBytes_other split: option.splits if_splits)

lemma fold_other: "\<forall>ta\<in>set tas. x \<notin> cellsOf ta \<Longrightarrow> fold (relocate delta) tas m x = m x"
  by (induction tas arbitrary: m) (simp_all add: relocate_other)

lemma word_at_frame:
  assumes "\<forall>x\<in>cells a (width TYPE('a)). m' x = m x" and "width TYPE('a) \<le> 2 ^ 64"
  shows "word_at m' a = (word_at m a :: 'a::len word option)"
proof -
  have "m' (a + of_nat i) = m (a + of_nat i)" if "i < width TYPE('a)" for i
    using assms that cells_iff [OF assms(2), of "a + of_nat i" a] by blast
  then have "map (\<lambda>i. m' (a + of_nat i)) [0..<width TYPE('a)] = map (\<lambda>i. m (a + of_nat i)) [0..<width TYPE('a)]" by simp
  then show ?thesis by (simp only: word_at_def bytesAt_def)
qed

lemma addTo_word:
  assumes "8 dvd LENGTH('a)" and "LENGTH('a) \<le> 64"
  shows "word_at (addTo m a d) a = map_option (\<lambda>v. v + d) (word_at m a :: 'a::len word option)"
  using word_at_put_word [OF assms] by (auto simp: addTo_def split: option.splits)

text \<open>The cell of one target: changed once, by its own entry.\<close>

lemma cell_changed:
  assumes "sorted_wrt apart tas" and "ta \<in> set tas" and "relWidth (fst ta) = width TYPE('a::len)" and "width TYPE('a) \<le> 2 ^ 64"
  shows "\<exists>m1. (\<forall>x\<in>cellsOf ta. m1 x = m x) \<and> (word_at (fold (relocate delta) tas m) (snd ta) :: 'a word option) = word_at (relocate delta ta m1) (snd ta)"
  using assms(1,2)
proof (induction tas arbitrary: m)
  case (Cons tb tas)
  have c: "cellsOf ta = cells (snd ta) (width TYPE('a))" using assms(3) by (simp add: cellsOf_def)
  show ?case
  proof (cases "ta = tb")
    case True
    with Cons.prems(1) have "\<forall>x\<in>cellsOf ta. \<forall>tc\<in>set tas. x \<notin> cellsOf tc" by (auto simp: apart_def)
    then have "\<forall>x\<in>cellsOf ta. fold (relocate delta) tas (relocate delta ta m) x = relocate delta ta m x" by (auto intro!: fold_other)
    then show ?thesis using True c word_at_frame [OF _ assms(4), of "snd ta"] by (intro exI [of _ m]) simp
  next
    case False
    with Cons.prems have ta: "ta \<in> set tas" and "cellsOf tb \<inter> cellsOf ta = {}" by (auto simp: apart_def)
    then have "\<forall>x\<in>cellsOf ta. relocate delta tb m x = m x" by (auto intro!: relocate_other)
    moreover from Cons.IH [OF _ ta, of "relocate delta tb m"] Cons.prems(1) obtain m1 where "\<forall>x\<in>cellsOf ta. m1 x = relocate delta tb m x"
      "(word_at (fold (relocate delta) tas (relocate delta tb m)) (snd ta) :: 'a word option) = word_at (relocate delta ta m1) (snd ta)" by auto
    ultimately show ?thesis by (intro exI [of _ m1]) simp
  qed
qed simp

lemma cell_added:
  assumes "sorted_wrt apart tas" and "ta \<in> set tas" and "relWidth (fst ta) = width TYPE('a::len)" and "8 dvd LENGTH('a)" and "LENGTH('a) \<le> 64"
    and r: "\<And>m. relocate delta ta m = addTo m (snd ta) (d :: 'a word)"
  shows "word_at (fold (relocate delta) tas m) (snd ta) = map_option (\<lambda>v. v + d) (word_at m (snd ta))"
proof -
  have w: "width TYPE('a) \<le> 2 ^ 64" using assms(5) by (simp add: width_def)
  from cell_changed [OF assms(1-3) w, of m delta] obtain m1 where m1: "\<forall>x\<in>cellsOf ta. m1 x = m x"
    "(word_at (fold (relocate delta) tas m) (snd ta) :: 'a word option) = word_at (relocate delta ta m1) (snd ta)" by blast
  have "word_at m1 (snd ta) = (word_at m (snd ta) :: 'a word option)"
    using m1(1) by (intro word_at_frame w) (simp add: cellsOf_def assms(3))
  with m1(2) show ?thesis by (simp add: r addTo_word [OF assms(4,5)])
qed

text \<open>
  C22. Relocation does what the table says and nothing else: for an image whose relocation table has entries of the kinds the
  loader handles on 64-bit Windows, in memory that can be accessed and disjoint from each other and the table,
  the loop ends without an error, every cell of 64 bits the table lists has the distance added, the
  cells of the 32-bit and 16-bit kinds the part of it they stand for, and no other byte of memory is changed.
\<close>

theorem relocation:
  assumes "dirField 5 ''Size'' s = Some (Inr (Inr n, s))" and "n \<noteq> 0" and "dirField 5 ''VirtualAddress'' s = Some (Inr (Inr va, s))"
    and "table_at (mem s) (codeBase (this s) + ucast va) bs"
    and "\<forall>ta\<in>set (targets (codeBase (this s)) bs). supported (fst ta) \<and> accessible (mem s) (cellsOf ta) \<and>
      cellsOf ta \<inter> table_cells (codeBase (this s) + ucast va) bs = {}"
    and "sorted_wrt apart (targets (codeBase (this s)) bs)"
  shows "\<exists>m. performBaseRelocation delta s = Some (Inr (Inr True, s\<lparr>mem := m\<rparr>)) \<and>
    (\<forall>(t, a)\<in>set (targets (codeBase (this s)) bs).
       (t = 10 \<longrightarrow> word_at m a = map_option (\<lambda>v. v + delta) (word_at (mem s) a)) \<and>
       (t = 3 \<longrightarrow> word_at m a = map_option (\<lambda>v. v + (ucast delta :: u32)) (word_at (mem s) a)) \<and>
       (t = 2 \<longrightarrow> word_at m a = map_option (\<lambda>v. v + (ucast delta :: u16)) (word_at (mem s) a)) \<and>
       (t = 1 \<longrightarrow> word_at m a = map_option (\<lambda>v. v + (ucast (drop_bit 16 delta) :: u16)) (word_at (mem s) a))) \<and>
    (\<forall>x. x \<notin> (\<Union>ta\<in>set (targets (codeBase (this s)) bs). cellsOf ta) \<longrightarrow> m x = mem s x)"
proof -
  let ?ts = "targets (codeBase (this s)) bs" and ?p = "codeBase (this s) + ucast va"
  let ?m = "fold (relocate delta) ?ts (mem s)"
  have dir: "dirAddress 5 s = Some (Inr (Inr ?p, s))" using assms(3) by (simp add: dirAddress_def codeBaseM_def bindM_def getM_def retM_def)
  from blocks_run [OF assms(4) order_refl assms(5), of delta] obtain p' where
    "whileM (\<lambda>p. bindM (load32 (p + 0)) (\<lambda>va. retM (0 < va))) (relocBlock delta) ?p s = Some (Inr (Inr p', s\<lparr>mem := ?m\<rparr>))" by auto
  then have run: "performBaseRelocation delta s = Some (Inr (Inr True, s\<lparr>mem := ?m\<rparr>))"
    using assms(1,2) dir by (simp add: performBaseRelocation_def bindM_def retM_def)
  have cell: "(t = 10 \<longrightarrow> word_at ?m a = map_option (\<lambda>v. v + delta) (word_at (mem s) a)) \<and>
      (t = 3 \<longrightarrow> word_at ?m a = map_option (\<lambda>v. v + (ucast delta :: u32)) (word_at (mem s) a)) \<and>
      (t = 2 \<longrightarrow> word_at ?m a = map_option (\<lambda>v. v + (ucast delta :: u16)) (word_at (mem s) a)) \<and>
      (t = 1 \<longrightarrow> word_at ?m a = map_option (\<lambda>v. v + (ucast (drop_bit 16 delta) :: u16)) (word_at (mem s) a))" if "(t, a) \<in> set ?ts" for t a
    using cell_added [OF assms(6) that, where 'a = 64, of delta delta "mem s"] cell_added [OF assms(6) that, where 'a = 32, of delta "ucast delta" "mem s"]
      cell_added [OF assms(6) that, where 'a = 16, of delta "ucast delta" "mem s"]
      cell_added [OF assms(6) that, where 'a = 16, of delta "ucast (drop_bit 16 delta)" "mem s"]
    by (auto simp: relocate_def relWidth_def)
  have "?m x = mem s x" if "x \<notin> (\<Union>ta\<in>set ?ts. cellsOf ta)" for x using that by (intro fold_other) auto
  with run cell show ?thesis by (intro exI [of _ ?m]) auto
qed

subsection \<open>A sample\<close>

lemma accessible_all: "accessible (\<lambda>_. Some 0) A" "accessible m A \<Longrightarrow> accessible (put_word m a v) A"
  by (auto simp: accessible_def put_word_def putBytes_def)

text \<open>An image based at 4096 with one block of two entries, the second a filler.\<close>

definition sample_image :: memory where
  "sample_image = put_word (put_word (put_word (put_word (put_word (put_word (\<lambda>_. Some 0)
     432 (256 :: u32)) 436 (16 :: u32)) 4352 (16 :: u32)) 4356 (12 :: u32)) 4360 (0xA008 :: u16)) 4120 (0x180001000 :: u64)"

definition sample_loader :: loader where
  "sample_loader = \<lparr>mem = sample_image, trace = [], this = (newModule True)\<lparr>headers := 256, codeBase := 4096\<rparr>, loadedAddressRanges = [],
     hookResult = None\<rparr>"

lemma sample_words:
  "word_at sample_image 432 = Some (256 :: u32)" "word_at sample_image 436 = Some (16 :: u32)" "word_at sample_image 4352 = Some (16 :: u32)"
  "word_at sample_image 4356 = Some (12 :: u32)" "word_at sample_image 4360 = Some (0xA008 :: u16)" "word_at sample_image 4362 = Some (0 :: u16)"
  "word_at sample_image 4364 = Some (0 :: u32)" "word_at sample_image 4120 = Some (0x180001000 :: u64)"
  by (simp_all add: sample_image_def word_at_put_word word_at_other word_at_zero cells_disjoint)

lemma sample_dir: "dirField 5 ''VirtualAddress'' sample_loader = Some (Inr (Inr 256, sample_loader))"
  "dirField 5 ''Size'' sample_loader = Some (Inr (Inr 16, sample_loader))"
  by (simp_all add: dirField_def headersM_def optHdr_def sample_loader_def newModule_def load_run sample_words)

theorem relocation_witness:
  "\<exists>m. performBaseRelocation 0x10000 sample_loader = Some (Inr (Inr True, sample_loader\<lparr>mem := m\<rparr>)) \<and>
     word_at m 4120 = Some (0x180011000 :: u64) \<and> m 4128 = sample_image 4128"
proof -
  let ?bs = "[(16, [0xA008, 0])] :: block list"
  have s: "mem sample_loader = sample_image" "codeBase (this sample_loader) = 4096" by (simp_all add: sample_loader_def newModule_def)
  have t: "table_at sample_image (4096 + ucast (256 :: u32)) ?bs"
    by (simp add: sample_words blockSize_def nth_Cons less_Suc_eq)
  have ts: "targets 4096 ?bs = [(10, 4120), (0, 4112)]" by (simp add: targets_def target_def)
  have ok: "\<forall>ta\<in>set (targets 4096 ?bs). supported (fst ta) \<and> accessible sample_image (cellsOf ta) \<and>
      cellsOf ta \<inter> table_cells (4096 + ucast (256 :: u32)) ?bs = {}"
    by (simp add: ts supported_def sample_image_def accessible_all cellsOf_def relWidth_def blockSize_def Int_Un_distrib cells_disjoint)
  have ap: "sorted_wrt apart (targets 4096 ?bs)" by (simp add: ts apart_def cellsOf_def relWidth_def cells_def)
  from relocation [where delta = "0x10000", OF sample_dir(2) _ sample_dir(1), unfolded s, OF _ t ok ap] obtain m where
    m: "performBaseRelocation 0x10000 sample_loader = Some (Inr (Inr True, sample_loader\<lparr>mem := m\<rparr>))"
    "word_at m 4120 = map_option (\<lambda>v. v + 0x10000) (word_at sample_image 4120 :: u64 option)"
    "\<forall>x. x \<notin> (\<Union>ta\<in>set (targets 4096 ?bs). cellsOf ta) \<longrightarrow> m x = sample_image x" by (auto simp: ts)
  have "4128 \<notin> (\<Union>ta\<in>set (targets 4096 ?bs). cellsOf ta)" by (simp add: ts cellsOf_def relWidth_def cells_def)
  with m show ?thesis by (intro exI [of _ m]) (simp add: sample_words)
qed

end
