(* ===== verification/Memmod_Address.thy ===== *)
theory Memmod_Address
  imports Memmod_Reloc
begin

text \<open>
  Section addresses that are kept in 32 bits, the table of exported functions, and the address ranges the loader registers.
\<close>

subsection \<open>Addresses in 32 bits\<close>

lemma check4GB_exit:
  assumes "check4GBBoundaries W n s = Some (Inr (Inr u, s'))"
  shows "\<not> crosses4GB (codeBase (this s')) n"
  using whileM_exit [OF assms [unfolded check4GBBoundaries_def]] by (auto simp: codeBaseM_def retM_def)

lemma reserveImage_exit:
  assumes "reserveImage W old n s = Some (Inr (Inr u, s'))"
  shows "\<not> crosses4GB (codeBase (this s')) n"
proof -
  from assms have "\<exists>t p. wrapM p (check4GBBoundaries W n) t = Some (Inr (Inr u, s'))"
    by (auto simp: reserveImage_def thenM_def bindM_def split: option.splits sum.splits) blast+
  then obtain t p where w: "wrapM p (check4GBBoundaries W n) t = Some (Inr (Inr u, s'))" by blast
  then obtain r t' where "check4GBBoundaries W n t = Some (Inr (r, t'))" by (auto simp: wrapM_def split: option.splits sum.splits)
  with w have "check4GBBoundaries W n t = Some (Inr (Inr u, s'))" by (cases r) (simp_all add: wrapM_def)
  then show ?thesis by (rule check4GB_exit)
qed

lemma low_high: "ucast (ucast (x AND 0xffffffff) :: u32) OR (x AND 0xffffffff00000000) = (x :: u64)"
proof -
  have m: "(0xffffffff :: u64) = Bit_Operations.mask 32" "(0xffffffff00000000 :: u64) = NOT (Bit_Operations.mask 32)"
    by (simp_all add: mask_eq_exp_minus_1)
  show ?thesis unfolding m by (rule bit_word_eqI) (auto simp: bit_simps)
qed

lemma high_eq: "drop_bit 32 x = drop_bit 32 y \<Longrightarrow> x AND 0xffffffff00000000 = (y :: u64) AND 0xffffffff00000000"
proof -
  have m: "(0xffffffff00000000 :: u64) = NOT (Bit_Operations.mask 32)" by (simp add: mask_eq_exp_minus_1)
  show "drop_bit 32 x = drop_bit 32 y \<Longrightarrow> ?thesis" unfolding m and_not_mask by simp
qed

lemma same_4GB:
  assumes "\<not> crosses4GB a n" and "unat a + unat n < 2 ^ 64" and "va < n"
  shows "drop_bit 32 (a + va) = drop_bit 32 a"
proof -
  have u: "unat (drop_bit 32 x) = unat x div 2 ^ 32" for x :: u64
  proof -
    have "unat x < 2 ^ LENGTH(64)" by (rule unsigned_less)
    then have "take_bit LENGTH(64) (unat x) = unat x" by (rule take_bit_nat_eq_self)
    then show ?thesis using drop_bit_eq_div [of 32 "unat x"] by (simp only: unsigned_drop_bit_eq)
  qed
  have v: "unat va < unat n" using assms(3) by (simp add: word_less_nat_alt)
  have an: "unat (a + n) = unat a + unat n" and av: "unat (a + va) = unat a + unat va" using assms(2) v by (simp_all add: unat_word_ariths)
  have "unat a div 2 ^ 32 \<le> unat (a + va) div 2 ^ 32" "unat (a + va) div 2 ^ 32 \<le> unat (a + n) div 2 ^ 32"
    using v by (simp_all add: an av div_le_mono)
  moreover have "\<not> unat a div 2 ^ 32 < unat (a + n) div 2 ^ 32" using assms(1) by (simp add: crosses4GB_def word_less_nat_alt u)
  ultimately have "unat (drop_bit 32 (a + va)) = unat (drop_bit 32 a)" by (simp add: u)
  then show ?thesis by (simp add: word_unat_eq_iff)
qed

text \<open>
  C21. An address kept in 32 bits is not lost: in memory that \<open>reserveImage\<close> found, the address of a section, cut to
  32 bits where the section header has room for it and completed by the upper half of the base address later, is the
  address it was, for every offset inside the image.  This is what \<open>check4GBBoundaries\<close> is for.
\<close>

theorem section_address:
  assumes "reserveImage W old n s0 = Some (Inr (Inr u, s1))" and "unat (codeBase (this s1)) + unat n < 2 ^ 64" and "va < n"
    and "SetPhysicalAddress h (ucast ((codeBase (this s1) + va) AND 0xffffffff)) s = Some (Inr (Inr v, s'))"
  shows "sectionAt (codeBase (this s1) AND 0xffffffff00000000) h s' = Some (Inr (Inr (codeBase (this s1) + va), s'))"
proof -
  let ?a = "codeBase (this s1) + va"
  from assms(4) have s': "s' = s\<lparr>mem := put_word (mem s) (secHdr h ''physicalAddressOrVirtualSize'') (ucast (?a AND 0xffffffff) :: u32)\<rparr>"
    by (auto simp: SetPhysicalAddress_def store_run split: option.splits)
  have "codeBase (this s1) AND 0xffffffff00000000 = ?a AND 0xffffffff00000000"
    using same_4GB [OF reserveImage_exit [OF assms(1)] assms(2,3)] high_eq by metis
  then show ?thesis
    by (simp add: sectionAt_def PhysicalAddress_def s' bindM_def retM_def load_run word_at_put_word low_high)
qed

subsection \<open>Exports\<close>

text \<open>
  The tables of an export directory at \<open>e\<close>: the names with their ordinals, and the relative addresses of the functions.
\<close>

definition names_at :: "winapi \<Rightarrow> memory \<Rightarrow> u64 \<Rightarrow> u64 \<Rightarrow> u64 \<Rightarrow> (string \<times> u16) list \<Rightarrow> bool" where
  "names_at W m cb names ords ns \<longleftrightarrow>
     (\<forall>i<length ns.
        (case (word_at m (names + of_nat (4 * i)) :: u32 option) of None \<Rightarrow> False | Some r \<Rightarrow> wString W m (cb + ucast r) = Some (fst (ns ! i))) \<and>
        word_at m (ords + of_nat (2 * i)) = Some (snd (ns ! i)))"

definition exports_at :: "winapi \<Rightarrow> memory \<Rightarrow> u64 \<Rightarrow> u64 \<Rightarrow> (string \<times> u16) list \<Rightarrow> u32 list \<Rightarrow> bool" where
  "exports_at W m cb e ns fns \<longleftrightarrow>
     length ns < 2 ^ 32 \<and> length fns < 2 ^ 16 \<and>
     word_at m (e + off IMAGE_EXPORT_DIRECTORY ''NumberOfNames'') = Some (of_nat (length ns) :: u32) \<and>
     word_at m (e + off IMAGE_EXPORT_DIRECTORY ''NumberOfFunctions'') = Some (of_nat (length fns) :: u32) \<and>
     (case (word_at m (e + off IMAGE_EXPORT_DIRECTORY ''AddressOfNames'') :: u32 option,
            word_at m (e + off IMAGE_EXPORT_DIRECTORY ''AddressOfNameOrdinals'') :: u32 option,
            word_at m (e + off IMAGE_EXPORT_DIRECTORY ''AddressOfFunctions'') :: u32 option) of
        (Some an, Some ao, Some af) \<Rightarrow>
          names_at W m cb (cb + ucast an) (cb + ucast ao) ns \<and>
          (\<forall>i<length fns. word_at m (cb + ucast af + of_nat (4 * i)) = Some (fns ! i))
      | _ \<Rightarrow> False)"

lemma exportNames_run:
  assumes "names_at W (mem s) (codeBase (this s)) names ords ns"
    and "nameExports (this s) = Some x" and "k \<le> length ns"
  shows "foldM (\<lambda>_ i. exportName W names ords i) () [k..<length ns] s =
    Some (Inr (Inr (), s\<lparr>this := (this s)\<lparr>nameExports := Some (fold (\<lambda>(n, i) x. x(n \<mapsto> i)) (drop k ns) x)\<rparr>\<rparr>))"
  using assms
proof (induction "length ns - k" arbitrary: k s x)
  case (Suc n)
  then have k: "k < length ns" by simp
  let ?s = "s\<lparr>this := (this s)\<lparr>nameExports := Some (x(fst (ns ! k) \<mapsto> snd (ns ! k)))\<rparr>\<rparr>"
  from Suc.prems(1) k obtain r where r: "word_at (mem s) (names + of_nat (4 * k)) = Some (r :: u32)"
    "wString W (mem s) (codeBase (this s) + ucast r) = Some (fst (ns ! k))" "word_at (mem s) (ords + of_nat (2 * k)) = Some (snd (ns ! k))"
    by (auto simp: names_at_def split: option.splits)
  then have "exportName W names ords k s = Some (Inr (Inr (), ?s))"
    using Suc.prems(2) by (simp add: exportName_def codeBaseM_def bindM_def getM_def load_run BytePtrToString_def setThis_def modM_def)
  moreover have "foldM (\<lambda>_ i. exportName W names ords i) () [Suc k..<length ns] ?s =
      Some (Inr (Inr (), ?s\<lparr>this := (this ?s)\<lparr>nameExports := Some (fold (\<lambda>(n, i) x. x(n \<mapsto> i)) (drop (Suc k) ns) (x(fst (ns ! k) \<mapsto> snd (ns ! k))))\<rparr>\<rparr>))"
    using Suc.hyps(2) Suc.prems k by (intro Suc.hyps(1)) simp_all
  moreover have "[k..<length ns] = k # [Suc k..<length ns]" using k by (simp add: upt_conv_Cons)
  moreover have "drop k ns = ns ! k # drop (Suc k) ns" using k by (simp add: Cons_nth_drop_Suc)
  ultimately show ?case by (simp add: bindM_def split_beta)
qed (simp add: retM_def)

lemma fold_updates: "fold (\<lambda>(n, i) x. x(n \<mapsto> i)) ns x = x ++ map_of (rev ns)"
  by (induction ns arbitrary: x) (auto simp: map_add_def fun_eq_iff split: option.splits)

text \<open>What a directory entry says, for the module as it is.\<close>

definition export_dir :: "loader \<Rightarrow> u64 \<Rightarrow> bool" where
  "export_dir s e \<longleftrightarrow>
     (\<exists>n va. word_at (mem s) (optHdr (headers (this s)) ''DataDirectory'' + off IMAGE_DATA_DIRECTORY ''Size'') = Some (n :: u32) \<and> n \<noteq> 0 \<and>
        word_at (mem s) (optHdr (headers (this s)) ''DataDirectory'' + off IMAGE_DATA_DIRECTORY ''VirtualAddress'') = Some (va :: u32) \<and>
        e = codeBase (this s) + ucast va)"

lemma export_dir_run:
  assumes "export_dir s e"
  obtains n where "dirField 0 ''Size'' s = Some (Inr (Inr n, s))" "n \<noteq> 0" "dirAddress 0 s = Some (Inr (Inr e, s))"
  using assms by (auto simp: export_dir_def dirAddress_def dirField_def headersM_def codeBaseM_def load_run bindM_def getM_def retM_def)

lemma exports_atD:
  assumes "exports_at W m cb e ns fns" and "word_at m (e + off IMAGE_EXPORT_DIRECTORY ''AddressOfFunctions'') = Some (af :: u32)"
  obtains an ao where "unat (of_nat (length ns) :: u32) = length ns" "unat (of_nat (length fns) :: u32) = length fns"
    "word_at m (e + off IMAGE_EXPORT_DIRECTORY ''NumberOfNames'') = Some (of_nat (length ns) :: u32)"
    "word_at m (e + off IMAGE_EXPORT_DIRECTORY ''NumberOfFunctions'') = Some (of_nat (length fns) :: u32)"
    "word_at m (e + off IMAGE_EXPORT_DIRECTORY ''AddressOfNames'') = Some (an :: u32)"
    "word_at m (e + off IMAGE_EXPORT_DIRECTORY ''AddressOfNameOrdinals'') = Some (ao :: u32)"
    "names_at W m cb (cb + ucast an) (cb + ucast ao) ns" "\<forall>i<length fns. word_at m (cb + ucast af + of_nat (4 * i)) = Some (fns ! i)"
proof -
  have "length ns < 2 ^ 32" "length fns < 2 ^ 16" using assms(1) unfolding exports_at_def by simp_all
  then have "unat (of_nat (length ns) :: u32) = length ns" "unat (of_nat (length fns) :: u32) = length fns"
    by (simp_all add: unsigned_of_nat take_bit_nat_eq_self)
  with that assms show ?thesis unfolding exports_at_def by (auto split: option.splits)
qed

lemma buildNameExports_run:
  assumes "export_dir s e" and "exports_at W (mem s) (codeBase (this s)) e ns fns" and "ns \<noteq> []" and "fns \<noteq> []"
    and "word_at (mem s) (e + off IMAGE_EXPORT_DIRECTORY ''AddressOfFunctions'') = Some (af :: u32)"
  shows "buildNameExports W s = Some (Inr (Inr (), s\<lparr>this := (this s)\<lparr>nameExports := Some (map_of (rev ns))\<rparr>\<rparr>))"
proof -
  let ?cb = "codeBase (this s)" and ?s1 = "s\<lparr>this := (this s)\<lparr>nameExports := Some (\<lambda>_. None)\<rparr>\<rparr>"
  from export_dir_run [OF assms(1)] obtain n where d: "dirField 0 ''Size'' s = Some (Inr (Inr n, s))" "n \<noteq> 0" "dirAddress 0 s = Some (Inr (Inr e, s))" .
  from exports_atD [OF assms(2,5)] obtain an ao where
    u: "unat (of_nat (length ns) :: u32) = length ns" "unat (of_nat (length fns) :: u32) = length fns"
    and w: "word_at (mem s) (e + off IMAGE_EXPORT_DIRECTORY ''NumberOfNames'') = Some (of_nat (length ns) :: u32)"
      "word_at (mem s) (e + off IMAGE_EXPORT_DIRECTORY ''NumberOfFunctions'') = Some (of_nat (length fns) :: u32)"
      "word_at (mem s) (e + off IMAGE_EXPORT_DIRECTORY ''AddressOfNames'') = Some (an :: u32)"
      "word_at (mem s) (e + off IMAGE_EXPORT_DIRECTORY ''AddressOfNameOrdinals'') = Some (ao :: u32)"
    and na: "names_at W (mem s) ?cb (?cb + ucast an) (?cb + ucast ao) ns" .
  have nz: "(of_nat (length ns) :: u32) \<noteq> 0" "(of_nat (length fns) :: u32) \<noteq> 0"
    using u assms(3,4) by (metis length_0_conv unsigned_0)+
  from exportNames_run [of W ?s1 "?cb + ucast an" "?cb + ucast ao" ns "\<lambda>_. None" 0] na
  have "forM (exportName W (?cb + ucast an) (?cb + ucast ao)) [0..<length ns] ?s1 =
      Some (Inr (Inr (), s\<lparr>this := (this s)\<lparr>nameExports := Some (map_of (rev ns))\<rparr>\<rparr>))"
    by (simp add: forM_def fold_updates)
  then show ?thesis
    using d w nz u by (simp add: buildNameExports_def expField_def load_run codeBaseM_def bindM_def getM_def setThis_def thenM_def modM_def)
qed

lemma functionAt_run:
  assumes "word_at (mem s) (e + off IMAGE_EXPORT_DIRECTORY ''AddressOfFunctions'') = Some (af :: u32)"
  shows "functionAt e (i :: u16) s = (case word_at (mem s) (codeBase (this s) + ucast af + of_nat (4 * unat i)) of
      None \<Rightarrow> Some (Inl (AccessViolation (codeBase (this s) + ucast af + of_nat (4 * unat i))))
    | Some r \<Rightarrow> Some (Inr (Inr (codeBase (this s) + ucast (r :: u32)), s)))"
proof -
  have ix: "(ucast i * 4 :: u64) = of_nat (4 * unat i)" by (simp add: mult.commute)
  show ?thesis
    using assms by (simp add: functionAt_def expField_def load_run codeBaseM_def bindM_def getM_def retM_def ix del: of_nat_unat split: option.splits)
qed

lemma ProcAddressByName_run:
  assumes "export_dir s e" and "exports_at W (mem s) (codeBase (this s)) e ns fns" and "ns \<noteq> []" and "fns \<noteq> []"
    and "word_at (mem s) (e + off IMAGE_EXPORT_DIRECTORY ''AddressOfFunctions'') = Some (af :: u32)" and "nameExports (this s) = Some x"
  shows "ProcAddressByName name s =
    (case x name of
       None \<Rightarrow> Some (Inr (Inl ''Function not found by name'', s))
     | Some i \<Rightarrow> if length fns < unat i then Some (Inr (Inl ''Ordinal number too high'', s)) else functionAt e i s)"
proof -
  from export_dir_run [OF assms(1)] obtain n where d: "dirField 0 ''Size'' s = Some (Inr (Inr n, s))" "n \<noteq> 0" "dirAddress 0 s = Some (Inr (Inr e, s))" .
  from exports_atD [OF assms(2,5)] have u: "unat (of_nat (length fns) :: u32) = length fns"
    and w: "word_at (mem s) (e + off IMAGE_EXPORT_DIRECTORY ''NumberOfFunctions'') = Some (of_nat (length fns) :: u32)" by metis+
  have gt: "(of_nat (length fns) :: u32) < ucast i \<longleftrightarrow> length fns < unat i" for i :: u16
  proof -
    have "unat i < 2 ^ LENGTH(16)" by (rule unsigned_less)
    then have "unat i < 2 ^ 32" by simp
    then have "unat (ucast i :: u32) = unat i" by (simp add: unsigned_ucast_eq take_bit_nat_eq_self)
    with u show ?thesis by (simp only: word_less_nat_alt)
  qed
  show ?thesis
    using d w gt assms(6) by (auto simp: ProcAddressByName_def expField_def load_run bindM_def getM_def failM_def split: option.splits)
qed

text \<open>
  C11. Looking up an export by name: once the table of names is built, a name is found exactly if it is in the image's table of names,
  the last entry of the name counts, and its address is the base plus the relative address in the table of
  functions.  The bound is off by one: an ordinal equal to the number of functions is let through, and the four bytes
  after the table are taken for an address.
\<close>

theorem export_lookup:
  assumes "export_dir s e" and "exports_at W (mem s) (codeBase (this s)) e ns fns" and "ns \<noteq> []" and "fns \<noteq> []"
    and "word_at (mem s) (e + off IMAGE_EXPORT_DIRECTORY ''AddressOfFunctions'') = Some (af :: u32)"
  shows "\<exists>s'. buildNameExports W s = Some (Inr (Inr (), s')) \<and>
    (\<forall>name. ProcAddressByName name s' =
       (case map_of (rev ns) name of
          None \<Rightarrow> Some (Inr (Inl ''Function not found by name'', s'))
        | Some i \<Rightarrow>
            if unat i < length fns then Some (Inr (Inr (codeBase (this s) + ucast (fns ! unat i)), s'))
            else if length fns < unat i then Some (Inr (Inl ''Ordinal number too high'', s'))
            else (case word_at (mem s) (codeBase (this s) + ucast af + of_nat (4 * length fns)) of
                    None \<Rightarrow> Some (Inl (AccessViolation (codeBase (this s) + ucast af + of_nat (4 * length fns))))
                  | Some r \<Rightarrow> Some (Inr (Inr (codeBase (this s) + ucast (r :: u32)), s')))))"
proof -
  let ?cb = "codeBase (this s)" and ?s' = "s\<lparr>this := (this s)\<lparr>nameExports := Some (map_of (rev ns))\<rparr>\<rparr>"
  have dir: "export_dir ?s' e" using assms(1) by (simp add: export_dir_def)
  from exports_atD [OF assms(2,5)] have f: "\<forall>i<length fns. word_at (mem s) (?cb + ucast af + of_nat (4 * i)) = Some (fns ! i)" by metis
  have ex: "exports_at W (mem ?s') (codeBase (this ?s')) e ns fns"
    "word_at (mem ?s') (e + off IMAGE_EXPORT_DIRECTORY ''AddressOfFunctions'') = Some af" using assms(2,5) by simp_all
  have p: "ProcAddressByName name ?s' = (case map_of (rev ns) name of
       None \<Rightarrow> Some (Inr (Inl ''Function not found by name'', ?s'))
     | Some i \<Rightarrow> if length fns < unat i then Some (Inr (Inl ''Ordinal number too high'', ?s')) else functionAt e i ?s')" for name
    by (rule ProcAddressByName_run [OF dir ex(1) assms(3,4) ex(2)]) simp
  have at: "functionAt e i ?s' = (case word_at (mem s) (?cb + ucast af + of_nat (4 * unat i)) of
      None \<Rightarrow> Some (Inl (AccessViolation (?cb + ucast af + of_nat (4 * unat i))))
    | Some r \<Rightarrow> Some (Inr (Inr (?cb + ucast (r :: u32)), ?s')))" for i :: u16
    unfolding functionAt_run [OF ex(2)] by (simp del: of_nat_unat of_nat_mult split: option.split)
  show ?thesis
    by (intro exI [of _ ?s'] conjI allI buildNameExports_run [OF assms])
      (auto simp: p at f [rule_format] not_less le_less split: option.splits simp del: of_nat_unat of_nat_mult)
qed

subsection \<open>Samples\<close>

definition zero_loader :: loader where
  "zero_loader = sample_loader\<lparr>mem := \<lambda>_. Some 0, this := newModule True\<rparr>"

theorem section_address_witness:
  "\<exists>s1 s'. reserveImage sample_api 0 0x5000 zero_loader = Some (Inr (Inr (), s1)) \<and>
     SetPhysicalAddress 0 (ucast ((codeBase (this s1) + 0x1234) AND 0xffffffff)) zero_loader = Some (Inr (Inr (), s')) \<and>
     sectionAt (codeBase (this s1) AND 0xffffffff00000000) 0 s' = Some (Inr (Inr 0x11234, s'))"
proof -
  have "\<exists>s1. reserveImage sample_api 0 0x5000 zero_loader = Some (Inr (Inr (), s1)) \<and> codeBase (this s1) = 65536"
    by (simp add: reserveImage_def allocCode_def tryM_def VirtualAlloc_def sample_api_def zero_loader_def load_run word_at_zero bindM_def
        setThis_def modM_def thenM_def retM_def wrapM_def check4GBBoundaries_def whileM_unfold codeBaseM_def getM_def crosses4GB_def Let_def logEv_def)
  then obtain s1 where s1: "reserveImage sample_api 0 0x5000 zero_loader = Some (Inr (Inr (), s1))" "codeBase (this s1) = 65536" by blast
  obtain s' where s': "SetPhysicalAddress 0 (ucast ((codeBase (this s1) + 0x1234) AND 0xffffffff)) zero_loader = Some (Inr (Inr (), s'))"
    by (simp add: SetPhysicalAddress_def store_run zero_loader_def word_at_zero)
  have "unat (codeBase (this s1)) + unat (0x5000 :: u64) < 2 ^ 64" "(0x1234 :: u64) < 0x5000" by (simp_all add: s1(2))
  from section_address [OF s1(1) this s'] s1 s' show ?thesis by auto
qed

definition export_loader :: loader where
  "export_loader = sample_loader\<lparr>mem := put_word (put_word (put_word (put_word (put_word (put_word (put_word (put_word (put_word (\<lambda>_. Some 0)
     392 (512 :: u32)) 396 (40 :: u32)) 4632 (1 :: u32)) 4628 (1 :: u32)) 4636 (768 :: u32)) 4640 (1024 :: u32)) 4644 (1280 :: u32))
     4864 (0x111 :: u32)) 5120 (2048 :: u32)\<rparr>"

lemma export_words:
  "word_at (mem export_loader) 392 = Some (512 :: u32)" "word_at (mem export_loader) 396 = Some (40 :: u32)"
  "word_at (mem export_loader) 4632 = Some (1 :: u32)" "word_at (mem export_loader) 4628 = Some (1 :: u32)"
  "word_at (mem export_loader) 4636 = Some (768 :: u32)" "word_at (mem export_loader) 4640 = Some (1024 :: u32)"
  "word_at (mem export_loader) 4644 = Some (1280 :: u32)" "word_at (mem export_loader) 4864 = Some (0x111 :: u32)"
  "word_at (mem export_loader) 5120 = Some (2048 :: u32)" "word_at (mem export_loader) 5376 = Some (0 :: u16)"
  by (simp_all add: export_loader_def word_at_put_word word_at_other word_at_zero cells_disjoint)

theorem export_lookup_witness:
  "\<exists>s'. buildNameExports sample_api export_loader = Some (Inr (Inr (), s')) \<and>
     ProcAddressByName ''f'' s' = Some (Inr (Inr 0x1111, s')) \<and> ProcAddressByName ''g'' s' = Some (Inr (Inl ''Function not found by name'', s'))"
proof -
  have t: "codeBase (this export_loader) = 4096" "headers (this export_loader) = 256" by (simp_all add: export_loader_def sample_loader_def)
  have d: "export_dir export_loader 4608" by (simp add: export_dir_def optHdr_def t export_words)
  have x: "exports_at sample_api (mem export_loader) (codeBase (this export_loader)) 4608 [(''f'', 0)] [0x111]"
    by (simp add: exports_at_def names_at_def t export_words) (simp add: sample_api_def)
  have "word_at (mem export_loader) (4608 + off IMAGE_EXPORT_DIRECTORY ''AddressOfFunctions'') = Some (768 :: u32)" by (simp add: export_words)
  from export_lookup [OF d x _ _ this] show ?thesis by (auto simp: t)
qed

end
