(* ===== verification/Wintun.thy ===== *)
theory Wintun
  imports Memmod_Resources Tun_Windows
begin

text \<open>
  The bindings to the wintun library (\<open>src/wintun\<close>): loading it on demand with the loader of \<open>Memmod\<close>, finding its functions, and the
  calls of adapters and sessions.  What a function of the library answers is the argument \<open>call\<close>, of the function's
  address and arguments: the result and the last error.
\<close>

subsection \<open>Loading on demand\<close>

text \<open>The library, its base, and the addresses found so far (0: not yet).\<close>

record lazyDLL =
  dModule :: bool
  dBase :: u64
  procAddr :: "string \<Rightarrow> u64"

definition newLazyDLL :: lazyDLL where
  "newLazyDLL = \<lparr>dModule = False, dBase = 0, procAddr = (\<lambda>_. 0)\<rparr>"

text \<open>The image that is built into the program: its machine, address and length.\<close>

record dll_image =
  imMachine :: u16
  imAddr :: u64
  imLen :: u64

datatype 'a outcome = Faulted fault | Panicked string | Failed string | Done 'a

type_synonym 'a lazyM = "lazyDLL \<times> loader \<Rightarrow> ('a outcome \<times> lazyDLL \<times> loader) option"

definition retL :: "'a \<Rightarrow> 'a lazyM" where
  "retL x z = Some (Done x, z)"

definition bindL :: "'a lazyM \<Rightarrow> ('a \<Rightarrow> 'b lazyM) \<Rightarrow> 'b lazyM" where
  "bindL x f z =
     (case x z of
        None \<Rightarrow> None
      | Some (Faulted t, z) \<Rightarrow> Some (Faulted t, z)
      | Some (Panicked e, z) \<Rightarrow> Some (Panicked e, z)
      | Some (Failed e, z) \<Rightarrow> Some (Failed e, z)
      | Some (Done a, z) \<Rightarrow> f a z)"

text \<open>An operation of the loader, with a prefix for its error.\<close>

definition liftL :: "string \<Rightarrow> 'a M \<Rightarrow> 'a lazyM" where
  "liftL p x z =
     (case z of (d, s) \<Rightarrow>
        (case x s of
           None \<Rightarrow> None
         | Some (Inl t) \<Rightarrow> Some (Faulted t, d, s)
         | Some (Inr (Inl e, s)) \<Rightarrow> Some (Failed (p @ e), d, s)
         | Some (Inr (Inr a, s)) \<Rightarrow> Some (Done a, d, s)))"

definition prefixL :: "string \<Rightarrow> 'a lazyM \<Rightarrow> 'a lazyM" where
  "prefixL p x z = (case x z of Some (Failed e, z) \<Rightarrow> Some (Failed (p @ e), z) | r \<Rightarrow> r)"

definition DLL_Load :: "winapi \<Rightarrow> dll_image \<Rightarrow> unit lazyM" where
  "DLL_Load W im z =
     (if dModule (fst z) then Some (Done (), z)
      else bindL (liftL ''unable to load library: '' (LoadLibrary W (imMachine im) (imAddr im) (imLen im)))
        (\<lambda>_ (d, s). Some (Done (), d\<lparr>dBase := codeBase (this s), dModule := True\<rparr>, s)) z)"

definition Find :: "winapi \<Rightarrow> dll_image \<Rightarrow> string \<Rightarrow> unit lazyM" where
  "Find W im name z =
     (if procAddr (fst z) name \<noteq> 0 then Some (Done (), z)
      else
        bindL (prefixL (''error loading DLL: wintun.dll, MODULE: '' @ name @ '', error: '') (DLL_Load W im)) (\<lambda>_.
        bindL (liftL (''error getting '' @ name @ '' address: '') (ProcAddressByName name)) (\<lambda>a (d, s).
          Some (Done (), d\<lparr>procAddr := (procAddr d)(name := a)\<rparr>, s))) z)"

text \<open>\<open>Addr\<close> panics with the error of \<open>Find\<close>.\<close>

definition Addr :: "winapi \<Rightarrow> dll_image \<Rightarrow> string \<Rightarrow> u64 lazyM" where
  "Addr W im name z =
     (case Find W im name z of
        Some (Failed e, z) \<Rightarrow> Some (Panicked e, z)
      | r \<Rightarrow> bindL (\<lambda>_. r) (\<lambda>_ (d, s). Some (Done (procAddr d name), d, s)) z)"

subsection \<open>The functions of the library\<close>

datatype warg = Word u64 | Text string | Null | Out

type_synonym wintun_call = "u64 \<Rightarrow> warg list \<Rightarrow> u64 \<times> string"

definition callProc :: "winapi \<Rightarrow> dll_image \<Rightarrow> wintun_call \<Rightarrow> string \<Rightarrow> warg list \<Rightarrow> (u64 \<times> string) lazyM" where
  "callProc W im call name args = bindL (Addr W im name) (\<lambda>a. retL (call a args))"

text \<open>A call that was found first, so that its absence is an error.\<close>

definition tryProc :: "winapi \<Rightarrow> dll_image \<Rightarrow> wintun_call \<Rightarrow> string \<Rightarrow> warg list \<Rightarrow> (u64 \<times> string) lazyM" where
  "tryProc W im call name args = bindL (Find W im name) (\<lambda>_. callProc W im call name args)"

definition errL :: "string \<Rightarrow> 'a lazyM" where
  "errL e z = Some (Failed e, z)"

text \<open>\<open>UTF16PtrFromString\<close> refuses a string with a zero byte.\<close>

definition utf16Ptr :: "string \<Rightarrow> warg lazyM" where
  "utf16Ptr str = (if CHR 0x00 \<in> set str then errL ''invalid argument'' else retL (Text str))"

definition CreateAdapter :: "winapi \<Rightarrow> dll_image \<Rightarrow> wintun_call \<Rightarrow> string \<Rightarrow> string \<Rightarrow> u64 \<Rightarrow> u64 lazyM" where
  "CreateAdapter W im call name tunnelType requestedGUID =
     bindL (utf16Ptr name) (\<lambda>name16.
     bindL (utf16Ptr tunnelType) (\<lambda>tunnelType16.
     bindL (tryProc W im call ''WintunCreateAdapter'' [name16, tunnelType16, Word requestedGUID]) (\<lambda>(r0, e1).
       if r0 = 0 then errL e1 else retL r0)))"

definition OpenAdapter :: "winapi \<Rightarrow> dll_image \<Rightarrow> wintun_call \<Rightarrow> string \<Rightarrow> u64 lazyM" where
  "OpenAdapter W im call name =
     bindL (utf16Ptr name) (\<lambda>name16.
     bindL (tryProc W im call ''WintunOpenAdapter'' [name16]) (\<lambda>(r0, e1). if r0 = 0 then errL e1 else retL r0))"

definition CloseAdapter :: "winapi \<Rightarrow> dll_image \<Rightarrow> wintun_call \<Rightarrow> u64 \<Rightarrow> unit lazyM" where
  "CloseAdapter W im call handle =
     bindL (tryProc W im call ''WintunCloseAdapter'' [Word handle]) (\<lambda>(r1, e1). if r1 = 0 then errL e1 else retL ())"

definition Uninstall :: "winapi \<Rightarrow> dll_image \<Rightarrow> wintun_call \<Rightarrow> unit lazyM" where
  "Uninstall W im call = bindL (tryProc W im call ''WintunDeleteDriver'' []) (\<lambda>(r1, e1). if r1 = 0 then errL e1 else retL ())"

definition RunningVersion :: "winapi \<Rightarrow> dll_image \<Rightarrow> wintun_call \<Rightarrow> u32 lazyM" where
  "RunningVersion W im call =
     bindL (tryProc W im call ''WintunGetRunningDriverVersion'' []) (\<lambda>(r0, e1).
       let version = ucast r0 in if version = 0 then errL e1 else retL version)"

text \<open>\<open>luid\<close> is what the library writes to the variable that starts as 0.\<close>

definition Adapter_LUID :: "winapi \<Rightarrow> dll_image \<Rightarrow> wintun_call \<Rightarrow> (u64 \<Rightarrow> u64) \<Rightarrow> u64 \<Rightarrow> u64 lazyM" where
  "Adapter_LUID W im call luid handle = bindL (callProc W im call ''WintunGetAdapterLUID'' [Word handle, Out]) (\<lambda>_. retL (luid handle))"

definition StartSession :: "winapi \<Rightarrow> dll_image \<Rightarrow> wintun_call \<Rightarrow> u64 \<Rightarrow> u32 \<Rightarrow> u64 lazyM" where
  "StartSession W im call handle capacity =
     bindL (callProc W im call ''WintunStartSession'' [Word handle, Word (ucast capacity)]) (\<lambda>(r0, e1). if r0 = 0 then errL e1 else retL r0)"

text \<open>\<open>End\<close> has the session by value: the handle that it sets to 0 is its own, the caller's stays (the result).\<close>

definition Session_End :: "winapi \<Rightarrow> dll_image \<Rightarrow> wintun_call \<Rightarrow> u64 \<Rightarrow> u64 lazyM" where
  "Session_End W im call session = bindL (callProc W im call ''WintunEndSession'' [Word session]) (\<lambda>_. retL session)"

definition ReadWaitEvent :: "winapi \<Rightarrow> dll_image \<Rightarrow> wintun_call \<Rightarrow> u64 \<Rightarrow> u64 lazyM" where
  "ReadWaitEvent W im call session = bindL (callProc W im call ''WintunGetReadWaitEvent'' [Word session]) (\<lambda>(r0, _). retL r0)"

text \<open>The packet is at the address returned; its size is what the library writes for it.\<close>

definition ReceivePacket :: "winapi \<Rightarrow> dll_image \<Rightarrow> wintun_call \<Rightarrow> (u64 \<Rightarrow> u32) \<Rightarrow> u64 \<Rightarrow> (u64 \<times> u32) lazyM" where
  "ReceivePacket W im call packetSize session =
     bindL (callProc W im call ''WintunReceivePacket'' [Word session, Out]) (\<lambda>(r0, e1). if r0 = 0 then errL e1 else retL (r0, packetSize r0))"

definition AllocateSendPacket :: "winapi \<Rightarrow> dll_image \<Rightarrow> wintun_call \<Rightarrow> u64 \<Rightarrow> u64 \<Rightarrow> (u64 \<times> u64) lazyM" where
  "AllocateSendPacket W im call session packetSize =
     bindL (callProc W im call ''WintunAllocateSendPacket'' [Word session, Word packetSize]) (\<lambda>(r0, e1).
       if r0 = 0 then errL e1 else retL (r0, packetSize))"

subsection \<open>What loading on demand does\<close>

lemma ProcAddressByName_pure: "ProcAddressByName name s = Some (Inr (r, s')) \<Longrightarrow> s' = s"
proof -
  assume c: "ProcAddressByName name s = Some (Inr (r, s'))"
  have b: "keeps (\<lambda>t. t = s) (\<lambda>t. t = s) (loadBytes a n)" for a n by (auto simp: keeps_def loadBytes_def split: option.splits sum.splits)
  have l: "keeps (\<lambda>t. t = s) (\<lambda>t. t = s) (load a)" for a unfolding load_def by (intro keeps_intros b)
  have "keeps (\<lambda>t. t = s) (\<lambda>t. t = s) (ProcAddressByName name)"
    unfolding ProcAddressByName_def dirField_def dirAddress_def expField_def functionAt_def codeBaseM_def headersM_def Let_def
    by (intro keeps_intros l | assumption)+
  from keeps_any [OF this _ c] show ?thesis by simp
qed

lemma DLL_Load_cases:
  assumes "DLL_Load W im (d, s) = Some (out, d', s')"
  obtains (had) "dModule d" "out = Done ()" "d' = d" "s' = s"
  | (loaded) "\<not> dModule d" "out = Done ()" "d' = d\<lparr>dBase := codeBase (this s'), dModule := True\<rparr>"
      "LoadLibrary W (imMachine im) (imAddr im) (imLen im) s = Some (Inr (Inr (), s'))"
  | (failed) e where "\<not> dModule d" "out = Failed (''unable to load library: '' @ e)" "d' = d"
      "LoadLibrary W (imMachine im) (imAddr im) (imLen im) s = Some (Inr (Inl e, s'))"
  | (fault) t where "\<not> dModule d" "out = Faulted t" "d' = d"
  using assms by (auto simp: DLL_Load_def bindL_def liftL_def split: if_splits option.splits sum.splits)

text \<open>
  Finding a function on demand.  An address that was found stays: finding it again does nothing, whatever happened to others.  Once the
  library is loaded it is never loaded again and its base stays.  When it cannot be loaded nothing is left behind, so that the next
  call starts afresh.  After \<open>Find\<close> has succeeded \<open>Addr\<close> does not panic.
\<close>

theorem Find_effects:
  assumes f: "Find W im name (d, s) = Some (out, d', s')"
  shows "(procAddr d name \<noteq> 0 \<longrightarrow> out = Done () \<and> d' = d \<and> s' = s) \<and>
    (\<forall>n. n \<noteq> name \<longrightarrow> procAddr d' n = procAddr d n) \<and>
    (dModule d \<longrightarrow> dModule d' \<and> dBase d' = dBase d \<and> s' = s) \<and>
    (\<forall>e. out = Failed e \<and> \<not> dModule d' \<longrightarrow>
       d' = d \<and> (\<forall>a. a \<noteq> 0 \<longrightarrow> reserved (trace s') a = reserved (trace s) a) \<and> loaded (trace s') = loaded (trace s)) \<and>
    (out = Done () \<and> procAddr d' name \<noteq> 0 \<longrightarrow> Addr W im name (d', s') = Some (Done (procAddr d' name), d', s'))"
proof (cases "procAddr d name = 0")
  case False
  with f have "out = Done () \<and> d' = d \<and> s' = s" by (auto simp: Find_def)
  with False show ?thesis by (simp add: Addr_def Find_def bindL_def)
next
  case True
  from True f obtain o1 d1 s1 where l: "DLL_Load W im (d, s) = Some (o1, d1, s1)"
    by (auto simp: Find_def bindL_def prefixL_def split: option.splits)
  have later: "dModule d' = dModule d1 \<and> dBase d' = dBase d1 \<and> (\<forall>n. n \<noteq> name \<longrightarrow> procAddr d' n = procAddr d1 n) \<and> s' = s1" if "o1 = Done ()"
    using f True l that ProcAddressByName_pure [of name s1]
    by (auto simp: Find_def bindL_def prefixL_def liftL_def split: option.splits sum.splits)
  have early: "d' = d1 \<and> s' = s1" if "o1 \<noteq> Done ()"
    using f True l that by (cases o1) (auto simp: Find_def bindL_def prefixL_def)
  have ad: "Addr W im name (d', s') = Some (Done (procAddr d' name), d', s')" if "procAddr d' name \<noteq> 0"
    using that by (simp add: Addr_def Find_def bindL_def)
  from l show ?thesis
  proof (cases rule: DLL_Load_cases)
    case had
    with True later ad show ?thesis by auto
  next
    case loaded
    with True later ad show ?thesis by auto
  next
    case (failed e)
    with True early LoadLibrary_failed [OF failed(4)] ad show ?thesis by auto
  next
    case (fault t)
    with True early ad f l show ?thesis by (auto simp: Find_def bindL_def prefixL_def)
  qed
qed

subsection \<open>Loading from several goroutines\<close>

text \<open>
  \<open>lazyDLL.Load\<close> step by step: the module is looked at without the lock, then again with it.  \<open>lzLoads\<close> counts the calls of \<open>LoadLibrary\<close>
  that succeeded; the last step of a call is its result.
\<close>

datatype lz_pc = LzStart | LzLock | LzCheck | LzLoad | LzReturned bool

record lz_state =
  lzModule :: bool
  lzOwner :: "nat option"
  lzLoads :: nat
  lzPc :: "nat \<Rightarrow> lz_pc"

definition lzGo :: "nat \<Rightarrow> lz_pc \<Rightarrow> lz_state \<Rightarrow> lz_state" where
  "lzGo i pc z = z\<lparr>lzPc := (lzPc z)(i := pc)\<rparr>"

text \<open>One step of goroutine \<open>i\<close>; \<open>ok\<close> is whether the library can be loaded now.  \<open>None\<close>: it waits for the lock, or has returned.\<close>

definition lzStep :: "nat \<Rightarrow> bool \<Rightarrow> lz_state \<Rightarrow> lz_state option" where
  "lzStep i ok z =
     (case lzPc z i of
        LzStart \<Rightarrow> Some (lzGo i (if lzModule z then LzReturned True else LzLock) z)
      | LzLock \<Rightarrow> if lzOwner z = None then Some (lzGo i LzCheck (z\<lparr>lzOwner := Some i\<rparr>)) else None
      | LzCheck \<Rightarrow> if lzModule z then Some (lzGo i (LzReturned True) (z\<lparr>lzOwner := None\<rparr>)) else Some (lzGo i LzLoad z)
      | LzLoad \<Rightarrow>
          if ok then Some (lzGo i (LzReturned True) (z\<lparr>lzModule := True, lzLoads := lzLoads z + 1, lzOwner := None\<rparr>))
          else Some (lzGo i (LzReturned False) (z\<lparr>lzOwner := None\<rparr>))
      | LzReturned _ \<Rightarrow> None)"

inductive lz_step :: "lz_state \<Rightarrow> lz_state \<Rightarrow> bool" where
  step: "lzStep i ok z = Some z' \<Longrightarrow> lz_step z z'"
| again: "lzPc z i = LzReturned b \<Longrightarrow> lz_step z (lzGo i LzStart z)"

definition lz_start :: lz_state where
  "lz_start = \<lparr>lzModule = False, lzOwner = None, lzLoads = 0, lzPc = (\<lambda>_. LzStart)\<rparr>"

definition lz_ok :: "lz_state \<Rightarrow> bool" where
  "lz_ok z \<longleftrightarrow> lzLoads z = (if lzModule z then 1 else 0) \<and>
     (\<forall>i. lzPc z i = LzCheck \<or> lzPc z i = LzLoad \<longleftrightarrow> lzOwner z = Some i) \<and>
     (\<forall>i. lzPc z i = LzLoad \<longrightarrow> \<not> lzModule z) \<and> (\<forall>i. lzPc z i = LzReturned True \<longrightarrow> lzModule z)"

lemma lz_step_ok: "lz_step z z' \<Longrightarrow> lz_ok z \<Longrightarrow> lz_ok z'"
proof (induction rule: lz_step.induct)
  case (step i ok z z')
  show ?case
  proof (cases "lzPc z i")
    case LzStart
    with step show ?thesis by (auto simp: lzStep_def lzGo_def lz_ok_def split: if_splits)
  next
    case LzLock
    with step show ?thesis by (auto simp: lzStep_def lzGo_def lz_ok_def split: if_splits)
  next
    case LzCheck
    with step(2) have "lzOwner z = Some i" by (auto simp: lz_ok_def)
    with LzCheck step show ?thesis by (auto simp: lzStep_def lzGo_def lz_ok_def split: if_splits)
  next
    case LzLoad
    with step(2) have o: "lzOwner z = Some i" "\<not> lzModule z" "lzLoads z = 0" by (auto simp: lz_ok_def)
    then have oth: "j \<noteq> i \<Longrightarrow> lzPc z j \<noteq> LzCheck \<and> lzPc z j \<noteq> LzLoad" "lzPc z j \<noteq> LzReturned True" for j
      using step(2) by (auto simp: lz_ok_def)
    from LzLoad step(1) have z': "z' = (if ok then lzGo i (LzReturned True) (z\<lparr>lzModule := True, lzLoads := lzLoads z + 1, lzOwner := None\<rparr>)
        else lzGo i (LzReturned False) (z\<lparr>lzOwner := None\<rparr>))" by (simp add: lzStep_def split: if_splits)
    show ?thesis using o oth unfolding z' by (cases ok) (simp_all add: lzGo_def lz_ok_def)
  next
    case (LzReturned b)
    with step show ?thesis by (simp add: lzStep_def)
  qed
next
  case (again z i b)
  from again(2) have "lzPc z i = LzCheck \<or> lzPc z i = LzLoad \<longleftrightarrow> lzOwner z = Some i" unfolding lz_ok_def by blast
  with again(1) have "lzOwner z \<noteq> Some i" by simp
  with again show ?case by (auto simp: lzGo_def lz_ok_def split: if_splits)
qed

text \<open>
  However many goroutines call it, the library is loaded at most once, at most one goroutine is between taking and giving back the lock, and
  a call that returns without an error finds the library loaded.
\<close>

theorem lazy_load_once:
  assumes "lz_step\<^sup>*\<^sup>* lz_start z"
  shows "lzLoads z \<le> 1 \<and> (lzPc z i = LzReturned True \<longrightarrow> lzModule z \<and> lzLoads z = 1) \<and>
    (lzPc z i \<in> {LzCheck, LzLoad} \<and> lzPc z j \<in> {LzCheck, LzLoad} \<longrightarrow> i = j)"
proof -
  from assms have ok: "lz_ok z"
  proof (induction rule: rtranclp_induct)
    case base
    show ?case by (simp add: lz_ok_def lz_start_def)
  qed (rule lz_step_ok)
  have own: "lzOwner z = Some k" if "lzPc z k \<in> {LzCheck, LzLoad}" for k using ok that by (auto simp: lz_ok_def)
  show ?thesis using ok own [of i] own [of j] by (auto simp: lz_ok_def)
qed

end
