(* ===== verification/Service.thy ===== *)
theory Service
  imports Rpc
begin

text \<open>
  The main program of the agent (\<open>src/vpnagent.go\<close>) and its life as a service (\<open>src/svc/service.go\<close>).  The service library is an
  argument: the error of each of its calls, \<open>None\<close> for success.
\<close>

subsection \<open>The main program\<close>

datatype agent_action = RunForeground | RunSvcAction | InstallAction | UninstallAction | InvalidCommand string

text \<open>\<open>main\<close> of the agent: what it does for its arguments.\<close>

definition agentMain :: "bool \<Rightarrow> string list \<Rightarrow> agent_action" where
  "agentMain interactive args =
     (if length args < 2 then (if interactive then RunForeground else RunSvcAction)
      else
        let cmd = args ! 1 in
        if cmd = ''install'' then InstallAction
        else if cmd = ''uninstall'' then UninstallAction
        else InvalidCommand cmd)"

text \<open>\<open>watchSignal\<close>: blocks until there is a signal, and returns after the first, whichever it is.\<close>

definition watchSignal :: "string list \<Rightarrow> agent \<Rightarrow> (session_panic + nat option \<times> agent) option" where
  "watchSignal sigs ag = (case sigs of [] \<Rightarrow> None | sig # _ \<Rightarrow> Some (DisConnect ag))"

subsection \<open>The service\<close>

record service_lib =
  svNew :: "string option"
  svLogger :: "string option"
  svRun :: "string option"
  svInstall :: "string option"
  svStart :: "string option"
  svStop :: "string option"
  svUninstall :: "string option"

datatype service_call = CallLogger | CallRun | CallInstall | CallStart | CallStop | CallUninstall

definition svcName :: "bool \<Rightarrow> string" where
  "svcName windows = (if windows then ''SSLCon'' else ''sslcon'')"

definition complain :: "string \<Rightarrow> string option \<Rightarrow> string list" where
  "complain what err = (case err of None \<Rightarrow> [] | Some e \<Rightarrow> [what @ e])"

text \<open>
  What is printed, the calls of the service that are made, and whether the program panics: when \<open>New\<close> fails there is no
  service, and its methods are those of a nil interface.
\<close>

definition RunSvc :: "service_lib \<Rightarrow> string list \<times> service_call list \<times> bool" where
  "RunSvc v =
     (let p0 = complain ''Cannot create the service: '' (svNew v) in
      if svNew v \<noteq> None then (p0, [], True)
      else (complain ''Cannot open a system logger: '' (svLogger v) @ complain ''Cannot start the service: '' (svRun v), [CallLogger, CallRun], False))"

definition InstallSvc :: "service_lib \<Rightarrow> string list \<times> service_call list \<times> bool" where
  "InstallSvc v =
     (let p0 = complain ''Cannot create the service: '' (svNew v) in
      if svNew v \<noteq> None then (p0, [], True)
      else case svInstall v of
        Some e \<Rightarrow> ([''Cannot install the service: '' @ e], [CallInstall], False)
      | None \<Rightarrow> (complain ''Cannot start the service: '' (svStart v), [CallInstall, CallStart], False))"

definition UninstallSvc :: "service_lib \<Rightarrow> string list \<times> service_call list \<times> bool" where
  "UninstallSvc v =
     (case svNew v of
        Some e \<Rightarrow> ([''Cannot create the service: '' @ e], [], False)
      | None \<Rightarrow>
          (complain ''Cannot stop the service: '' (svStop v) @ complain ''Cannot uninstall the service: '' (svUninstall v),
           [CallStop, CallUninstall], False))"

text \<open>\<open>program.Stop\<close>, which always reports success.\<close>

definition program_Stop :: "agent \<Rightarrow> session_panic + nat option \<times> agent" where
  "program_Stop ag = DisConnect ag"

subsection \<open>What they do\<close>

text \<open>
  However the agent is told to end, by any signal or by the service manager, it ends the session it has and marks that as wanted, so that
  its monitor does not reconnect.
\<close>

theorem agent_stops:
  assumes "world_ok (world_of ag)"
  shows "\<exists>ag'. program_Stop ag = Inr (CSess (Sess (world_of ag)), ag') \<and> watchSignal (sig # sigs) ag = Some (Inr (CSess (Sess (world_of ag)), ag')) \<and>
    CSess (Sess (world_of ag')) = None \<and> ActiveClose (Sess (world_of ag'))"
  using DisConnect_spec [OF assms] by (auto simp: program_Stop_def watchSignal_def)

text \<open>Installing starts the service exactly if it could be installed; only uninstalling survives a library without a service.\<close>

lemma InstallSvc_starts: "snd (snd (InstallSvc v)) = False \<Longrightarrow> CallStart \<in> set (fst (snd (InstallSvc v))) \<longleftrightarrow> svInstall v = None"
  by (auto simp: InstallSvc_def Let_def split: option.splits if_splits)

lemma service_panics: "snd (snd (RunSvc v)) = (svNew v \<noteq> None)" "snd (snd (InstallSvc v)) = (svNew v \<noteq> None)" "\<not> snd (snd (UninstallSvc v))"
  by (auto simp: RunSvc_def InstallSvc_def UninstallSvc_def Let_def split: option.splits)

end
