(* ===== verification/Spec2Isabelle.thy ===== *)
theory Spec2Isabelle
  imports Lzs_Codec Compression Framing Utils Session Lifecycle Channels Auth Tunnel Logging Rpc Teardown
    Ip_Protocols Files Routes_Linux Teardown_Routes Darwin_Msg Routes_Darwin Local_Darwin Routes_Windows Tun_Linux Tun_Ioctl Tun_Windows Tun_Darwin
    Json Client Loader Pe_Format Memmod Pe_Tables Memmod_Resources Memmod_Reloc Memmod_Address Wintun Service
begin

text \<open>
  Verification of the VPN client \<open>sslcon\<close>, a client for AnyConnect-compatible servers
  written in Go (\<open>src/\<close>).

  \<^bold>\<open>The program.\<close>  A privileged agent (\<open>src/vpnagent.go\<close>) serves JSON-RPC requests
  (\<open>src/rpc\<close>).  \<open>CONNECT\<close> authenticates over HTTPS (\<open>src/auth\<close>, documents in
  \<open>src/proto/dtd.go\<close>), negotiates a tunnel on the same connection (\<open>src/vpn/tunnel.go\<close>), creates the
  session object (\<open>src/session\<close>), sets up the tun device, its routes and DNS (\<open>src/vpn/tun.go\<close>,
  \<open>src/utils/vpnc\<close>), and starts the goroutines that move packets: tun device to queue, queue to
  channel, channel to queue, queue to device (\<open>src/vpn/tun.go\<close>, \<open>tls.go\<close>, \<open>dtls.go\<close>), with buffers from a
  pool (\<open>src/vpn/buffer.go\<close>) and optional compression (\<open>src/proto/compress.go\<close>).  Timers probe the
  peer and end the session; when the connection is lost the monitor starts a reconnection loop.

  \<^bold>\<open>The theories.\<close>  Components come in the order in which they build on each other.
    \<^item> \<open>Sslcon_Prelude\<close>: Go's integers as words, results with an error, bit strings, lists of bytes;
      the collections \<open>bits_simps\<close> and others that carry the proofs.  \<open>Go_Std\<close>: the parts of Go's
      standard library the code goes through (\<open>strconv\<close>, \<open>strings\<close>, \<open>net.IP\<close>, headers).
    \<^item> \<open>Lzs\<close>, \<open>Lzs_Format\<close>, \<open>Lzs_Decoder\<close>, \<open>Lzs_Encoder\<close>, \<open>Lzs_Codec\<close>: the LZS codec of
      \<open>src/proto/compress.go\<close> (\<open>lzsCompress\<close>, \<open>lzsDecompress\<close>, the closures \<open>getBits\<close> and \<open>putBits\<close>, the hash
      chains with 16-bit tables), related through an abstract token format.  C1 is the round
      trip, C2 and C3 termination and bounds; also the only error.
    \<^item> \<open>Compression\<close>: names and dispatch (\<open>ParseCompression\<close>, \<open>CompressData\<close>, \<open>DecompressData\<close>).  The locale
      \<open>negotiated\<close> is what the framing relies on; it is a \<open>packet_codec\<close>, interpreted for LZS, for no
      compression and for a concrete stand-in for the LZ4 library.
    \<^item> \<open>Packet\<close>, \<open>Framing\<close>: payload buffers, the pool, and what one round of each channel loop does to a
      packet (\<open>tlsPack\<close>, \<open>tlsUnpack\<close>, \<open>dtlsPack\<close>, \<open>dtlsUnpack\<close>).  C6 to C8: packets arrive unchanged and in
      order, the frame format and replies to probes; also the unchecked length field.
    \<^item> \<open>Utils\<close>, \<open>Ip_Protocols\<close>, \<open>Files\<close>, \<open>Logging\<close>: \<open>src/base\<close> (\<open>config.go\<close>, \<open>log.go\<close>, \<open>setup.go\<close>), \<open>src/utils/utils.go\<close>,
      \<open>src/utils/record.go\<close> and \<open>src/utils/waterutil\<close>.  The netmask helpers,
      the port setters, the level filter, and what \<open>InitLog\<close> leaves when files cannot be opened.
    \<^item> \<open>Session\<close>, \<open>Lifecycle\<close>: \<open>src/session/session.go\<close> on a heap of session objects with named Go
      channels; \<open>Lifecycle\<close> interleaves connects, closes and the \<open>dtlsChannel\<close> goroutines
      (\<open>src/vpn/dtls.go\<close>) as an inductive step relation.  C14, C16 to C18: no channel is closed twice,
      closing leaves other sessions alone, the set-up signal is given, and the DTLS
      channel that is left without a close signal; also session expiry and probe timing.
      The locale \<open>once_closable\<close> holds the algebra of closing, interpreted for connections.
    \<^item> \<open>Channels\<close>: one round of every data-path loop over the shared connection and pool, and the
      timer ticks, as a step relation.  C19: no panic of senders and device reader, bounded
      queues, whole buffers; also the packet that is too long.
    \<^item> \<open>Auth\<close>: \<open>InitAuth\<close>, \<open>PasswordAuth\<close>, \<open>tplPost\<close>, the XML documents and their escaping, the
      cookies (C24; also what \<open>InitAuth\<close> leaves), over the record \<open>agent\<close> of the process-wide variables.
    \<^item> \<open>Tunnel\<close>: \<open>initTunnel\<close>, \<open>SetupTunnel\<close>, \<open>setupTun\<close>, \<open>dynamicSplitRoutes\<close> and the DTLS configuration
      (C27; also that domain splitting asks for the routes of a name once).
    \<^item> \<open>Rpc\<close>: every request of the handler, \<open>Connect\<close>, \<open>SetupTunnel\<close> and \<open>DisConnect\<close> of
      \<open>src/rpc/connect.go\<close>, \<open>monitor\<close>, and the reconnection loop as a small-step machine that can be
      interleaved with requests.  C29 is a refinement of an abstract client, C30 the invariant
      of the reachable states, C31 to C33 what disconnecting and reconnecting do; also the
      back-off, and when \<open>STATUS\<close> waits.  The
      locale \<open>tunnel_setup\<close> is the contract of an operation that brings a session up or leaves none;
      it is interpreted for \<open>SetupTunnel\<close>, one attempt of the loop, and \<open>Connect\<close>.
    \<^item> \<open>Teardown\<close>: the end of a session, across \<open>src/rpc/connect.go\<close>, \<open>src/vpn/tun.go\<close> and \<open>src/vpn/tunnel.go\<close>: \<open>DisConnect\<close> read by read,
      the deferred functions of both device loops, a set-up under way and lost connections, as labelled steps over the
      session heap and the sequence of calls that set and reset routes.  C25: the loops come to their end in every
      interleaving; C9: in runs whose ends do not overlap the routes are set and reset in turn; C34: five
      races when they do.
    \<^item> \<open>Routes_Linux\<close>: \<open>src/utils/vpnc/vpnc_linux.go\<close> over a record of netlink calls and an arbitrary kernel
      state (C37 to C39: routes are given back, the calls return, the resolver file is restored).  \<open>Teardown_Routes\<close> runs the calls that
      \<open>Teardown\<close> records on this kernel (C28).
    \<^item> \<open>Darwin_Msg\<close>, \<open>Routes_Darwin\<close>: \<open>src/utils/vpnc/vpnc_darwin.go\<close>, the routing-socket messages byte by
      byte (C5, C13) and the pipelined batches with acknowledgements and roll-back (C40).  \<open>Local_Darwin\<close>: the choice of the local interface
      there, and the shell commands.
    \<^item> \<open>Routes_Windows\<close>: \<open>src/utils/vpnc/vpnc_windows.go\<close> over a record of \<open>winipcfg\<close> calls, with the address types of
      \<open>net/netip\<close> written out (the choice of the local interface, and that routes are given back here too).
    \<^item> \<open>Tun_Linux\<close>: \<open>src/tun/tun_linux.go\<close> and \<open>src/tun/rwcancel\<close>: the two goroutines that watch the device, \<open>Close\<close>, \<open>Read\<close> and
      \<open>Write\<close>, and the error paths of creation.  C15 is the invariant of every interleaving; also the listener that
      waits for ever once the event channel is full.  \<open>Tun_Ioctl\<close>: the requests that carry a name, and the MTU that is read back.
    \<^item> \<open>Tun_Windows\<close>: \<open>src/tun/tun_windows.go\<close>: the rate estimate, reading and writing one packet, and \<open>Close\<close> against the calls in
      progress as a step relation.  C36: nobody uses a session that has ended and \<open>Close\<close> never waits for a packet; C35: the
      race in which its \<open>WaitGroup\<close> panics.
    \<^item> \<open>Tun_Darwin\<close>: \<open>src/tun/tun_darwin.go\<close>: creation with its error paths (no descriptor leaks), the goroutine on the routing socket,
      \<open>Read\<close> and \<open>Write\<close>.  C23: the events it reports; C4: a frame of the server on its way to the device of each system.
    \<^item> \<open>Json\<close>, \<open>Client\<close>: the command line client (\<open>src/cmd\<close>) and its messages as JSON objects, decoded by the agent with
      the field names of its structures (\<open>src/base/config.go\<close>, \<open>src/auth/auth.go\<close>).  C12: every message decodes to the types the agent
      expects; C20: what \<open>connect\<close> asks for; C26: a setting that a flag has turned off stays off.
    \<^item> \<open>Loader\<close>, \<open>Pe_Format\<close>, \<open>Pe_Tables\<close>, \<open>Memmod\<close>: the loader that maps the wintun library from memory (\<open>src/wintun/memmod\<close>), over a memory of bytes and
      a record of Windows calls whose answers are arbitrary: headers and their offsets, sections, relocation,
      imports, exports, protection, TLS callbacks, the hook and \<open>Free\<close>.  \<open>Memmod_Resources\<close> (C10): every region and library taken is given
      back; its locale \<open>resource_view\<close> holds the operations that take nothing, interpreted for the accounts of regions and libraries.
      \<open>Memmod_Reloc\<close> (C22): what base relocation does to memory; \<open>Memmod_Address\<close> (C11, C21): exports and sections.
    \<^item> \<open>Wintun\<close>: \<open>src/wintun\<close>: loading the library and finding its functions on demand (once, also from several goroutines), and the
      calls of adapters and sessions.
    \<^item> \<open>Service\<close>: the main program of the agent (\<open>src/vpnagent.go\<close>) and its life as a service (\<open>src/svc/service.go\<close>).

  \<^bold>\<open>Conventions.\<close>  Integers that can wrap are words of their width; Go's \<open>int\<close> is \<open>int\<close> or \<open>nat\<close> where its
  values are bounded by buffer sizes.  An error is a value; a run-time panic is a separate
  outcome (\<open>None\<close> or a constructor of the result) in every operation that can have one.  What the
  network, the device, the file system or the kernel answers is an argument of the operation.
  Shared state is explicit, and concurrency is interleaving of the code's atomic rounds.

  \<^bold>\<open>Bounds.\<close>  No definition runs on fuel; the twenty attempts of \<open>retryInterfaceByIndex\<close> are the code's.  Loops over data are structural or have a termination
  measure; loops that depend on the outside (deletion of routes, draining of the routing socket,
  retried writes) are \<open>partial_function (option)\<close>, and the theorems about them state that they return
  under named conditions.  The limit of 64 KiB in C1 is that of the encoder's 16-bit hash chains.

  \<^bold>\<open>Parameters.\<close>  Third-party code is an argument with its documented behaviour as hypothesis: the
  LZ4 block functions (\<open>lz4_contract\<close>), the DNS parser, netlink, \<open>winipcfg\<close>, \<open>xml.Unmarshal\<close> and \<open>json.Unmarshal\<close>, the IPv6 parser
  and printer.  Each has a concrete instance in the witnesses.

  \<^bold>\<open>Not modelled.\<close>
    \<^item> What Windows, the wintun library and the kernel do: the answers of their calls are arguments.  Loaded code is not run; a call
      of an entry point is an event of the loader.  \<open>logMessage\<close> and \<open>setupLogger\<close>, which nothing calls, and finalizers.
    \<^item> The registration of commands and their help texts (\<open>src/cmd/root.go\<close>), \<open>src/sslcon.go\<close>, which only calls it, and the transport of
      the JSON-RPC messages.
    \<^item> \<open>RemoveBetween\<close> and \<open>passwordRegex\<close> (regular expressions used to redact debug output), JSON output of
      \<open>SyncMap\<close>.
    \<^item> The contents of log messages, and wall-clock time: a timer may fire at any moment.
\<close>

end
